(* ===== verification/Prelude.thy ===== *)
theory Prelude
  imports Main "HOL-Library.Char_ord" "HOL-Library.List_Lexorder" "HOL-Library.Word"
begin

text \<open>
  Shared vocabulary of the development: the integer limits of the C code, character
  classes, decimal text, NUL-free C strings as \<open>string\<close>, newline and tab separated
  records, and the automation that the component theories share.

  Conventions. A C string is the list of its bytes before the terminating NUL. A pointer
  to a structure is the structure itself; a pointer that the code allows to be NULL and
  gives a meaning to is an option. A function that returns 0 or -1 and fills an output
  parameter is a function into an option, or into a sum whose left part is the diagnostic
  text. Signed 64-bit clock values are integers, with the saturating additions of the code
  written out; unsigned 64-bit values are natural numbers with the overflow guards of the
  code written out.
\<close>

named_theorems c_arith \<open>limits of machine integers\<close>
named_theorems c_text \<open>facts on decimal text and record syntax\<close>

section \<open>Machine limits\<close>

definition INT_MAX :: int where "INT_MAX = 2 ^ 31 - 1"
definition INT64_MAX :: int where "INT64_MAX = 2 ^ 63 - 1"
definition UINT64_MAX :: nat where "UINT64_MAX = 2 ^ 64 - 1"

lemma INT_MAX_value [c_arith]: "INT_MAX = 2147483647"
  by (simp add: INT_MAX_def)

lemma INT64_MAX_value [c_arith]: "INT64_MAX = 9223372036854775807"
  by (simp add: INT64_MAX_def)

lemma UINT64_MAX_value [c_arith]: "UINT64_MAX = 18446744073709551615"
  by (simp add: UINT64_MAX_def)

text \<open>Reduction of a natural number to the range of \<open>uint32_t\<close>.\<close>

definition u32 :: "nat \<Rightarrow> nat" where "u32 n = n mod 2 ^ 32"

lemma u32_id [simp]: "n < 4294967296 \<Longrightarrow> u32 n = n"
  by (simp add: u32_def)

section \<open>Characters\<close>

abbreviation byte :: "char \<Rightarrow> nat" where "byte c \<equiv> of_char c"

abbreviation nl :: char where "nl \<equiv> CHR 0x0A"
abbreviation tab :: char where "tab \<equiv> CHR 0x09"

definition is_digit :: "char \<Rightarrow> bool" where
  "is_digit c \<longleftrightarrow> CHR ''0'' \<le> c \<and> c \<le> CHR ''9''"

definition is_lower :: "char \<Rightarrow> bool" where
  "is_lower c \<longleftrightarrow> CHR ''a'' \<le> c \<and> c \<le> CHR ''z''"

definition is_upper :: "char \<Rightarrow> bool" where
  "is_upper c \<longleftrightarrow> CHR ''A'' \<le> c \<and> c \<le> CHR ''Z''"

definition is_alnum :: "char \<Rightarrow> bool" where
  "is_alnum c \<longleftrightarrow> is_lower c \<or> is_upper c \<or> is_digit c"

definition is_lower_hex :: "char \<Rightarrow> bool" where
  "is_lower_hex c \<longleftrightarrow> is_digit c \<or> CHR ''a'' \<le> c \<and> c \<le> CHR ''f''"

definition is_space :: "char \<Rightarrow> bool" where
  "is_space c \<longleftrightarrow> c = CHR '' '' \<or> (9 \<le> byte c \<and> byte c \<le> 13)"

lemmas char_class_defs =
  is_digit_def is_lower_def is_upper_def is_alnum_def is_lower_hex_def less_eq_char_def less_char_def

lemma is_digit_byte: "is_digit c \<longleftrightarrow> 48 \<le> byte c \<and> byte c \<le> 57"
  by (simp add: is_digit_def less_eq_char_def)

lemma byte_less_256 [simp]: "byte c < 256"
proof -
  have "byte c = byte c mod 256"
    using of_char_of [of "byte c"] by simp
  then show ?thesis by (metis mod_less_divisor zero_less_numeral)
qed

lemma byte_eq_iff: "byte c = byte d \<longleftrightarrow> c = d"
  by (metis char_of_char)

lemma byte_char_of [simp]: "n < 256 \<Longrightarrow> byte (char_of n) = n"
  by simp

section \<open>Decimal text\<close>

text \<open>What \<open>%llu\<close> and \<open>%u\<close> print.\<close>

fun dec :: "nat \<Rightarrow> string" where
  "dec n = (if n < 10 then [char_of (48 + n)] else dec (n div 10) @ [char_of (48 + n mod 10)])"

declare dec.simps [simp del]

text \<open>The value of a string of digits, and the strings that \<open>dec\<close> produces.\<close>

definition num_value :: "string \<Rightarrow> nat" where
  "num_value s = foldl (\<lambda>a c. 10 * a + (byte c - 48)) 0 s"

definition canonical_number :: "string \<Rightarrow> bool" where
  "canonical_number s \<longleftrightarrow> s \<noteq> [] \<and> list_all is_digit s \<and> (hd s = CHR ''0'' \<longrightarrow> length s = 1)"

lemma num_value_Nil [simp]: "num_value [] = 0"
  by (simp add: num_value_def)

lemma num_value_snoc [simp]: "num_value (s @ [c]) = 10 * num_value s + (byte c - 48)"
  by (simp add: num_value_def)

lemma num_value_single [simp]: "num_value [c] = byte c - 48"
  by (simp add: num_value_def)

lemma digit_char_is_digit [simp]: "(n::nat) < 10 \<Longrightarrow> is_digit (char_of (48 + n))"
  by (simp add: is_digit_byte)

lemma dec_not_Nil [simp]: "dec n \<noteq> []"
  by (subst dec.simps) simp

lemma dec_digits [c_text]: "list_all is_digit (dec n)"
proof (induction n rule: dec.induct)
  case (1 n)
  then show ?case by (subst dec.simps) (auto simp: digit_char_is_digit)
qed

lemma num_value_dec [simp]: "num_value (dec n) = n"
proof (induction n rule: dec.induct)
  case (1 n)
  show ?case
  proof (cases "n < 10")
    case True
    then show ?thesis by (subst dec.simps) simp
  next
    case False
    with 1 have "num_value (dec (n div 10)) = n div 10" by simp
    moreover have "byte (char_of (48 + n mod 10)) - 48 = n mod 10" by simp
    ultimately show ?thesis using False by (subst dec.simps) simp
  qed
qed

lemma dec_inject [simp]: "dec m = dec n \<longleftrightarrow> m = n"
  by (metis num_value_dec)

lemma hd_dec_zero: "hd (dec n) = CHR ''0'' \<longleftrightarrow> n = 0"
proof (induction n rule: dec.induct)
  case (1 n)
  show ?case
  proof (cases "n < 10")
    case True
    have "char_of (48 + n) = CHR ''0'' \<longleftrightarrow> n = 0"
      using True byte_eq_iff [of "char_of (48 + n)" "CHR ''0''"] by simp
    with True show ?thesis by (subst dec.simps) simp
  next
    case False
    with 1 show ?thesis by (subst dec.simps) simp
  qed
qed

lemma canonical_dec [c_text]: "canonical_number (dec n)"
proof -
  have "length (dec 0) = 1" by (simp add: dec.simps)
  then show ?thesis by (auto simp: canonical_number_def dec_digits hd_dec_zero)
qed

lemma length_dec: "n < 10 ^ k \<Longrightarrow> 0 < k \<Longrightarrow> length (dec n) \<le> k"
proof (induction k arbitrary: n)
  case 0
  then show ?case by simp
next
  case (Suc k)
  show ?case
  proof (cases "n < 10")
    case True
    then show ?thesis by (subst dec.simps) simp
  next
    case False
    with Suc.prems have "0 < k" by (cases k) auto
    moreover from Suc.prems have "n div 10 < 10 ^ k"
      by (simp add: less_mult_imp_div_less mult.commute)
    ultimately have "length (dec (n div 10)) \<le> k" by (rule Suc.IH [rotated])
    with False show ?thesis by (subst dec.simps) simp
  qed
qed

lemma char_of_digit: "is_digit c \<Longrightarrow> char_of (48 + (byte c - 48)) = c"
  by (simp add: is_digit_byte)

lemma canonical_positive:
  assumes "list_all is_digit s" and "s \<noteq> []" and "hd s \<noteq> CHR ''0''"
  shows "0 < num_value s"
  using assms
proof (induction s rule: rev_induct)
  case Nil
  then show ?case by simp
next
  case (snoc c s)
  show ?case
  proof (cases "s = []")
    case True
    with snoc.prems have "is_digit c" "c \<noteq> CHR ''0''" by auto
    then have "byte c \<noteq> 48" using byte_eq_iff [of c "CHR ''0''"] by simp
    with \<open>is_digit c\<close> True show ?thesis by (simp add: is_digit_byte)
  next
    case False
    with snoc show ?thesis by simp
  qed
qed

lemma dec_num_value:
  assumes "canonical_number s"
  shows "dec (num_value s) = s"
  using assms
proof (induction s rule: rev_induct)
  case Nil
  then show ?case by (simp add: canonical_number_def)
next
  case (snoc c s)
  then have c: "is_digit c" by (simp add: canonical_number_def)
  then have small: "byte c - 48 < 10" by (auto simp: is_digit_byte)
  show ?case
  proof (cases "s = []")
    case True
    with c small show ?thesis by (simp add: dec.simps char_of_digit)
  next
    case False
    with snoc.prems have s: "canonical_number s" "hd s \<noteq> CHR ''0''"
      by (auto simp: canonical_number_def)
    with False have pos: "0 < num_value s"
      by (intro canonical_positive) (auto simp: canonical_number_def)
    have "dec (num_value (s @ [c])) = dec (num_value s) @ [char_of (48 + (byte c - 48))]"
      using pos small by (subst dec.simps) simp
    with snoc.IH [OF s(1)] c show ?thesis by (simp add: char_of_digit)
  qed
qed

lemma separators [simp]: "\<not> is_digit (CHR '' '')" "\<not> is_digit nl"
  by (simp_all add: is_digit_byte)

lemma take_digits:
  assumes "\<not> is_digit c"
  shows "takeWhile is_digit (dec n @ c # r) = dec n" and "dropWhile is_digit (dec n @ c # r) = c # r"
  using dec_digits [of n] assms by (auto simp: list_all_iff takeWhile_append2 dropWhile_append2)

text \<open>What \<open>%d\<close> and \<open>%lld\<close> print.\<close>

definition sdec :: "int \<Rightarrow> string" where
  "sdec n = (if n < 0 then CHR ''-'' # dec (nat (- n)) else dec (nat n))"

section \<open>Lines and fields\<close>

definition unlines :: "string list \<Rightarrow> string" where
  "unlines ls = concat (map (\<lambda>l. l @ [nl]) ls)"

lemma unlines_Nil [simp]: "unlines [] = []"
  by (simp add: unlines_def)

lemma unlines_Cons [simp]: "unlines (l # ls) = l @ nl # unlines ls"
  by (simp add: unlines_def)

lemma unlines_append [simp]: "unlines (ks @ ls) = unlines ks @ unlines ls"
  by (simp add: unlines_def)

fun split_on :: "char \<Rightarrow> string \<Rightarrow> string list" where
  "split_on c [] = [[]]"
| "split_on c (x # xs) =
     (if x = c then [] # split_on c xs
      else case split_on c xs of [] \<Rightarrow> [[x]] | f # fs \<Rightarrow> (x # f) # fs)"

fun join_with :: "char \<Rightarrow> string list \<Rightarrow> string" where
  "join_with c [] = []"
| "join_with c [f] = f"
| "join_with c (f # g # fs) = f @ c # join_with c (g # fs)"

lemma split_on_not_Nil [simp]: "split_on c s \<noteq> []"
  by (induction s) (auto split: list.splits)

lemma join_split_on [simp]: "join_with c (split_on c s) = s"
proof (induction s)
  case Nil
  then show ?case by simp
next
  case (Cons x xs)
  obtain f fs where "split_on c xs = f # fs" by (cases "split_on c xs") auto
  with Cons show ?case by (cases fs) auto
qed

lemma split_on_fields: "f \<in> set (split_on c s) \<Longrightarrow> c \<notin> set f"
proof (induction s arbitrary: f)
  case Nil
  then show ?case by simp
next
  case (Cons x xs)
  obtain g gs where "split_on c xs = g # gs" by (cases "split_on c xs") auto
  with Cons show ?case by (auto split: if_splits)
qed

lemma split_on_no_sep: "c \<notin> set s \<Longrightarrow> split_on c s = [s]"
  by (induction s) auto

lemma split_on_append: "c \<notin> set f \<Longrightarrow> split_on c (f @ c # s) = f # split_on c s"
  by (induction f) auto

lemma split_on_join:
  "fs \<noteq> [] \<Longrightarrow> \<forall>f \<in> set fs. c \<notin> set f \<Longrightarrow> split_on c (join_with c fs) = fs"
  by (induction c fs rule: join_with.induct) (auto simp: split_on_no_sep split_on_append)

lemma split_at:
  "x \<notin> set l \<Longrightarrow> takeWhile (\<lambda>c. c \<noteq> x) (l @ x # r) = l"
  "x \<notin> set l \<Longrightarrow> dropWhile (\<lambda>c. c \<noteq> x) (l @ x # r) = x # r"
  by (induction l) auto

lemma length_tl_dropWhile: "xs \<noteq> [] \<Longrightarrow> length (dropWhile P xs) - Suc 0 < length xs"
proof -
  assume "xs \<noteq> []"
  moreover have "length (dropWhile P xs) \<le> length xs" by (rule length_dropWhile_le)
  ultimately show ?thesis by (cases xs) auto
qed

section \<open>Text compared as the C library does\<close>

text \<open>\<open>strcmp\<close> orders by unsigned bytes: the lexicographic order on \<open>string\<close>.\<close>

definition strcmp :: "string \<Rightarrow> string \<Rightarrow> int" where
  "strcmp a b = (if a = b then 0 else if a < b then -1 else 1)"

lemma strcmp_zero [simp]: "strcmp a b = 0 \<longleftrightarrow> a = b"
  by (simp add: strcmp_def)

lemma strcmp_neg [simp]: "strcmp a b < 0 \<longleftrightarrow> a < b"
  by (simp add: strcmp_def)

lemma strcmp_pos [simp]: "0 < strcmp a b \<longleftrightarrow> b < a"
  by (auto simp: strcmp_def)

end
