(* ===== verification/PowerPolicy.thy ===== *)
theory PowerPolicy
  imports Prelude
begin

text \<open>
  The power policy of the desktop (\<open>src/C1ancher/src/core/power_policy.c\<close> and
  \<open>power_policy.h\<close>): a clocked state machine that decides when to lock the screen, to
  suspend and to power off. The state record is \<open>c1_power_policy\<close>; every exported operation
  of the file is a function on it. Times are milliseconds of \<open>int64_t\<close>, modelled as integers
  with the saturating addition \<open>deadline_after\<close> of the code.
\<close>

section \<open>State\<close>

datatype c1_power_state =
  C1_POWER_ACTIVE | C1_POWER_LOCKED | C1_POWER_SUSPEND_PREPARE | C1_POWER_RESUMING

datatype c1_power_action =
  C1_POWER_ACTION_NONE | C1_POWER_ACTION_ENTER_LOCK | C1_POWER_ACTION_SUSPEND
| C1_POWER_ACTION_SHUTDOWN

definition C1_POWER_IDLE_TIMEOUT_MS :: int where "C1_POWER_IDLE_TIMEOUT_MS = 5 * 60 * 1000"
definition C1_POWER_LOCK_TIMEOUT_MS :: int where "C1_POWER_LOCK_TIMEOUT_MS = 20 * 1000"
definition C1_POWER_EXTERNAL_OFFLINE_DELAY_MS :: int where
  "C1_POWER_EXTERNAL_OFFLINE_DELAY_MS = 20 * 1000"
definition C1_POWER_RETRY_DELAY_MS :: int where "C1_POWER_RETRY_DELAY_MS = 60 * 1000"

lemmas power_constants =
  C1_POWER_IDLE_TIMEOUT_MS_def C1_POWER_LOCK_TIMEOUT_MS_def
  C1_POWER_EXTERNAL_OFFLINE_DELAY_MS_def C1_POWER_RETRY_DELAY_MS_def

record c1_power_policy =
  pw_state :: c1_power_state
  last_activity_at :: int
  locked_at :: int
  external_power_offline_at :: int
  suspend_retry_at :: int
  shutdown_retry_at :: int
  idle_ms :: int
  suspend_ms :: int
  shutdown_ms :: int
  external_power_known :: bool
  external_power_online :: bool
  suspend_disabled :: bool
  suspend_on_lock :: bool
  suppress_wakeup_until_release :: bool

section \<open>Deadlines\<close>

definition deadline_after :: "int \<Rightarrow> int \<Rightarrow> int" where
  "deadline_after start delay = (if start > INT64_MAX - delay then INT64_MAX else start + delay)"

definition timeout_until :: "int \<Rightarrow> int \<Rightarrow> int" where
  "timeout_until deadline now =
     (if deadline \<le> now then 0
      else let remaining = deadline - now in if remaining > INT_MAX then INT_MAX else remaining)"

definition lock_deadline :: "c1_power_policy \<Rightarrow> int option" where
  "lock_deadline p =
     (if pw_state p \<noteq> C1_POWER_ACTIVE \<or> idle_ms p \<le> 0 \<or>
         \<not> external_power_known p \<or> external_power_online p
      then None
      else Some (deadline_after (last_activity_at p) (idle_ms p)))"

definition offline_deadline :: "c1_power_policy \<Rightarrow> int option" where
  "offline_deadline p =
     (if \<not> external_power_known p \<or> external_power_online p \<or> external_power_offline_at p < 0
      then None
      else Some (deadline_after (external_power_offline_at p) C1_POWER_EXTERNAL_OFFLINE_DELAY_MS))"

definition shutdown_deadline :: "c1_power_policy \<Rightarrow> int option" where
  "shutdown_deadline p =
     (if shutdown_ms p \<le> 0 \<or> pw_state p \<noteq> C1_POWER_LOCKED \<or> locked_at p < 0 then None
      else case offline_deadline p of
             None \<Rightarrow> None
           | Some power_deadline \<Rightarrow>
               let d1 = deadline_after (locked_at p) (shutdown_ms p);
                   d2 = (if power_deadline > d1 then power_deadline else d1)
               in Some (if shutdown_retry_at p > d2 then shutdown_retry_at p else d2))"

definition suspend_deadline :: "c1_power_policy \<Rightarrow> int option" where
  "suspend_deadline p =
     (if pw_state p \<noteq> C1_POWER_LOCKED \<or> suspend_disabled p \<or>
         (suspend_ms p \<le> 0 \<and> \<not> suspend_on_lock p) \<or> shutdown_ms p > 0 then None
      else case offline_deadline p of
             None \<Rightarrow> None
           | Some power_deadline \<Rightarrow>
               let d1 = deadline_after (locked_at p) (suspend_ms p);
                   d2 = (if power_deadline > d1 then power_deadline else d1)
               in Some (if suspend_retry_at p > d2 then suspend_retry_at p else d2))"

section \<open>Operations\<close>

definition c1_power_policy_init :: "int \<Rightarrow> c1_power_policy" where
  "c1_power_policy_init now =
     \<lparr> pw_state = C1_POWER_ACTIVE, last_activity_at = now, locked_at = -1,
       external_power_offline_at = -1, suspend_retry_at = -1, shutdown_retry_at = -1,
       idle_ms = C1_POWER_IDLE_TIMEOUT_MS, suspend_ms = C1_POWER_LOCK_TIMEOUT_MS,
       shutdown_ms = 0, external_power_known = False, external_power_online = False,
       suspend_disabled = False, suspend_on_lock = False,
       suppress_wakeup_until_release = False \<rparr>"

definition c1_power_policy_configure ::
  "c1_power_policy \<Rightarrow> int \<Rightarrow> int \<Rightarrow> int \<Rightarrow> c1_power_policy" where
  "c1_power_policy_configure p idle suspend shutdown =
     p\<lparr> idle_ms := (if idle > 0 then idle else 0),
        suspend_ms := (if suspend > 0 then suspend else 0),
        shutdown_ms := (if shutdown > 0 then shutdown else 0),
        suspend_on_lock := False \<rparr>"

definition c1_power_policy_note_activity :: "c1_power_policy \<Rightarrow> int \<Rightarrow> c1_power_policy" where
  "c1_power_policy_note_activity p now =
     (if pw_state p = C1_POWER_ACTIVE then p\<lparr> last_activity_at := now \<rparr> else p)"

definition c1_power_policy_set_external_power ::
  "c1_power_policy \<Rightarrow> bool \<Rightarrow> bool \<Rightarrow> int \<Rightarrow> c1_power_policy" where
  "c1_power_policy_set_external_power p known online now =
     (let offline = known \<and> \<not> online;
          p1 = (if offline \<and> (\<not> external_power_known p \<or> external_power_online p) then
                  let q = p\<lparr> external_power_offline_at := now, last_activity_at := now \<rparr>
                  in if pw_state p \<noteq> C1_POWER_ACTIVE then
                       let deadline = deadline_after now (idle_ms p);
                           q' = q\<lparr> locked_at := now \<rparr>
                       in if deadline > suspend_retry_at p
                          then q'\<lparr> suspend_retry_at := deadline \<rparr> else q'
                     else q
                else if \<not> offline then p\<lparr> external_power_offline_at := -1 \<rparr>
                else p)
      in p1\<lparr> external_power_known := known, external_power_online := online \<rparr>)"

definition c1_power_policy_lock :: "c1_power_policy \<Rightarrow> int \<Rightarrow> c1_power_policy \<times> bool" where
  "c1_power_policy_lock p now =
     (if pw_state p \<noteq> C1_POWER_ACTIVE then (p, False)
      else (p\<lparr> pw_state := C1_POWER_LOCKED, locked_at := now,
               suspend_retry_at := -1, shutdown_retry_at := -1 \<rparr>, True))"

definition c1_power_policy_unlock :: "c1_power_policy \<Rightarrow> int \<Rightarrow> c1_power_policy \<times> bool" where
  "c1_power_policy_unlock p now =
     (if pw_state p \<noteq> C1_POWER_LOCKED then (p, False)
      else (p\<lparr> pw_state := C1_POWER_ACTIVE, last_activity_at := now, locked_at := -1,
               suspend_retry_at := -1, shutdown_retry_at := -1,
               suppress_wakeup_until_release := False \<rparr>, True))"

definition c1_power_policy_shutdown_failed :: "c1_power_policy \<Rightarrow> int \<Rightarrow> c1_power_policy" where
  "c1_power_policy_shutdown_failed p now =
     p\<lparr> shutdown_retry_at := deadline_after now C1_POWER_RETRY_DELAY_MS \<rparr>"

text \<open>\<open>due d now\<close>: the deadline function returned true and \<open>now >= deadline\<close>.\<close>

definition due :: "int option \<Rightarrow> int \<Rightarrow> bool" where
  "due d now = (case d of None \<Rightarrow> False | Some t \<Rightarrow> now \<ge> t)"

definition c1_power_policy_tick ::
  "c1_power_policy \<Rightarrow> int \<Rightarrow> c1_power_policy \<times> c1_power_action" where
  "c1_power_policy_tick p now =
     (if due (shutdown_deadline p) now then
        (c1_power_policy_shutdown_failed p now, C1_POWER_ACTION_SHUTDOWN)
      else
        (case (if due (lock_deadline p) now then c1_power_policy_lock p now else (p, False)) of
           (q, True) \<Rightarrow> (q, C1_POWER_ACTION_ENTER_LOCK)
         | (q, False) \<Rightarrow>
             if due (suspend_deadline q) now then
               (q\<lparr> pw_state := C1_POWER_SUSPEND_PREPARE \<rparr>, C1_POWER_ACTION_SUSPEND)
             else (q, C1_POWER_ACTION_NONE)))"

definition c1_power_policy_suspend_failed :: "c1_power_policy \<Rightarrow> int \<Rightarrow> c1_power_policy" where
  "c1_power_policy_suspend_failed p now =
     (let q = p\<lparr> pw_state := C1_POWER_LOCKED \<rparr>;
          deadline = deadline_after now C1_POWER_RETRY_DELAY_MS
      in if deadline > suspend_retry_at q then q\<lparr> suspend_retry_at := deadline \<rparr> else q)"

definition c1_power_policy_suspend_cancelled :: "c1_power_policy \<Rightarrow> c1_power_policy" where
  "c1_power_policy_suspend_cancelled p =
     p\<lparr> pw_state := C1_POWER_LOCKED, suspend_retry_at := -1 \<rparr>"

definition c1_power_policy_suspend_unavailable :: "c1_power_policy \<Rightarrow> c1_power_policy" where
  "c1_power_policy_suspend_unavailable p =
     p\<lparr> pw_state := C1_POWER_LOCKED, suspend_retry_at := -1, suspend_disabled := True \<rparr>"

definition c1_power_policy_restore_failed :: "c1_power_policy \<Rightarrow> int \<Rightarrow> c1_power_policy" where
  "c1_power_policy_restore_failed p now =
     p\<lparr> pw_state := C1_POWER_LOCKED, locked_at := now, suspend_retry_at := -1,
        suspend_disabled := True, suppress_wakeup_until_release := True \<rparr>"

definition c1_power_policy_resumed :: "c1_power_policy \<Rightarrow> int \<Rightarrow> c1_power_policy" where
  "c1_power_policy_resumed p now =
     (let q = p\<lparr> pw_state := C1_POWER_LOCKED, locked_at := now \<rparr>;
          r = (if suspend_on_lock q then
                 let deadline = deadline_after now C1_POWER_LOCK_TIMEOUT_MS
                 in if deadline > suspend_retry_at q then q\<lparr> suspend_retry_at := deadline \<rparr> else q
               else q)
      in r\<lparr> suspend_disabled := False, suppress_wakeup_until_release := True \<rparr>)"

definition c1_power_policy_filter_wakeup ::
  "c1_power_policy \<Rightarrow> bool \<Rightarrow> c1_power_policy \<times> bool" where
  "c1_power_policy_filter_wakeup p pressed =
     (if \<not> suppress_wakeup_until_release p then (p, False)
      else if \<not> pressed then (p\<lparr> suppress_wakeup_until_release := False \<rparr>, True)
      else (p, True))"

text \<open>One \<open>if (deadline(...)) { candidate = ...; if (result < 0 || candidate < result) ... }\<close>.\<close>

definition merge_timeout :: "int \<Rightarrow> int option \<Rightarrow> int \<Rightarrow> int" where
  "merge_timeout result d now =
     (case d of None \<Rightarrow> result
      | Some deadline \<Rightarrow>
          let candidate = timeout_until deadline now
          in if result < 0 \<or> candidate < result then candidate else result)"

definition c1_power_policy_timeout :: "c1_power_policy \<Rightarrow> int \<Rightarrow> int" where
  "c1_power_policy_timeout p now =
     (let r0 = (case lock_deadline p of None \<Rightarrow> -1 | Some d \<Rightarrow> timeout_until d now);
          r1 = merge_timeout r0 (shutdown_deadline p) now
      in merge_timeout r1 (suspend_deadline p) now)"

section \<open>At most one deadline is armed\<close>

lemma lock_deadline_active: "lock_deadline p = Some d \<Longrightarrow> pw_state p = C1_POWER_ACTIVE"
  by (auto simp: lock_deadline_def split: if_splits)

lemma shutdown_deadline_locked:
  "shutdown_deadline p = Some d \<Longrightarrow> pw_state p = C1_POWER_LOCKED \<and> 0 < shutdown_ms p"
  by (auto simp: shutdown_deadline_def split: if_splits)

lemma suspend_deadline_locked:
  "suspend_deadline p = Some d \<Longrightarrow> pw_state p = C1_POWER_LOCKED \<and> shutdown_ms p \<le> 0"
  by (auto simp: suspend_deadline_def split: if_splits)

lemma deadlines_exclusive:
  obtains (lock) d where "lock_deadline p = Some d" "shutdown_deadline p = None" "suspend_deadline p = None"
    | (shutdown) d where "lock_deadline p = None" "shutdown_deadline p = Some d" "suspend_deadline p = None"
    | (suspend) d where "lock_deadline p = None" "shutdown_deadline p = None" "suspend_deadline p = Some d"
    | (none) "lock_deadline p = None" "shutdown_deadline p = None" "suspend_deadline p = None"
proof (cases "pw_state p = C1_POWER_LOCKED")
  case True
  then have "lock_deadline p = None" by (simp add: lock_deadline_def)
  then show ?thesis
    using that(2-4) shutdown_deadline_locked [of p] suspend_deadline_locked [of p]
    by (metis not_less option.exhaust)
next
  case False
  then have "shutdown_deadline p = None" "suspend_deadline p = None"
    by (simp_all add: shutdown_deadline_def suspend_deadline_def)
  then show ?thesis using that(1,4) by (cases "lock_deadline p") auto
qed

definition next_deadline :: "c1_power_policy \<Rightarrow> int option" where
  "next_deadline p =
     (case lock_deadline p of Some d \<Rightarrow> Some d
      | None \<Rightarrow> (case shutdown_deadline p of Some d \<Rightarrow> Some d | None \<Rightarrow> suspend_deadline p))"

lemma tick_eq:
  "c1_power_policy_tick p now =
     (if due (shutdown_deadline p) now then
        (c1_power_policy_shutdown_failed p now, C1_POWER_ACTION_SHUTDOWN)
      else if due (lock_deadline p) now then
        (fst (c1_power_policy_lock p now), C1_POWER_ACTION_ENTER_LOCK)
      else if due (suspend_deadline p) now then
        (p\<lparr> pw_state := C1_POWER_SUSPEND_PREPARE \<rparr>, C1_POWER_ACTION_SUSPEND)
      else (p, C1_POWER_ACTION_NONE))"
  by (auto simp: c1_power_policy_tick_def c1_power_policy_lock_def due_def
      dest: lock_deadline_active split: option.splits)

lemma tick_before:
  "case next_deadline p of None \<Rightarrow> True | Some d \<Rightarrow> t < d \<Longrightarrow>
   c1_power_policy_tick p t = (p, C1_POWER_ACTION_NONE)"
  by (cases p rule: deadlines_exclusive) (auto simp: tick_eq next_deadline_def due_def)

lemma tick_after:
  "next_deadline p = Some d \<Longrightarrow> d \<le> t \<Longrightarrow>
   snd (c1_power_policy_tick p t) \<noteq> C1_POWER_ACTION_NONE"
  by (auto simp: tick_eq next_deadline_def due_def split: option.splits)

lemma timeout_until_nonneg: "0 \<le> timeout_until d now"
  by (simp add: timeout_until_def Let_def INT_MAX_value)

lemma timeout_next_deadline:
  "c1_power_policy_timeout p now =
     (case next_deadline p of None \<Rightarrow> -1 | Some d \<Rightarrow> timeout_until d now)"
  by (cases p rule: deadlines_exclusive)
    (auto simp: c1_power_policy_timeout_def merge_timeout_def next_deadline_def Let_def)

lemma timeout_until_exact:
  "timeout_until d now = r \<Longrightarrow> (t < now + r \<longrightarrow> now \<le> t \<longrightarrow> t < d) \<and> (r < INT_MAX \<longrightarrow> d \<le> now + r)"
  by (auto simp: timeout_until_def Let_def split: if_splits)

section \<open>Runs of the policy\<close>

text \<open>
  A call is one of the exported operations, or the runtime's direct assignment to
  \<open>suspend_on_lock\<close> (\<open>ui_runtime.c\<close>). A history is a list of timed calls, newest first,
  from \<open>c1_power_policy_init\<close>; its times are the readings of a monotone clock.
\<close>

datatype power_call =
  Configure int int int | SetSuspendOnLock bool | NoteActivity | SetPower bool bool
| Lock | Unlock | Tick | ShutdownFailed | SuspendFailed | SuspendCancelled
| SuspendUnavailable | RestoreFailed | Resumed | FilterWakeup bool

fun power_step :: "c1_power_policy \<Rightarrow> int \<Rightarrow> power_call \<Rightarrow> c1_power_policy" where
  "power_step p now (Configure i s d) = c1_power_policy_configure p i s d"
| "power_step p now (SetSuspendOnLock b) = p\<lparr> suspend_on_lock := b \<rparr>"
| "power_step p now NoteActivity = c1_power_policy_note_activity p now"
| "power_step p now (SetPower k b) = c1_power_policy_set_external_power p k b now"
| "power_step p now Lock = fst (c1_power_policy_lock p now)"
| "power_step p now Unlock = fst (c1_power_policy_unlock p now)"
| "power_step p now Tick = fst (c1_power_policy_tick p now)"
| "power_step p now ShutdownFailed = c1_power_policy_shutdown_failed p now"
| "power_step p now SuspendFailed = c1_power_policy_suspend_failed p now"
| "power_step p now SuspendCancelled = c1_power_policy_suspend_cancelled p"
| "power_step p now SuspendUnavailable = c1_power_policy_suspend_unavailable p"
| "power_step p now RestoreFailed = c1_power_policy_restore_failed p now"
| "power_step p now Resumed = c1_power_policy_resumed p now"
| "power_step p now (FilterWakeup b) = fst (c1_power_policy_filter_wakeup p b)"

type_synonym power_history = "(int \<times> power_call) list"

fun power_run :: "c1_power_policy \<Rightarrow> power_history \<Rightarrow> c1_power_policy" where
  "power_run p [] = p"
| "power_run p ((t, c) # h) = power_step (power_run p h) t c"

fun last_time :: "int \<Rightarrow> power_history \<Rightarrow> int" where
  "last_time t0 [] = t0"
| "last_time t0 ((t, c) # h) = t"

fun timed :: "int \<Rightarrow> power_history \<Rightarrow> bool" where
  "timed t0 [] = (0 \<le> t0 \<and> t0 < INT64_MAX)"
| "timed t0 ((t, c) # h) = (last_time t0 h \<le> t \<and> t < INT64_MAX \<and> timed t0 h)"

lemma timed_nonneg: "timed t0 h \<Longrightarrow> 0 \<le> last_time t0 h \<and> last_time t0 h < INT64_MAX"
  by (induction t0 h rule: timed.induct) force+

lemma timed_start: "timed t0 h \<Longrightarrow> 0 \<le> t0 \<and> t0 < INT64_MAX"
  by (induction t0 h rule: timed.induct) auto

text \<open>
  What the external power samples of a history say: since when the device has been known
  to run on battery without an intervening sample that says otherwise.
\<close>

fun offline_since :: "power_history \<Rightarrow> int option" where
  "offline_since [] = None"
| "offline_since ((t, SetPower k b) # h) =
     (if k \<and> \<not> b then (case offline_since h of None \<Rightarrow> Some t | Some u \<Rightarrow> Some u) else None)"
| "offline_since ((t, c) # h) = offline_since h"

definition power_matches :: "c1_power_policy \<Rightarrow> int option \<Rightarrow> bool" where
  "power_matches p s \<longleftrightarrow>
     (external_power_known p \<and> \<not> external_power_online p \<longleftrightarrow> s \<noteq> None) \<and>
     external_power_offline_at p = (case s of None \<Rightarrow> -1 | Some u \<Rightarrow> u) \<and>
     (\<forall>u. s = Some u \<longrightarrow> 0 \<le> u)"

lemmas power_op_defs =
  c1_power_policy_configure_def c1_power_policy_note_activity_def c1_power_policy_lock_def
  c1_power_policy_unlock_def c1_power_policy_shutdown_failed_def
  c1_power_policy_suspend_failed_def c1_power_policy_suspend_cancelled_def
  c1_power_policy_suspend_unavailable_def c1_power_policy_restore_failed_def
  c1_power_policy_resumed_def c1_power_policy_filter_wakeup_def Let_def

lemma power_matches_run:
  "timed t0 h \<Longrightarrow> power_matches (power_run (c1_power_policy_init t0) h) (offline_since h)"
proof (induction h rule: offline_since.induct)
  case 1
  then show ?case by (simp add: power_matches_def c1_power_policy_init_def)
next
  case (2 t k b h)
  from 2 have "0 \<le> t" using timed_nonneg [of t0 h] by auto
  show ?case
  proof (cases "k \<and> \<not> b")
    case True
    with 2 have "power_matches (power_run (c1_power_policy_init t0) h) (offline_since h)" by simp
    with True \<open>0 \<le> t\<close> show ?thesis
      by (auto simp: power_matches_def c1_power_policy_set_external_power_def Let_def
          split: option.splits)
  next
    case False
    then show ?thesis
      by (auto simp: power_matches_def c1_power_policy_set_external_power_def Let_def)
  qed
qed (auto simp: power_matches_def power_op_defs tick_eq)

lemma deadline_after_le:
  "now < INT64_MAX \<Longrightarrow> deadline_after s d \<le> now \<longleftrightarrow> s + d \<le> now"
  by (auto simp: deadline_after_def)

lemma tick_shutdown_due:
  "snd (c1_power_policy_tick p t) = C1_POWER_ACTION_SHUTDOWN \<longleftrightarrow> due (shutdown_deadline p) t"
  by (simp add: tick_eq)

lemma shutdown_dueD:
  assumes "due (shutdown_deadline p) t" and "t < INT64_MAX"
  shows "pw_state p = C1_POWER_LOCKED \<and> 0 < shutdown_ms p \<and> 0 \<le> locked_at p \<and>
         external_power_known p \<and> \<not> external_power_online p \<and>
         locked_at p + shutdown_ms p \<le> t \<and>
         external_power_offline_at p + C1_POWER_EXTERNAL_OFFLINE_DELAY_MS \<le> t \<and>
         shutdown_retry_at p \<le> t"
  using assms
  by (auto simp: due_def shutdown_deadline_def offline_deadline_def Let_def deadline_after_le [symmetric]
      split: if_splits)

section \<open>Properties\<close>

text \<open>C13. The poll timeout is exact. A negative timeout is -1 and means that no clock reading
  makes the policy act. Otherwise ticks before the timeout has passed do nothing and leave the
  policy as it is, and, unless the timeout was clipped to \<open>INT_MAX\<close>, the tick at its end acts.\<close>

theorem timeout_exact:
  "if c1_power_policy_timeout p now < 0
   then c1_power_policy_timeout p now = -1 \<and>
        (\<forall>t. c1_power_policy_tick p t = (p, C1_POWER_ACTION_NONE))
   else (\<forall>t. now \<le> t \<and> t < now + c1_power_policy_timeout p now \<longrightarrow>
              c1_power_policy_tick p t = (p, C1_POWER_ACTION_NONE)) \<and>
        (c1_power_policy_timeout p now < INT_MAX \<longrightarrow>
              snd (c1_power_policy_tick p (now + c1_power_policy_timeout p now))
                \<noteq> C1_POWER_ACTION_NONE)"
proof (cases "next_deadline p")
  case None
  then show ?thesis by (simp add: timeout_next_deadline tick_before)
next
  case (Some d)
  have r: "c1_power_policy_timeout p now = timeout_until d now"
    using Some by (simp add: timeout_next_deadline)
  have "\<forall>t. now \<le> t \<and> t < now + timeout_until d now \<longrightarrow>
          c1_power_policy_tick p t = (p, C1_POWER_ACTION_NONE)"
    using Some timeout_until_exact [of d now] by (auto intro!: tick_before)
  moreover have "timeout_until d now < INT_MAX \<longrightarrow>
      snd (c1_power_policy_tick p (now + timeout_until d now)) \<noteq> C1_POWER_ACTION_NONE"
    using tick_after [OF Some, of "now + timeout_until d now"] timeout_until_exact [of d now]
    by blast
  ultimately show ?thesis using timeout_until_nonneg [of d now] by (simp add: r)
qed

definition demo_policy :: c1_power_policy where
  "demo_policy = c1_power_policy_set_external_power (c1_power_policy_init 1000) True False 5000"

lemma demo_policy_timeout: "c1_power_policy_timeout demo_policy 6000 = 299000"
  by (simp add: demo_policy_def c1_power_policy_timeout_def merge_timeout_def lock_deadline_def
      shutdown_deadline_def suspend_deadline_def c1_power_policy_set_external_power_def
      c1_power_policy_init_def power_constants deadline_after_def timeout_until_def c_arith)

theorem timeout_exact_witness:
  "c1_power_policy_timeout demo_policy 6000 = 299000 \<and>
   c1_power_policy_tick demo_policy 304999 = (demo_policy, C1_POWER_ACTION_NONE) \<and>
   snd (c1_power_policy_tick demo_policy 305000) \<noteq> C1_POWER_ACTION_NONE"
  using timeout_exact [of demo_policy 6000] demo_policy_timeout
  by (auto simp: c_arith)

text \<open>C14. Automatic power-off is safe. In a run with a monotone clock, a tick asks for power-off
  only when the power samples have said "on battery" without interruption for at least 20
  seconds, the screen is locked and has been for at least the configured \<open>shutdown_ms > 0\<close>.\<close>

theorem shutdown_only_on_battery:
  assumes "timed t0 ((t, Tick) # h)"
    and "p = power_run (c1_power_policy_init t0) h"
    and "snd (c1_power_policy_tick p t) = C1_POWER_ACTION_SHUTDOWN"
  shows "pw_state p = C1_POWER_LOCKED \<and> 0 < shutdown_ms p \<and> locked_at p + shutdown_ms p \<le> t \<and>
         (\<exists>u. offline_since h = Some u \<and> u + 20000 \<le> t)"
proof -
  have "power_matches p (offline_since h)"
    using assms(1,2) power_matches_run by auto
  moreover have "due (shutdown_deadline p) t"
    using assms(3) by (simp add: tick_shutdown_due)
  ultimately show ?thesis
    using shutdown_dueD [of p t] assms(1)
    by (auto simp: power_matches_def power_constants split: option.splits)
qed

definition shutdown_history :: power_history where
  "shutdown_history =
     [(13000, Lock), (12000, SetPower True False), (11000, Configure 180000 0 300000)]"

theorem shutdown_only_on_battery_witness:
  "\<exists>u. offline_since shutdown_history = Some u \<and> u + 20000 \<le> 313000"
  using shutdown_only_on_battery [of 10000 313000 shutdown_history
      "power_run (c1_power_policy_init 10000) shutdown_history"]
  by (simp add: shutdown_history_def c_arith tick_shutdown_due due_def shutdown_deadline_def
      offline_deadline_def deadline_after_def power_constants c1_power_policy_init_def
      c1_power_policy_set_external_power_def power_op_defs)

lemma retry_armed:
  assumes "pw_state p \<noteq> C1_POWER_ACTIVE" and "deadline_after u C1_POWER_RETRY_DELAY_MS \<le> shutdown_retry_at p"
    and "timed u h" and "\<forall>(t, c) \<in> set h. c \<noteq> Unlock"
  shows "pw_state (power_run p h) \<noteq> C1_POWER_ACTIVE \<and>
         deadline_after u C1_POWER_RETRY_DELAY_MS \<le> shutdown_retry_at (power_run p h) \<and> u \<le> last_time u h"
  using assms
proof (induction h)
  case Nil
  then show ?case by simp
next
  case (Cons tc h)
  obtain t c where tc: "tc = (t, c)" by (cases tc)
  let ?q = "power_run p h"
  from Cons tc have q: "pw_state ?q \<noteq> C1_POWER_ACTIVE"
      "deadline_after u C1_POWER_RETRY_DELAY_MS \<le> shutdown_retry_at ?q" "u \<le> t" "c \<noteq> Unlock"
    by auto
  moreover have "deadline_after u C1_POWER_RETRY_DELAY_MS \<le> deadline_after t C1_POWER_RETRY_DELAY_MS"
    using q(3) by (simp add: deadline_after_def)
  moreover have "lock_deadline ?q = None" using q(1) by (simp add: lock_deadline_def)
  ultimately have "pw_state (power_step ?q t c) \<noteq> C1_POWER_ACTIVE \<and>
      deadline_after u C1_POWER_RETRY_DELAY_MS \<le> shutdown_retry_at (power_step ?q t c)"
    by (cases c) (auto simp: power_op_defs tick_eq due_def c1_power_policy_set_external_power_def)
  with q(3) tc show ?case by simp
qed

text \<open>Power-off requests are rate limited. After a power-off request, whatever operations are
  called except unlocking, the next request comes at least 60 seconds later.\<close>

lemma shutdown_requests_spaced:
  assumes "snd (c1_power_policy_tick p u) = C1_POWER_ACTION_SHUTDOWN"
    and "timed u ((t, Tick) # h)" and "\<forall>(t', c) \<in> set h. c \<noteq> Unlock"
    and "snd (c1_power_policy_tick (power_run (fst (c1_power_policy_tick p u)) h) t)
           = C1_POWER_ACTION_SHUTDOWN"
  shows "u + 60000 \<le> t"
proof -
  let ?p1 = "fst (c1_power_policy_tick p u)"
  have t: "timed u h" "t < INT64_MAX" "u < INT64_MAX"
    using assms(2) timed_start [of u h] by auto
  have p1: "?p1 = c1_power_policy_shutdown_failed p u"
    using assms(1) by (auto simp: tick_eq split: if_splits)
  have "pw_state p \<noteq> C1_POWER_ACTIVE"
    using assms(1) t(3) shutdown_dueD by (fastforce simp: tick_shutdown_due)
  then have "deadline_after u C1_POWER_RETRY_DELAY_MS \<le> shutdown_retry_at (power_run ?p1 h)"
    using retry_armed [of ?p1 u h] t assms(3) p1 by (simp add: c1_power_policy_shutdown_failed_def)
  also have "\<dots> \<le> t"
    using assms(4) t shutdown_dueD by (simp add: tick_shutdown_due)
  finally show ?thesis using t by (simp add: deadline_after_le power_constants)
qed

definition armed_policy :: c1_power_policy where
  "armed_policy = power_run (c1_power_policy_init 10000) shutdown_history"

lemma armed_policy_eq:
  "armed_policy =
     \<lparr> pw_state = C1_POWER_LOCKED, last_activity_at = 12000, locked_at = 13000,
       external_power_offline_at = 12000, suspend_retry_at = -1, shutdown_retry_at = -1,
       idle_ms = 180000, suspend_ms = 0, shutdown_ms = 300000, external_power_known = True,
       external_power_online = False, suspend_disabled = False, suspend_on_lock = False,
       suppress_wakeup_until_release = False \<rparr>"
  by (simp add: armed_policy_def shutdown_history_def power_constants c1_power_policy_init_def
      c1_power_policy_set_external_power_def power_op_defs)

lemma shutdown_requests_spaced_witness:
  "snd (c1_power_policy_tick armed_policy 313000) = C1_POWER_ACTION_SHUTDOWN \<and>
   snd (c1_power_policy_tick
      (power_run (fst (c1_power_policy_tick armed_policy 313000)) [(320000, Tick)]) 373000)
     = C1_POWER_ACTION_SHUTDOWN \<and> (313000::int) + 60000 \<le> 373000"
  using shutdown_requests_spaced [of armed_policy 313000 373000 "[(320000, Tick)]"]
  by (simp add: armed_policy_eq tick_eq due_def shutdown_deadline_def offline_deadline_def
      lock_deadline_def suspend_deadline_def deadline_after_def power_constants c_arith
      c1_power_policy_shutdown_failed_def)

end
