(* ===== verification/PowerKey.thy ===== *)
theory PowerKey
  imports Prelude
begin

text \<open>
  The power key recogniser (\<open>src/C1ancher/src/core/power_key.h\<close>): it turns the press and
  release events of the physical key, and timer ticks while the key is held, into a short
  press or a shutdown request. The four inline functions of the header are functions on the
  record \<open>c1_power_key\<close>.
\<close>

definition C1_POWER_KEY_HOLD_MS :: int where "C1_POWER_KEY_HOLD_MS = 3000"

datatype c1_power_key_action = C1_POWER_KEY_NONE | C1_POWER_KEY_SHORT | C1_POWER_KEY_SHUTDOWN

record c1_power_key =
  key_down :: bool
  key_fired :: bool
  key_source :: nat
  key_code :: nat
  pressed_at :: int

definition c1_power_key_reset :: c1_power_key where
  "c1_power_key_reset =
     \<lparr> key_down = False, key_fired = False, key_source = 0, key_code = 0, pressed_at = 0 \<rparr>"

definition c1_power_key_tick :: "c1_power_key \<Rightarrow> int \<Rightarrow> c1_power_key \<times> c1_power_key_action" where
  "c1_power_key_tick key now =
     (if key_down key \<and> \<not> key_fired key \<and> now \<ge> pressed_at key \<and>
         now - pressed_at key \<ge> C1_POWER_KEY_HOLD_MS
      then (key\<lparr> key_fired := True \<rparr>, C1_POWER_KEY_SHUTDOWN)
      else (key, C1_POWER_KEY_NONE))"

definition c1_power_key_event ::
  "c1_power_key \<Rightarrow> nat \<Rightarrow> nat \<Rightarrow> int \<Rightarrow> int \<Rightarrow> c1_power_key \<times> c1_power_key_action" where
  "c1_power_key_event key source code value now =
     (if value = 1 \<and> \<not> key_down key then
        (key\<lparr> key_down := True, key_fired := False, key_source := source, key_code := code,
              pressed_at := now \<rparr>, C1_POWER_KEY_NONE)
      else if value = 0 \<and> key_down key \<and> key_source key = source \<and> key_code key = code then
        (c1_power_key_reset,
         if \<not> key_fired key \<and> now \<ge> pressed_at key \<and> now - pressed_at key < C1_POWER_KEY_HOLD_MS
         then C1_POWER_KEY_SHORT else C1_POWER_KEY_NONE)
      else (key, C1_POWER_KEY_NONE))"

definition c1_power_key_deadline :: "c1_power_key \<Rightarrow> int" where
  "c1_power_key_deadline key =
     (if key_down key \<and> \<not> key_fired key then pressed_at key + C1_POWER_KEY_HOLD_MS else -1)"

section \<open>Runs\<close>

text \<open>A history lists the timed inputs, newest first, from the reset state.\<close>

datatype key_input = KeyTick | KeyEvent nat nat int

fun key_step :: "c1_power_key \<Rightarrow> int \<Rightarrow> key_input \<Rightarrow> c1_power_key \<times> c1_power_key_action" where
  "key_step k t KeyTick = c1_power_key_tick k t"
| "key_step k t (KeyEvent s c v) = c1_power_key_event k s c v t"

fun key_run :: "(int \<times> key_input) list \<Rightarrow> c1_power_key" where
  "key_run [] = c1_power_key_reset"
| "key_run ((t, i) # h) = fst (key_step (key_run h) t i)"

text \<open>The requests that a history has made: its short presses and shutdown requests.\<close>

fun key_requests :: "(int \<times> key_input) list \<Rightarrow> nat" where
  "key_requests [] = 0"
| "key_requests ((t, i) # h) =
     key_requests h + (if snd (key_step (key_run h) t i) = C1_POWER_KEY_NONE then 0 else 1)"

fun key_presses :: "(int \<times> key_input) list \<Rightarrow> nat" where
  "key_presses [] = 0"
| "key_presses ((t, KeyEvent s c v) # h) = key_presses h + (if v = 1 then 1 else 0)"
| "key_presses ((t, KeyTick) # h) = key_presses h"

text \<open>While the key is down, its press is in the history and its release has not come since.\<close>

definition held_since :: "(int \<times> key_input) list \<Rightarrow> nat \<Rightarrow> nat \<Rightarrow> int \<Rightarrow> bool" where
  "held_since h s c t0 \<longleftrightarrow>
     (\<exists>h1 h2. h = h1 @ (t0, KeyEvent s c 1) # h2 \<and> (\<forall>t. (t, KeyEvent s c 0) \<notin> set h1))"

lemma held_since_Cons:
  "held_since h s c t0 \<Longrightarrow> i \<noteq> KeyEvent s c 0 \<Longrightarrow> held_since ((t, i) # h) s c t0"
  unfolding held_since_def by (metis append_Cons prod.inject set_ConsD)

lemma held_since_press: "held_since ((t, KeyEvent s c 1) # h) s c t"
  unfolding held_since_def by (rule exI [of _ "[]"]) simp

lemma key_run_held:
  "key_down (key_run h) \<Longrightarrow>
   held_since h (key_source (key_run h)) (key_code (key_run h)) (pressed_at (key_run h))"
proof (induction h)
  case Nil
  then show ?case by (simp add: c1_power_key_reset_def)
next
  case (Cons ti h)
  obtain t i where ti: "ti = (t, i)" by (cases ti)
  show ?case
  proof (cases i)
    case KeyTick
    with Cons ti show ?thesis
      by (auto simp: c1_power_key_tick_def intro: held_since_Cons)
  next
    case (KeyEvent s c v)
    with Cons ti show ?thesis
      by (auto simp: c1_power_key_event_def c1_power_key_reset_def held_since_press
          intro!: held_since_Cons split: if_splits)
  qed
qed

lemma key_requests_bound:
  "key_requests h + (if key_down (key_run h) \<and> \<not> key_fired (key_run h) then 1 else 0)
     \<le> key_presses h"
proof (induction h)
  case Nil
  then show ?case by (simp add: c1_power_key_reset_def)
next
  case (Cons ti h)
  obtain t i where ti: "ti = (t, i)" by (cases ti)
  show ?case
  proof (cases i)
    case KeyTick
    with Cons ti show ?thesis by (auto simp: c1_power_key_tick_def split: if_splits)
  next
    case (KeyEvent s c v)
    with Cons ti show ?thesis
      by (simp add: c1_power_key_event_def c1_power_key_reset_def split: if_splits)
  qed
qed

section \<open>Properties\<close>


definition press_history :: "(int \<times> key_input) list" where
  "press_history = [(2000, KeyEvent 1 116 2), (1000, KeyEvent 1 116 1)]"


end
