(* ===== verification/LauncherPolicy.thy ===== *)
theory LauncherPolicy
  imports Prelude
begin

text \<open>
  The launcher's restart policy (\<open>src/C1ancher/src/launcher/policy.c\<close>): given how the
  desktop process ended, restart it with a back-off, hand over to the updater, stop, or give
  up after a crash storm. \<open>c1_launcher_decide\<close> is the whole file; the launcher feeds the
  returned crash count into the next observation.
\<close>

definition C1_LAUNCHER_UPDATE_EXIT :: int where "C1_LAUNCHER_UPDATE_EXIT = 75"
definition C1_LAUNCHER_SHUTDOWN_EXIT :: int where "C1_LAUNCHER_SHUTDOWN_EXIT = 76"
definition C1_LAUNCHER_SHORT_RUNTIME_MS :: nat where "C1_LAUNCHER_SHORT_RUNTIME_MS = 30000"
definition C1_LAUNCHER_MAX_SHORT_CRASHES :: nat where "C1_LAUNCHER_MAX_SHORT_CRASHES = 5"

lemmas launcher_constants = C1_LAUNCHER_UPDATE_EXIT_def C1_LAUNCHER_SHUTDOWN_EXIT_def
  C1_LAUNCHER_SHORT_RUNTIME_MS_def C1_LAUNCHER_MAX_SHORT_CRASHES_def

record c1_launcher_observation =
  lo_stop_requested :: bool
  lo_exited :: bool
  lo_exit_code :: int
  lo_runtime_ms :: nat
  lo_short_crashes :: nat

datatype c1_launcher_action =
  C1_LAUNCHER_RESTART | C1_LAUNCHER_UPDATE | C1_LAUNCHER_STOP | C1_LAUNCHER_FATAL

record c1_launcher_decision =
  ld_action :: c1_launcher_action
  ld_short_crashes :: nat
  ld_backoff_seconds :: nat

definition c1_launcher_decide :: "c1_launcher_observation option \<Rightarrow> c1_launcher_decision" where
  "c1_launcher_decide observation =
     (case observation of
        None \<Rightarrow> \<lparr> ld_action = C1_LAUNCHER_FATAL, ld_short_crashes = 0, ld_backoff_seconds = 0 \<rparr>
      | Some ob \<Rightarrow>
          let crashes = lo_short_crashes ob in
          if lo_stop_requested ob then
            \<lparr> ld_action = C1_LAUNCHER_STOP, ld_short_crashes = crashes, ld_backoff_seconds = 0 \<rparr>
          else if lo_exited ob \<and> lo_exit_code ob = C1_LAUNCHER_SHUTDOWN_EXIT then
            \<lparr> ld_action = C1_LAUNCHER_STOP, ld_short_crashes = crashes, ld_backoff_seconds = 0 \<rparr>
          else if lo_exited ob \<and> lo_exit_code ob = C1_LAUNCHER_UPDATE_EXIT then
            \<lparr> ld_action = C1_LAUNCHER_UPDATE, ld_short_crashes = crashes, ld_backoff_seconds = 0 \<rparr>
          else
            let crashes =
              (if lo_runtime_ms ob \<ge> C1_LAUNCHER_SHORT_RUNTIME_MS then 0
               else if crashes < C1_LAUNCHER_MAX_SHORT_CRASHES then crashes + 1 else crashes)
            in if crashes \<ge> C1_LAUNCHER_MAX_SHORT_CRASHES then
                 \<lparr> ld_action = C1_LAUNCHER_FATAL, ld_short_crashes = crashes, ld_backoff_seconds = 0 \<rparr>
               else
                 \<lparr> ld_action = C1_LAUNCHER_RESTART, ld_short_crashes = crashes,
                   ld_backoff_seconds =
                     (if crashes \<noteq> 0 then
                        let b = 2 ^ (crashes - 1) in if b > 8 then 8 else b
                      else 0) \<rparr>)"

section \<open>A supervised sequence of runs\<close>

text \<open>
  The supervision loop of the launcher: each run of the desktop ends in some way (exit code
  and run time), the count of the previous decision is carried over. The loop continues while
  the decision is to restart.
\<close>

fun launcher_decisions :: "nat \<Rightarrow> (bool \<times> int \<times> nat) list \<Rightarrow> c1_launcher_decision list" where
  "launcher_decisions crashes [] = []"
| "launcher_decisions crashes ((ex, code, ms) # runs) =
     (let d = c1_launcher_decide (Some \<lparr> lo_stop_requested = False, lo_exited = ex,
                lo_exit_code = code, lo_runtime_ms = ms, lo_short_crashes = crashes \<rparr>)
      in d # (if ld_action d = C1_LAUNCHER_RESTART
              then launcher_decisions (ld_short_crashes d) runs else []))"

definition short_crash :: "bool \<times> int \<times> nat \<Rightarrow> bool" where
  "short_crash r \<longleftrightarrow> (case r of (ex, code, ms) \<Rightarrow>
     ms < C1_LAUNCHER_SHORT_RUNTIME_MS \<and>
     \<not> (ex \<and> (code = C1_LAUNCHER_SHUTDOWN_EXIT \<or> code = C1_LAUNCHER_UPDATE_EXIT)))"

lemma decide_short_crash:
  assumes "short_crash (ex, code, ms)" and "n < 5"
  shows "c1_launcher_decide (Some \<lparr> lo_stop_requested = False, lo_exited = ex,
           lo_exit_code = code, lo_runtime_ms = ms, lo_short_crashes = n \<rparr>) =
         (if n = 4 then \<lparr> ld_action = C1_LAUNCHER_FATAL, ld_short_crashes = 5, ld_backoff_seconds = 0 \<rparr>
          else \<lparr> ld_action = C1_LAUNCHER_RESTART, ld_short_crashes = Suc n, ld_backoff_seconds = 2 ^ n \<rparr>)"
proof -
  have "n \<in> {0, 1, 2, 3, 4}" using assms(2) by auto
  then show ?thesis using assms(1)
    by (auto simp: c1_launcher_decide_def short_crash_def Let_def launcher_constants)
qed

lemma launcher_storm:
  assumes "list_all short_crash runs" and "n < 5" and "5 - n \<le> length runs"
  shows "map ld_action (launcher_decisions n runs)
           = replicate (4 - n) C1_LAUNCHER_RESTART @ [C1_LAUNCHER_FATAL] \<and>
         map ld_backoff_seconds (launcher_decisions n runs) = map (\<lambda>i. 2 ^ i) [n..<4] @ [0]"
  using assms
proof (induction runs arbitrary: n)
  case Nil
  then show ?case by simp
next
  case (Cons r runs)
  obtain ex code ms where r: "r = (ex, code, ms)" by (cases r) auto
  show ?case
  proof (cases "n = 4")
    case True
    with Cons.prems r show ?thesis by (simp add: decide_short_crash)
  next
    case False
    with Cons.prems have n: "Suc n < 5" by simp
    then have "4 - n = Suc (4 - Suc n)" "[n..<4] = n # [Suc n..<4]"
      by (auto simp: upt_conv_Cons)
    with Cons n False r show ?thesis by (simp add: decide_short_crash)
  qed
qed

section \<open>Properties\<close>

text \<open>C17. A crash storm ends. However the desktop keeps crashing within 30 seconds of its start,
  the launcher restarts it exactly four times, with back-offs of 1, 2, 4 and 8 seconds, and
  gives up at the fifth crash; and no decision ever waits longer than 8 seconds.\<close>

theorem launcher_crash_storm:
  "(list_all short_crash runs \<and> 5 \<le> length runs \<longrightarrow>
      map ld_action (launcher_decisions 0 runs)
        = [C1_LAUNCHER_RESTART, C1_LAUNCHER_RESTART, C1_LAUNCHER_RESTART, C1_LAUNCHER_RESTART,
           C1_LAUNCHER_FATAL] \<and>
      map ld_backoff_seconds (launcher_decisions 0 runs) = [1, 2, 4, 8, 0]) \<and>
   ld_backoff_seconds (c1_launcher_decide ob) \<le> 8"
proof -
  have "ld_backoff_seconds (c1_launcher_decide ob) \<le> 8"
    by (simp add: c1_launcher_decide_def Let_def split: option.split)
  moreover have "[0..<4] = [0, 1, 2, 3::nat]" by (simp add: upt_rec)
  ultimately show ?thesis
    using launcher_storm [of runs 0] by (auto simp: numeral_eq_Suc)
qed

theorem launcher_crash_storm_witness:
  "map ld_backoff_seconds (launcher_decisions 0 (replicate 6 (True, 139, 1500))) = [1, 2, 4, 8, 0]"
  using launcher_crash_storm [of "replicate 6 (True, 139, 1500)" None]
  by (simp add: list_all_iff short_crash_def launcher_constants)

end
