(* ===== verification/SupervisePolicy.thy ===== *)
theory SupervisePolicy
  imports Prelude
begin

text \<open>
  The decision of the update supervisor about a freshly activated release
  (\<open>src/C1ancher/src/update/supervise_policy.c\<close>): wait, confirm, roll back, or report that
  the child ended or a stop was asked for. \<open>c1_update_pending_decide\<close> is the whole file.
\<close>

definition C1_UPDATE_READY_TIMEOUT_MS :: int where "C1_UPDATE_READY_TIMEOUT_MS = 60000"
definition C1_UPDATE_READY_STABLE_MS :: int where "C1_UPDATE_READY_STABLE_MS = 30000"

datatype c1_update_pending_action =
  C1_UPDATE_PENDING_WAIT | C1_UPDATE_PENDING_CONFIRM | C1_UPDATE_PENDING_ROLLBACK
| C1_UPDATE_PENDING_STOP | C1_UPDATE_PENDING_CHILD_EXIT

record c1_update_pending_observation =
  child_exited :: bool
  stop_requested :: bool
  started_ms :: int
  now_ms :: int
  ready_at_ms :: int

definition c1_update_pending_decide ::
  "c1_update_pending_observation option \<Rightarrow> c1_update_pending_action" where
  "c1_update_pending_decide observation =
     (case observation of
        None \<Rightarrow> C1_UPDATE_PENDING_ROLLBACK
      | Some ob \<Rightarrow>
          if child_exited ob then C1_UPDATE_PENDING_CHILD_EXIT
          else if stop_requested ob then C1_UPDATE_PENDING_STOP
          else if started_ms ob < 0 \<or> now_ms ob < started_ms ob then C1_UPDATE_PENDING_ROLLBACK
          else if ready_at_ms ob \<ge> 0 then
            (if ready_at_ms ob < started_ms ob \<or> now_ms ob < ready_at_ms ob \<or>
                ready_at_ms ob - started_ms ob \<ge> C1_UPDATE_READY_TIMEOUT_MS
             then C1_UPDATE_PENDING_ROLLBACK
             else if now_ms ob - ready_at_ms ob \<ge> C1_UPDATE_READY_STABLE_MS
             then C1_UPDATE_PENDING_CONFIRM
             else C1_UPDATE_PENDING_WAIT)
          else if now_ms ob - started_ms ob \<ge> C1_UPDATE_READY_TIMEOUT_MS
          then C1_UPDATE_PENDING_ROLLBACK
          else C1_UPDATE_PENDING_WAIT)"

lemmas pending_decide_defs =
  c1_update_pending_decide_def C1_UPDATE_READY_TIMEOUT_MS_def C1_UPDATE_READY_STABLE_MS_def

section \<open>Properties\<close>



end
