(* ===== verification/Codec.thy ===== *)
theory Codec
  imports Prelude
begin

text \<open>
  The contract between a reader and a writer of a text format, which several components of the
  program share: what the writer prints for a well-formed value is read back as that value,
  and, for the strict formats (\<open>codec\<close>), whatever the reader accepts is exactly what the writer
  prints. The second law makes the format canonical: one value, one text.
\<close>

locale round_trip =
  fixes parse :: "'b \<Rightarrow> 'a option"
    and print :: "'a \<Rightarrow> 'b"
    and wf :: "'a \<Rightarrow> bool"
  assumes parse_print: "wf x \<Longrightarrow> parse (print x) = Some x"
begin

lemma print_inject: "wf x \<Longrightarrow> wf y \<Longrightarrow> print x = print y \<longleftrightarrow> x = y"
  by (metis option.inject parse_print)

end

locale codec = round_trip +
  assumes parse_sound: "parse s = Some x \<Longrightarrow> wf x \<and> print x = s"
begin

lemma parse_iff: "parse s = Some x \<longleftrightarrow> wf x \<and> print x = s"
  using parse_print parse_sound by blast

lemma parse_inject: "parse s = Some x \<Longrightarrow> parse t = Some x \<Longrightarrow> s = t"
  using parse_sound by blast

lemma parse_None_iff: "parse s = None \<longleftrightarrow> (\<forall>x. wf x \<longrightarrow> print x \<noteq> s)"
  by (metis not_None_eq parse_print parse_sound)

end

end
