(* ===== verification/UpdateState.thy ===== *)
theory UpdateState
  imports Codec
begin

text \<open>
  The update state of the core updater: the record and its limits
  (\<open>src/C1ancher/src/update/update.h\<close>), the validators, the phase machine and the text format of
  the state file (\<open>src/C1ancher/src/update/state.c\<close>, the functions without file system access;
  loading and committing generations are in \<open>StateStore\<close>).
\<close>

definition C1_UPDATE_TOKEN_MAX :: nat where "C1_UPDATE_TOKEN_MAX = 64"

section \<open>Validators\<close>

definition token_punctuation :: "char \<Rightarrow> bool" where
  "token_punctuation c \<longleftrightarrow>
     c = CHR ''.'' \<or> c = CHR ''_'' \<or> c = CHR ''-'' \<or> c = CHR ''+''"

definition safe_token :: "string \<Rightarrow> bool" where
  "safe_token text \<longleftrightarrow>
     length text \<noteq> 0 \<and> length text \<le> C1_UPDATE_TOKEN_MAX \<and>
     list_all (\<lambda>i. (is_alnum (text ! i) \<or> token_punctuation (text ! i)) \<and>
                   (i = 0 \<or> i + 1 = length text \<longrightarrow> is_alnum (text ! i)))
       [0..<length text]"

definition valid_digest :: "string \<Rightarrow> bool" where
  "valid_digest digest \<longleftrightarrow> length digest = 64 \<and> list_all is_lower_hex digest"

fun parse_digits :: "nat \<Rightarrow> string \<Rightarrow> nat option" where
  "parse_digits result [] = Some result"
| "parse_digits result (c # cs) =
     (if c < CHR ''0'' \<or> c > CHR ''9'' then None
      else let digit = byte c - 48
           in if result > (UINT64_MAX - digit) div 10 then None
              else parse_digits (result * 10 + digit) cs)"

definition parse_u64 :: "string \<Rightarrow> bool \<Rightarrow> nat option" where
  "parse_u64 text nonzero =
     (if text = [] \<or> (hd text = CHR ''0'' \<and> tl text \<noteq> []) then None
      else case parse_digits 0 text of
             None \<Rightarrow> None
           | Some result \<Rightarrow> if nonzero \<and> result = 0 then None else Some result)"

section \<open>Phases\<close>

datatype c1_update_phase =
  C1_UPDATE_IDLE | C1_UPDATE_DOWNLOADING | C1_UPDATE_VERIFIED | C1_UPDATE_PREPARED
| C1_UPDATE_PENDING_BOOT | C1_UPDATE_CONFIRMED

text \<open>The integer value of the enumeration constant.\<close>

fun phase_index :: "c1_update_phase \<Rightarrow> nat" where
  "phase_index C1_UPDATE_IDLE = 0"
| "phase_index C1_UPDATE_DOWNLOADING = 1"
| "phase_index C1_UPDATE_VERIFIED = 2"
| "phase_index C1_UPDATE_PREPARED = 3"
| "phase_index C1_UPDATE_PENDING_BOOT = 4"
| "phase_index C1_UPDATE_CONFIRMED = 5"

fun c1_update_phase_name :: "c1_update_phase \<Rightarrow> string" where
  "c1_update_phase_name C1_UPDATE_IDLE = ''idle''"
| "c1_update_phase_name C1_UPDATE_DOWNLOADING = ''downloading''"
| "c1_update_phase_name C1_UPDATE_VERIFIED = ''verified''"
| "c1_update_phase_name C1_UPDATE_PREPARED = ''prepared''"
| "c1_update_phase_name C1_UPDATE_PENDING_BOOT = ''pending-boot''"
| "c1_update_phase_name C1_UPDATE_CONFIRMED = ''confirmed''"

definition all_phases :: "c1_update_phase list" where
  "all_phases = [C1_UPDATE_IDLE, C1_UPDATE_DOWNLOADING, C1_UPDATE_VERIFIED, C1_UPDATE_PREPARED,
                 C1_UPDATE_PENDING_BOOT, C1_UPDATE_CONFIRMED]"

definition c1_update_phase_parse :: "string \<Rightarrow> c1_update_phase option" where
  "c1_update_phase_parse text = find (\<lambda>candidate. text = c1_update_phase_name candidate) all_phases"

section \<open>The state and its transitions\<close>

record c1_update_state =
  generation :: nat
  phase :: c1_update_phase
  st_sequence :: nat
  st_security_epoch :: nat
  release :: string
  digest :: string

definition identity_valid ::
  "c1_update_state option \<Rightarrow> nat \<Rightarrow> nat \<Rightarrow> string \<Rightarrow> string \<Rightarrow> bool" where
  "identity_valid previous sequence security_epoch rel dig \<longleftrightarrow>
     (if sequence = 0 \<or> security_epoch = 0 \<or> \<not> safe_token rel \<or> \<not> valid_digest dig then False
      else case previous of
             None \<Rightarrow> True
           | Some p \<Rightarrow>
               if st_sequence p = 0 then True
               else if sequence < st_sequence p \<or> security_epoch < st_security_epoch p then False
               else if sequence = st_sequence p \<and> (dig \<noteq> digest p \<or> rel \<noteq> release p) then False
               else True)"

text \<open>The edges of the phase machine that a successful step may take.\<close>

definition phase_allowed :: "c1_update_phase \<Rightarrow> c1_update_phase \<Rightarrow> bool" where
  "phase_allowed current next_phase \<longleftrightarrow>
     phase_index next_phase = phase_index current + 1 \<or>
     (current = C1_UPDATE_PENDING_BOOT \<and> next_phase = C1_UPDATE_PREPARED) \<or>
     (current = C1_UPDATE_CONFIRMED \<and> next_phase = C1_UPDATE_DOWNLOADING)"

definition c1_update_transition ::
  "c1_update_state option \<Rightarrow> c1_update_phase \<Rightarrow> nat \<Rightarrow> nat \<Rightarrow> string \<Rightarrow> string \<Rightarrow> bool \<Rightarrow>
   string + c1_update_state" where
  "c1_update_transition previous next_phase sequence security_epoch rel dig failed =
     (let current = (case previous of None \<Rightarrow> C1_UPDATE_IDLE | Some p \<Rightarrow> phase p) in
      if (case previous of None \<Rightarrow> False | Some p \<Rightarrow> generation p = UINT64_MAX)
      then Inl ''invalid state transition request''
      else if failed then
        (case previous of
           None \<Rightarrow> Inl ''invalid failed state transition''
         | Some p \<Rightarrow>
             if current = C1_UPDATE_IDLE \<or> next_phase \<noteq> C1_UPDATE_IDLE
             then Inl ''invalid failed state transition''
             else Inr (p\<lparr> generation := generation p + 1, phase := C1_UPDATE_IDLE \<rparr>))
      else if \<not> phase_allowed current next_phase \<or>
              \<not> identity_valid previous sequence security_epoch rel dig
      then Inl ''state transition rejected''
      else Inr \<lparr> generation = (case previous of None \<Rightarrow> 1 | Some p \<Rightarrow> generation p + 1),
                 phase = next_phase, st_sequence = sequence, st_security_epoch = security_epoch,
                 release = rel, digest = dig \<rparr>)"

definition commit_phase_valid :: "c1_update_phase \<Rightarrow> c1_update_phase \<Rightarrow> bool" where
  "commit_phase_valid previous next \<longleftrightarrow>
     (previous \<noteq> C1_UPDATE_IDLE \<and> next = C1_UPDATE_IDLE) \<or>
     phase_index next = phase_index previous + 1 \<or>
     (previous = C1_UPDATE_PENDING_BOOT \<and> next = C1_UPDATE_PREPARED) \<or>
     (previous = C1_UPDATE_CONFIRMED \<and> next = C1_UPDATE_DOWNLOADING)"

text \<open>\<open>state_equal\<close> compares every field, so it is equality of the records.\<close>

definition state_equal :: "c1_update_state \<Rightarrow> c1_update_state \<Rightarrow> bool" where
  "state_equal left right \<longleftrightarrow>
     generation left = generation right \<and> phase left = phase right \<and>
     st_sequence left = st_sequence right \<and> st_security_epoch left = st_security_epoch right \<and>
     release left = release right \<and> digest left = digest right"

lemma state_equal_iff [simp]: "state_equal a b \<longleftrightarrow> a = b"
  by (auto simp: state_equal_def)

section \<open>The state file\<close>

text \<open>Bytes that the line scanner refuses inside a line.\<close>

definition bad_line_byte :: "char \<Rightarrow> bool" where
  "bad_line_byte c \<longleftrightarrow> (byte c < 0x20 \<and> c \<noteq> tab) \<or> byte c > 0x7e"

text \<open>The scanning loop: \<open>count\<close> lines have been stored; at most \<open>limit\<close> are taken.\<close>

function scan_lines :: "nat \<Rightarrow> nat \<Rightarrow> string \<Rightarrow> string list option" where
  "scan_lines limit count data =
     (if data = [] then Some []
      else let line = takeWhile (\<lambda>c. c \<noteq> nl) data;
               rest = dropWhile (\<lambda>c. c \<noteq> nl) data
           in if list_ex bad_line_byte line then None
              else if rest = [] \<or> line = [] \<or> count \<ge> limit then None
              else map_option (\<lambda>ls. line # ls) (scan_lines limit (count + 1) (tl rest)))"
  by pat_completeness auto
termination
proof (relation "measure (\<lambda>(limit, count, data). length data)", simp)
  fix limit count :: nat and data line rest :: string
  assume "data \<noteq> []" "rest = dropWhile (\<lambda>c. c \<noteq> nl) data" "\<not> (rest = [] \<or> line = [] \<or> limit \<le> count)"
  then have "rest \<noteq> []" "length rest \<le> length data"
    using length_dropWhile_le by auto
  then show "((limit, count + 1, tl rest), limit, count, data)
      \<in> measure (\<lambda>(limit, count, data). length data)"
    by (cases rest) auto
qed

declare scan_lines.simps [simp del]

text \<open>A field line: a tag letter, a tab, and a value without further tabs.\<close>

definition tagged_value :: "char \<Rightarrow> string \<Rightarrow> string option" where
  "tagged_value tag line =
     (if take 2 line = [tag, tab] \<and> tab \<notin> set (drop 2 line) then Some (drop 2 line) else None)"

definition parse_state_data :: "string \<Rightarrow> nat \<Rightarrow> c1_update_state option" where
  "parse_state_data data gen =
     (if data = [] \<or> last data \<noteq> nl then None
      else case scan_lines 6 0 data of
             Some [l0, l1, l2, l3, l4, l5] \<Rightarrow>
               if l0 \<noteq> ''C1CORE-STATE 1'' then None
               else (case (Option.bind (tagged_value (CHR ''P'') l1) c1_update_phase_parse,
                           Option.bind (tagged_value (CHR ''S'') l2) (\<lambda>v. parse_u64 v True),
                           Option.bind (tagged_value (CHR ''E'') l3) (\<lambda>v. parse_u64 v True),
                           tagged_value (CHR ''R'') l4, tagged_value (CHR ''D'') l5) of
                       (Some ph, Some sq, Some ep, Some rel, Some dig) \<Rightarrow>
                         if safe_token rel \<and> valid_digest dig
                         then Some \<lparr> generation = gen, phase = ph, st_sequence = sq,
                                     st_security_epoch = ep, release = rel, digest = dig \<rparr>
                         else None
                     | _ \<Rightarrow> None)
           | _ \<Rightarrow> None)"

text \<open>The text that \<open>c1_update_state_commit\<close> prints for the next state.\<close>

definition state_text :: "c1_update_state \<Rightarrow> string" where
  "state_text s =
     ''C1CORE-STATE 1'' @ [nl] @
     ''P'' @ [tab] @ c1_update_phase_name (phase s) @ [nl] @
     ''S'' @ [tab] @ dec (st_sequence s) @ [nl] @
     ''E'' @ [tab] @ dec (st_security_epoch s) @ [nl] @
     ''R'' @ [tab] @ release s @ [nl] @
     ''D'' @ [tab] @ digest s @ [nl]"

definition state_ok :: "c1_update_state \<Rightarrow> bool" where
  "state_ok s \<longleftrightarrow>
     0 < st_sequence s \<and> st_sequence s \<le> UINT64_MAX \<and>
     0 < st_security_epoch s \<and> st_security_epoch s \<le> UINT64_MAX \<and>
     safe_token (release s) \<and> valid_digest (digest s)"

section \<open>Numbers and phases are canonical\<close>

abbreviation num_from :: "nat \<Rightarrow> string \<Rightarrow> nat" where
  "num_from r cs \<equiv> foldl (\<lambda>a c. 10 * a + (byte c - 48)) r cs"

lemma num_from_ge: "r \<le> num_from r cs"
proof (induction cs arbitrary: r)
  case Nil
  then show ?case by simp
next
  case (Cons c cs)
  have "r \<le> 10 * r + (byte c - 48)" by simp
  also have "\<dots> \<le> num_from (10 * r + (byte c - 48)) cs" by (rule Cons.IH)
  finally show ?case by simp
qed

lemma digit_guard:
  assumes "d \<le> 9"
  shows "r > (UINT64_MAX - d) div 10 \<longleftrightarrow> UINT64_MAX < r * 10 + d"
proof -
  have "(UINT64_MAX - d) div 10 < r \<longleftrightarrow> UINT64_MAX - d < r * 10"
    by (rule div_less_iff_less_mult) simp
  with assms show ?thesis by (auto simp: UINT64_MAX_value)
qed

lemma parse_digits_iff:
  "r \<le> UINT64_MAX \<Longrightarrow>
   parse_digits r cs = Some v \<longleftrightarrow> list_all is_digit cs \<and> v = num_from r cs \<and> v \<le> UINT64_MAX"
proof (induction cs arbitrary: r)
  case Nil
  then show ?case by auto
next
  case (Cons c cs)
  let ?d = "byte c - 48"
  show ?case
  proof (cases "is_digit c")
    case False
    then show ?thesis by (auto simp: is_digit_def not_le)
  next
    case True
    then have d: "?d \<le> 9" and ge: "\<not> (c < CHR ''0'' \<or> c > CHR ''9'')"
      by (auto simp: is_digit_byte less_char_def)
    show ?thesis
    proof (cases "r * 10 + ?d \<le> UINT64_MAX")
      case True
      with Cons.IH [OF True] \<open>is_digit c\<close> ge d show ?thesis
        by (simp add: Let_def digit_guard mult.commute)
    next
      case False
      then have "UINT64_MAX < num_from (10 * r + ?d) cs"
        using num_from_ge [of "10 * r + ?d" cs] by simp
      with False \<open>is_digit c\<close> ge d show ?thesis
        by (auto simp: Let_def digit_guard)
    qed
  qed
qed

lemma parse_u64_canonical:
  "parse_u64 t nz = Some v \<longleftrightarrow>
     canonical_number t \<and> num_value t = v \<and> v \<le> UINT64_MAX \<and> (nz \<longrightarrow> v \<noteq> 0)"
proof (cases "t = [] \<or> (hd t = CHR ''0'' \<and> tl t \<noteq> [])")
  case True
  then show ?thesis by (cases t) (auto simp: parse_u64_def canonical_number_def)
next
  case False
  then have "canonical_number t \<longleftrightarrow> list_all is_digit t"
    by (cases t) (auto simp: canonical_number_def)
  moreover have "parse_digits 0 t = Some v \<longleftrightarrow>
      list_all is_digit t \<and> v = num_value t \<and> v \<le> UINT64_MAX" for v
    using parse_digits_iff [of 0 t v] by (simp add: num_value_def)
  ultimately show ?thesis using False
    by (auto simp: parse_u64_def split: option.split)
qed

interpretation u64: codec "\<lambda>text. parse_u64 text True" dec "\<lambda>n. 0 < n \<and> n \<le> UINT64_MAX"
  by unfold_locales (auto simp: parse_u64_canonical canonical_dec dec_num_value)

interpretation phases: codec c1_update_phase_parse c1_update_phase_name "\<lambda>_. True"
proof unfold_locales
  show "c1_update_phase_parse (c1_update_phase_name x) = Some x" for x
    by (cases x) (simp_all add: c1_update_phase_parse_def all_phases_def)
  show "True \<and> c1_update_phase_name x = s" if "c1_update_phase_parse s = Some x" for s x
    using that by (auto simp: c1_update_phase_parse_def find_Some_iff)
qed

section \<open>Lines and the state file\<close>

definition clean_line :: "string \<Rightarrow> bool" where
  "clean_line l \<longleftrightarrow> l \<noteq> [] \<and> \<not> list_ex bad_line_byte l"

lemma bad_nl: "bad_line_byte nl"
  by (simp add: bad_line_byte_def)

lemma clean_line_no_nl: "clean_line l \<Longrightarrow> nl \<notin> set l"
  using bad_nl by (auto simp: clean_line_def list_ex_iff)

lemma takeWhile_line: "nl \<notin> set l \<Longrightarrow> takeWhile (\<lambda>c. c \<noteq> nl) (l @ nl # r) = l"
  by (subst takeWhile_append2) auto

lemma dropWhile_line: "nl \<notin> set l \<Longrightarrow> dropWhile (\<lambda>c. c \<noteq> nl) (l @ nl # r) = nl # r"
  by (subst dropWhile_append2) auto

lemma scan_lines_sound:
  "scan_lines limit count data = Some ls \<Longrightarrow>
   data = unlines ls \<and> list_all clean_line ls \<and> (ls \<noteq> [] \<longrightarrow> count + length ls \<le> limit)"
proof (induction limit count data arbitrary: ls rule: scan_lines.induct)
  case (1 limit count data)
  define line where "line = takeWhile (\<lambda>c. c \<noteq> nl) data"
  define rest where "rest = dropWhile (\<lambda>c. c \<noteq> nl) data"
  show ?case
  proof (cases "data = []")
    case True
    with "1.prems" show ?thesis by (simp add: scan_lines.simps [of limit count "[]"])
  next
    case False
    with "1.prems" obtain ls' where ok: "\<not> list_ex bad_line_byte line" "rest \<noteq> []" "line \<noteq> []"
        "count < limit" and rec: "scan_lines limit (count + 1) (tl rest) = Some ls'"
        and ls: "ls = line # ls'"
      by (auto simp: scan_lines.simps [of limit count data] Let_def line_def rest_def
          not_le split: if_splits)
    have "hd rest = nl"
      using ok(2) hd_dropWhile [of "\<lambda>c. c \<noteq> nl" data] by (auto simp: rest_def)
    then have "nl # tl rest = rest" using ok(2) by (cases rest) auto
    then have "data = line @ nl # tl rest" by (simp add: line_def rest_def)
    with "1.IH" [OF False line_def rest_def ok(1) _ rec] ok ls show ?thesis
      by (auto simp: clean_line_def)
  qed
qed

lemma scan_lines_complete:
  "list_all clean_line ls \<Longrightarrow> count + length ls \<le> limit \<Longrightarrow>
   scan_lines limit count (unlines ls) = Some ls"
proof (induction ls arbitrary: count)
  case Nil
  then show ?case by (simp add: scan_lines.simps)
next
  case (Cons l ls)
  then have "clean_line l" by simp
  then have l: "nl \<notin> set l" "l \<noteq> []" "\<not> list_ex bad_line_byte l"
    using clean_line_no_nl by (auto simp: clean_line_def)
  from Cons have "scan_lines limit (Suc count) (unlines ls) = Some ls" by simp
  with Cons.prems l show ?case
    by (simp add: scan_lines.simps [of limit count "l @ nl # unlines ls"] Let_def
        takeWhile_line dropWhile_line)
qed

lemma tagged_value_iff:
  "tagged_value tag line = Some v \<longleftrightarrow> line = tag # tab # v \<and> tab \<notin> set v"
proof (cases line)
  case Nil
  then show ?thesis by (auto simp: tagged_value_def)
next
  case (Cons a l)
  then show ?thesis by (cases l) (auto simp: tagged_value_def)
qed

text \<open>What the validators accept contains no byte that the scanner refuses, and no tab.\<close>

definition plain_byte :: "char \<Rightarrow> bool" where
  "plain_byte c \<longleftrightarrow> 0x21 \<le> byte c \<and> byte c \<le> 0x7e"

lemma plain_not_bad: "plain_byte c \<Longrightarrow> \<not> bad_line_byte c"
  by (simp add: plain_byte_def bad_line_byte_def)

lemma plain_not_tab: "plain_byte c \<Longrightarrow> c \<noteq> tab"
  by (auto simp: plain_byte_def)

lemma plain_text_clean:
  assumes "list_all plain_byte v"
  shows "tab \<notin> set v \<and> \<not> list_ex bad_line_byte v"
  using assms plain_not_bad plain_not_tab by (fastforce simp: list_all_iff list_ex_iff)

lemma alnum_plain: "is_alnum c \<Longrightarrow> plain_byte c"
  by (auto simp: plain_byte_def char_class_defs)

lemma punctuation_plain: "token_punctuation c \<Longrightarrow> plain_byte c"
  by (auto simp: plain_byte_def token_punctuation_def)

lemma safe_token_nth: "safe_token t \<Longrightarrow> i < length t \<Longrightarrow> is_alnum (t ! i) \<or> token_punctuation (t ! i)"
  by (simp add: safe_token_def list_all_iff)

lemma safe_token_plain: "safe_token t \<Longrightarrow> list_all plain_byte t"
  using safe_token_nth alnum_plain punctuation_plain
  by (metis list_all_length)

lemma digest_plain: "valid_digest d \<Longrightarrow> list_all plain_byte d"
  by (auto simp: valid_digest_def list_all_iff plain_byte_def char_class_defs)

lemma dec_plain: "list_all plain_byte (dec n)"
  using dec_digits [of n] by (auto simp: list_all_iff plain_byte_def is_digit_byte)

lemma phase_name_plain: "list_all plain_byte (c1_update_phase_name ph)"
  by (cases ph) (simp_all add: plain_byte_def)

lemma tagged_clean_line: "list_all plain_byte (tag # v) \<Longrightarrow> clean_line (tag # tab # v)"
  using plain_text_clean [of "tag # v"] by (auto simp: clean_line_def bad_line_byte_def)

definition state_lines :: "c1_update_state \<Rightarrow> string list" where
  "state_lines s =
     [''C1CORE-STATE 1'', CHR ''P'' # tab # c1_update_phase_name (phase s),
      CHR ''S'' # tab # dec (st_sequence s), CHR ''E'' # tab # dec (st_security_epoch s),
      CHR ''R'' # tab # release s, CHR ''D'' # tab # digest s]"

lemma state_text_unlines: "state_text s = unlines (state_lines s)"
  by (simp add: state_text_def state_lines_def)

lemma state_lines_clean: "state_ok s \<Longrightarrow> list_all clean_line (state_lines s)"
  unfolding state_lines_def state_ok_def
  by (auto intro!: tagged_clean_line simp: dec_plain phase_name_plain safe_token_plain digest_plain)
    (auto simp: clean_line_def bad_line_byte_def plain_byte_def)

lemma state_text_last: "state_text s \<noteq> [] \<and> last (state_text s) = nl"
  by (simp add: state_text_def)

lemma parse_state_data_print:
  assumes "state_ok s"
  shows "parse_state_data (state_text s) (generation s) = Some s"
proof -
  have scan: "scan_lines 6 0 (state_text s) = Some (state_lines s)"
    unfolding state_text_unlines
    by (rule scan_lines_complete [OF state_lines_clean [OF assms]]) (simp add: state_lines_def)
  have tags: "tab \<notin> set (c1_update_phase_name (phase s))" "tab \<notin> set (dec (st_sequence s))"
      "tab \<notin> set (dec (st_security_epoch s))" "tab \<notin> set (release s)" "tab \<notin> set (digest s)"
    using assms plain_text_clean
    by (simp_all add: state_ok_def dec_plain phase_name_plain safe_token_plain digest_plain)
  have val: "tagged_value t (t # tab # v) = Some v" if "tab \<notin> set v" for t v
    using that by (simp add: tagged_value_iff)
  show ?thesis
    using assms state_text_last [of s]
    by (simp add: parse_state_data_def scan state_lines_def val tags phases.parse_print
        u64.parse_print state_ok_def)
qed

lemma parse_state_data_sound:
  assumes "parse_state_data data gen = Some s"
  shows "state_ok s \<and> generation s = gen \<and> state_text s = data"
proof -
  from assms obtain l1 l2 l3 l4 l5 where
    scan: "scan_lines 6 0 data = Some [''C1CORE-STATE 1'', l1, l2, l3, l4, l5]"
    and body: "(case (Option.bind (tagged_value (CHR ''P'') l1) c1_update_phase_parse,
                  Option.bind (tagged_value (CHR ''S'') l2) (\<lambda>v. parse_u64 v True),
                  Option.bind (tagged_value (CHR ''E'') l3) (\<lambda>v. parse_u64 v True),
                  tagged_value (CHR ''R'') l4, tagged_value (CHR ''D'') l5) of
              (Some ph, Some sq, Some ep, Some rel, Some dig) \<Rightarrow>
                if safe_token rel \<and> valid_digest dig
                then Some \<lparr> generation = gen, phase = ph, st_sequence = sq,
                            st_security_epoch = ep, release = rel, digest = dig \<rparr>
                else None
            | _ \<Rightarrow> None) = Some s"
    by (auto simp: parse_state_data_def split: if_splits option.splits list.splits)
  from body obtain ph sq ep rel dig where
    f: "Option.bind (tagged_value (CHR ''P'') l1) c1_update_phase_parse = Some ph"
       "Option.bind (tagged_value (CHR ''S'') l2) (\<lambda>v. parse_u64 v True) = Some sq"
       "Option.bind (tagged_value (CHR ''E'') l3) (\<lambda>v. parse_u64 v True) = Some ep"
       "tagged_value (CHR ''R'') l4 = Some rel" "tagged_value (CHR ''D'') l5 = Some dig"
       "safe_token rel" "valid_digest dig"
       "s = \<lparr> generation = gen, phase = ph, st_sequence = sq, st_security_epoch = ep,
              release = rel, digest = dig \<rparr>"
    by (auto split: option.splits if_splits)
  then have "state_lines s = [''C1CORE-STATE 1'', l1, l2, l3, l4, l5]"
    by (auto simp: state_lines_def bind_eq_Some_conv tagged_value_iff
        dest!: phases.parse_sound u64.parse_sound)
  moreover have "data = unlines [''C1CORE-STATE 1'', l1, l2, l3, l4, l5]"
    using scan_lines_sound [OF scan] by simp
  ultimately have "state_text s = data" by (simp add: state_text_unlines)
  moreover have "state_ok s"
    using f by (auto simp: state_ok_def bind_eq_Some_conv dest!: u64.parse_sound)
  ultimately show ?thesis using f by simp
qed

interpretation state_file: codec "\<lambda>(d, g). parse_state_data d g"
  "\<lambda>s. (state_text s, generation s)" state_ok
  by unfold_locales (auto simp: parse_state_data_print dest: parse_state_data_sound)

section \<open>Runs of the phase machine\<close>

record update_request =
  rq_phase :: c1_update_phase
  rq_sequence :: nat
  rq_security_epoch :: nat
  rq_release :: string
  rq_digest :: string
  rq_failed :: bool

definition request_transition :: "c1_update_state \<Rightarrow> update_request \<Rightarrow> string + c1_update_state" where
  "request_transition s r =
     c1_update_transition (Some s) (rq_phase r) (rq_sequence r) (rq_security_epoch r)
       (rq_release r) (rq_digest r) (rq_failed r)"

fun transitions :: "c1_update_state \<Rightarrow> update_request list \<Rightarrow> string + c1_update_state" where
  "transitions s [] = Inr s"
| "transitions s (r # rs) =
     (case request_transition s r of Inl e \<Rightarrow> Inl e | Inr s' \<Rightarrow> transitions s' rs)"

text \<open>One state may follow another: newer or equal identity, and the same one per sequence.\<close>

definition no_older :: "c1_update_state \<Rightarrow> c1_update_state \<Rightarrow> bool" where
  "no_older s t \<longleftrightarrow>
     st_sequence s \<le> st_sequence t \<and> st_security_epoch s \<le> st_security_epoch t \<and>
     (st_sequence t = st_sequence s \<longrightarrow> release t = release s \<and> digest t = digest s)"

lemma no_older_refl [simp]: "no_older s s"
  by (simp add: no_older_def)

lemma no_older_trans: "no_older s t \<Longrightarrow> no_older t u \<Longrightarrow> no_older s u"
  by (auto simp: no_older_def)

lemma transition_Inr:
  assumes "c1_update_transition (Some p) ph sq ep rel dig failed = Inr s"
  shows "generation s = Suc (generation p) \<and> generation p \<noteq> UINT64_MAX \<and>
         (if failed then phase p \<noteq> C1_UPDATE_IDLE \<and> ph = C1_UPDATE_IDLE \<and>
             s = p\<lparr> generation := Suc (generation p), phase := C1_UPDATE_IDLE \<rparr>
          else phase_allowed (phase p) ph \<and> identity_valid (Some p) sq ep rel dig \<and>
             s = \<lparr> generation = Suc (generation p), phase = ph, st_sequence = sq,
                   st_security_epoch = ep, release = rel, digest = dig \<rparr>)"
  using assms by (auto simp: c1_update_transition_def Let_def split: if_splits)

lemma transition_no_older:
  assumes "c1_update_transition (Some p) ph sq ep rel dig failed = Inr s" and "st_sequence p \<noteq> 0"
  shows "no_older p s \<and> st_sequence s \<noteq> 0 \<and> generation s = Suc (generation p)"
  using transition_Inr [OF assms(1)] assms(2)
  by (auto simp: no_older_def identity_valid_def split: if_splits)

section \<open>Properties\<close>

text \<open>The number parser is exact: it accepts precisely the canonical decimal text of the
  numbers that fit in 64 bits (and are not zero where zero is refused) and returns that number; so
  its overflow guard never rejects a number that fits and never lets one wrap around.\<close>

lemma parse_u64_exact:
  "parse_u64 t nonzero = Some v \<longleftrightarrow>
     t = dec v \<and> v \<le> UINT64_MAX \<and> (nonzero \<longrightarrow> v \<noteq> 0)"
  by (auto simp: parse_u64_canonical canonical_dec dec_num_value)

lemma parse_u64_exact_witness:
  "parse_u64 ''18446744073709551615'' True = Some 18446744073709551615"
proof -
  have "dec (num_value ''18446744073709551615'') = ''18446744073709551615''"
    by (rule dec_num_value) (simp add: canonical_number_def is_digit_byte)
  then have "dec 18446744073709551615 = ''18446744073709551615''" by (simp add: num_value_def)
  then show ?thesis
    using parse_u64_exact [of "''18446744073709551615''" True 18446744073709551615]
    by (simp add: c_arith)
qed

text \<open>C11. The state file is canonical: a file of generation \<open>g\<close> is accepted as the state \<open>s\<close>
  exactly when \<open>s\<close> is well formed, is of generation \<open>g\<close>, and the file is byte for byte what the
  commit would write for it.\<close>

theorem state_file_canonical:
  "parse_state_data data g = Some s \<longleftrightarrow> state_ok s \<and> generation s = g \<and> state_text s = data"
  using state_file.parse_iff [of "(data, g)" s] by auto

text \<open>C9. No rollback. However many transitions are accepted one after the other, the sequence and
  the security epoch never decrease, a sequence keeps its release and digest, and the generation
  grows by one with each transition.\<close>

theorem transitions_no_rollback:
  "st_sequence s \<noteq> 0 \<Longrightarrow> transitions s rs = Inr t \<Longrightarrow>
   no_older s t \<and> generation t = generation s + length rs"
proof (induction rs arbitrary: s)
  case Nil
  then show ?case by simp
next
  case (Cons r rs)
  then obtain s' where s': "request_transition s r = Inr s'" "transitions s' rs = Inr t"
    by (auto split: sum.splits)
  then have "no_older s s' \<and> st_sequence s' \<noteq> 0 \<and> generation s' = Suc (generation s)"
    using Cons.prems(1) transition_no_older by (simp add: request_transition_def)
  with Cons.IH [OF _ s'(2)] show ?case by (auto intro: no_older_trans)
qed

definition demo_digest :: string where "demo_digest = replicate 64 (CHR ''a'')"

lemma demo_digest_valid [simp]: "valid_digest demo_digest"
  by (simp add: demo_digest_def valid_digest_def is_lower_hex_def list_all_iff)

definition demo_state :: c1_update_state where
  "demo_state = \<lparr> generation = 4, phase = C1_UPDATE_PENDING_BOOT, st_sequence = 30,
     st_security_epoch = 2, release = ''2.9.12'', digest = demo_digest \<rparr>"

lemma demo_release_safe [simp]: "safe_token ''2.9.12''"
  by (simp add: safe_token_def C1_UPDATE_TOKEN_MAX_def is_alnum_def is_digit_def
      token_punctuation_def upt_rec)

lemma demo_state_ok [simp]: "state_ok demo_state"
  by (simp add: state_ok_def demo_state_def c_arith)

theorem transitions_no_rollback_witness:
  "\<exists>t. transitions demo_state
     [\<lparr> rq_phase = C1_UPDATE_CONFIRMED, rq_sequence = 30, rq_security_epoch = 2,
        rq_release = ''2.9.12'', rq_digest = demo_digest, rq_failed = False \<rparr>] = Inr t \<and>
   no_older demo_state t \<and> generation t = 5"
  using transitions_no_rollback [of demo_state
     "[\<lparr> rq_phase = C1_UPDATE_CONFIRMED, rq_sequence = 30, rq_security_epoch = 2,
        rq_release = ''2.9.12'', rq_digest = demo_digest, rq_failed = False \<rparr>]"]
  by (simp add: demo_state_def request_transition_def c1_update_transition_def phase_allowed_def
      identity_valid_def c_arith)

text \<open>Whatever \<open>c1_update_transition\<close> accepts from a well-formed state, the checks of
  \<open>c1_update_state_commit\<close> on the two states accept too: the new state is well formed, its
  generation is the successor, its phase edge and its identity are valid. And a release becomes
  confirmed only from the pending-boot phase.\<close>

lemma transition_committable:
  assumes "state_ok p" and "generation p \<le> UINT64_MAX"
    and "sq \<le> UINT64_MAX" and "ep \<le> UINT64_MAX"
    and "c1_update_transition (Some p) ph sq ep rel dig failed = Inr s"
  shows "state_ok s \<and> generation s = Suc (generation p) \<and> generation s \<le> UINT64_MAX \<and>
         commit_phase_valid (phase p) (phase s) \<and>
         identity_valid (Some p) (st_sequence s) (st_security_epoch s) (release s) (digest s) \<and>
         (phase s = C1_UPDATE_CONFIRMED \<longrightarrow> phase p = C1_UPDATE_PENDING_BOOT)"
proof (cases failed)
  case True
  with transition_Inr [OF assms(5)] assms(1,2) show ?thesis
    by (auto simp: state_ok_def commit_phase_valid_def identity_valid_def)
next
  case False
  have "phase_allowed (phase p) C1_UPDATE_CONFIRMED \<Longrightarrow> phase p = C1_UPDATE_PENDING_BOOT"
    by (cases "phase p") (simp_all add: phase_allowed_def)
  with False transition_Inr [OF assms(5)] assms show ?thesis
    by (auto simp: state_ok_def commit_phase_valid_def phase_allowed_def identity_valid_def
        split: if_splits)
qed

lemma transition_committable_witness:
  "\<exists>s. c1_update_transition (Some demo_state) C1_UPDATE_CONFIRMED 30 2 ''2.9.12'' demo_digest False
         = Inr s \<and> state_ok s \<and> commit_phase_valid C1_UPDATE_PENDING_BOOT (phase s)"
proof -
  obtain s where s: "c1_update_transition (Some demo_state) C1_UPDATE_CONFIRMED 30 2 ''2.9.12''
      demo_digest False = Inr s"
    by (simp add: demo_state_def c1_update_transition_def phase_allowed_def identity_valid_def c_arith)
  with transition_committable [OF _ _ _ _ s] show ?thesis
    by (simp add: c_arith demo_state_def) (simp add: demo_state_def [symmetric])
qed

end
