(* ===== verification/Manifest.thy ===== *)
theory Manifest
  imports UpdateState
begin

text \<open>
  The release manifest of the core updater (\<open>src/C1ancher/src/update/protocol.c\<close>, records of
  \<open>update.h\<close>): the capability version comparison and the strict line-oriented parser of the
  signed manifest.
\<close>

definition C1_UPDATE_MANIFEST_MAX :: nat where "C1_UPDATE_MANIFEST_MAX = 64 * 1024"
definition C1_UPDATE_LINE_MAX :: nat where "C1_UPDATE_LINE_MAX = 512"
definition C1_UPDATE_COMPONENT_MAX :: nat where "C1_UPDATE_COMPONENT_MAX = 32 * 1024 * 1024"
definition C1_UPDATE_PAYLOAD_MAX :: nat where "C1_UPDATE_PAYLOAD_MAX = 96 * 1024 * 1024"
definition C1_UPDATE_TARGET :: string where
  "C1_UPDATE_TARGET = ''mips32r2-little-o32-hard-float-double-static''"

lemmas manifest_constants = C1_UPDATE_MANIFEST_MAX_def C1_UPDATE_LINE_MAX_def
  C1_UPDATE_COMPONENT_MAX_def C1_UPDATE_PAYLOAD_MAX_def C1_UPDATE_TOKEN_MAX_def

record c1_update_component =
  role :: string
  comp_path :: string
  sha256 :: string
  comp_size :: nat
  comp_mode :: nat

record c1_update_manifest =
  mf_sequence :: nat
  mf_version :: string
  mf_security_epoch :: nat
  mf_target :: string
  min_bootstrap :: string
  min_updater :: string
  compatibility :: string
  source_revision :: string
  source_date_epoch :: nat
  components :: "c1_update_component list"

section \<open>Capability versions\<close>

fun version_number :: "nat \<Rightarrow> string \<Rightarrow> (nat \<times> string) option" where
  "version_number value [] = Some (value, [])"
| "version_number value (c # cs) =
     (if CHR ''0'' \<le> c \<and> c \<le> CHR ''9'' then
        if value > 1000000 then None else version_number (value * 10 + (byte c - 48)) cs
      else Some (value, c # cs))"

text \<open>One turn of the loop of \<open>version_parts\<close>: a number without leading zeros.\<close>

definition version_part :: "string \<Rightarrow> (nat \<times> string) option" where
  "version_part text =
     (if text = [] \<or> \<not> is_digit (hd text) then None
      else case version_number 0 text of
             None \<Rightarrow> None
           | Some (value, rest) \<Rightarrow>
               if length text - length rest > 1 \<and> hd text = CHR ''0'' then None
               else Some (value, rest))"

definition version_parts :: "string \<Rightarrow> (nat \<times> nat \<times> nat) option" where
  "version_parts text =
     (case version_part text of
        None \<Rightarrow> None
      | Some (a, rest) \<Rightarrow>
          if rest = [] \<or> hd rest \<noteq> CHR ''.'' then None
          else case version_part (tl rest) of
                 None \<Rightarrow> None
               | Some (b, rest) \<Rightarrow>
                   if rest = [] \<or> hd rest \<noteq> CHR ''.'' then None
                   else case version_part (tl rest) of
                          None \<Rightarrow> None
                        | Some (c, rest) \<Rightarrow> if rest \<noteq> [] then None else Some (a, b, c))"

definition version_satisfies :: "string \<Rightarrow> string \<Rightarrow> bool" where
  "version_satisfies local minimum =
     (case (version_parts local, version_parts minimum) of
        (Some (a0, a1, a2), Some (b0, b1, b2)) \<Rightarrow>
          if a0 \<noteq> b0 then a0 > b0
          else if a1 \<noteq> b1 then a1 > b1
          else if a2 \<noteq> b2 then a2 > b2
          else True
      | _ \<Rightarrow> False)"

definition c1_update_check_compatibility_versions ::
  "c1_update_manifest option \<Rightarrow> string \<Rightarrow> string \<Rightarrow> string + unit" where
  "c1_update_check_compatibility_versions manifest bootstrap updater =
     (if (case manifest of None \<Rightarrow> True
          | Some m \<Rightarrow> \<not> version_satisfies bootstrap (min_bootstrap m) \<or>
                      \<not> version_satisfies updater (min_updater m))
      then Inl ''release requires newer trusted bootstrap/updater; trusted maintenance required''
      else Inr ())"

section \<open>Fields\<close>

text \<open>\<open>protocol.c\<close> has its own static copies of three validators of \<open>state.c\<close>, statement for
  statement the same; they are the same functions here.\<close>

definition protocol_parse_u64 :: "string \<Rightarrow> bool \<Rightarrow> nat option" where
  "protocol_parse_u64 = parse_u64"

definition protocol_safe_token :: "string \<Rightarrow> bool" where
  "protocol_safe_token = safe_token"

definition valid_sha256 :: "string \<Rightarrow> bool" where
  "valid_sha256 = valid_digest"

lemmas protocol_validators = protocol_parse_u64_def protocol_safe_token_def valid_sha256_def

definition parse_tagged_token :: "string \<Rightarrow> char \<Rightarrow> string option" where
  "parse_tagged_token line tag =
     (if take 2 line \<noteq> [tag, tab] \<or> \<not> protocol_safe_token (drop 2 line) \<or> tab \<in> set (drop 2 line)
      then None else Some (drop 2 line))"

definition parse_tagged_u64 :: "string \<Rightarrow> char \<Rightarrow> nat option" where
  "parse_tagged_u64 line tag =
     (if take 2 line \<noteq> [tag, tab] \<or> tab \<in> set (drop 2 line) then None
      else protocol_parse_u64 (drop 2 line) True)"

definition split_fields :: "string \<Rightarrow> nat \<Rightarrow> string list option" where
  "split_fields line expected =
     (let fields = split_on tab line
      in if length fields = expected then Some fields else None)"

definition roles :: "string list" where
  "roles = [''c1ancher'', ''c1pkg'', ''launcher'', ''updater'']"

definition paths :: "string list" where
  "paths = [''artifacts/C1ancher'', ''artifacts/c1pkg'', ''artifacts/C1ancher-launcher'',
            ''artifacts/c1updater'']"

definition parse_component :: "string \<Rightarrow> nat \<Rightarrow> c1_update_component option" where
  "parse_component line index =
     (case split_fields line 6 of
        Some [f0, f1, f2, f3, f4, f5] \<Rightarrow>
          if f0 \<noteq> ''F'' \<or> f1 \<noteq> roles ! index \<or> f2 \<noteq> paths ! index \<or> \<not> valid_sha256 f3 then None
          else (case protocol_parse_u64 f4 True of
                  None \<Rightarrow> None
                | Some n \<Rightarrow>
                    if f5 \<noteq> ''700'' then None
                    else Some \<lparr> role = f1, comp_path = f2, sha256 = f3, comp_size = n, comp_mode = 448 \<rparr>)
      | _ \<Rightarrow> None)"

definition parse_line :: "nat \<Rightarrow> string \<Rightarrow> c1_update_manifest \<Rightarrow> c1_update_manifest option" where
  "parse_line line_number line m =
     (if line_number = 0 then (if line = ''C1CORE-MANIFEST 1'' then Some m else None)
      else if line_number = 1 then
        map_option (\<lambda>v. m\<lparr> mf_sequence := v \<rparr>) (parse_tagged_u64 line (CHR ''S''))
      else if line_number = 2 then
        map_option (\<lambda>v. m\<lparr> mf_version := v \<rparr>) (parse_tagged_token line (CHR ''V''))
      else if line_number = 3 then
        map_option (\<lambda>v. m\<lparr> mf_security_epoch := v \<rparr>) (parse_tagged_u64 line (CHR ''E''))
      else if line_number = 4 then
        (if take 2 line \<noteq> [CHR ''T'', tab] \<or> drop 2 line \<noteq> C1_UPDATE_TARGET then None
         else Some (m\<lparr> mf_target := drop 2 line \<rparr>))
      else if line_number = 5 then
        map_option (\<lambda>v. m\<lparr> min_bootstrap := v \<rparr>) (parse_tagged_token line (CHR ''B''))
      else if line_number = 6 then
        map_option (\<lambda>v. m\<lparr> min_updater := v \<rparr>) (parse_tagged_token line (CHR ''U''))
      else if line_number = 7 then
        map_option (\<lambda>v. m\<lparr> compatibility := v \<rparr>) (parse_tagged_token line (CHR ''C''))
      else if line_number = 8 then
        map_option (\<lambda>v. m\<lparr> source_revision := v \<rparr>) (parse_tagged_token line (CHR ''R''))
      else if line_number = 9 then
        map_option (\<lambda>v. m\<lparr> source_date_epoch := v \<rparr>) (parse_tagged_u64 line (CHR ''D''))
      else
        map_option (\<lambda>c. m\<lparr> components := (components m)[line_number - 10 := c] \<rparr>)
          (parse_component line (line_number - 10)))"

section \<open>The manifest\<close>

definition zero_component :: c1_update_component where
  "zero_component = \<lparr> role = [], comp_path = [], sha256 = [], comp_size = 0, comp_mode = 0 \<rparr>"

definition zero_manifest :: c1_update_manifest where
  "zero_manifest = \<lparr> mf_sequence = 0, mf_version = [], mf_security_epoch = 0, mf_target = [],
     min_bootstrap = [], min_updater = [], compatibility = [], source_revision = [],
     source_date_epoch = 0, components = replicate 4 zero_component \<rparr>"

text \<open>What the loop does with one complete line: parse it and account for its payload.\<close>

definition manifest_line ::
  "nat \<Rightarrow> nat \<Rightarrow> c1_update_manifest \<Rightarrow> string \<Rightarrow> string + nat \<times> c1_update_manifest" where
  "manifest_line line_number payload_size m line =
     (case parse_line line_number line m of
        None \<Rightarrow> Inl ''manifest field rejected''
      | Some m' \<Rightarrow>
          if line_number \<ge> 10 then
            (let component_size = comp_size (components m' ! (line_number - 10)) in
             if component_size > C1_UPDATE_COMPONENT_MAX \<or>
                payload_size > C1_UPDATE_PAYLOAD_MAX - component_size
             then Inl ''manifest payload size rejected''
             else Inr (payload_size + component_size, m'))
          else Inr (payload_size, m'))"

function manifest_loop ::
  "nat \<Rightarrow> nat \<Rightarrow> c1_update_manifest \<Rightarrow> string \<Rightarrow> string + c1_update_manifest" where
  "manifest_loop line_number payload_size m data =
     (if data = [] then
        (if line_number \<noteq> 14 then Inl ''manifest record count rejected'' else Inr m)
      else
        let line = takeWhile (\<lambda>c. c \<noteq> nl) data;
            rest = dropWhile (\<lambda>c. c \<noteq> nl) data in
        if list_ex bad_line_byte line then Inl ''manifest contains forbidden bytes''
        else if rest = [] \<or> length line = 0 \<or> length line > C1_UPDATE_LINE_MAX \<or> line_number \<ge> 14
        then Inl ''invalid manifest line structure''
        else case manifest_line line_number payload_size m line of
               Inl e \<Rightarrow> Inl e
             | Inr (payload_size', m') \<Rightarrow>
                 manifest_loop (line_number + 1) payload_size' m' (tl rest))"
  by pat_completeness auto
termination
proof (relation "measure (\<lambda>(n, p, m, data). length data)", simp)
  fix n p :: nat and m m' :: c1_update_manifest and data line rest :: string
    and p' :: nat and x :: "nat \<times> c1_update_manifest"
  assume "data \<noteq> []" "rest = dropWhile (\<lambda>c. c \<noteq> nl) data"
    "\<not> (rest = [] \<or> length line = 0 \<or> length line > C1_UPDATE_LINE_MAX \<or> n \<ge> 14)"
  then have "rest \<noteq> []" "length rest \<le> length data"
    using length_dropWhile_le by auto
  then show "((n + 1, p', m', tl rest), n, p, m, data) \<in> measure (\<lambda>(n, p, m, data). length data)"
    by (cases rest) auto
qed

declare manifest_loop.simps [simp del]

definition c1_update_parse_manifest :: "string \<Rightarrow> string + c1_update_manifest" where
  "c1_update_parse_manifest data =
     (if length data = 0 \<or> length data > C1_UPDATE_MANIFEST_MAX \<or> last data \<noteq> nl
      then Inl ''invalid manifest envelope''
      else manifest_loop 0 0 zero_manifest data)"

section \<open>Capability versions are exact\<close>

lemma version_number_spec:
  "version_number v cs =
     (let ds = takeWhile is_digit cs; r = num_from v ds
      in if ds \<noteq> [] \<and> r div 10 > 1000000 then None else Some (r, dropWhile is_digit cs))"
proof (induction cs arbitrary: v)
  case Nil
  then show ?case by simp
next
  case (Cons c cs)
  show ?case
  proof (cases "is_digit c")
    case False
    then have "\<not> (CHR ''0'' \<le> c \<and> c \<le> CHR ''9'')" by (simp only: is_digit_def) simp
    with False show ?thesis by (simp only: version_number.simps if_False takeWhile.simps
          dropWhile.simps Let_def) simp
  next
    case True
    then have d: "CHR ''0'' \<le> c \<and> c \<le> CHR ''9''" "byte c - 48 < 10"
      by (auto simp: is_digit_def less_eq_char_def)
    let ?v = "v * 10 + (byte c - 48)"
    have v: "?v div 10 = v" using d(2) by simp
    have comm: "10 * v + (byte c - 48) = ?v" by simp
    show ?thesis
    proof (cases "v > 1000000")
      case True
      have "v = ?v div 10" by (simp only: v)
      also have "\<dots> \<le> num_from ?v (takeWhile is_digit cs) div 10"
        by (intro div_le_mono num_from_ge)
      finally show ?thesis using True d \<open>is_digit c\<close> by (simp add: comm Let_def)
    next
      case False
      with d v \<open>is_digit c\<close> Cons.IH [of ?v] show ?thesis by (auto simp: comm Let_def)
    qed
  qed
qed

lemma takeWhile_dec_append:
  "rest = [] \<or> \<not> is_digit (hd rest) \<Longrightarrow>
   takeWhile is_digit (dec v @ rest) = dec v \<and> dropWhile is_digit (dec v @ rest) = rest"
  using dec_digits [of v] by (cases rest) (auto simp: list_all_iff)

lemma version_part_iff:
  "version_part t = Some (v, rest) \<longleftrightarrow>
     t = dec v @ rest \<and> (rest = [] \<or> \<not> is_digit (hd rest)) \<and> v \<le> 10000009"
proof -
  let ?ds = "takeWhile is_digit t" and ?rest = "dropWhile is_digit t"
  have split: "?ds @ ?rest = t" by (rule takeWhile_dropWhile_id)
  have len: "length t - length ?rest = length ?ds"
    by (metis split add_diff_cancel_right' length_append)
  have after: "?rest = [] \<or> \<not> is_digit (hd ?rest)"
    using hd_dropWhile [of is_digit t] by blast
  have digits: "list_all is_digit ?ds"
    by (auto simp: list_all_iff dest: set_takeWhileD)
  have bound: "num_value ?ds div 10 > 1000000 \<longleftrightarrow> num_value ?ds > 10000009" by auto
  show ?thesis
  proof
    assume a: "version_part t = Some (v, rest)"
    then have ne: "t \<noteq> []" "is_digit (hd t)" by (auto simp: version_part_def split: if_splits)
    then have "?ds \<noteq> []" "hd ?ds = hd t" by (cases t; simp)+
    with a ne len bound have "rest = ?rest" "v = num_value ?ds" "v \<le> 10000009"
        "canonical_number ?ds"
      using digits
      by (auto simp: version_part_def version_number_spec Let_def canonical_number_def
          num_value_def split: if_splits) (metis One_nat_def Suc_lessI length_greater_0_conv)+
    with split after show "t = dec v @ rest \<and> (rest = [] \<or> \<not> is_digit (hd rest)) \<and> v \<le> 10000009"
      by (simp add: dec_num_value)
  next
    assume a: "t = dec v @ rest \<and> (rest = [] \<or> \<not> is_digit (hd rest)) \<and> v \<le> 10000009"
    then have tw: "takeWhile is_digit t = dec v" "dropWhile is_digit t = rest"
      using takeWhile_dec_append by auto
    have "hd t = hd (dec v)" "is_digit (hd (dec v))" "t \<noteq> []"
      using a dec_digits [of v] by (auto simp: list_all_iff)
    moreover have "num_from 0 (dec v) = v" using num_value_dec [of v] by (simp add: num_value_def)
    moreover have "\<not> (length (dec v) > 1 \<and> hd (dec v) = CHR ''0'')"
      using canonical_dec [of v] by (auto simp: canonical_number_def)
    ultimately show "version_part t = Some (v, rest)"
      using a tw len by (auto simp: version_part_def version_number_spec Let_def)
  qed
qed

lemma version_parts_iff:
  "version_parts t = Some (a, b, c) \<longleftrightarrow>
     t = dec a @ CHR ''.'' # dec b @ CHR ''.'' # dec c \<and>
     a \<le> 10000009 \<and> b \<le> 10000009 \<and> c \<le> 10000009"
proof -
  have dot: "\<not> is_digit (CHR ''.'')" by (simp add: is_digit_def)
  have part: "version_part (dec v @ CHR ''.'' # r) = Some (v, CHR ''.'' # r)" if "v \<le> 10000009" for v r
    using that dot by (simp add: version_part_iff)
  have last: "version_part (dec v) = Some (v, [])" if "v \<le> 10000009" for v
    using that by (simp add: version_part_iff)
  have "t = dec a @ CHR ''.'' # dec b @ CHR ''.'' # dec c \<and>
      a \<le> 10000009 \<and> b \<le> 10000009 \<and> c \<le> 10000009" if "version_parts t = Some (a, b, c)"
  proof -
    from that obtain r1 r2 where
      r: "version_part t = Some (a, r1)" "r1 \<noteq> []" "hd r1 = CHR ''.''"
      "version_part (tl r1) = Some (b, r2)" "r2 \<noteq> []" "hd r2 = CHR ''.''"
      "version_part (tl r2) = Some (c, [])"
      by (auto simp: version_parts_def split: option.splits if_splits)
    moreover from r have "r1 = CHR ''.'' # tl r1" "r2 = CHR ''.'' # tl r2"
      by (metis list.collapse)+
    ultimately have "version_part t = Some (a, CHR ''.'' # tl r1)"
      "version_part (tl r1) = Some (b, CHR ''.'' # tl r2)" "version_part (tl r2) = Some (c, [])"
      by simp_all
    then show ?thesis by (simp add: version_part_iff)
  qed
  then show ?thesis by (auto simp: version_parts_def part last)
qed

section \<open>The printed manifest\<close>

definition component_line :: "c1_update_component \<Rightarrow> string" where
  "component_line c =
     join_with tab [''F'', role c, comp_path c, sha256 c, dec (comp_size c), ''700'']"

definition manifest_lines :: "c1_update_manifest \<Rightarrow> string list" where
  "manifest_lines m =
     [''C1CORE-MANIFEST 1'', CHR ''S'' # tab # dec (mf_sequence m), CHR ''V'' # tab # mf_version m,
      CHR ''E'' # tab # dec (mf_security_epoch m), CHR ''T'' # tab # mf_target m,
      CHR ''B'' # tab # min_bootstrap m, CHR ''U'' # tab # min_updater m,
      CHR ''C'' # tab # compatibility m, CHR ''R'' # tab # source_revision m,
      CHR ''D'' # tab # dec (source_date_epoch m)] @ map component_line (components m)"

definition manifest_text :: "c1_update_manifest \<Rightarrow> string" where
  "manifest_text m = unlines (manifest_lines m)"

definition component_ok :: "nat \<Rightarrow> c1_update_component \<Rightarrow> bool" where
  "component_ok i c \<longleftrightarrow>
     role c = roles ! i \<and> comp_path c = paths ! i \<and> valid_sha256 (sha256 c) \<and>
     0 < comp_size c \<and> comp_size c \<le> C1_UPDATE_COMPONENT_MAX \<and> comp_mode c = 448"

definition u64_ok :: "nat \<Rightarrow> bool" where
  "u64_ok n \<longleftrightarrow> 0 < n \<and> n \<le> UINT64_MAX"

definition manifest_ok :: "c1_update_manifest \<Rightarrow> bool" where
  "manifest_ok m \<longleftrightarrow>
     u64_ok (mf_sequence m) \<and> u64_ok (mf_security_epoch m) \<and> u64_ok (source_date_epoch m) \<and>
     mf_target m = C1_UPDATE_TARGET \<and>
     safe_token (mf_version m) \<and> safe_token (min_bootstrap m) \<and> safe_token (min_updater m) \<and>
     safe_token (compatibility m) \<and> safe_token (source_revision m) \<and>
     length (components m) = 4 \<and> (\<forall>i < 4. component_ok i (components m ! i)) \<and>
     sum_list (map comp_size (components m)) \<le> C1_UPDATE_PAYLOAD_MAX"

section \<open>Field parsers\<close>

lemma parse_tagged_token_iff:
  "parse_tagged_token line tag = Some v \<longleftrightarrow> line = tag # tab # v \<and> safe_token v"
proof -
  have "parse_tagged_token line tag = Some v \<longleftrightarrow> tagged_value tag line = Some v \<and> safe_token v"
    by (auto simp: parse_tagged_token_def tagged_value_def protocol_validators)
  then show ?thesis
    using plain_text_clean [OF safe_token_plain] by (auto simp: tagged_value_iff)
qed

lemma parse_tagged_u64_iff:
  "parse_tagged_u64 line tag = Some v \<longleftrightarrow> line = tag # tab # dec v \<and> u64_ok v"
proof -
  have "parse_tagged_u64 line tag = Some v \<longleftrightarrow>
      (\<exists>t. tagged_value tag line = Some t \<and> parse_u64 t True = Some v)"
    by (auto simp: parse_tagged_u64_def tagged_value_def protocol_validators)
  then show ?thesis
    using plain_text_clean [OF dec_plain]
    by (auto simp: tagged_value_iff u64_ok_def u64.parse_iff)
qed

lemma split_fields_6:
  "split_fields line 6 = Some [f0, f1, f2, f3, f4, f5] \<longleftrightarrow>
     line = join_with tab [f0, f1, f2, f3, f4, f5] \<and> (\<forall>f \<in> {f0, f1, f2, f3, f4, f5}. tab \<notin> set f)"
proof
  assume "split_fields line 6 = Some [f0, f1, f2, f3, f4, f5]"
  then have s: "split_on tab line = [f0, f1, f2, f3, f4, f5]"
    by (auto simp: split_fields_def Let_def split: if_splits)
  then show "line = join_with tab [f0, f1, f2, f3, f4, f5] \<and>
      (\<forall>f \<in> {f0, f1, f2, f3, f4, f5}. tab \<notin> set f)"
    using join_split_on [of tab line] split_on_fields [of _ tab line]
    by (simp only: list.set(1,2)) simp
next
  assume "line = join_with tab [f0, f1, f2, f3, f4, f5] \<and>
      (\<forall>f \<in> {f0, f1, f2, f3, f4, f5}. tab \<notin> set f)"
  then have "split_on tab line = [f0, f1, f2, f3, f4, f5]"
    using split_on_join [of "[f0, f1, f2, f3, f4, f5]" tab] by simp
  then show "split_fields line 6 = Some [f0, f1, f2, f3, f4, f5]"
    by (simp add: split_fields_def)
qed

lemma roles_paths_plain:
  "i < 4 \<Longrightarrow> list_all plain_byte (roles ! i) \<and> list_all plain_byte (paths ! i)"
  by (auto simp: roles_def paths_def plain_byte_def numeral_eq_Suc less_Suc_eq)

lemma parse_component_iff:
  assumes "i < 4"
  shows "parse_component line i = Some c \<longleftrightarrow>
     line = component_line c \<and> role c = roles ! i \<and> comp_path c = paths ! i \<and>
     valid_sha256 (sha256 c) \<and> u64_ok (comp_size c) \<and> comp_mode c = 448"
proof -
  have "parse_component line i = Some c \<longleftrightarrow>
    (\<exists>f3 f4. split_fields line 6 = Some [''F'', roles ! i, paths ! i, f3, f4, ''700''] \<and>
       valid_sha256 f3 \<and> (\<exists>n. parse_u64 f4 True = Some n \<and>
       c = \<lparr> role = roles ! i, comp_path = paths ! i, sha256 = f3, comp_size = n, comp_mode = 448 \<rparr>))"
    by (auto simp: parse_component_def protocol_validators split: option.splits list.splits if_splits)
  moreover have "tab \<notin> set f3" if "valid_sha256 f3" for f3
    using that plain_text_clean [OF digest_plain] by (simp add: protocol_validators)
  moreover have "tab \<notin> set (roles ! i)" "tab \<notin> set (paths ! i)" "tab \<notin> set (dec n)" for n
    using roles_paths_plain [OF assms] plain_text_clean dec_plain by blast+
  ultimately show ?thesis
    by (cases c) (auto simp: split_fields_6 component_line_def u64_ok_def u64.parse_iff)
qed


section \<open>The parser on lines\<close>

text \<open>The loop with the splitting into lines taken out.\<close>

fun manifest_fold ::
  "nat \<Rightarrow> nat \<Rightarrow> c1_update_manifest \<Rightarrow> string list \<Rightarrow> c1_update_manifest option" where
  "manifest_fold n p m [] = (if n = 14 then Some m else None)"
| "manifest_fold n p m (l # ls) =
     (if n \<ge> 14 \<or> length l > C1_UPDATE_LINE_MAX then None
      else case manifest_line n p m l of
             Inl e \<Rightarrow> None
           | Inr (p', m') \<Rightarrow> manifest_fold (n + 1) p' m' ls)"

lemma manifest_loop_sound:
  "manifest_loop n p m data = Inr m' \<Longrightarrow>
   \<exists>ls. data = unlines ls \<and> list_all clean_line ls \<and> manifest_fold n p m ls = Some m'"
proof (induction n p m data rule: manifest_loop.induct)
  case (1 n p m data)
  define line where "line = takeWhile (\<lambda>c. c \<noteq> nl) data"
  define rest where "rest = dropWhile (\<lambda>c. c \<noteq> nl) data"
  show ?case
  proof (cases "data = []")
    case True
    with "1.prems" show ?thesis
      by (intro exI [of _ "[]"]) (auto simp: manifest_loop.simps [of n p m "[]"] split: if_splits)
  next
    case False
    with "1.prems" obtain p1 m1 where ok: "\<not> list_ex bad_line_byte line"
        "\<not> (rest = [] \<or> length line = 0 \<or> length line > C1_UPDATE_LINE_MAX \<or> n \<ge> 14)"
        and step: "manifest_line n p m line = Inr (p1, m1)"
        and rec: "manifest_loop (n + 1) p1 m1 (tl rest) = Inr m'"
      by (auto simp: manifest_loop.simps [of n p m data] Let_def line_def rest_def
          split: if_splits sum.splits)
    from "1.IH" [OF False line_def rest_def ok step refl rec] obtain ls where
      ls: "tl rest = unlines ls" "list_all clean_line ls" "manifest_fold (n + 1) p1 m1 ls = Some m'"
      by blast
    have "hd rest = nl"
      using ok(2) hd_dropWhile [of "\<lambda>c. c \<noteq> nl" data] by (auto simp: rest_def)
    then have "nl # tl rest = rest" using ok(2) by (cases rest) auto
    then have "data = unlines (line # ls)" using ls(1) by (simp add: line_def rest_def)
    moreover have "clean_line line" using ok by (simp add: clean_line_def)
    ultimately show ?thesis using ls ok step by (intro exI [of _ "line # ls"]) simp
  qed
qed

lemma manifest_loop_complete:
  "list_all clean_line ls \<Longrightarrow> manifest_fold n p m ls = Some m' \<Longrightarrow>
   manifest_loop n p m (unlines ls) = Inr m'"
proof (induction ls arbitrary: n p m)
  case Nil
  then show ?case by (simp add: manifest_loop.simps split: if_splits)
next
  case (Cons l ls)
  then have "clean_line l" by simp
  then have l: "nl \<notin> set l" "l \<noteq> []" "\<not> list_ex bad_line_byte l"
    using clean_line_no_nl by (auto simp: clean_line_def)
  from Cons.prems obtain p1 m1 where "manifest_line n p m l = Inr (p1, m1)"
      "manifest_fold (n + 1) p1 m1 ls = Some m'" "n < 14" "length l \<le> C1_UPDATE_LINE_MAX"
    by (auto split: if_splits sum.splits)
  with Cons l show ?case
    by (simp add: manifest_loop.simps [of n p m "l @ nl # unlines ls"] Let_def
        takeWhile_line dropWhile_line)
qed

lemma manifest_fold_step:
  "n < 14 \<Longrightarrow> manifest_fold n p m ls = Some m' \<longleftrightarrow>
     (\<exists>l ls' p1 m1. ls = l # ls' \<and> length l \<le> C1_UPDATE_LINE_MAX \<and>
        manifest_line n p m l = Inr (p1, m1) \<and> manifest_fold (Suc n) p1 m1 ls' = Some m')"
  by (cases ls) (auto split: sum.splits)

lemma manifest_fold_end: "manifest_fold 14 p m ls = Some m' \<longleftrightarrow> ls = [] \<and> m' = m"
  by (cases ls) auto

declare manifest_fold.simps(2) [simp del]

lemma manifest_line_header:
  "n < 10 \<Longrightarrow> manifest_line n p m l = Inr (p1, m1) \<longleftrightarrow> p1 = p \<and> parse_line n l m = Some m1"
  by (auto simp: manifest_line_def split: option.split)

lemma parse_line_header:
  "parse_line 0 l m = Some m1 \<longleftrightarrow> l = ''C1CORE-MANIFEST 1'' \<and> m1 = m"
  "parse_line 1 l m = Some m1 \<longleftrightarrow>
     (\<exists>v. l = CHR ''S'' # tab # dec v \<and> u64_ok v \<and> m1 = m\<lparr> mf_sequence := v \<rparr>)"
  "parse_line 2 l m = Some m1 \<longleftrightarrow>
     (\<exists>v. l = CHR ''V'' # tab # v \<and> safe_token v \<and> m1 = m\<lparr> mf_version := v \<rparr>)"
  "parse_line 3 l m = Some m1 \<longleftrightarrow>
     (\<exists>v. l = CHR ''E'' # tab # dec v \<and> u64_ok v \<and> m1 = m\<lparr> mf_security_epoch := v \<rparr>)"
  "parse_line 4 l m = Some m1 \<longleftrightarrow>
     l = CHR ''T'' # tab # C1_UPDATE_TARGET \<and> m1 = m\<lparr> mf_target := C1_UPDATE_TARGET \<rparr>"
  "parse_line 5 l m = Some m1 \<longleftrightarrow>
     (\<exists>v. l = CHR ''B'' # tab # v \<and> safe_token v \<and> m1 = m\<lparr> min_bootstrap := v \<rparr>)"
  "parse_line 6 l m = Some m1 \<longleftrightarrow>
     (\<exists>v. l = CHR ''U'' # tab # v \<and> safe_token v \<and> m1 = m\<lparr> min_updater := v \<rparr>)"
  "parse_line 7 l m = Some m1 \<longleftrightarrow>
     (\<exists>v. l = CHR ''C'' # tab # v \<and> safe_token v \<and> m1 = m\<lparr> compatibility := v \<rparr>)"
  "parse_line 8 l m = Some m1 \<longleftrightarrow>
     (\<exists>v. l = CHR ''R'' # tab # v \<and> safe_token v \<and> m1 = m\<lparr> source_revision := v \<rparr>)"
  "parse_line 9 l m = Some m1 \<longleftrightarrow>
     (\<exists>v. l = CHR ''D'' # tab # dec v \<and> u64_ok v \<and> m1 = m\<lparr> source_date_epoch := v \<rparr>)"
proof -
  have "take 2 l = [CHR ''T'', tab] \<and> drop 2 l = C1_UPDATE_TARGET \<longleftrightarrow>
      l = CHR ''T'' # tab # C1_UPDATE_TARGET"
    by (metis append_Cons append_Nil append_take_drop_id drop_Suc_Cons drop0 numeral_2_eq_2
        take0 take_Suc_Cons)
  then show "parse_line 4 l m = Some m1 \<longleftrightarrow>
     l = CHR ''T'' # tab # C1_UPDATE_TARGET \<and> m1 = m\<lparr> mf_target := C1_UPDATE_TARGET \<rparr>"
    by (auto simp: parse_line_def)
qed (auto simp: parse_line_def parse_tagged_token_iff parse_tagged_u64_iff)

lemma manifest_line_component:
  assumes "i < 4" and "length (components m) = 4"
  shows "manifest_line (10 + i) p m l = Inr (p1, m1) \<longleftrightarrow>
     (\<exists>c. l = component_line c \<and> component_ok i c \<and> p + comp_size c \<le> C1_UPDATE_PAYLOAD_MAX \<and>
          p1 = p + comp_size c \<and> m1 = m\<lparr> components := (components m)[i := c] \<rparr>)"
proof -
  have limits: "C1_UPDATE_COMPONENT_MAX \<le> C1_UPDATE_PAYLOAD_MAX"
      "C1_UPDATE_COMPONENT_MAX \<le> UINT64_MAX"
    by (simp_all add: manifest_constants UINT64_MAX_value)
  have pl: "parse_line (10 + i) l m =
      map_option (\<lambda>c. m\<lparr> components := (components m)[i := c] \<rparr>) (parse_component l i)"
    by (simp add: parse_line_def)
  have "manifest_line (10 + i) p m l = Inr (p1, m1) \<longleftrightarrow>
      (\<exists>c. parse_component l i = Some c \<and> comp_size c \<le> C1_UPDATE_COMPONENT_MAX \<and>
         p \<le> C1_UPDATE_PAYLOAD_MAX - comp_size c \<and>
         p1 = p + comp_size c \<and> m1 = m\<lparr> components := (components m)[i := c] \<rparr>)"
    using assms by (cases "parse_component l i") (auto simp: manifest_line_def pl Let_def)
  also have "\<dots> \<longleftrightarrow> (\<exists>c. l = component_line c \<and> component_ok i c \<and>
      p + comp_size c \<le> C1_UPDATE_PAYLOAD_MAX \<and>
      p1 = p + comp_size c \<and> m1 = m\<lparr> components := (components m)[i := c] \<rparr>)"
    using limits unfolding parse_component_iff [OF assms(1)] component_ok_def u64_ok_def
    by (intro arg_cong [where f = Ex] ext) auto
  finally show ?thesis .
qed

lemma manifest_fold_component:
  assumes "i < 4" and "length (components m) = 4"
  shows "manifest_fold (10 + i) p m ls = Some m' \<longleftrightarrow>
    (\<exists>c ls'. ls = component_line c # ls' \<and> component_ok i c \<and>
       length (component_line c) \<le> C1_UPDATE_LINE_MAX \<and>
       p + comp_size c \<le> C1_UPDATE_PAYLOAD_MAX \<and>
       manifest_fold (11 + i) (p + comp_size c) (m\<lparr> components := (components m)[i := c] \<rparr>) ls'
         = Some m')"
  using assms by (simp add: manifest_fold_step manifest_line_component) blast

lemmas manifest_fold_component_lines =
  manifest_fold_component [of 0, simplified] manifest_fold_component [of "Suc 0", simplified]
  manifest_fold_component [of 2, simplified] manifest_fold_component [of 3, simplified]

lemma manifest_fold_components_sound:
  assumes "manifest_fold 10 0 m ls = Some m'" and "length (components m) = 4"
  shows "\<exists>c0 c1 c2 c3. ls = map component_line [c0, c1, c2, c3] \<and>
       component_ok 0 c0 \<and> component_ok 1 c1 \<and> component_ok 2 c2 \<and> component_ok 3 c3 \<and>
       comp_size c0 + comp_size c1 + comp_size c2 + comp_size c3 \<le> C1_UPDATE_PAYLOAD_MAX \<and>
       m' = m\<lparr> components := [c0, c1, c2, c3] \<rparr>"
proof -
  obtain d0 d1 d2 d3 where "components m = [d0, d1, d2, d3]"
    using assms(2) by (auto simp: length_Suc_conv numeral_eq_Suc)
  with assms(1) obtain c0 c1 c2 c3 where
    "ls = map component_line [c0, c1, c2, c3]"
    "component_ok 0 c0" "component_ok 1 c1" "component_ok 2 c2" "component_ok 3 c3"
    "comp_size c0 + comp_size c1 + comp_size c2 + comp_size c3 \<le> C1_UPDATE_PAYLOAD_MAX"
    "m' = m\<lparr> components := [c0, c1, c2, c3] \<rparr>"
    by (auto simp: manifest_fold_component_lines manifest_fold_end)
  then show ?thesis by blast
qed

lemma manifest_fold_header_sound:
  "manifest_fold 0 0 zero_manifest ls = Some m' \<Longrightarrow>
     \<exists>sq ver ep boot upd compat src date cs.
        ls = [''C1CORE-MANIFEST 1'', CHR ''S'' # tab # dec sq, CHR ''V'' # tab # ver,
          CHR ''E'' # tab # dec ep, CHR ''T'' # tab # C1_UPDATE_TARGET, CHR ''B'' # tab # boot,
          CHR ''U'' # tab # upd, CHR ''C'' # tab # compat, CHR ''R'' # tab # src,
          CHR ''D'' # tab # dec date] @ cs \<and>
        u64_ok sq \<and> u64_ok ep \<and> u64_ok date \<and> safe_token ver \<and> safe_token boot \<and>
        safe_token upd \<and> safe_token compat \<and> safe_token src \<and>
        manifest_fold 10 0 \<lparr> mf_sequence = sq, mf_version = ver, mf_security_epoch = ep,
          mf_target = C1_UPDATE_TARGET, min_bootstrap = boot, min_updater = upd,
          compatibility = compat, source_revision = src, source_date_epoch = date,
          components = replicate 4 zero_component \<rparr> cs = Some m'"
  by (auto simp: manifest_fold_step [of 0] manifest_fold_step [of "Suc 0"] manifest_fold_step [of 2]
      manifest_fold_step [of 3] manifest_fold_step [of 4] manifest_fold_step [of 5]
      manifest_fold_step [of 6] manifest_fold_step [of 7] manifest_fold_step [of 8]
      manifest_fold_step [of 9] manifest_line_header parse_line_header
      parse_line_header [unfolded One_nat_def] zero_manifest_def numeral_2_eq_2 [symmetric])

lemma manifest_ok_lines:
  assumes "manifest_ok m"
  shows "list_all clean_line (manifest_lines m) \<and>
    (\<forall>l \<in> set (manifest_lines m). length l \<le> C1_UPDATE_LINE_MAX)"
proof -
  have plain: "clean_line (a # tab # v) \<and> length (a # tab # v) \<le> C1_UPDATE_LINE_MAX"
    if "list_all plain_byte v" "plain_byte a" "length v \<le> 64" for a v
    using that plain_text_clean plain_not_bad
    by (auto simp: clean_line_def manifest_constants bad_line_byte_def [of tab])
  have token: "list_all plain_byte v \<and> length v \<le> 64" if "safe_token v" for v
    using that safe_token_plain by (auto simp: safe_token_def manifest_constants)
  have number: "list_all plain_byte (dec v) \<and> length (dec v) \<le> 64" if "u64_ok v" for v
    using that dec_plain length_dec [of v 20] by (auto simp: u64_ok_def UINT64_MAX_value)
  have tag: "plain_byte (CHR ''S'')" "plain_byte (CHR ''V'')" "plain_byte (CHR ''E'')"
    "plain_byte (CHR ''B'')" "plain_byte (CHR ''U'')" "plain_byte (CHR ''C'')"
    "plain_byte (CHR ''R'')" "plain_byte (CHR ''D'')"
    by (simp_all add: plain_byte_def)
  have component: "clean_line (component_line c) \<and> length (component_line c) \<le> C1_UPDATE_LINE_MAX"
    if "component_ok i c" "i < 4" for i c
  proof -
    have "list_all plain_byte (dec (comp_size c))" "length (dec (comp_size c)) \<le> 8"
      using that dec_plain length_dec [of "comp_size c" 8]
      by (auto simp: component_ok_def manifest_constants)
    moreover have "list_all plain_byte (sha256 c)" "length (sha256 c) = 64"
      using that digest_plain by (auto simp: component_ok_def protocol_validators valid_digest_def)
    moreover have "length (roles ! i) \<le> 9" "length (paths ! i) \<le> 27"
      using that(2) by (auto simp: roles_def paths_def numeral_eq_Suc less_Suc_eq)
    ultimately show ?thesis
      using that roles_paths_plain [OF that(2)] plain_text_clean
      by (auto simp: component_line_def clean_line_def component_ok_def manifest_constants
          bad_line_byte_def [of tab] bad_line_byte_def [of "CHR ''F''"]
          bad_line_byte_def [of "CHR ''7''"] bad_line_byte_def [of "CHR ''0''"])
  qed
  have "list_all clean_line [''C1CORE-MANIFEST 1'', CHR ''T'' # tab # C1_UPDATE_TARGET]"
    by (simp add: clean_line_def bad_line_byte_def C1_UPDATE_TARGET_def)
  moreover have "\<forall>c \<in> set (components m). clean_line (component_line c) \<and>
      length (component_line c) \<le> C1_UPDATE_LINE_MAX"
  proof
    fix c assume "c \<in> set (components m)"
    then obtain i where "i < length (components m)" "components m ! i = c"
      by (auto simp: in_set_conv_nth)
    with assms have "i < 4" "component_ok i c" by (auto simp: manifest_ok_def)
    then show "clean_line (component_line c) \<and> length (component_line c) \<le> C1_UPDATE_LINE_MAX"
      using component by blast
  qed
  moreover have "length ''C1CORE-MANIFEST 1'' \<le> C1_UPDATE_LINE_MAX"
      "length (CHR ''T'' # tab # C1_UPDATE_TARGET) \<le> C1_UPDATE_LINE_MAX"
    by (simp_all add: C1_UPDATE_LINE_MAX_def C1_UPDATE_TARGET_def)
  ultimately show ?thesis
    using assms plain token number tag
    by (auto simp: manifest_lines_def manifest_ok_def list_all_iff)
qed

lemma manifest_fold_component_ok:
  assumes "i < 4" and "length (components m) = 4" and "component_ok i c"
    and "length (component_line c) \<le> C1_UPDATE_LINE_MAX"
    and "p + comp_size c \<le> C1_UPDATE_PAYLOAD_MAX"
  shows "manifest_fold (10 + i) p m (component_line c # ls) =
    manifest_fold (11 + i) (p + comp_size c) (m\<lparr> components := (components m)[i := c] \<rparr>) ls"
proof -
  have "manifest_line (10 + i) p m (component_line c) =
      Inr (p + comp_size c, m\<lparr> components := (components m)[i := c] \<rparr>)"
    using assms by (auto simp: manifest_line_component)
  with assms show ?thesis by (simp add: manifest_fold.simps(2))
qed

lemmas manifest_fold_component_oks =
  manifest_fold_component_ok [of 0, simplified] manifest_fold_component_ok [of "Suc 0", simplified]
  manifest_fold_component_ok [of 2, simplified] manifest_fold_component_ok [of 3, simplified]

lemma manifest_fold_complete:
  assumes ok: "manifest_ok m"
  shows "manifest_fold 0 0 zero_manifest (manifest_lines m) = Some m"
proof -
  obtain c0 c1 c2 c3 where cs: "components m = [c0, c1, c2, c3]"
    using ok by (auto simp: manifest_ok_def length_Suc_conv numeral_eq_Suc)
  let ?h = "m\<lparr> components := replicate 4 zero_component \<rparr>"
  have four: "replicate 4 z = [z, z, z, z]" for z :: c1_update_component
    by (simp add: numeral_eq_Suc)
  have comp: "component_ok 0 c0" "component_ok 1 c1" "component_ok 2 c2" "component_ok 3 c3"
    "comp_size c0 + comp_size c1 + comp_size c2 + comp_size c3 \<le> C1_UPDATE_PAYLOAD_MAX"
    using ok cs by (auto simp: manifest_ok_def numeral_eq_Suc All_less_Suc)
  have lens: "\<forall>l \<in> set (manifest_lines m). length l \<le> C1_UPDATE_LINE_MAX"
    using manifest_ok_lines [OF ok] by blast
  have "manifest_fold 10 0 ?h (map component_line (components m)) = Some m"
    using lens comp by (simp add: cs manifest_lines_def manifest_fold_component_oks
        manifest_fold_end four flip: add.assoc)
  moreover have "?h = \<lparr> mf_sequence = mf_sequence m, mf_version = mf_version m,
      mf_security_epoch = mf_security_epoch m, mf_target = C1_UPDATE_TARGET,
      min_bootstrap = min_bootstrap m, min_updater = min_updater m,
      compatibility = compatibility m, source_revision = source_revision m,
      source_date_epoch = source_date_epoch m, components = replicate 4 zero_component \<rparr>"
    using ok by (simp add: manifest_ok_def)
  ultimately show ?thesis
    using ok lens
    by (simp add: manifest_ok_def manifest_fold_step [of 0] manifest_fold_step [of "Suc 0"] manifest_fold_step [of 2]
      manifest_fold_step [of 3] manifest_fold_step [of 4] manifest_fold_step [of 5]
      manifest_fold_step [of 6] manifest_fold_step [of 7] manifest_fold_step [of 8]
      manifest_fold_step [of 9] manifest_line_header parse_line_header manifest_lines_def
      parse_line_header [unfolded One_nat_def] zero_manifest_def numeral_2_eq_2 [symmetric])
qed


lemma manifest_text_size:
  assumes "manifest_ok m"
  shows "length (manifest_text m) \<le> C1_UPDATE_MANIFEST_MAX"
proof -
  have unlines: "length (unlines ls) \<le> length ls * (k + 1)" if "\<forall>l \<in> set ls. length l \<le> k"
    for ls :: "string list" and k
    using that by (induction ls) auto
  have "length (manifest_lines m) = 14"
    using assms by (simp add: manifest_lines_def manifest_ok_def)
  then show ?thesis
    using unlines [of "manifest_lines m" C1_UPDATE_LINE_MAX] manifest_ok_lines [OF assms]
    by (simp add: manifest_text_def manifest_constants)
qed

lemma manifest_text_envelope: "manifest_text m \<noteq> [] \<and> last (manifest_text m) = nl"
proof -
  have "last (unlines ls) = nl" if "ls \<noteq> []" for ls
    using that by (cases ls rule: rev_cases) auto
  moreover have "manifest_lines m \<noteq> []" "unlines (manifest_lines m) \<noteq> []"
    by (simp_all add: manifest_lines_def)
  ultimately show ?thesis
    unfolding manifest_text_def by blast
qed

lemma manifest_sound:
  assumes "c1_update_parse_manifest data = Inr m"
  shows "manifest_ok m \<and> manifest_text m = data"
proof -
  from assms have "manifest_loop 0 0 zero_manifest data = Inr m"
    by (auto simp: c1_update_parse_manifest_def split: if_splits)
  then obtain ls where ls: "data = unlines ls" "manifest_fold 0 0 zero_manifest ls = Some m"
    using manifest_loop_sound by blast
  from manifest_fold_header_sound [OF ls(2)] obtain sq ver ep boot upd compat src date cs where
    head: "ls = [''C1CORE-MANIFEST 1'', CHR ''S'' # tab # dec sq, CHR ''V'' # tab # ver,
      CHR ''E'' # tab # dec ep, CHR ''T'' # tab # C1_UPDATE_TARGET, CHR ''B'' # tab # boot,
      CHR ''U'' # tab # upd, CHR ''C'' # tab # compat, CHR ''R'' # tab # src,
      CHR ''D'' # tab # dec date] @ cs"
    and fields: "u64_ok sq" "u64_ok ep" "u64_ok date" "safe_token ver" "safe_token boot"
      "safe_token upd" "safe_token compat" "safe_token src"
    and tail: "manifest_fold 10 0 \<lparr> mf_sequence = sq, mf_version = ver, mf_security_epoch = ep,
      mf_target = C1_UPDATE_TARGET, min_bootstrap = boot, min_updater = upd,
      compatibility = compat, source_revision = src, source_date_epoch = date,
      components = replicate 4 zero_component \<rparr> cs = Some m"
    by blast
  from manifest_fold_components_sound [OF tail] obtain c0 c1 c2 c3 where
    comp: "cs = map component_line [c0, c1, c2, c3]"
      "component_ok 0 c0" "component_ok 1 c1" "component_ok 2 c2" "component_ok 3 c3"
      "comp_size c0 + comp_size c1 + comp_size c2 + comp_size c3 \<le> C1_UPDATE_PAYLOAD_MAX"
    and m: "m = \<lparr> mf_sequence = sq, mf_version = ver, mf_security_epoch = ep,
      mf_target = C1_UPDATE_TARGET, min_bootstrap = boot, min_updater = upd,
      compatibility = compat, source_revision = src, source_date_epoch = date,
      components = [c0, c1, c2, c3] \<rparr>"
    by auto
  have "\<forall>i < 4. component_ok i ([c0, c1, c2, c3] ! i)"
    using comp by (simp add: numeral_eq_Suc All_less_Suc)
  with head fields comp show ?thesis
    by (simp add: m ls(1) manifest_ok_def manifest_text_def manifest_lines_def)
qed

interpretation manifest_file: codec
  "\<lambda>data. case c1_update_parse_manifest data of Inl e \<Rightarrow> None | Inr m \<Rightarrow> Some m" manifest_text manifest_ok
proof unfold_locales
  fix m assume ok: "manifest_ok m"
  have "manifest_loop 0 0 zero_manifest (manifest_text m) = Inr m"
    unfolding manifest_text_def using ok manifest_ok_lines manifest_fold_complete
    by (intro manifest_loop_complete) auto
  then show "(case c1_update_parse_manifest (manifest_text m) of Inl e \<Rightarrow> None | Inr m \<Rightarrow> Some m) = Some m"
    using ok manifest_text_size manifest_text_envelope [of m]
    by (auto simp: c1_update_parse_manifest_def not_less [symmetric])
next
  fix data m
  assume "(case c1_update_parse_manifest data of Inl e \<Rightarrow> None | Inr m \<Rightarrow> Some m) = Some m"
  then show "manifest_ok m \<and> manifest_text m = data"
    by (auto split: sum.splits intro!: manifest_sound dest: manifest_sound)
qed


text \<open>C10. The manifest parser accepts exactly the texts that print a well-formed manifest, and returns
  that manifest: a signed manifest has one reading, each reading has one text, and every accepted
  manifest names the four components with their fixed roles, paths and mode, with digests and
  sizes inside the component and payload limits.\<close>

theorem manifest_canonical:
  "c1_update_parse_manifest data = Inr m \<longleftrightarrow> manifest_ok m \<and> manifest_text m = data"
  using manifest_file.parse_iff [of data m] by (auto split: sum.splits)

section \<open>Versions are ordered\<close>

definition version_text :: "nat \<times> nat \<times> nat \<Rightarrow> string" where
  "version_text v = (case v of (a, b, c) \<Rightarrow> dec a @ CHR ''.'' # dec b @ CHR ''.'' # dec c)"

definition version_ok :: "nat \<times> nat \<times> nat \<Rightarrow> bool" where
  "version_ok v = (case v of (a, b, c) \<Rightarrow> a \<le> 10000009 \<and> b \<le> 10000009 \<and> c \<le> 10000009)"

interpretation version: codec version_parts version_text version_ok
  by unfold_locales (auto simp: version_parts_iff version_text_def version_ok_def)

definition version_le :: "nat \<times> nat \<times> nat \<Rightarrow> nat \<times> nat \<times> nat \<Rightarrow> bool" where
  "version_le v w = (case (v, w) of ((a0, a1, a2), (b0, b1, b2)) \<Rightarrow>
     a0 < b0 \<or> a0 = b0 \<and> (a1 < b1 \<or> a1 = b1 \<and> a2 \<le> b2))"

lemma version_satisfies_parts:
  "version_satisfies local minimum \<longleftrightarrow>
     (\<exists>v w. version_parts local = Some v \<and> version_parts minimum = Some w \<and> version_le w v)"
  by (auto simp: version_satisfies_def version_le_def split: option.split)

lemma version_le_trans: "version_le u v \<Longrightarrow> version_le v w \<Longrightarrow> version_le u w"
  by (cases u; cases v; cases w) (auto simp: version_le_def)

text \<open>The capability check compares the numbers and nothing else: it holds exactly when both texts
  are canonical \<open>major.minor.patch\<close> numbers without leading zeros, signs or trailing bytes, and the
  local triple is lexicographically at least the required one. A malformed text on either side
  never satisfies a requirement.\<close>

lemma version_satisfies_exact:
  "version_satisfies local minimum \<longleftrightarrow>
     (\<exists>v w. local = version_text v \<and> minimum = version_text w \<and> version_ok v \<and> version_ok w \<and>
            version_le w v)"
  unfolding version_satisfies_parts version.parse_iff by blast

text \<open>What the release gate relies on: a requirement satisfied by a version is satisfied by every
  version that satisfies that one.\<close>

lemma version_satisfies_trans:
  "version_satisfies a b \<Longrightarrow> version_satisfies b c \<Longrightarrow> version_satisfies a c"
  unfolding version_satisfies_parts using version_le_trans by fastforce

lemma compatibility_monotone:
  "c1_update_check_compatibility_versions m boot upd = Inr () \<Longrightarrow>
   version_satisfies boot' boot \<Longrightarrow> version_satisfies upd' upd \<Longrightarrow>
   c1_update_check_compatibility_versions m boot' upd' = Inr ()"
  using version_satisfies_trans
  by (auto simp: c1_update_check_compatibility_versions_def split: option.splits if_splits)

end
