(* ===== verification/Posix.thy ===== *)
theory Posix
  imports Prelude "HOL-Library.Sublist"
begin

unbundle bit_operations_syntax

text \<open>
  The part of POSIX that the file system code of the program uses, with faults. A world holds the
  files by path, the identity of the process, and the list of outcomes that the coming system calls
  meet: a call succeeds or fails by its own rules (\<open>Done\<close>), fails with an I/O error (\<open>Fail\<close>), or meets the loss of
  power (\<open>Cut\<close>), after which nothing changes any more and every call fails (\<open>Off\<close>). A failing
  call changes nothing, except that an interrupted write may have stored a part of its data.
  Because a theorem about all outcome lists speaks about the loss of power before every single
  call, it covers every disk that holds a prefix of the calls made.

  Paths are looked up as they are written: the code checks the directories it goes through and
  never follows a symbolic link by path, so a link inside the root that the caller passes is not
  modelled. Errors other than ENOENT and EEXIST are not told apart by the code, nor here, and the
  diagnostic texts of this layer are left out: a function that returns -1 gives \<open>None\<close>.
\<close>

section \<open>Files\<close>

datatype kind = S_IFREG | S_IFDIR | S_IFLNK | S_IFOTHER

text \<open>The permission bits of \<open>st_mode\<close> and its file type are kept apart; \<open>st_data\<close> is the content of a
  regular file and the target of a symbolic link. The code compares the numbers of directories only, so a
  directory gets a number that no present one has and other files have 0; there is one device.\<close>

record inode =
  st_kind :: kind
  st_mode :: nat
  st_uid :: nat
  st_nlink :: nat
  st_data :: string
  st_ino :: nat

datatype errno = ENOENT | EEXIST | EOTHER

datatype outcome = Done | Fail nat | Cut nat | Off

record world =
  files :: "(string \<times> inode) list"
  euid :: nat
  pid :: nat
  suffix :: string
  faults :: "outcome list"

definition file_at :: "world \<Rightarrow> string \<Rightarrow> inode option" where
  "file_at w p = map_of (files w) p"

definition put_file :: "string \<Rightarrow> inode \<Rightarrow> world \<Rightarrow> world" where
  "put_file p i w = w\<lparr> files := (p, i) # filter (\<lambda>(q, _). q \<noteq> p) (files w) \<rparr>"

definition fresh_ino :: "world \<Rightarrow> nat" where
  "fresh_ino w = Suc (foldr (\<lambda>(q, i). max (st_ino i)) (files w) 0)"

lemma fresh_ino_faults [simp]: "fresh_ino (w\<lparr> faults := fs \<rparr>) = fresh_ino w"
  by (simp add: fresh_ino_def)

definition del_file :: "string \<Rightarrow> world \<Rightarrow> world" where
  "del_file p w = w\<lparr> files := filter (\<lambda>(q, _). q \<noteq> p) (files w) \<rparr>"

text \<open>The entry \<open>d\<close> and everything below it.\<close>

definition under :: "string \<Rightarrow> string \<Rightarrow> bool" where
  "under d q \<longleftrightarrow> q = d \<or> prefix (d @ ''/'') q"

definition move_file :: "string \<Rightarrow> string \<Rightarrow> world \<Rightarrow> world" where
  "move_file s d w = w\<lparr> files :=
     map (\<lambda>(q, i). (if under s q then d @ drop (length s) q else q, i))
       (filter (\<lambda>(q, _). \<not> under d q) (files w)) \<rparr>"

lemma map_of_filter_key:
  "map_of (filter (\<lambda>(q, _). P q) l) q = (if P q then map_of l q else None)"
  by (induction l) auto

lemma file_at_put [simp]: "file_at (put_file p i w) q = (if q = p then Some i else file_at w q)"
  using map_of_filter_key [of "\<lambda>q. q \<noteq> p" "files w" q] by (simp add: file_at_def put_file_def)

lemma file_at_del [simp]: "file_at (del_file p w) q = (if q = p then None else file_at w q)"
  using map_of_filter_key [of "\<lambda>q. q \<noteq> p" "files w" q] by (simp add: file_at_def del_file_def)

lemma file_at_faults [simp]: "file_at (w\<lparr> faults := fs \<rparr>) q = file_at w q"
  by (simp add: file_at_def)

lemma process_put [simp]:
  "euid (put_file p i w) = euid w" "pid (put_file p i w) = pid w" "suffix (put_file p i w) = suffix w"
  "euid (del_file p w) = euid w" "pid (del_file p w) = pid w" "suffix (del_file p w) = suffix w"
  "euid (move_file s d w) = euid w" "pid (move_file s d w) = pid w" "suffix (move_file s d w) = suffix w"
  by (simp_all add: put_file_def del_file_def move_file_def)

lemma faults_put [simp]:
  "faults (put_file p i w) = faults w" "faults (del_file p w) = faults w"
  "faults (move_file s d w) = faults w"
  by (simp_all add: put_file_def del_file_def move_file_def)

lemma under_self [simp]: "under d d"
  by (simp add: under_def)

lemma under_iff: "under d q \<longleftrightarrow> (\<exists>u. q = d @ u \<and> (u = [] \<or> hd u = CHR ''/''))"
proof
  assume "\<exists>u. q = d @ u \<and> (u = [] \<or> hd u = CHR ''/'')"
  then obtain u where "q = d @ u" "u = [] \<or> hd u = CHR ''/''" by blast
  then show "under d q" by (cases u) (auto simp: under_def prefix_def)
qed (auto simp: under_def prefix_def)

lemma under_decomp: "under d q \<Longrightarrow> q = d @ drop (length d) q"
  by (auto simp: under_def prefix_def)

lemma under_transfer: "under d q \<Longrightarrow> under s (s @ drop (length d) q)"
  by (auto simp: under_def prefix_def)

text \<open>After a rename, everything below the new name is what was below the old one.\<close>

lemma file_at_move:
  assumes "\<not> under s d" and "\<not> under d s"
  shows "file_at (move_file s d w) q =
    (if under d q then file_at w (s @ drop (length d) q)
     else if under s q then None else file_at w q)"
proof -
  have disjoint: "\<not> (under s r \<and> under d r)" for r
  proof
    assume a: "under s r \<and> under d r"
    then obtain u v where "r = s @ u" "r = d @ v" and u: "u = [] \<or> hd u = CHR ''/''"
        and v: "v = [] \<or> hd v = CHR ''/''"
      unfolding under_iff by blast
    then have eq: "s @ u = d @ v" by simp
    then consider z where "s = d @ z" "z @ u = v" | z where "d = s @ z" "u = z @ v"
      by (auto simp: append_eq_append_conv2)
    then show False
    proof cases
      case 1
      with v have "z = [] \<or> hd z = CHR ''/''" by (cases z) auto
      with 1 have "under d s" unfolding under_iff by blast
      with assms show False by simp
    next
      case 2
      with u have "z = [] \<or> hd z = CHR ''/''" by (cases z) auto
      with 2 have "under s d" unfolding under_iff by blast
      with assms show False by simp
    qed
  qed
  let ?f = "\<lambda>(q, i). (if under s q then d @ drop (length s) q else q, i :: inode)"
  have "map_of (map ?f (filter (\<lambda>(q, _). \<not> under d q) l)) q =
      (if under d q then map_of l (s @ drop (length d) q)
       else if under s q then None else map_of l q)" for l
  proof (induction l)
    case Nil
    then show ?case by simp
  next
    case (Cons e l)
    obtain r i where e: "e = (r, i)" by (cases e)
    consider "under d r" | "under s r" | "\<not> under d r" "\<not> under s r" by blast
    then show ?case
    proof cases
      case 1
      then have "under d q \<longrightarrow> r \<noteq> s @ drop (length d) q"
        using disjoint under_transfer by blast
      moreover have "\<not> under d q \<longrightarrow> r \<noteq> q" using 1 by blast
      ultimately show ?thesis using Cons 1 e by auto
    next
      case 2
      then have notd: "\<not> under d r" using disjoint by blast
      have new: "under d (d @ drop (length s) r)" by (rule under_transfer [OF 2])
      have "q = d @ drop (length s) r \<longleftrightarrow> under d q \<and> r = s @ drop (length d) q"
        using under_decomp [OF 2] under_decomp [of d q] new by (metis append_eq_conv_conj)
      moreover have "under s q \<longleftrightarrow> under s q \<and> \<not> under d q" using disjoint by blast
      ultimately show ?thesis using Cons 2 e notd by auto
    next
      case 3
      then have "under d q \<longrightarrow> r \<noteq> s @ drop (length d) q"
        using under_transfer [of d q s] by blast
      with Cons 3 e show ?thesis by auto
    qed
  qed
  then show ?thesis by (simp add: file_at_def move_file_def)
qed

section \<open>System calls\<close>

type_synonym 'a sys = "world \<Rightarrow> (errno + 'a) \<times> world"

text \<open>The outcome that the next call meets. \<open>partial k\<close> is the effect that a call broken off after
  \<open>k\<close> units leaves behind.\<close>

definition faulty :: "(nat \<Rightarrow> world \<Rightarrow> world) \<Rightarrow> 'a sys \<Rightarrow> 'a sys" where
  "faulty partial call w =
     (case faults w of
        [] \<Rightarrow> call w
      | Done # fs \<Rightarrow> call (w\<lparr> faults := fs \<rparr>)
      | Fail k # fs \<Rightarrow> (Inl EOTHER, partial k (w\<lparr> faults := fs \<rparr>))
      | Cut k # fs \<Rightarrow> (Inl EOTHER, partial k (w\<lparr> faults := [Off] \<rparr>))
      | Off # fs \<Rightarrow> (Inl EOTHER, w))"

definition is_dir :: "world \<Rightarrow> string \<Rightarrow> bool" where
  "is_dir w p = (case file_at w p of None \<Rightarrow> False | Some i \<Rightarrow> st_kind i = S_IFDIR)"

text \<open>The directory part of a path, as \<open>parent_directory\<close> of \<open>secure_file.c\<close> computes it.\<close>

definition parent_directory :: "string \<Rightarrow> string" where
  "parent_directory path =
     (if CHR ''/'' \<notin> set path then ''.''
      else let dir = butlast (rev (dropWhile (\<lambda>c. c \<noteq> CHR ''/'') (rev path)))
           in if dir = [] then ''/'' else dir)"

definition sys_lstat :: "string \<Rightarrow> inode sys" where
  "sys_lstat p = faulty (\<lambda>k w. w)
     (\<lambda>w. (case file_at w p of None \<Rightarrow> Inl ENOENT | Some i \<Rightarrow> Inr i, w))"

definition sys_readlink :: "string \<Rightarrow> string sys" where
  "sys_readlink p = faulty (\<lambda>k w. w)
     (\<lambda>w. (case file_at w p of
             None \<Rightarrow> Inl ENOENT
           | Some i \<Rightarrow> if st_kind i = S_IFLNK then Inr (st_data i) else Inl EOTHER, w))"

text \<open>\<open>open\<close> for reading with \<open>O_NOFOLLOW\<close>, and \<open>fstat\<close> of what was opened.\<close>

definition sys_open_read :: "string \<Rightarrow> inode sys" where
  "sys_open_read p = faulty (\<lambda>k w. w)
     (\<lambda>w. (case file_at w p of
             None \<Rightarrow> Inl ENOENT
           | Some i \<Rightarrow> if st_kind i = S_IFLNK then Inl EOTHER else Inr i, w))"

text \<open>A call on an open file that succeeds when it is not disturbed: \<open>fsync\<close>, \<open>close\<close>, the \<open>read\<close> loop.\<close>

definition sys_touch :: "unit sys" where
  "sys_touch = faulty (\<lambda>k w. w) (\<lambda>w. (Inr (), w))"

definition sys_mkdir :: "string \<Rightarrow> nat \<Rightarrow> unit sys" where
  "sys_mkdir p mode = faulty (\<lambda>k w. w)
     (\<lambda>w. if file_at w p \<noteq> None then (Inl EEXIST, w)
          else if \<not> is_dir w (parent_directory p) then (Inl ENOENT, w)
          else (Inr (), put_file p \<lparr> st_kind = S_IFDIR, st_mode = mode, st_uid = euid w,
                                     st_nlink = 2, st_data = [], st_ino = fresh_ino w \<rparr> w))"

definition sys_chmod :: "string \<Rightarrow> nat \<Rightarrow> unit sys" where
  "sys_chmod p mode = faulty (\<lambda>k w. w)
     (\<lambda>w. case file_at w p of
            None \<Rightarrow> (Inl ENOENT, w)
          | Some i \<Rightarrow> (Inr (), put_file p (i\<lparr> st_mode := mode \<rparr>) w))"

definition sys_create :: "string \<Rightarrow> nat \<Rightarrow> unit sys" where
  "sys_create p mode = faulty (\<lambda>k w. w)
     (\<lambda>w. if file_at w p \<noteq> None then (Inl EEXIST, w)
          else if \<not> is_dir w (parent_directory p) then (Inl ENOENT, w)
          else (Inr (), put_file p \<lparr> st_kind = S_IFREG, st_mode = mode, st_uid = euid w,
                                     st_nlink = 1, st_data = [], st_ino = 0 \<rparr> w))"

text \<open>The write loop on the file that was created under \<open>p\<close>: a fault may leave a part of the data.\<close>

definition append_data :: "string \<Rightarrow> string \<Rightarrow> world \<Rightarrow> world" where
  "append_data p data w =
     (case file_at w p of None \<Rightarrow> w | Some i \<Rightarrow> put_file p (i\<lparr> st_data := st_data i @ data \<rparr>) w)"

definition sys_write :: "string \<Rightarrow> string \<Rightarrow> unit sys" where
  "sys_write p data = faulty (\<lambda>k. append_data p (take k data)) (\<lambda>w. (Inr (), append_data p data w))"

definition sys_symlink :: "string \<Rightarrow> string \<Rightarrow> unit sys" where
  "sys_symlink target p = faulty (\<lambda>k w. w)
     (\<lambda>w. if file_at w p \<noteq> None then (Inl EEXIST, w)
          else if \<not> is_dir w (parent_directory p) then (Inl ENOENT, w)
          else (Inr (), put_file p \<lparr> st_kind = S_IFLNK, st_mode = 511, st_uid = euid w,
                                     st_nlink = 1, st_data = target, st_ino = 0 \<rparr> w))"

definition empty_dir :: "world \<Rightarrow> string \<Rightarrow> bool" where
  "empty_dir w d = list_all (\<lambda>(q, _). \<not> (under d q \<and> q \<noteq> d)) (files w)"

text \<open>What a rename may replace: nothing, an empty directory by a directory, a file by a file.\<close>

definition replaceable :: "world \<Rightarrow> inode \<Rightarrow> string \<Rightarrow> bool" where
  "replaceable w i d =
     (case file_at w d of
        None \<Rightarrow> True
      | Some j \<Rightarrow> if st_kind i = S_IFDIR then st_kind j = S_IFDIR \<and> empty_dir w d
                 else st_kind j \<noteq> S_IFDIR)"

definition sys_rename :: "string \<Rightarrow> string \<Rightarrow> unit sys" where
  "sys_rename s d = faulty (\<lambda>k w. w)
     (\<lambda>w. case file_at w s of
            None \<Rightarrow> (Inl ENOENT, w)
          | Some i \<Rightarrow>
              if s = d then (Inr (), w)
              else if under s d \<or> under d s \<or> \<not> is_dir w (parent_directory d) then (Inl EOTHER, w)
              else if replaceable w i d
              then (Inr (), move_file s d w) else (Inl EOTHER, w))"

definition sys_unlink :: "string \<Rightarrow> unit sys" where
  "sys_unlink p = faulty (\<lambda>k w. w)
     (\<lambda>w. case file_at w p of
            None \<Rightarrow> (Inl ENOENT, w)
          | Some i \<Rightarrow> if st_kind i = S_IFDIR then (Inl EOTHER, w) else (Inr (), del_file p w))"

definition sys_rmdir :: "string \<Rightarrow> unit sys" where
  "sys_rmdir p = faulty (\<lambda>k w. w)
     (\<lambda>w. if \<not> is_dir w p then (Inl ENOENT, w)
          else if \<not> empty_dir w p then (Inl EOTHER, w)
          else (Inr (), del_file p w))"

lemmas sys_defs = sys_lstat_def sys_readlink_def sys_open_read_def sys_touch_def sys_mkdir_def
  sys_chmod_def sys_create_def sys_write_def sys_symlink_def sys_rename_def sys_unlink_def sys_rmdir_def

end
