(* ===== verification/SecureFile.thy ===== *)
theory SecureFile
  imports Posix
begin

text \<open>
  Functions over the faulty file system that return 0 or -1, the rules that bound what they change,
  and the shared file primitives of \<open>src/C1ancher/src/security/secure_file.c\<close>: bounded reading,
  directory synchronisation and atomic replacement.
\<close>

section \<open>Functions that may fail\<close>

type_synonym 'a act = "world \<Rightarrow> 'a option \<times> world"

definition ret :: "'a \<Rightarrow> 'a act" where "ret x w = (Some x, w)"

definition stop :: "'a act" where "stop w = (None, w)"

definition bind_act :: "'a act \<Rightarrow> ('a \<Rightarrow> 'b act) \<Rightarrow> 'b act" where
  "bind_act m k w = (case m w of (None, w') \<Rightarrow> (None, w') | (Some x, w') \<Rightarrow> k x w')"

text \<open>First \<open>m\<close>, then \<open>k\<close>: the chains \<open>m != 0 || k != 0\<close> of the code.\<close>

definition then_act :: "'a act \<Rightarrow> 'b act \<Rightarrow> 'b act" where
  "then_act m k = bind_act m (\<lambda>_. k)"

definition require :: "bool \<Rightarrow> unit act" where
  "require b w = (if b then Some () else None, w)"

definition asks :: "(world \<Rightarrow> 'a) \<Rightarrow> 'a act" where
  "asks f w = (Some (f w), w)"

text \<open>A system call whose failure is a failure, one whose error number is inspected, and one whose
  result is ignored.\<close>

definition ok :: "'a sys \<Rightarrow> 'a act" where
  "ok m w = (case m w of (Inl e, w') \<Rightarrow> (None, w') | (Inr x, w') \<Rightarrow> (Some x, w'))"

definition errno_of :: "'a sys \<Rightarrow> (errno + 'a) act" where
  "errno_of m w = (case m w of (r, w') \<Rightarrow> (Some r, w'))"

definition ignore :: "(world \<Rightarrow> 'x \<times> world) \<Rightarrow> unit act" where
  "ignore m w = (Some (), snd (m w))"

text \<open>Work to do when \<open>m\<close> fails, the failure being kept.\<close>

definition on_failure :: "'a act \<Rightarrow> unit act \<Rightarrow> 'a act" where
  "on_failure m c w = (case m w of (None, w') \<Rightarrow> (None, snd (c w')) | (Some x, w') \<Rightarrow> (Some x, w'))"

text \<open>Close the descriptor that \<open>m\<close> worked on; a failing close is a failure.\<close>

definition closing :: "'a act \<Rightarrow> 'a act" where
  "closing m w = (case m w of (r, w') \<Rightarrow> case sys_touch w' of
     (Inr _, w'') \<Rightarrow> (r, w'') | (Inl _, w'') \<Rightarrow> (None, w''))"

text \<open>Close the descriptor and ignore the result of that.\<close>

definition closing_quietly :: "'a act \<Rightarrow> 'a act" where
  "closing_quietly m w = (case m w of (r, w') \<Rightarrow> (r, snd (sys_touch w')))"

text \<open>\<open>lstat\<close> that treats ENOENT as an answer and every other error as a failure.\<close>

definition probe :: "string \<Rightarrow> inode option act" where
  "probe p = bind_act (errno_of (sys_lstat p)) (\<lambda>r. case r of
     Inr i \<Rightarrow> ret (Some i) | Inl e \<Rightarrow> if e = ENOENT then ret None else stop)"

text \<open>The loop over temporary names: the first attempt that does not fail with EEXIST, or the limit.\<close>

fun attempt_names :: "nat \<Rightarrow> nat \<Rightarrow> (nat \<Rightarrow> unit sys) \<Rightarrow> nat act" where
  "attempt_names 0 attempt call w = (Some attempt, w)"
| "attempt_names (Suc n) attempt call w =
     (case call attempt w of
        (Inr _, w') \<Rightarrow> (Some attempt, w')
      | (Inl e, w') \<Rightarrow> if e = EEXIST then attempt_names n (attempt + 1) call w' else (None, w'))"

lemmas act_defs = ret_def stop_def bind_act_def then_act_def require_def asks_def ok_def errno_of_def
  ignore_def on_failure_def closing_def probe_def

section \<open>What a function may change\<close>

definition same_process :: "world \<Rightarrow> world \<Rightarrow> bool" where
  "same_process w w' \<longleftrightarrow> euid w' = euid w \<and> pid w' = pid w \<and> suffix w' = suffix w"

definition touches :: "(string \<Rightarrow> bool) \<Rightarrow> world \<Rightarrow> world \<Rightarrow> bool" where
  "touches S w w' \<longleftrightarrow> same_process w w' \<and> (\<forall>q. \<not> S q \<longrightarrow> file_at w' q = file_at w q)"

definition framed :: "(string \<Rightarrow> bool) \<Rightarrow> (world \<Rightarrow> 'x \<times> world) \<Rightarrow> bool" where
  "framed S m \<longleftrightarrow> (\<forall>w. touches S w (snd (m w)))"

named_theorems frames \<open>bounds on what a function changes\<close>

lemma touches_refl [simp]: "touches S w w"
  by (simp add: touches_def same_process_def)

lemma touches_faults [simp]: "touches S w (w'\<lparr> faults := fs \<rparr>) \<longleftrightarrow> touches S w w'"
  by (simp add: touches_def same_process_def)

lemma touches_trans: "touches S u v \<Longrightarrow> touches S v w \<Longrightarrow> touches S u w"
  by (auto simp: touches_def same_process_def)

lemma touches_mono: "touches S u v \<Longrightarrow> (\<And>q. S q \<Longrightarrow> T q) \<Longrightarrow> touches T u v"
  by (auto simp: touches_def)

lemma touches_files: "touches S w w' \<Longrightarrow> \<not> S q \<Longrightarrow> file_at w' q = file_at w q"
  by (simp add: touches_def)

lemma framed_mono: "framed S m \<Longrightarrow> (\<And>q. S q \<Longrightarrow> T q) \<Longrightarrow> framed T m"
  by (auto simp: framed_def intro: touches_mono)

lemma framedD: "framed S m \<Longrightarrow> m w = (r, w') \<Longrightarrow> touches S w w'"
  by (metis framed_def snd_conv)

lemma framed_ret [frames]: "framed S (ret x)"
  by (simp add: framed_def ret_def)

lemma framed_stop [frames]: "framed S stop"
  by (simp add: framed_def stop_def)

lemma framed_require [frames]: "framed S (require b)"
  by (simp add: framed_def require_def)

lemma framed_asks [frames]: "framed S (asks f)"
  by (simp add: framed_def asks_def)

lemma framed_bind [frames]:
  assumes "framed S m" and "\<And>x. framed S (k x)"
  shows "framed S (bind_act m k)"
  unfolding framed_def
proof
  fix w
  obtain r w' where m: "m w = (r, w')" by (cases "m w")
  with assms(1) have "touches S w w'" by (rule framedD)
  moreover have "touches S w' (snd (k x w'))" for x
    using assms(2) by (simp add: framed_def)
  ultimately show "touches S w (snd (bind_act m k w))"
    by (auto simp: bind_act_def m split: option.split intro: touches_trans)
qed

lemma framed_then [frames]: "framed S m \<Longrightarrow> framed S k \<Longrightarrow> framed S (then_act m k)"
  unfolding then_act_def by (rule framed_bind)

lemma framed_ok [frames]: "framed S m \<Longrightarrow> framed S (ok m)"
  unfolding framed_def ok_def by (metis (no_types, lifting) old.prod.case prod.collapse snd_conv sum.case_eq_if)

lemma framed_errno_of [frames]: "framed S m \<Longrightarrow> framed S (errno_of m)"
  by (simp add: framed_def errno_of_def case_prod_beta)

lemma framed_ignore [frames]: "framed S m \<Longrightarrow> framed S (ignore m)"
  by (simp add: framed_def ignore_def)

lemma framed_on_failure [frames]:
  assumes "framed S m" and "framed S c"
  shows "framed S (on_failure m c)"
  unfolding framed_def
proof
  fix w
  obtain r w' where m: "m w = (r, w')" by (cases "m w")
  with assms(1) have "touches S w w'" by (rule framedD)
  moreover have "touches S w' (snd (c w'))" using assms(2) by (simp add: framed_def)
  ultimately show "touches S w (snd (on_failure m c w))"
    by (auto simp: on_failure_def m split: option.split intro: touches_trans)
qed

lemma framed_attempt_names [frames]:
  "(\<And>i. framed S (call i)) \<Longrightarrow> framed S (attempt_names n i call)"
proof (induction n arbitrary: i)
  case 0
  then show ?case by (simp add: framed_def)
next
  case (Suc n)
  show ?case
    unfolding framed_def
  proof
    fix w
    obtain r w' where m: "call i w = (r, w')" by (cases "call i w")
    have "touches S w w'" using framedD [OF Suc.prems m] .
    moreover have "touches S w' (snd (attempt_names n (i + 1) call w'))"
      using Suc.IH [OF Suc.prems] by (simp add: framed_def)
    ultimately show "touches S w (snd (attempt_names (Suc n) i call w))"
      by (auto simp: m split: sum.split intro: touches_trans)
  qed
qed

lemma framed_case_option [frames]:
  "framed S m \<Longrightarrow> (\<And>x. framed S (k x)) \<Longrightarrow> framed S (case r of None \<Rightarrow> m | Some x \<Rightarrow> k x)"
  by (cases r) auto

lemma framed_case_sum [frames]:
  "(\<And>x. framed S (j x)) \<Longrightarrow> (\<And>x. framed S (k x)) \<Longrightarrow> framed S (case r of Inl x \<Rightarrow> j x | Inr x \<Rightarrow> k x)"
  by (cases r) auto

lemma framed_if [frames]: "framed S m \<Longrightarrow> framed S k \<Longrightarrow> framed S (if b then m else k)"
  by auto

lemma framed_let [frames]: "framed S (k y) \<Longrightarrow> framed S (let x = y in k x)"
  by simp

section \<open>The system calls stay on their paths\<close>

lemma framed_faulty:
  assumes "\<And>w. touches S w (snd (call w))" and "\<And>k w. touches S w (part k w)"
  shows "framed S (faulty part call)"
proof -
  have "touches S w (snd (call (w\<lparr> faults := fs \<rparr>)))" for w fs
    using assms(1) [of "w\<lparr> faults := fs \<rparr>"] by (simp add: touches_def same_process_def)
  moreover have "touches S w (part k (w\<lparr> faults := fs \<rparr>))" for w fs k
    using assms(2) [of "w\<lparr> faults := fs \<rparr>"] by (simp add: touches_def same_process_def)
  ultimately show ?thesis
    using assms(1) by (auto simp: framed_def faulty_def split: list.split outcome.split)
qed

lemma touches_put: "S p \<Longrightarrow> touches S w (put_file p i w)"
  by (auto simp: touches_def same_process_def)

lemma touches_del: "S p \<Longrightarrow> touches S w (del_file p w)"
  by (auto simp: touches_def same_process_def)

lemma touches_append: "S p \<Longrightarrow> touches S w (append_data p data w)"
  by (auto simp: append_data_def intro: touches_put split: option.split)

lemma framed_reads [frames]:
  "framed S (sys_lstat p)" "framed S (sys_readlink p)" "framed S (sys_open_read p)" "framed S sys_touch"
  unfolding sys_defs by (intro framed_faulty; simp)+

lemma framed_sys [frames]:
  "S p \<Longrightarrow> framed S (sys_mkdir p mode)" "S p \<Longrightarrow> framed S (sys_chmod p mode)"
  "S p \<Longrightarrow> framed S (sys_create p mode)" "S p \<Longrightarrow> framed S (sys_write p data)"
  "S p \<Longrightarrow> framed S (sys_symlink target p)" "S p \<Longrightarrow> framed S (sys_unlink p)"
  "S p \<Longrightarrow> framed S (sys_rmdir p)"
  unfolding sys_defs
  by (intro framed_faulty; auto intro: touches_put touches_del touches_append split: option.split)+

lemma framed_rename [frames]:
  assumes "\<And>q. under s q \<Longrightarrow> S q" and "\<And>q. under d q \<Longrightarrow> S q"
  shows "framed S (sys_rename s d)"
proof -
  have "touches S w (move_file s d w)" if "\<not> under s d" "\<not> under d s" for w
    using that assms by (auto simp: touches_def same_process_def file_at_move)
  then show ?thesis
    unfolding sys_rename_def by (intro framed_faulty) (auto split: option.split)
qed

lemma framed_closing [frames]:
  assumes "framed S m"
  shows "framed S (closing m)"
  unfolding framed_def
proof
  fix w
  obtain r w' where m: "m w = (r, w')" by (cases "m w")
  obtain c w'' where c: "sys_touch w' = (c, w'')" by (cases "sys_touch w'")
  have "touches S w w'" "touches S w' w''"
    using framedD [OF assms m] framedD [OF framed_reads(4) c] by auto
  then show "touches S w (snd (closing m w))"
    by (auto simp: closing_def m c split: sum.split intro: touches_trans)
qed

lemma framed_closing_quietly [frames]: "framed S m \<Longrightarrow> framed S (closing_quietly m)"
  unfolding framed_def closing_quietly_def
proof
  fix w assume m: "\<forall>w. touches S w (snd (m w))"
  obtain r v where mw: "m w = (r, v)" by (cases "m w")
  with m have "touches S w v" by (metis snd_conv)
  moreover have "touches S v (snd (sys_touch v))" using framed_reads(4) by (simp add: framed_def)
  ultimately show "touches S w (snd (case m w of (r, w') \<Rightarrow> (r, snd (sys_touch w'))))"
    using mw touches_trans by auto
qed

lemma framed_probe [frames]: "framed S (probe p)"
  unfolding probe_def by (intro frames)


section \<open>Success\<close>

lemma bind_act_Some:
  "bind_act m k w = (Some y, w') \<longleftrightarrow> (\<exists>x v. m w = (Some x, v) \<and> k x v = (Some y, w'))"
  by (auto simp: bind_act_def split: prod.splits option.splits)

lemma then_act_Some:
  "then_act m k w = (Some y, w') \<longleftrightarrow> (\<exists>x v. m w = (Some x, v) \<and> k v = (Some y, w'))"
  by (simp add: then_act_def bind_act_Some)

lemma ok_Some: "ok m w = (Some x, w') \<longleftrightarrow> m w = (Inr x, w')"
  by (auto simp: ok_def split: prod.splits sum.splits)

lemma require_Some: "require b w = (Some x, w') \<longleftrightarrow> b \<and> w' = w"
  by (auto simp: require_def)

lemma ret_Some: "ret a w = (Some x, w') \<longleftrightarrow> x = a \<and> w' = w"
  by (auto simp: ret_def)

lemma asks_Some: "asks f w = (Some x, w') \<longleftrightarrow> x = f w \<and> w' = w"
  by (auto simp: asks_def)

lemma stop_Some: "\<not> stop w = (Some x, w')"
  by (simp add: stop_def)

lemma on_failure_Some: "on_failure m c w = (Some x, w') \<longleftrightarrow> m w = (Some x, w')"
  by (auto simp: on_failure_def split: prod.splits option.splits)

lemma closing_Some:
  "closing m w = (Some x, w') \<longleftrightarrow> (\<exists>v. m w = (Some x, v) \<and> sys_touch v = (Inr (), w'))"
  by (auto simp: closing_def split: prod.splits sum.splits)

lemma closing_quietly_Some: "closing_quietly m w = (Some x, w') \<Longrightarrow> \<exists>v. m w = (Some x, v)"
  by (cases "m w") (simp add: closing_quietly_def)

lemmas act_Some = bind_act_Some then_act_Some ok_Some require_Some ret_Some asks_Some stop_Some
  on_failure_Some closing_Some

lemma faulty_Inr: "faulty part call w = (Inr x, w') \<Longrightarrow> \<exists>fs. call (w\<lparr> faults := fs \<rparr>) = (Inr x, w')"
  unfolding faulty_def
  by (auto split: list.splits outcome.splits) (metis world.surjective world.update_convs(5))

lemma faulty_Inl: "faulty part call w = (Inl e, w') \<Longrightarrow> e \<noteq> EOTHER \<Longrightarrow> \<exists>fs. call (w\<lparr> faults := fs \<rparr>) = (Inl e, w')"
  unfolding faulty_def
  by (auto split: list.splits outcome.splits) (metis world.surjective world.update_convs(5))

text \<open>Worlds that differ only in the faults to come.\<close>

definition same_files :: "world \<Rightarrow> world \<Rightarrow> bool" where
  "same_files w w' \<longleftrightarrow> same_process w w' \<and> (\<forall>q. file_at w' q = file_at w q)"

lemma touches_none: "touches (\<lambda>q. False) w w' \<longleftrightarrow> same_files w w'"
  by (simp add: touches_def same_files_def)

lemma same_files_at: "same_files w w' \<Longrightarrow> file_at w' q = file_at w q"
  by (simp add: same_files_def)

lemma sys_touch_success: "sys_touch w = (r, w') \<Longrightarrow> same_files w w'"
  using framedD [OF framed_reads(4) [of "\<lambda>q. False"]] by (simp add: touches_none)

lemma sys_lstat_success: "sys_lstat p w = (Inr i, w') \<Longrightarrow> file_at w p = Some i \<and> same_files w w'"
  unfolding sys_lstat_def
  by (drule faulty_Inr) (auto simp: same_files_def same_process_def split: option.splits)

lemma sys_readlink_success:
  "sys_readlink p w = (Inr t, w') \<Longrightarrow>
   (\<exists>i. file_at w p = Some i \<and> st_kind i = S_IFLNK \<and> st_data i = t) \<and> same_files w w'"
  unfolding sys_readlink_def
  by (drule faulty_Inr) (auto simp: same_files_def same_process_def split: option.splits if_splits)

lemma sys_open_read_success:
  "sys_open_read p w = (Inr i, w') \<Longrightarrow> file_at w p = Some i \<and> st_kind i \<noteq> S_IFLNK \<and> same_files w w'"
  unfolding sys_open_read_def
  by (drule faulty_Inr) (auto simp: same_files_def same_process_def split: option.splits if_splits)

lemma probe_success:
  "probe p w = (Some r, w') \<Longrightarrow> r = file_at w p \<and> same_files w w'"
proof -
  assume a: "probe p w = (Some r, w')"
  obtain x v where x: "sys_lstat p w = (x, v)" by (cases "sys_lstat p w")
  show ?thesis
  proof (cases x)
    case (Inl e)
    with a x have "e = ENOENT" "r = None" "v = w'"
      by (auto simp: probe_def act_defs split: if_splits)
    with x Inl show ?thesis
      unfolding sys_lstat_def
      by (auto dest!: faulty_Inl simp: same_files_def same_process_def split: option.splits)
  next
    case (Inr i)
    with a x have "r = Some i" "v = w'" by (auto simp: probe_def act_defs)
    with sys_lstat_success [of p w i v] x Inr show ?thesis by simp
  qed
qed

lemma sys_create_success:
  "sys_create p mode w = (Inr (), w') \<Longrightarrow> file_at w p = None \<and> same_process w w' \<and>
   (\<forall>q. file_at w' q = (if q = p then Some \<lparr> st_kind = S_IFREG, st_mode = mode, st_uid = euid w,
      st_nlink = 1, st_data = [], st_ino = 0 \<rparr> else file_at w q))"
  unfolding sys_create_def
  by (drule faulty_Inr) (auto simp: same_process_def split: if_splits)

lemma sys_symlink_success:
  "sys_symlink t p w = (Inr (), w') \<Longrightarrow> file_at w p = None \<and> same_process w w' \<and>
   (\<forall>q. file_at w' q = (if q = p then Some \<lparr> st_kind = S_IFLNK, st_mode = 511, st_uid = euid w,
      st_nlink = 1, st_data = t, st_ino = 0 \<rparr> else file_at w q))"
  unfolding sys_symlink_def
  by (drule faulty_Inr) (auto simp: same_process_def split: if_splits)

lemma sys_mkdir_success:
  "sys_mkdir p mode w = (Inr (), w') \<Longrightarrow> file_at w p = None \<and> same_process w w' \<and>
   (\<forall>q. file_at w' q = (if q = p then Some \<lparr> st_kind = S_IFDIR, st_mode = mode, st_uid = euid w,
      st_nlink = 2, st_data = [], st_ino = fresh_ino w \<rparr> else file_at w q))"
  unfolding sys_mkdir_def
  by (drule faulty_Inr) (auto simp: same_process_def split: if_splits)

lemma sys_chmod_success:
  "sys_chmod p mode w = (Inr (), w') \<Longrightarrow> \<exists>i. file_at w p = Some i \<and> same_process w w' \<and>
   (\<forall>q. file_at w' q = (if q = p then Some (i\<lparr> st_mode := mode \<rparr>) else file_at w q))"
  unfolding sys_chmod_def
  by (drule faulty_Inr) (auto simp: same_process_def split: option.splits)

lemma sys_write_success:
  "sys_write p data w = (Inr (), w') \<Longrightarrow> file_at w p = Some i \<Longrightarrow> same_process w w' \<and>
   (\<forall>q. file_at w' q = (if q = p then Some (i\<lparr> st_data := st_data i @ data \<rparr>) else file_at w q))"
  unfolding sys_write_def
  by (drule faulty_Inr) (auto simp: same_process_def append_data_def)

lemma sys_rename_success:
  assumes "sys_rename s d w = (Inr (), w')" and "s \<noteq> d"
  shows "\<not> under s d \<and> \<not> under d s \<and> (\<exists>i. file_at w s = Some i) \<and> same_process w w' \<and>
   (\<forall>q. file_at w' q = (if under d q then file_at w (s @ drop (length d) q)
                         else if under s q then None else file_at w q))"
proof -
  from assms obtain fs i where
    i: "file_at w s = Some i" and "\<not> under s d" "\<not> under d s"
    and w': "w' = move_file s d (w\<lparr> faults := fs \<rparr>)"
    unfolding sys_rename_def by (auto dest!: faulty_Inr split: option.splits if_split_asm)
  then show ?thesis by (simp add: w' same_process_def file_at_move)
qed

text \<open>A failing call of those that are not writes leaves the files alone.\<close>

lemma faulty_Inl_same:
  assumes "\<And>w e w'. call w = (Inl e, w') \<Longrightarrow> w' = w"
  shows "faulty (\<lambda>k w. w) call w = (Inl e, w') \<Longrightarrow> same_files w w'"
  unfolding faulty_def
  by (auto simp: same_files_def same_process_def dest!: assms split: list.splits outcome.splits)

lemma sys_rename_failure: "sys_rename s d w = (Inl e, w') \<Longrightarrow> same_files w w'"
  unfolding sys_rename_def
  by (erule faulty_Inl_same [rotated]) (auto split: option.splits if_splits)

lemma sys_mkdir_failure:
  "sys_mkdir p mode w = (Inl e, w') \<Longrightarrow> same_files w w' \<and> (e = EEXIST \<longrightarrow> file_at w p \<noteq> None)"
proof -
  assume a: "sys_mkdir p mode w = (Inl e, w')"
  then have "same_files w w'"
    unfolding sys_mkdir_def by (erule_tac faulty_Inl_same [rotated]) (auto split: if_splits)
  moreover have "file_at w p \<noteq> None" if "e = EEXIST"
    using a that unfolding sys_mkdir_def by (auto dest!: faulty_Inl split: if_splits)
  ultimately show ?thesis by simp
qed

lemma sys_unlink_result:
  "sys_unlink p w = (r, w') \<Longrightarrow>
   (r = Inr () \<and> file_at w' p = None) \<or> (r = Inl ENOENT \<and> file_at w p = None \<and> same_files w w') \<or>
   (r = Inl EOTHER \<and> same_files w w')"
  unfolding sys_unlink_def faulty_def
  by (auto simp: same_files_def same_process_def split: list.splits outcome.splits option.splits if_splits)

section \<open>secure\_file.c\<close>

definition C1_SECURE_PATH_MAX :: nat where "C1_SECURE_PATH_MAX = 4096"

definition tmp_name :: "string \<Rightarrow> nat \<Rightarrow> nat \<Rightarrow> string" where
  "tmp_name path process attempt = path @ ''.tmp.'' @ dec process @ ''.'' @ dec attempt"

text \<open>The exact size is an option: \<open>None\<close> is \<open>C1_SECURE_FILE_ANY_SIZE\<close>.\<close>

definition c1_secure_read_file :: "string \<Rightarrow> nat \<Rightarrow> nat option \<Rightarrow> string act" where
  "c1_secure_read_file path maximum_size exact_size =
     then_act (require (\<forall>n \<in> set_option exact_size. n \<le> maximum_size))
     (bind_act (ok (sys_open_read path)) (\<lambda>information.
        closing
         (then_act (ok sys_touch)
         (then_act (require (st_kind information = S_IFREG \<and> st_nlink information = 1 \<and>
                             st_mode information AND 18 = 0 \<and>
                             length (st_data information) \<le> maximum_size))
         (then_act (require (\<forall>n \<in> set_option exact_size. length (st_data information) = n))
         (then_act (ok sys_touch)
         (ret (st_data information))))))))"

definition c1_secure_sync_directory :: "string \<Rightarrow> unit act" where
  "c1_secure_sync_directory path =
     bind_act (ok (sys_open_read path)) (\<lambda>information.
       closing
        (then_act (ok sys_touch)
        (then_act (require (st_kind information = S_IFDIR))
        (ok sys_touch))))"

definition c1_secure_atomic_write :: "string \<Rightarrow> string \<Rightarrow> nat \<Rightarrow> unit act" where
  "c1_secure_atomic_write path data mode =
     then_act (require (mode \<le> 511 \<and> path \<noteq> [] \<and> length path < C1_SECURE_PATH_MAX))
     (bind_act (asks pid) (\<lambda>process.
      bind_act (attempt_names 128 0 (\<lambda>attempt w.
          if length (tmp_name path process attempt) \<ge> C1_SECURE_PATH_MAX then (Inl EOTHER, w)
          else sys_create (tmp_name path process attempt) mode w)) (\<lambda>attempt.
      let temporary = tmp_name path process attempt in
      then_act (require (attempt < 128))
      (then_act (on_failure (then_act (ok (sys_chmod temporary mode))
                            (then_act (ok (sys_write temporary data)) (ok sys_touch)))
                  (then_act (ignore sys_touch) (ignore (sys_unlink temporary))))
      (then_act (on_failure (ok sys_touch) (ignore (sys_unlink temporary)))
      (then_act (on_failure (ok (sys_rename temporary path)) (ignore (sys_unlink temporary)))
      (c1_secure_sync_directory (parent_directory path))))))))"


section \<open>Assertions over all outcomes\<close>

text \<open>From a world with \<open>P\<close>, success ends with \<open>Q\<close> and failure, or the loss of power, with \<open>E\<close>.\<close>

definition hoare :: "(world \<Rightarrow> bool) \<Rightarrow> 'a act \<Rightarrow> ('a \<Rightarrow> world \<Rightarrow> bool) \<Rightarrow> (world \<Rightarrow> bool) \<Rightarrow> bool" where
  "hoare P m Q E \<longleftrightarrow>
     (\<forall>w r w'. P w \<longrightarrow> m w = (r, w') \<longrightarrow> (case r of None \<Rightarrow> E w' | Some x \<Rightarrow> Q x w'))"

definition stable :: "(string \<Rightarrow> bool) \<Rightarrow> (world \<Rightarrow> bool) \<Rightarrow> bool" where
  "stable S P \<longleftrightarrow> (\<forall>w w'. touches S w w' \<longrightarrow> P w \<longrightarrow> P w')"

lemma stable_conj: "stable S P \<Longrightarrow> stable S Q \<Longrightarrow> stable S (\<lambda>w. P w \<and> Q w)"
  by (auto simp: stable_def)

lemma stable_subset: "stable S P \<Longrightarrow> (\<And>q. T q \<Longrightarrow> S q) \<Longrightarrow> stable T P"
  unfolding stable_def by (metis touches_mono)

lemma stable_points: "\<not> S p \<Longrightarrow> stable S (\<lambda>w. F (file_at w p))"
  by (simp add: stable_def touches_def)

lemma stable_same_files: "stable S P \<Longrightarrow> same_files w w' \<Longrightarrow> P w \<Longrightarrow> P w'"
  by (auto simp: stable_def same_files_def touches_def)

lemma hoareD: "hoare P m Q E \<Longrightarrow> P w \<Longrightarrow> m w = (r, w') \<Longrightarrow> (case r of None \<Rightarrow> E w' | Some x \<Rightarrow> Q x w')"
  unfolding hoare_def by blast

lemma hoare_weaken:
  assumes "hoare P m Q E" and "\<And>w. P' w \<Longrightarrow> P w"
    and "\<And>x w. Q x w \<Longrightarrow> Q' x w" and "\<And>w. E w \<Longrightarrow> E' w"
  shows "hoare P' m Q' E'"
  unfolding hoare_def
proof (intro allI impI)
  fix w r w' assume "P' w" "m w = (r, w')"
  with assms(1,2) have "case r of None \<Rightarrow> E w' | Some x \<Rightarrow> Q x w'" by (blast dest: hoareD)
  with assms(3,4) show "case r of None \<Rightarrow> E' w' | Some x \<Rightarrow> Q' x w'" by (cases r) auto
qed

lemma hoare_bind:
  assumes "hoare P m R E" and "\<And>x. hoare (R x) (k x) Q E"
  shows "hoare P (bind_act m k) Q E"
  unfolding hoare_def
proof (intro allI impI)
  fix w r w' assume "P w" "bind_act m k w = (r, w')"
  obtain s v where m: "m w = (s, v)" by (cases "m w")
  with assms(1) \<open>P w\<close> have "case s of None \<Rightarrow> E v | Some x \<Rightarrow> R x v" by (rule hoareD)
  with \<open>bind_act m k w = (r, w')\<close> m assms(2) show "case r of None \<Rightarrow> E w' | Some x \<Rightarrow> Q x w'"
    by (cases s) (auto simp: bind_act_def dest: hoareD)
qed

lemma hoare_seq:
  assumes "hoare P m R E'" and "\<And>x. hoare (R x) (k x) Q E" and "\<And>w. E' w \<Longrightarrow> E w"
  shows "hoare P (bind_act m k) Q E"
  by (rule hoare_bind [OF hoare_weaken [OF assms(1)] assms(2)]) (auto intro: assms(3))

lemma hoare_then:
  assumes "hoare P m (\<lambda>x. R) E" and "hoare R k Q E"
  shows "hoare P (then_act m k) Q E"
  unfolding then_act_def using assms by (rule hoare_bind)

lemma hoare_step:
  assumes "framed S m" and "stable S P"
    and "\<And>w x w'. P w \<Longrightarrow> R w \<Longrightarrow> m w = (Some x, w') \<Longrightarrow> Q x w'"
  shows "hoare (\<lambda>w. P w \<and> R w) m (\<lambda>x w. P w \<and> Q x w) P"
  unfolding hoare_def
proof (intro allI impI)
  fix w r w' assume "P w \<and> R w" "m w = (r, w')"
  with assms(1) have "touches S w w'" by (blast dest: framedD)
  with assms(2) \<open>P w \<and> R w\<close> have "P w'" by (auto simp: stable_def)
  with \<open>P w \<and> R w\<close> \<open>m w = (r, w')\<close> assms(3)
  show "case r of None \<Rightarrow> P w' | Some x \<Rightarrow> P w' \<and> Q x w'"
    by (cases r) auto
qed

lemma hoare_stable:
  assumes "framed S m" and "stable S P" and "\<And>w x w'. P w \<Longrightarrow> m w = (Some x, w') \<Longrightarrow> Q x w'"
  shows "hoare P m (\<lambda>x w. P w \<and> Q x w) P"
  using hoare_step [OF assms(1,2), of "\<lambda>_. True" Q] assms(3) by simp

lemma hoare_keep:
  assumes "framed S m" and "stable S P"
  shows "hoare P m (\<lambda>x. P) P"
  using hoare_stable [OF assms, of "\<lambda>_ _. True"] by simp

lemma hoare_ret: "hoare (Q x) (ret x) Q E"
  by (auto simp: hoare_def ret_def)

lemma hoare_require: "hoare P (require b) (\<lambda>_ w. P w \<and> b) P"
  by (auto simp: hoare_def require_def)

lemma hoare_on_failure:
  assumes "hoare P m Q E" and "framed S c" and "stable S E"
  shows "hoare P (on_failure m c) Q E"
  unfolding hoare_def
proof (intro allI impI)
  fix w r w' assume "P w" and run: "on_failure m c w = (r, w')"
  obtain x v where m: "m w = (x, v)" by (cases "m w")
  from hoareD [OF assms(1) \<open>P w\<close> m] show "case r of None \<Rightarrow> E w' | Some x \<Rightarrow> Q x w'"
  proof (cases x)
    case None
    have "touches S v (snd (c v))" using assms(2) by (simp add: framed_def)
    moreover have "E v" using hoareD [OF assms(1) \<open>P w\<close> m] None by simp
    ultimately have "E (snd (c v))" using assms(3) by (auto simp: stable_def)
    with run m None show ?thesis by (auto simp: on_failure_def)
  qed (use run m in \<open>auto simp: on_failure_def\<close>)
qed

section \<open>What the file primitives guarantee\<close>

lemma framed_read_file [frames]: "framed S (c1_secure_read_file p m e)"
  unfolding c1_secure_read_file_def by (intro frames)

lemma framed_sync_directory [frames]: "framed S (c1_secure_sync_directory p)"
  unfolding c1_secure_sync_directory_def by (intro frames)

lemma same_files_refl [simp]: "same_files w w"
  by (simp add: same_files_def same_process_def)

lemma same_files_trans: "same_files u v \<Longrightarrow> same_files v w \<Longrightarrow> same_files u w"
  by (auto simp: same_files_def same_process_def)

lemma framed_same_files: "framed (\<lambda>q. False) m \<Longrightarrow> m w = (r, w') \<Longrightarrow> same_files w w'"
  by (metis framedD touches_none)

lemma sync_directory_same: "c1_secure_sync_directory p w = (r, w') \<Longrightarrow> same_files w w'"
  by (rule framed_same_files [OF framed_sync_directory])

lemma read_file_success:
  assumes "c1_secure_read_file p m e w = (Some d, w')"
  shows "same_files w w' \<and> length d \<le> m \<and> (\<forall>n \<in> set_option e. length d = n) \<and>
    (\<exists>i. file_at w p = Some i \<and> st_kind i = S_IFREG \<and> st_nlink i = 1 \<and>
         st_mode i AND 18 = 0 \<and> st_data i = d)"
proof -
  have "same_files w w'" by (rule framed_same_files [OF framed_read_file assms])
  with assms show ?thesis
    by (auto simp: c1_secure_read_file_def act_Some dest!: sys_open_read_success)
qed

lemma attempt_names_success:
  "attempt_names n i call w = (Some k, w') \<Longrightarrow> k < i + n \<Longrightarrow> \<exists>v. call k v = (Inr (), w')"
proof (induction n arbitrary: i w)
  case 0
  then show ?case by simp
next
  case (Suc n)
  obtain r v where c: "call i w = (r, v)" by (cases "call i w")
  with Suc show ?case by (cases r) (auto split: if_splits)
qed

lemma attempt_names_bound: "attempt_names n i call w = (Some k, w') \<Longrightarrow> i \<le> k \<and> k \<le> i + n"
proof (induction n arbitrary: i w)
  case 0
  then show ?case by simp
next
  case (Suc n)
  obtain r v where c: "call i w = (r, v)" by (cases "call i w")
  with Suc show ?case by (cases r) (fastforce split: if_splits)+
qed

text \<open>The names the writer may use besides the target.\<close>

definition tmp_of :: "string \<Rightarrow> string \<Rightarrow> bool" where
  "tmp_of path q \<longleftrightarrow> (\<exists>process attempt. under (tmp_name path process attempt) q)"

definition written :: "nat \<Rightarrow> nat \<Rightarrow> string \<Rightarrow> inode" where
  "written owner mode data =
     \<lparr> st_kind = S_IFREG, st_mode = mode, st_uid = owner, st_nlink = 1, st_data = data, st_ino = 0 \<rparr>"

lemma tmp_name_not_under: "\<not> under (tmp_name p k i) p"
  by (auto simp: under_iff tmp_name_def)

lemma not_under_tmp_name: "\<not> under p (tmp_name p k i)"
  by (auto simp: under_iff tmp_name_def)

lemma under_tmp_name: "under (tmp_name p k i) q \<Longrightarrow> tmp_of p q"
  by (auto simp: tmp_of_def)

lemma tmp_of_not_self: "\<not> tmp_of p p"
  by (simp add: tmp_of_def tmp_name_not_under)

lemma atomic_write_framed [frames]:
  assumes "\<And>q. under path q \<or> tmp_of path q \<Longrightarrow> S q"
  shows "framed S (c1_secure_atomic_write path data mode)"
proof -
  have tmp: "S (tmp_name path k i)" for k i
    using assms under_tmp_name [OF under_self] by blast
  have call: "framed S (\<lambda>w. if C1_SECURE_PATH_MAX \<le> length (tmp_name path k i) then (Inl EOTHER, w)
      else sys_create (tmp_name path k i) mode w)" for k i
    using framed_sys(3) [of S "tmp_name path k i" mode, OF tmp] by (simp add: framed_def)
  show ?thesis
    unfolding c1_secure_atomic_write_def
    by (intro frames call tmp) (use assms under_tmp_name in blast)+
qed

lemma atomic_write_hoare:
  "hoare (\<lambda>w. file_at w path = old \<and> euid w = owner)
     (c1_secure_atomic_write path data mode)
     (\<lambda>_ w. file_at w path = Some (written owner mode data))
     (\<lambda>w. file_at w path = old \<or> file_at w path = Some (written owner mode data))"
proof -
  let ?S = "tmp_of path"
  let ?P = "\<lambda>w. file_at w path = old \<and> euid w = owner"
  have P: "stable ?S ?P"
    using tmp_of_not_self by (auto simp: stable_def touches_def same_process_def)
  have S: "?S (tmp_name path k i)" for k i
    by (rule under_tmp_name [OF under_self])
  let ?call = "\<lambda>k i w. if C1_SECURE_PATH_MAX \<le> length (tmp_name path k i) then (Inl EOTHER, w)
      else sys_create (tmp_name path k i) mode w"
  have call: "framed ?S (?call k i)" for k i
    using framed_sys(3) [of ?S "tmp_name path k i" mode, OF S] by (simp add: framed_def)
  have names: "hoare ?P (attempt_names 128 0 (?call k))
      (\<lambda>i w. ?P w \<and> (i < 128 \<longrightarrow> file_at w (tmp_name path k i) = Some (written (euid w) mode []))) ?P" for k
  proof (rule hoare_stable [where S = ?S])
    show "framed ?S (attempt_names 128 0 (?call k))" by (intro frames call)
    show "stable ?S ?P" by (rule P)
    show "i < 128 \<longrightarrow> file_at w' (tmp_name path k i) = Some (written (euid w') mode [])"
      if "attempt_names 128 0 (?call k) w = (Some i, w')" for w w' i
      using attempt_names_success [OF that]
      by (auto simp: written_def same_process_def dest!: sys_create_success split: if_splits)
  qed
  have fill: "hoare (\<lambda>w. ?P w \<and> file_at w (tmp_name path k i) = Some (written owner mode []))
      (on_failure (then_act (ok (sys_chmod (tmp_name path k i) mode))
         (then_act (ok (sys_write (tmp_name path k i) data)) (ok sys_touch)))
       (then_act (ignore sys_touch) (ignore (sys_unlink (tmp_name path k i)))))
      (\<lambda>_ w. ?P w \<and> file_at w (tmp_name path k i) = Some (written owner mode data)) ?P" for k i
  proof (rule hoare_step [where S = ?S])
    show "stable ?S ?P" by (rule P)
    fix w x w'
    assume "file_at w (tmp_name path k i) = Some (written owner mode [])"
      and "on_failure (then_act (ok (sys_chmod (tmp_name path k i) mode))
         (then_act (ok (sys_write (tmp_name path k i) data)) (ok sys_touch)))
       (then_act (ignore sys_touch) (ignore (sys_unlink (tmp_name path k i)))) w = (Some x, w')"
    then obtain u v where start: "file_at w (tmp_name path k i) = Some (written owner mode [])"
      and c: "sys_chmod (tmp_name path k i) mode w = (Inr (), u)"
      and d: "sys_write (tmp_name path k i) data u = (Inr (), v)"
      and e: "sys_touch v = (Inr (), w')"
      by (auto simp: act_Some)
    from sys_chmod_success [OF c] start have "file_at u (tmp_name path k i) = Some (written owner mode [])"
      by (auto simp: written_def)
    from sys_write_success [OF d this] sys_touch_success [OF e]
    show "file_at w' (tmp_name path k i) = Some (written owner mode data)"
      by (simp add: same_files_at written_def)
  qed (intro frames S)
  have shut: "hoare (\<lambda>w. ?P w \<and> file_at w (tmp_name path k i) = Some (written owner mode data))
      (on_failure (ok sys_touch) (ignore (sys_unlink (tmp_name path k i))))
      (\<lambda>_ w. ?P w \<and> file_at w (tmp_name path k i) = Some (written owner mode data)) ?P" for k i
    by (rule hoare_step [where S = ?S])
       (intro frames S, rule P, auto simp: act_Some same_files_def dest!: sys_touch_success)
  have switch: "hoare (\<lambda>w. ?P w \<and> file_at w (tmp_name path k i) = Some (written owner mode data))
      (on_failure (ok (sys_rename (tmp_name path k i) path)) (ignore (sys_unlink (tmp_name path k i))))
      (\<lambda>_ w. file_at w path = Some (written owner mode data)) ?P" for k i
    unfolding hoare_def
  proof (intro allI impI)
    fix w r w'
    assume pre: "?P w \<and> file_at w (tmp_name path k i) = Some (written owner mode data)"
      and run: "on_failure (ok (sys_rename (tmp_name path k i) path))
        (ignore (sys_unlink (tmp_name path k i))) w = (r, w')"
    have ne: "tmp_name path k i \<noteq> path" by (simp add: tmp_name_def)
    show "case r of None \<Rightarrow> ?P w' | Some x \<Rightarrow> file_at w' path = Some (written owner mode data)"
    proof (cases r)
      case None
      then obtain e v where v: "sys_rename (tmp_name path k i) path w = (Inl e, v)"
          and w': "w' = snd (ignore (sys_unlink (tmp_name path k i)) v)"
        using run by (auto simp: on_failure_def ok_def split: prod.splits option.splits sum.splits)
      have "?P v" using sys_rename_failure [OF v] pre by (simp add: same_files_def same_process_def)
      moreover have "touches ?S v w'"
        unfolding w' using framed_ignore [OF framed_sys(6) [of ?S, OF S]] by (simp add: framed_def)
      ultimately have "?P w'" using P unfolding stable_def by blast
      with None show ?thesis by simp
    next
      case (Some x)
      with run have "sys_rename (tmp_name path k i) path w = (Inr (), w')" by (simp add: act_Some)
      from sys_rename_success [OF this ne] pre Some show ?thesis by simp
    qed
  qed
  have sync: "hoare (\<lambda>w. file_at w path = Some (written owner mode data))
      (c1_secure_sync_directory (parent_directory path))
      (\<lambda>_ w. file_at w path = Some (written owner mode data))
      (\<lambda>w. file_at w path = old \<or> file_at w path = Some (written owner mode data))"
    by (rule hoare_weaken [OF hoare_keep [where P = "\<lambda>w. file_at w path = Some (written owner mode data)",
          OF framed_sync_directory [of "\<lambda>q. False"]]])
       (auto simp: stable_def touches_def)
  have limit: "hoare (\<lambda>w. ?P w \<and> (i < 128 \<longrightarrow> file_at w (tmp_name path k i) = Some (written (euid w) mode [])))
      (require (i < 128)) (\<lambda>_ w. ?P w \<and> file_at w (tmp_name path k i) = Some (written owner mode [])) ?P" for k i
    by (auto simp: hoare_def require_def)
  have envelope: "hoare ?P (require b) (\<lambda>_. ?P) ?P" for b
    by (auto simp: hoare_def require_def)
  have process: "hoare ?P (asks pid) (\<lambda>_. ?P) ?P"
    by (auto simp: hoare_def asks_def)
  show ?thesis
    unfolding c1_secure_atomic_write_def Let_def then_act_def
    by (rule hoare_seq [OF envelope], rule hoare_seq [OF process], rule hoare_seq [OF names],
        rule hoare_seq [OF limit], rule hoare_seq [OF fill [unfolded then_act_def]],
        rule hoare_seq [OF shut], rule hoare_seq [OF switch], rule sync) simp_all
qed


lemma atomic_write_result:
  "case c1_secure_atomic_write path data mode w of (r, w') \<Rightarrow>
     (if r = None
      then file_at w' path \<in> {file_at w path, Some (written (euid w) mode data)}
      else file_at w' path = Some (written (euid w) mode data)) \<and>
     (\<forall>q. under path q \<or> tmp_of path q \<or> file_at w' q = file_at w q)"
proof -
  obtain r w' where run: "c1_secure_atomic_write path data mode w = (r, w')"
    by (cases "c1_secure_atomic_write path data mode w")
  from hoareD [OF atomic_write_hoare _ run, of "file_at w path" "euid w"]
  have "if r = None
      then file_at w' path \<in> {file_at w path, Some (written (euid w) mode data)}
      else file_at w' path = Some (written (euid w) mode data)"
    by (auto split: option.splits)
  moreover have "framed (\<lambda>q. under path q \<or> tmp_of path q) (c1_secure_atomic_write path data mode)"
    by (rule atomic_write_framed) simp
  then have "touches (\<lambda>q. under path q \<or> tmp_of path q) w w'"
    using run by (rule framedD)
  ultimately show ?thesis by (auto simp: run touches_def)
qed

text \<open>C8. Atomic replacement is all or nothing under every pattern of faults: whatever system call
  fails, and wherever the power is lost, the target is either as it was or the complete new
  file with the requested mode; when the call reports success it is the new file; and nothing
  else than the target and its temporary names has changed.\<close>

theorem atomic_write_all_or_nothing:
  "case c1_secure_atomic_write path data mode w of (r, w') \<Rightarrow>
     (if r = None
      then file_at w' path \<in> {file_at w path, Some (written (euid w) mode data)}
      else file_at w' path = Some (written (euid w) mode data)) \<and>
     (\<forall>q. under path q \<or> tmp_of path q \<or> file_at w' q = file_at w q)"
  by (rule atomic_write_result)

end
