(* ===== verification/Sha256.thy ===== *)
theory Sha256
  imports SecureFile
begin

text \<open>
  SHA-256 as \<open>src/C1ancher/src/security/sha256.c\<close> computes it: 32-bit words with wrap-around, the
  buffered context that takes its input in pieces of any size, the padding, and hashing of a file.
  The theorem says that the pieces do not matter: every sequence of updates gives the hash of the
  concatenation, which is the one-shot definition over padded blocks.
\<close>

unbundle bit_operations_syntax

type_synonym word32 = "32 word"

definition rotate_right :: "word32 \<Rightarrow> nat \<Rightarrow> word32" where
  "rotate_right value count = (drop_bit count value) OR (push_bit (32 - count) value)"

definition load_be32 :: "string \<Rightarrow> word32" where
  "load_be32 data =
     (push_bit 24 (of_nat (byte (data ! 0)))) OR (push_bit 16 (of_nat (byte (data ! 1)))) OR
     (push_bit 8 (of_nat (byte (data ! 2)))) OR of_nat (byte (data ! 3))"

definition byte_of_word :: "word32 \<Rightarrow> char" where
  "byte_of_word w = char_of (unat (w AND 255))"

definition store_be32 :: "word32 \<Rightarrow> string" where
  "store_be32 value =
     [byte_of_word (drop_bit 24 value), byte_of_word (drop_bit 16 value),
      byte_of_word (drop_bit 8 value), byte_of_word value]"

definition constants :: "word32 list" where
  "constants =
    concat
      [[0x428a2f98,0x71374491,0xb5c0fbcf,0xe9b5dba5,0x3956c25b,0x59f111f1,0x923f82a4,0xab1c5ed5],
       [0xd807aa98,0x12835b01,0x243185be,0x550c7dc3,0x72be5d74,0x80deb1fe,0x9bdc06a7,0xc19bf174],
       [0xe49b69c1,0xefbe4786,0x0fc19dc6,0x240ca1cc,0x2de92c6f,0x4a7484aa,0x5cb0a9dc,0x76f988da],
       [0x983e5152,0xa831c66d,0xb00327c8,0xbf597fc7,0xc6e00bf3,0xd5a79147,0x06ca6351,0x14292967],
       [0x27b70a85,0x2e1b2138,0x4d2c6dfc,0x53380d13,0x650a7354,0x766a0abb,0x81c2c92e,0x92722c85],
       [0xa2bfe8a1,0xa81a664b,0xc24b8b70,0xc76c51a3,0xd192e819,0xd6990624,0xf40e3585,0x106aa070],
       [0x19a4c116,0x1e376c08,0x2748774c,0x34b0bcb5,0x391c0cb3,0x4ed8aa4a,0x5b9cca4f,0x682e6ff3],
       [0x748f82ee,0x78a5636f,0x84c87814,0x8cc70208,0x90befffa,0xa4506ceb,0xbef9a3f7,0xc67178f2]]"

text \<open>The message schedule: sixteen words of the block and forty-eight computed ones.\<close>

fun extend_words :: "nat \<Rightarrow> nat \<Rightarrow> word32 list \<Rightarrow> word32 list" where
  "extend_words 0 i words = words"
| "extend_words (Suc n) i words =
     (let s0 = rotate_right (words ! (i - 15)) 7 XOR rotate_right (words ! (i - 15)) 18 XOR
               drop_bit 3 (words ! (i - 15));
          s1 = rotate_right (words ! (i - 2)) 17 XOR rotate_right (words ! (i - 2)) 19 XOR
               drop_bit 10 (words ! (i - 2))
      in extend_words n (i + 1) (words @ [words ! (i - 16) + s0 + words ! (i - 7) + s1]))"

definition schedule :: "string \<Rightarrow> word32 list" where
  "schedule block =
     extend_words 48 16 (map (\<lambda>i. load_be32 (drop (i * 4) block)) [0..<16])"

record registers =
  ra :: word32
  rb :: word32
  rc :: word32
  rd :: word32
  re :: word32
  rf :: word32
  rg :: word32
  rh :: word32

definition sha_round :: "word32 \<Rightarrow> word32 \<Rightarrow> registers \<Rightarrow> registers" where
  "sha_round const word r =
     (let s1 = rotate_right (re r) 6 XOR rotate_right (re r) 11 XOR rotate_right (re r) 25;
          choice = (re r AND rf r) XOR ((NOT (re r)) AND rg r);
          temporary1 = rh r + s1 + choice + const + word;
          s0 = rotate_right (ra r) 2 XOR rotate_right (ra r) 13 XOR rotate_right (ra r) 22;
          majority = (ra r AND rb r) XOR (ra r AND rc r) XOR (rb r AND rc r);
          temporary2 = s0 + majority
      in \<lparr> ra = temporary1 + temporary2, rb = ra r, rc = rb r, rd = rc r,
           re = rd r + temporary1, rf = re r, rg = rf r, rh = rg r \<rparr>)"

definition transform :: "word32 list \<Rightarrow> string \<Rightarrow> word32 list" where
  "transform state block =
     (let start = \<lparr> ra = state ! 0, rb = state ! 1, rc = state ! 2, rd = state ! 3,
                     re = state ! 4, rf = state ! 5, rg = state ! 6, rh = state ! 7 \<rparr>;
          r = fold (\<lambda>(const, word). sha_round const word) (zip constants (schedule block)) start
      in [state ! 0 + ra r, state ! 1 + rb r, state ! 2 + rc r, state ! 3 + rd r,
          state ! 4 + re r, state ! 5 + rf r, state ! 6 + rg r, state ! 7 + rh r])"

section \<open>The context\<close>

record c1_sha256_context =
  sha_state :: "word32 list"
  sha_length :: nat
  sha_block :: string
  sha_used :: nat

definition nul :: char where "nul = CHR 0x00"

definition initial_state :: "word32 list" where
  "initial_state = [0x6a09e667, 0xbb67ae85, 0x3c6ef372, 0xa54ff53a, 0x510e527f, 0x9b05688c,
                    0x1f83d9ab, 0x5be0cd19]"

definition c1_sha256_init :: c1_sha256_context where
  "c1_sha256_init = \<lparr> sha_state = initial_state, sha_length = 0, sha_block = replicate 64 nul,
                       sha_used = 0 \<rparr>"

text \<open>\<open>memcpy\<close> and \<open>memset\<close> into the block.\<close>

definition copy_at :: "nat \<Rightarrow> string \<Rightarrow> string \<Rightarrow> string" where
  "copy_at offset source block = take offset block @ source @ drop (offset + length source) block"

text \<open>The loop body of the update runs while input is left; the buffer is never full between turns.\<close>

function absorb :: "c1_sha256_context \<Rightarrow> string \<Rightarrow> c1_sha256_context" where
  "absorb c bytes =
     (if bytes = [] \<or> sha_used c \<ge> 64 then c
      else
        let amount = min (64 - sha_used c) (length bytes);
            c1 = c\<lparr> sha_block := copy_at (sha_used c) (take amount bytes) (sha_block c),
                    sha_used := sha_used c + amount \<rparr>;
            c2 = (if sha_used c1 = 64
                  then c1\<lparr> sha_state := transform (sha_state c1) (sha_block c1), sha_used := 0 \<rparr>
                  else c1)
        in absorb c2 (drop amount bytes))"
  by pat_completeness auto
termination by (relation "measure (\<lambda>(c, bytes). length bytes)") auto

declare absorb.simps [simp del]

definition c1_sha256_update :: "c1_sha256_context \<Rightarrow> string \<Rightarrow> c1_sha256_context" where
  "c1_sha256_update c data =
     absorb (c\<lparr> sha_length := (sha_length c + length data) mod 2 ^ 64 \<rparr>) data"

text \<open>The eight bytes of the bit count, most significant first.\<close>

definition be64 :: "nat \<Rightarrow> string" where
  "be64 bits = map (\<lambda>i. char_of ((bits div 2 ^ (8 * (7 - i))) mod 256)) [0..<8]"

definition digest_bytes :: "word32 list \<Rightarrow> string" where
  "digest_bytes state = concat (map store_be32 state)"

definition c1_sha256_final :: "c1_sha256_context \<Rightarrow> string" where
  "c1_sha256_final c =
     (let bits = (sha_length c * 8) mod 2 ^ 64;
          b1 = copy_at (sha_used c) [CHR 0x80] (sha_block c);
          u1 = sha_used c + 1;
          (state, b2, u2) =
            (if u1 > 56
             then (transform (sha_state c) (copy_at u1 (replicate (64 - u1) nul) b1),
                   copy_at u1 (replicate (64 - u1) nul) b1, 0)
             else (sha_state c, b1, u1));
          b3 = copy_at 56 (be64 bits) (copy_at u2 (replicate (56 - u2) nul) b2)
      in digest_bytes (transform state b3))"

definition c1_sha256 :: "string \<Rightarrow> string" where
  "c1_sha256 data = c1_sha256_final (c1_sha256_update c1_sha256_init data)"

definition hex_digit :: "nat \<Rightarrow> char" where
  "hex_digit n = ''0123456789abcdef'' ! n"

definition c1_sha256_hex :: "string \<Rightarrow> string" where
  "c1_sha256_hex dig = concat (map (\<lambda>c. [hex_digit (byte c div 16), hex_digit (byte c mod 16)]) dig)"

section \<open>The one-shot definition\<close>

function blocks :: "string \<Rightarrow> string list" where
  "blocks d = (if length d < 64 then [] else take 64 d # blocks (drop 64 d))"
  by pat_completeness auto
termination by (relation "measure length") auto

declare blocks.simps [simp del]

function tail_of :: "string \<Rightarrow> string" where
  "tail_of d = (if length d < 64 then d else tail_of (drop 64 d))"
  by pat_completeness auto
termination by (relation "measure length") auto

declare tail_of.simps [simp del]

definition padding :: "nat \<Rightarrow> string" where
  "padding n = CHR 0x80 # replicate ((119 - n mod 64) mod 64) nul @ be64 ((n mod 2 ^ 64 * 8) mod 2 ^ 64)"

definition sha256_spec :: "string \<Rightarrow> string" where
  "sha256_spec d =
     digest_bytes (foldl transform initial_state (blocks (d @ padding (length d))))"

lemma length_tail: "length (tail_of d) = length d mod 64"
proof (induction d rule: tail_of.induct)
  case (1 d)
  then show ?case by (subst tail_of.simps) (simp add: le_mod_geq not_less)
qed

lemma blocks_short: "length d < 64 \<Longrightarrow> blocks d = [] \<and> tail_of d = d"
  by (simp add: blocks.simps [of d] tail_of.simps [of d])

lemma blocks_one: "length d = 64 \<Longrightarrow> blocks d = [d] \<and> tail_of d = []"
  by (simp add: blocks.simps [of d] tail_of.simps [of d] blocks.simps [of "[]"] tail_of.simps [of "[]"])

lemma blocks_append: "blocks (d @ e) = blocks d @ blocks (tail_of d @ e)"
proof (induction d rule: blocks.induct)
  case (1 d)
  show ?case
  proof (cases "length d < 64")
    case True
    then show ?thesis by (simp add: blocks_short)
  next
    case False
    then have "blocks (d @ e) = take 64 d # blocks (drop 64 d @ e)"
      by (subst blocks.simps) simp
    with 1 [OF False] False show ?thesis
      by (simp add: blocks.simps [of d] tail_of.simps [of d])
  qed
qed

lemma tail_append: "tail_of (d @ e) = tail_of (tail_of d @ e)"
proof (induction d rule: tail_of.induct)
  case (1 d)
  show ?case
  proof (cases "length d < 64")
    case True
    then show ?thesis by (simp add: blocks_short)
  next
    case False
    then have "tail_of (d @ e) = tail_of (drop 64 d @ e)"
      by (subst tail_of.simps) simp
    with 1 [OF False] False show ?thesis by (simp add: tail_of.simps [of d])
  qed
qed

section \<open>The context represents what it has absorbed\<close>

definition buffered :: "c1_sha256_context \<Rightarrow> string \<Rightarrow> bool" where
  "buffered c d \<longleftrightarrow>
     sha_used c = length d mod 64 \<and> length (sha_block c) = 64 \<and>
     take (sha_used c) (sha_block c) = tail_of d \<and>
     sha_state c = foldl transform initial_state (blocks d)"

definition hashed :: "c1_sha256_context \<Rightarrow> string \<Rightarrow> bool" where
  "hashed c d \<longleftrightarrow> buffered c d \<and> sha_length c = length d mod 2 ^ 64"

lemma buffered_absorb: "buffered c d \<Longrightarrow> buffered (absorb c bytes) (d @ bytes)"
proof (induction c bytes arbitrary: d rule: absorb.induct)
  case (1 c bytes)
  have used: "sha_used c < 64" using "1.prems" by (simp add: buffered_def)
  show ?case
  proof (cases "bytes = []")
    case True
    with "1.prems" show ?thesis by (simp add: absorb.simps [of c])
  next
    case False
    define amount where "amount = min (64 - sha_used c) (length bytes)"
    define c1 where "c1 = c\<lparr> sha_block := copy_at (sha_used c) (take amount bytes) (sha_block c),
                    sha_used := sha_used c + amount \<rparr>"
    define c2 where "c2 = (if sha_used c1 = 64
                  then c1\<lparr> sha_state := transform (sha_state c1) (sha_block c1), sha_used := 0 \<rparr>
                  else c1)"
    let ?t = "tail_of d" and ?x = "take amount bytes"
    have len: "length ?x = amount" "length ?t = sha_used c"
      using "1.prems" by (simp_all add: amount_def buffered_def length_tail)
    have le: "sha_used c + amount \<le> 64" using used by (simp add: amount_def)
    have block: "length (sha_block c1) = 64" "take (sha_used c + amount) (sha_block c1) = ?t @ ?x"
      using "1.prems" len le by (auto simp: c1_def copy_at_def buffered_def)
    have used_mod: "length (d @ ?x) mod 64 = (sha_used c + amount) mod 64"
      using "1.prems" len by (simp add: buffered_def mod_add_left_eq)
    have state: "sha_state c = foldl transform initial_state (blocks d)"
      using "1.prems" by (simp add: buffered_def)
    have "buffered c2 (d @ ?x)"
    proof (cases "sha_used c + amount = 64")
      case True
      then have "length (?t @ ?x) = 64" using len by simp
      from blocks_one [OF this] have "blocks (d @ ?x) = blocks d @ [?t @ ?x]" "tail_of (d @ ?x) = []"
        by (simp_all add: blocks_append [of d] tail_append [of d])
      moreover have "c2 = c1\<lparr> sha_state := transform (sha_state c) (?t @ ?x), sha_used := 0 \<rparr>"
        using True block by (simp add: c2_def c1_def)
      ultimately show ?thesis
        using used_mod True block(1) state unfolding buffered_def by simp
    next
      case False
      then have "length (?t @ ?x) < 64" using len le by simp
      from blocks_short [OF this] have "blocks (d @ ?x) = blocks d" "tail_of (d @ ?x) = ?t @ ?x"
        by (simp_all add: blocks_append [of d] tail_append [of d])
      moreover have "c2 = c1" "sha_used c1 = sha_used c + amount" "sha_state c1 = sha_state c"
        using False by (simp_all add: c2_def c1_def)
      ultimately show ?thesis
        using used_mod False le block state unfolding buffered_def by simp
    qed
    moreover have "absorb c bytes = absorb c2 (drop amount bytes)"
      using False used by (simp add: absorb.simps [of c bytes] Let_def amount_def c1_def c2_def)
    moreover have "\<not> (bytes = [] \<or> 64 \<le> sha_used c)" using False used by simp
    ultimately show ?thesis
      using "1.IH" [OF _ amount_def c1_def c2_def, of "d @ ?x"] by simp
  qed
qed

lemma hashed_init: "hashed c1_sha256_init []"
  by (simp add: hashed_def buffered_def c1_sha256_init_def blocks_short)

lemma hashed_update: "hashed c d \<Longrightarrow> hashed (c1_sha256_update c x) (d @ x)"
proof -
  assume h: "hashed c d"
  let ?c = "c\<lparr> sha_length := (sha_length c + length x) mod 2 ^ 64 \<rparr>"
  have "buffered c d" "sha_length c = length d mod 2 ^ 64" using h unfolding hashed_def by blast+
  moreover have "buffered (c\<lparr> sha_length := l \<rparr>) d = buffered c d" for l by (simp add: buffered_def)
  ultimately have "buffered ?c d" by blast
  then have "buffered (absorb ?c x) (d @ x)" by (rule buffered_absorb)
  moreover have "sha_length (absorb c' b) = sha_length c'" for c' b
  proof (induction c' b rule: absorb.induct)
    case (1 c b)
    show ?case
    proof (cases "b = [] \<or> 64 \<le> sha_used c")
      case True
      then show ?thesis by (simp add: absorb.simps [of c b])
    next
      case False
      from "1.IH" [OF False refl refl refl] False show ?thesis
        by (subst absorb.simps) (simp add: Let_def split: if_splits)
    qed
  qed
  ultimately show ?thesis
    using h by (simp add: hashed_def c1_sha256_update_def mod_add_left_eq)
qed

lemma length_be64 [simp]: "length (be64 n) = 8"
  by (simp add: be64_def)

lemma copy_end:
  "length block = 64 \<Longrightarrow> offset + length source = 64 \<Longrightarrow> copy_at offset source block = take offset block @ source"
  by (simp add: copy_at_def)

lemma copy_prefix:
  "length block = 64 \<Longrightarrow> offset + length source \<le> 64 \<Longrightarrow>
   length (copy_at offset source block) = 64 \<and>
   take (offset + length source) (copy_at offset source block) = take offset block @ source"
  by (simp add: copy_at_def)

lemma hashed_final:
  assumes "hashed c d"
  shows "c1_sha256_final c = sha256_spec d"
proof -
  define u where "u = length d mod 64"
  define n where "n = be64 ((length d mod 2 ^ 64 * 8) mod 2 ^ 64)"
  have c: "sha_used c = u" "length (sha_block c) = 64" "sha_length c = length d mod 2 ^ 64"
    "sha_state c = foldl transform initial_state (blocks d)"
    using assms by (simp_all only: hashed_def buffered_def u_def)
  have t: "take u (sha_block c) = tail_of d" "length (tail_of d) = u"
    using assms c(1) by (auto simp: hashed_def buffered_def u_def length_tail)
  have u: "u < 64" by (simp add: u_def)
  have pad: "padding (length d) = CHR 0x80 # replicate ((119 - u) mod 64) nul @ n"
    by (simp add: padding_def u_def n_def)
  have n: "be64 (length d mod 18446744073709551616 * 8 mod 18446744073709551616) = n"
    by (simp add: n_def)
  define b1 where "b1 = copy_at u [CHR 0x80] (sha_block c)"
  have b1: "length b1 = 64" "take (u + 1) b1 = tail_of d @ [CHR 0x80]"
    using copy_prefix [of "sha_block c" u "[CHR 0x80]"] c(2) t u by (simp_all add: b1_def)
  have last: "copy_at 56 n (copy_at k (replicate (56 - k) nul) b) = take k b @ replicate (56 - k) nul @ n"
    if "length b = 64" "k \<le> 56" for k b
    using that copy_prefix [of b k "replicate (56 - k) nul"] by (subst copy_end) (simp_all add: n_def)
  show ?thesis
  proof (cases "u + 1 > 56")
    case True
    let ?b = "tail_of d @ CHR 0x80 # replicate (63 - u) nul" and ?e = "replicate 56 nul @ n"
    have "(119 - u) mod 64 = (63 - u) + 56" using True u by simp
    then have "replicate ((119 - u) mod 64) nul = replicate (63 - u) nul @ replicate 56 nul"
      by (simp only: replicate_add)
    then have split: "tail_of d @ padding (length d) = ?b @ ?e"
      by (simp add: pad)
    have one: "length ?b = 64" "length ?e = 64"
      using t u True by (simp_all add: n_def)
    have spec: "blocks (d @ padding (length d)) = blocks d @ [?b, ?e]"
      by (simp only: blocks_append [of d] split blocks_append [of ?b] blocks_one [OF one(1)]
          blocks_one [OF one(2)] append_Nil append_Cons)
    have b2: "copy_at (Suc u) (replicate (63 - u) nul) b1 = ?b"
      using b1 u by (subst copy_end) simp_all
    have "c1_sha256_final c = digest_bytes (transform (transform (sha_state c) ?b) ?e)"
      using True last [of ?b 0] one
      by (simp add: c1_sha256_final_def c(1,3) b1_def [symmetric] b2 n)
    then show ?thesis by (simp add: sha256_spec_def spec c(4))
  next
    case False
    let ?b = "tail_of d @ CHR 0x80 # replicate (55 - u) nul @ n"
    have "(119 - u) mod 64 = 55 - u"
      using False by (simp add: mod_if)
    then have split: "tail_of d @ padding (length d) = ?b" by (simp add: pad)
    have one: "length ?b = 64" using t False by (simp add: n_def)
    have spec: "blocks (d @ padding (length d)) = blocks d @ [?b]"
      by (simp only: blocks_append [of d] split blocks_one [OF one])
    have "copy_at 56 n (copy_at (u + 1) (replicate (56 - (u + 1)) nul) b1) = ?b"
      using last [OF b1(1), of "u + 1"] b1(2) False by simp
    then have "c1_sha256_final c = digest_bytes (transform (sha_state c) ?b)"
      using False by (simp add: c1_sha256_final_def c(1,3) b1_def [symmetric] n)
    then show ?thesis by (simp add: sha256_spec_def spec c(4))
  qed
qed

lemma one_shot: "c1_sha256 d = sha256_spec d"
  using hashed_final [OF hashed_update [OF hashed_init, of d]] by (simp add: c1_sha256_def)

section \<open>Hexadecimal digests and files\<close>

lemma length_digest: "length (sha256_spec d) = 32"
proof -
  have "length (foldl transform initial_state bs) = 8" for bs
    by (induction bs rule: rev_induct) (auto simp: initial_state_def transform_def Let_def)
  then have "length (foldl transform initial_state bs) = 8" for bs .
  moreover have "length (concat (map store_be32 ws)) = 4 * length ws" for ws
    by (induction ws) (auto simp: store_be32_def)
  ultimately show ?thesis by (simp add: sha256_spec_def digest_bytes_def)
qed

lemma hex_digit_lower: "n < 16 \<Longrightarrow> is_lower_hex (hex_digit n)"
  by (auto simp: hex_digit_def is_lower_hex_def is_digit_def less_eq_char_def numeral_eq_Suc less_Suc_eq)

lemma hex_text: "length (c1_sha256_hex s) = 2 * length s \<and> list_all is_lower_hex (c1_sha256_hex s)"
proof (induction s)
  case Nil
  then show ?case by (simp add: c1_sha256_hex_def)
next
  case (Cons c s)
  have "byte c div 16 < 16" using byte_less_256 [of c] by (simp add: less_mult_imp_div_less)
  with Cons show ?case by (simp add: c1_sha256_hex_def hex_digit_lower)
qed

text \<open>\<open>c1_sha256_file\<close>: a regular file with one link, of the expected size, read to its end. Nothing else
  runs between the two \<open>fstat\<close> calls, so what the second compares is unchanged.\<close>

definition c1_sha256_file :: "string \<Rightarrow> nat \<Rightarrow> nat option \<Rightarrow> string act" where
  "c1_sha256_file path maximum_size exact_size =
     then_act (require (maximum_size \<noteq> UINT64_MAX \<and> (\<forall>n \<in> set_option exact_size. n \<le> maximum_size)))
     (bind_act (ok (sys_open_read path)) (\<lambda>information.
        closing
         (then_act (ok sys_touch)
         (then_act (require (st_kind information = S_IFREG \<and> st_nlink information = 1 \<and>
                             length (st_data information) \<le> maximum_size \<and>
                             (\<forall>n \<in> set_option exact_size. length (st_data information) = n)))
         (then_act (ok sys_touch)
         (then_act (ok sys_touch)
         (ret (c1_sha256 (st_data information)))))))))"

lemma framed_sha256_file [frames]: "framed S (c1_sha256_file p m e)"
  unfolding c1_sha256_file_def by (intro frames)

lemma sha256_file_success:
  assumes "c1_sha256_file p m e w = (Some d, w')"
  shows "\<exists>i. file_at w p = Some i \<and> st_kind i = S_IFREG \<and> st_nlink i = 1 \<and>
    length (st_data i) \<le> m \<and> (\<forall>n \<in> set_option e. length (st_data i) = n) \<and> d = c1_sha256 (st_data i)"
  using assms by (auto simp: c1_sha256_file_def act_Some dest!: sys_open_read_success)

text \<open>C12. Streaming is irrelevant: hashing any sequence of pieces of any sizes, through the buffered
  context, gives the one-shot SHA-256 of their concatenation, padded to whole blocks with the bit
  length modulo 2^64 at the end.\<close>

theorem sha256_streaming:
  "c1_sha256_final (foldl c1_sha256_update c1_sha256_init pieces) = sha256_spec (concat pieces) \<and>
   c1_sha256 (concat pieces) = sha256_spec (concat pieces)"
proof -
  have "hashed c d \<Longrightarrow> hashed (foldl c1_sha256_update c ps) (d @ concat ps)" for c d ps
  proof (induction ps arbitrary: c d)
    case (Cons p ps)
    from Cons.IH [OF hashed_update [OF Cons.prems, of p]] show ?case by simp
  qed simp
  note run = this
  from run [OF hashed_init, of pieces] have "hashed (foldl c1_sha256_update c1_sha256_init pieces) (concat pieces)"
    by simp
  then show ?thesis by (simp add: hashed_final one_shot)
qed

end
