(* ===== verification/StateStore.thy ===== *)
theory StateStore
  imports UpdateState SecureFile
begin

text \<open>
  The stored update state (\<open>src/C1ancher/src/update/state.c\<close>, the functions that use the file
  system): \<open>c1_update_state_load\<close> and \<open>c1_update_state_commit\<close>. A state is a directory
  \<open>generations/<n>\<close> with one file, made under a draft name and renamed, and \<open>current\<close> is a symbolic link
  to it that is replaced by a rename. The theorems show that loading reads exactly what a
  committed state is, and that a commit is atomic under every pattern of faults.
\<close>

definition C1_UPDATE_PATH_MAX :: nat where "C1_UPDATE_PATH_MAX = 4096"
definition C1_STATE_FILE_MAX :: nat where "C1_STATE_FILE_MAX = 1024"

section \<open>Paths\<close>

definition slash :: "string \<Rightarrow> string" where
  "slash left = left @ (if last left = CHR ''/'' then [] else ''/'')"

definition join_path :: "string \<Rightarrow> string \<Rightarrow> string option" where
  "join_path left right =
     (if left = [] then None
      else let out = slash left @ right
           in if length out < C1_UPDATE_PATH_MAX then Some out else None)"

definition lift :: "'a option \<Rightarrow> 'a act" where "lift r w = (r, w)"

section \<open>Loading\<close>

definition private_directory :: "string \<Rightarrow> unit act" where
  "private_directory path =
     bind_act (ok (sys_lstat path)) (\<lambda>found.
     bind_act (asks euid) (\<lambda>user.
       require (st_kind found = S_IFDIR \<and> st_mode found AND 511 = 448 \<and> st_uid found = user)))"

definition private_state_file :: "string \<Rightarrow> unit act" where
  "private_state_file path =
     bind_act (ok (sys_lstat path)) (\<lambda>information.
     bind_act (asks euid) (\<lambda>user.
       require (st_kind information = S_IFREG \<and> st_nlink information = 1 \<and>
                st_mode information AND 511 = 384 \<and> st_uid information = user)))"

definition load_generation_state :: "string \<Rightarrow> nat \<Rightarrow> c1_update_state act" where
  "load_generation_state generation_path gen =
     then_act (private_directory generation_path)
     (bind_act (lift (join_path generation_path ''state.v1'')) (\<lambda>state_path.
      then_act (private_state_file state_path)
      (bind_act (c1_secure_read_file state_path C1_STATE_FILE_MAX None) (\<lambda>data.
       lift (parse_state_data data gen)))))"

definition parse_generation_target :: "string \<Rightarrow> nat option" where
  "parse_generation_target target =
     (if take 12 target \<noteq> ''generations/'' \<or> CHR ''/'' \<in> set (drop 12 target) then None
      else parse_u64 (drop 12 target) True)"

definition zero_state :: c1_update_state where
  "zero_state = \<lparr> generation = 0, phase = C1_UPDATE_IDLE, st_sequence = 0, st_security_epoch = 0,
     release = [], digest = [] \<rparr>"

text \<open>The two ends of \<open>c1_update_state_load\<close>: no \<open>current\<close> link, and following it.\<close>

definition load_without_link :: "string \<Rightarrow> c1_update_state act" where
  "load_without_link generations =
     bind_act (probe generations) (\<lambda>generations_information.
     case generations_information of
       None \<Rightarrow> ret zero_state
     | Some information \<Rightarrow>
         then_act (require (st_kind information = S_IFDIR))
         (then_act (private_directory generations) (ret zero_state)))"

definition load_by_link :: "string \<Rightarrow> string \<Rightarrow> string \<Rightarrow> inode \<Rightarrow> c1_update_state act" where
  "load_by_link root current generations information =
     bind_act (asks euid) (\<lambda>user.
     then_act (require (st_kind information = S_IFLNK \<and> st_uid information = user))
     (then_act (private_directory generations)
     (bind_act (ok (sys_readlink current)) (\<lambda>target.
      then_act (require (target \<noteq> [] \<and> length target < 128))
      (bind_act (lift (parse_generation_target target)) (\<lambda>gen.
       bind_act (lift (join_path root target)) (\<lambda>generation_path.
       then_act (private_directory generation_path)
       (bind_act (lift (join_path generation_path ''state.v1'')) (\<lambda>state_path.
        then_act (private_state_file state_path)
        (bind_act (c1_secure_read_file state_path C1_STATE_FILE_MAX None) (\<lambda>data.
         lift (parse_state_data data gen))))))))))))"

definition c1_update_state_load :: "string \<Rightarrow> c1_update_state act" where
  "c1_update_state_load root =
     bind_act (lift (join_path root ''current'')) (\<lambda>current.
     bind_act (lift (join_path root ''generations'')) (\<lambda>generations.
     bind_act (probe root) (\<lambda>root_information.
     case root_information of
       None \<Rightarrow> ret zero_state
     | Some _ \<Rightarrow>
         then_act (private_directory root)
         (bind_act (probe current) (\<lambda>current_information.
          case current_information of
            None \<Rightarrow> load_without_link generations
          | Some information \<Rightarrow> load_by_link root current generations information)))))"

section \<open>Committing\<close>

definition create_directory :: "string \<Rightarrow> nat \<Rightarrow> bool \<Rightarrow> unit act" where
  "create_directory path mode allow_existing =
     bind_act (errno_of (sys_mkdir path mode)) (\<lambda>r.
     then_act (case r of
                 Inr _ \<Rightarrow> ok (sys_chmod path mode)
               | Inl e \<Rightarrow> require (allow_existing \<and> e = EEXIST))
     (then_act (require (mode = 448))
     (private_directory path)))"

text \<open>The guard at the head of the commit.\<close>

definition commit_request_valid :: "c1_update_state \<Rightarrow> c1_update_state \<Rightarrow> bool" where
  "commit_request_valid previous next \<longleftrightarrow>
     generation previous < generation next \<and> st_sequence next \<noteq> 0 \<and> st_security_epoch next \<noteq> 0 \<and>
     commit_phase_valid (phase previous) (phase next) \<and>
     safe_token (release next) \<and> valid_digest (digest next) \<and>
     identity_valid (Some previous) (st_sequence next) (st_security_epoch next)
       (release next) (digest next)"

text \<open>\<open>mkdtemp\<close>: the library chooses the six letters, here the \<open>suffix\<close> of the world, and creates the
  directory with mode 0700.\<close>

definition mkdtemp :: "string \<Rightarrow> string act" where
  "mkdtemp template =
     bind_act (asks suffix) (\<lambda>letters.
     let path = take (length template - 6) template @ letters in
     then_act (ok (sys_mkdir path 448)) (ret path))"

text \<open>The generation is written under a draft name and renamed to its number; a draft that is not
  renamed is removed again. (When the draft path has no room for the file name the clean-up
  unlinks an empty path, which changes nothing.)\<close>

definition write_generation :: "string \<Rightarrow> string \<Rightarrow> c1_update_state \<Rightarrow> unit act" where
  "write_generation generations generation_path next =
     bind_act (asks pid) (\<lambda>process.
     let draft_name = ''.new.'' @ dec (generation next) @ ''.'' @ dec process @ ''.XXXXXX'' in
     then_act (require (length draft_name < 96))
     (bind_act (lift (join_path generations draft_name)) (\<lambda>template.
      bind_act (mkdtemp template) (\<lambda>draft_path.
      case join_path draft_path ''state.v1'' of
        None \<Rightarrow> then_act (ignore sys_touch) (then_act (ignore (sys_rmdir draft_path)) stop)
      | Some state_path \<Rightarrow>
          on_failure
            (then_act (require (length (state_text next) < C1_STATE_FILE_MAX))
            (then_act (c1_secure_atomic_write state_path (state_text next) 384)
            (then_act (c1_secure_sync_directory draft_path)
            (ok (sys_rename draft_path generation_path)))))
            (then_act (ignore (sys_unlink state_path)) (ignore (sys_rmdir draft_path)))))))"

text \<open>The link is made under a temporary name and renamed over \<open>current\<close>.\<close>

definition switch_current :: "string \<Rightarrow> string \<Rightarrow> string \<Rightarrow> unit act" where
  "switch_current root current target =
     bind_act (probe current) (\<lambda>current_information.
     then_act (require (case current_information of None \<Rightarrow> True | Some i \<Rightarrow> st_kind i = S_IFLNK))
     (bind_act (asks pid) (\<lambda>process.
      bind_act (attempt_names 128 0 (\<lambda>attempt w.
          if length (tmp_name current process attempt) \<ge> C1_UPDATE_PATH_MAX then (Inl EOTHER, w)
          else sys_symlink target (tmp_name current process attempt) w)) (\<lambda>attempt.
      then_act (require (attempt < 128))
      (then_act (on_failure (ok (sys_rename (tmp_name current process attempt) current))
                  (ignore (sys_unlink (tmp_name current process attempt))))
      (c1_secure_sync_directory root))))))"

text \<open>The tail of the commit: make the generation unless a crashed commit has left it, then switch.\<close>

definition publish_generation :: "string \<Rightarrow> string \<Rightarrow> c1_update_state \<Rightarrow> unit act" where
  "publish_generation root generations next =
     bind_act (lift (join_path generations (dec (generation next)))) (\<lambda>generation_path.
     bind_act (probe generation_path) (\<lambda>existing.
     then_act
       (case existing of
          Some _ \<Rightarrow>
            bind_act (load_generation_state generation_path (generation next)) (\<lambda>stored.
            require (state_equal stored next))
        | None \<Rightarrow> write_generation generations generation_path next)
     (then_act (c1_secure_sync_directory generations)
     (bind_act (lift (join_path root ''current'')) (\<lambda>current.
      switch_current root current (''generations/'' @ dec (generation next)))))))"

definition c1_update_state_commit :: "string \<Rightarrow> c1_update_state \<Rightarrow> c1_update_state \<Rightarrow> unit act" where
  "c1_update_state_commit root previous next =
     then_act (require (commit_request_valid previous next))
     (bind_act (c1_update_state_load root) (\<lambda>actual.
      if state_equal actual next then c1_secure_sync_directory root
      else
        then_act (require (state_equal actual previous))
        (bind_act (lift (join_path root ''generations'')) (\<lambda>generations.
         then_act (create_directory root 448 True)
         (then_act (create_directory generations 448 True)
         (publish_generation root generations next))))))"

section \<open>What is stored\<close>

definition current_path :: "string \<Rightarrow> string" where
  "current_path root = slash root @ ''current''"

definition generations_path :: "string \<Rightarrow> string" where
  "generations_path root = slash root @ ''generations''"

definition generation_path :: "string \<Rightarrow> nat \<Rightarrow> string" where
  "generation_path root n = slash root @ ''generations/'' @ dec n"

definition state_path :: "string \<Rightarrow> nat \<Rightarrow> string" where
  "state_path root n = slash root @ ''generations/'' @ dec n @ ''/state.v1''"

lemmas path_defs = current_path_def generations_path_def generation_path_def state_path_def

definition root_ok :: "string \<Rightarrow> bool" where
  "root_ok root \<longleftrightarrow> root \<noteq> [] \<and> length root < 3900"

definition private_at :: "world \<Rightarrow> string \<Rightarrow> bool" where
  "private_at w p \<longleftrightarrow>
     (case file_at w p of
        None \<Rightarrow> False
      | Some i \<Rightarrow> st_kind i = S_IFDIR \<and> st_mode i AND 511 = 448 \<and> st_uid i = euid w)"

definition generation_at :: "string \<Rightarrow> world \<Rightarrow> c1_update_state \<Rightarrow> bool" where
  "generation_at root w s \<longleftrightarrow>
     private_at w (generation_path root (generation s)) \<and>
     (case file_at w (state_path root (generation s)) of
        None \<Rightarrow> False
      | Some i \<Rightarrow> st_kind i = S_IFREG \<and> st_nlink i = 1 \<and> st_mode i AND 511 = 384 \<and>
                 st_mode i AND 18 = 0 \<and> st_uid i = euid w \<and> length (st_data i) \<le> C1_STATE_FILE_MAX \<and>
                 parse_state_data (st_data i) (generation s) = Some s)"

definition link_at :: "string \<Rightarrow> world \<Rightarrow> nat \<Rightarrow> bool" where
  "link_at root w n \<longleftrightarrow>
     (case file_at w (current_path root) of
        None \<Rightarrow> False
      | Some i \<Rightarrow> st_kind i = S_IFLNK \<and> st_uid i = euid w \<and> st_data i = ''generations/'' @ dec n)"

definition stores :: "string \<Rightarrow> world \<Rightarrow> c1_update_state \<Rightarrow> bool" where
  "stores root w s \<longleftrightarrow>
     (if generation s = 0 then
        s = zero_state \<and>
        (file_at w root = None \<or>
         private_at w root \<and> file_at w (current_path root) = None \<and>
         (file_at w (generations_path root) = None \<or> private_at w (generations_path root)))
      else private_at w root \<and> private_at w (generations_path root) \<and>
           generation s \<le> UINT64_MAX \<and> generation_at root w s \<and> link_at root w (generation s))"

lemma join_path_Some: "join_path l r = Some p \<Longrightarrow> p = slash l @ r"
  by (auto simp: join_path_def Let_def split: if_splits)

lemma slash_generation: "slash (generation_path root n) @ ''state.v1'' = state_path root n"
proof -
  have "is_digit (last (dec n))" using dec_digits [of n] by (simp add: list_all_iff)
  then have "last (dec n) \<noteq> CHR ''/''" by (auto simp: is_digit_byte)
  then show ?thesis by (simp add: slash_def path_defs)
qed

lemma slash_generations: "slash (generations_path root) @ dec n = generation_path root n"
  by (simp add: slash_def path_defs)

lemma join_state: "join_path (generation_path root n) ''state.v1'' = Some p \<Longrightarrow> p = state_path root n"
  using join_path_Some [of "generation_path root n" "''state.v1''" p] slash_generation by simp

lemma join_root:
  "join_path root ''current'' = Some p \<Longrightarrow> p = current_path root"
  "join_path root ''generations'' = Some p \<Longrightarrow> p = generations_path root"
  "join_path (generations_path root) (dec n) = Some p \<Longrightarrow> p = generation_path root n"
  "join_path root (''generations/'' @ dec n) = Some p \<Longrightarrow> p = generation_path root n"
  using slash_generations by (auto simp: path_defs dest!: join_path_Some)

lemma dec_no_slash: "CHR ''/'' \<notin> set (dec n)"
  using dec_digits [of n] by (auto simp: list_all_iff is_digit_byte)

lemma parse_generation_target_iff:
  "parse_generation_target t = Some n \<longleftrightarrow> t = ''generations/'' @ dec n \<and> 0 < n \<and> n \<le> UINT64_MAX"
proof
  assume a: "parse_generation_target t = Some n"
  then have "take 12 t = ''generations/''" "parse_u64 (drop 12 t) True = Some n"
    by (auto simp: parse_generation_target_def split: if_splits)
  then show "t = ''generations/'' @ dec n \<and> 0 < n \<and> n \<le> UINT64_MAX"
    using append_take_drop_id [of 12 t] by (auto simp: u64.parse_iff)
next
  assume "t = ''generations/'' @ dec n \<and> 0 < n \<and> n \<le> UINT64_MAX"
  then show "parse_generation_target t = Some n"
    using dec_no_slash by (simp add: parse_generation_target_def u64.parse_print)
qed

lemma lift_Some: "lift r w = (Some x, w') \<longleftrightarrow> r = Some x \<and> w' = w"
  by (auto simp: lift_def)

lemma framed_lift [frames]: "framed S (lift r)"
  by (simp add: framed_def lift_def)

lemma framed_private [frames]: "framed S (private_directory p)" "framed S (private_state_file p)"
  unfolding private_directory_def private_state_file_def by (intro frames)+

lemma framed_load [frames]: "framed S (c1_update_state_load root)"
  unfolding c1_update_state_load_def load_without_link_def load_by_link_def by (intro frames)

lemma framed_load_generation [frames]: "framed S (load_generation_state p n)"
  unfolding load_generation_state_def by (intro frames)

lemma same_files_private: "same_files w w' \<Longrightarrow> private_at w' p = private_at w p"
  by (simp add: private_at_def same_files_def same_process_def split: option.split)

lemma same_files_stored:
  assumes "same_files w w'"
  shows "generation_at root w' s = generation_at root w s" "link_at root w' n = link_at root w n"
    "stores root w' s = stores root w s"
proof -
  have [simp]: "file_at w' q = file_at w q" "euid w' = euid w" for q
    using assms by (simp_all add: same_files_def same_process_def)
  have [simp]: "private_at w' p = private_at w p" for p
    using assms by (rule same_files_private)
  show "generation_at root w' s = generation_at root w s" "link_at root w' n = link_at root w n"
    by (simp_all add: generation_at_def link_at_def split: option.split)
  then show "stores root w' s = stores root w s"
    by (simp add: stores_def generation_at_def link_at_def split: option.split)
qed

lemma private_directory_success:
  assumes "private_directory p w = (Some x, w')"
  shows "private_at w p"
  using assms
  by (auto simp: private_directory_def act_Some private_at_def same_files_def same_process_def
      dest!: sys_lstat_success)

lemma private_state_file_success:
  assumes "private_state_file p w = (Some x, w')"
  shows "\<exists>i. file_at w p = Some i \<and> st_kind i = S_IFREG \<and> st_nlink i = 1 \<and>
    st_mode i AND 511 = 384 \<and> st_uid i = euid w"
  using assms
  by (auto simp: private_state_file_def act_Some same_files_def same_process_def
      dest!: sys_lstat_success)

lemma load_generation_success:
  assumes "load_generation_state (generation_path root n) n w = (Some s, w')"
  shows "generation_at root w s \<and> generation s = n"
proof -
  have gen: "generation s = n" if "parse_state_data d n = Some s" for d
    using that by (auto simp: parse_state_data_def split: if_splits option.splits list.splits)
  from assms obtain u v d where p: "private_directory (generation_path root n) w = (Some (), u)"
    and f: "private_state_file (state_path root n) u = (Some (), v)"
    and r: "c1_secure_read_file (state_path root n) C1_STATE_FILE_MAX None v = (Some d, w')"
    and s: "parse_state_data d n = Some s"
    by (auto simp: load_generation_state_def act_Some lift_Some dest!: join_state)
  have same: "same_files w u" "same_files u v"
    using framed_same_files [OF framed_private(1) p] framed_same_files [OF framed_private(2) f] by auto
  with private_directory_success [OF p] private_state_file_success [OF f] read_file_success [OF r] s gen [OF s]
  show ?thesis
    by (auto simp: generation_at_def same_files_def same_process_def)
qed

lemma framed_load_parts [frames]:
  "framed S (load_without_link g)" "framed S (load_by_link root c g i)"
  unfolding load_without_link_def load_by_link_def by (intro frames)+

lemma parse_state_generation: "parse_state_data d n = Some s \<Longrightarrow> generation s = n"
  by (auto simp: parse_state_data_def split: if_splits option.splits list.splits)

lemma load_without_link_success:
  assumes "load_without_link (generations_path root) w = (Some s, w')"
  shows "s = zero_state \<and>
    (file_at w (generations_path root) = None \<or> private_at w (generations_path root))"
proof -
  from assms obtain g u where p: "probe (generations_path root) w = (Some g, u)"
    and rest: "(case g of None \<Rightarrow> ret zero_state | Some information \<Rightarrow>
         then_act (require (st_kind information = S_IFDIR))
         (then_act (private_directory (generations_path root)) (ret zero_state))) u = (Some s, w')"
    by (auto simp: load_without_link_def act_Some)
  from probe_success [OF p] have g: "file_at w (generations_path root) = g" and "same_files w u"
    by auto
  with rest show ?thesis
    by (cases g) (auto simp: act_Some same_files_private dest!: private_directory_success)
qed

lemma load_by_link_success:
  assumes "load_by_link root (current_path root) (generations_path root) i w = (Some s, w')"
    and "file_at w (current_path root) = Some i"
  shows "private_at w (generations_path root) \<and> 0 < generation s \<and> generation s \<le> UINT64_MAX \<and>
    generation_at root w s \<and> link_at root w (generation s)"
proof -
  from assms(1) obtain target n x1 u1 u2 p q x3 u3 x4 u4 d where
    i: "st_kind i = S_IFLNK" "st_uid i = euid w"
    and g: "private_directory (generations_path root) w = (Some x1, u1)"
    and l0: "sys_readlink (current_path root) u1 = (Inr target, u2)"
    and n0: "parse_generation_target target = Some n"
    and p: "join_path root target = Some p"
    and d0: "private_directory p u2 = (Some x3, u3)"
    and q: "join_path p ''state.v1'' = Some q"
    and f0: "private_state_file q u3 = (Some x4, u4)"
    and r0: "c1_secure_read_file q C1_STATE_FILE_MAX None u4 = (Some d, w')"
    and s: "parse_state_data d n = Some s"
    by (auto simp: load_by_link_def act_Some lift_Some)
  have n: "target = ''generations/'' @ dec n" "0 < n" "n \<le> UINT64_MAX"
    using n0 by (simp_all add: parse_generation_target_iff)
  then have p: "p = generation_path root n" using p join_root(4) by blast
  then have q: "q = state_path root n" using q join_state by blast
  note l = l0 [unfolded n(1)] and d = d0 [unfolded p] and f = f0 [unfolded q] and r = r0 [unfolded q]
  have "same_files w u1" "same_files w u2" "same_files w u3" "same_files w u4"
    using framed_same_files [OF framed_private(1) g] sys_readlink_success [OF l]
      framed_same_files [OF framed_private(1) d] framed_same_files [OF framed_private(2) f]
    by (blast intro: same_files_trans)+
  moreover from this have dir: "private_at w (generation_path root n)"
    using private_directory_success [OF d] by (simp add: same_files_private)
  ultimately show ?thesis
    using i n private_directory_success [OF g] dir
      sys_readlink_success [OF l] private_state_file_success [OF f] read_file_success [OF r] s
      parse_state_generation [OF s] assms(2)
    by (auto simp: generation_at_def link_at_def same_files_private same_files_def same_process_def)
qed

lemma load_sound:
  assumes "c1_update_state_load root w = (Some s, w')"
  shows "stores root w s \<and> same_files w w'"
proof -
  have same: "same_files w w'" by (rule framed_same_files [OF framed_load assms])
  have zero: "generation zero_state = 0" by (simp add: zero_state_def)
  from assms obtain i u where root: "probe root w = (Some i, u)"
    and rest: "(case i of None \<Rightarrow> ret zero_state | Some _ \<Rightarrow>
         then_act (private_directory root)
         (bind_act (probe (current_path root)) (\<lambda>c. case c of
            None \<Rightarrow> load_without_link (generations_path root)
          | Some information \<Rightarrow> load_by_link root (current_path root) (generations_path root) information)))
        u = (Some s, w')"
    by (auto simp: c1_update_state_load_def act_Some lift_Some dest!: join_root)
  show ?thesis
  proof (cases i)
    case None
    with rest have "s = zero_state" by (auto simp: act_Some)
    with None probe_success [OF root] zero same show ?thesis by (auto simp: stores_def)
  next
    case (Some ri)
    with rest obtain v1 v2 c where pr: "private_directory root u = (Some (), v1)"
      and pc: "probe (current_path root) v1 = (Some c, v2)"
      and tail: "(case c of None \<Rightarrow> load_without_link (generations_path root)
          | Some information \<Rightarrow> load_by_link root (current_path root) (generations_path root) information)
          v2 = (Some s, w')"
      by (auto simp: act_Some)
    have s1: "same_files w u" "same_files w v1" "same_files w v2"
      using probe_success [OF root] framed_same_files [OF framed_private(1) pr] probe_success [OF pc]
      by (blast intro: same_files_trans)+
    have proot: "private_at w root"
      using private_directory_success [OF pr] s1 by (simp add: same_files_private)
    have cur: "file_at w (current_path root) = c" "file_at v2 (current_path root) = c"
      using probe_success [OF pc] s1 by (simp_all add: same_files_def)
    show ?thesis
    proof (cases c)
      case None
      with tail have "load_without_link (generations_path root) v2 = (Some s, w')" by simp
      from load_without_link_success [OF this] zero cur None proot s1(3) same show ?thesis
        by (auto simp: stores_def same_files_private same_files_at)
    next
      case (Some ci)
      with tail have "load_by_link root (current_path root) (generations_path root) ci v2 = (Some s, w')"
        by simp
      from load_by_link_success [OF this] cur Some
      have "private_at v2 (generations_path root) \<and> 0 < generation s \<and> generation s \<le> UINT64_MAX \<and>
          generation_at root v2 s \<and> link_at root v2 (generation s)" by simp
      with proot s1(3) same show ?thesis
        by (auto simp: stores_def same_files_private same_files_stored)
    qed
  qed
qed


section \<open>Paths that a commit works on\<close>

definition relevant :: "string \<Rightarrow> nat \<Rightarrow> string \<Rightarrow> bool" where
  "relevant root n q \<longleftrightarrow> q = root \<or> q = current_path root \<or> q = generations_path root \<or>
     q = generation_path root n \<or> q = state_path root n"

text \<open>The paths touched before the switch: drafts, temporary links, and the new generation.\<close>

definition scratch :: "string \<Rightarrow> nat \<Rightarrow> string \<Rightarrow> bool" where
  "scratch root n q \<longleftrightarrow> prefix (slash root @ ''generations/.new.'') q \<or>
     prefix (slash root @ ''current.tmp.'') q \<or> under (generation_path root n) q"

lemma slash_longer: "length root \<le> length (slash root)"
  by (simp add: slash_def)

lemma slash_append_neq [simp]: "x \<noteq> [] \<Longrightarrow> slash root @ x \<noteq> root" "x \<noteq> [] \<Longrightarrow> root \<noteq> slash root @ x"
  using slash_longer [of root] by (metis append_eq_append_conv_if append_self_conv le_antisym length_append length_greater_0_conv linorder_not_less trans_le_add1 add_cancel_right_right not_add_less1)+

lemma dec_head: "\<exists>c cs. dec n = c # cs \<and> is_digit c"
  using dec_digits [of n] by (cases "dec n") (auto simp: list_all_iff)

lemma dec_prefix_slash: "dec n @ u = dec m @ v \<Longrightarrow> u = [] \<or> hd u = CHR ''/'' \<Longrightarrow> v = [] \<or> hd v = CHR ''/'' \<Longrightarrow> n = m"
proof -
  assume eq: "dec n @ u = dec m @ v" and u: "u = [] \<or> hd u = CHR ''/''" and v: "v = [] \<or> hd v = CHR ''/''"
  have tw: "takeWhile (\<lambda>c. c \<noteq> CHR ''/'') (dec k @ x) = dec k" if "x = [] \<or> hd x = CHR ''/''" for k x
  proof -
    have "\<And>c. c \<in> set (dec k) \<Longrightarrow> c \<noteq> CHR ''/''" using dec_no_slash [of k] by auto
    then have "takeWhile (\<lambda>c. c \<noteq> CHR ''/'') (dec k @ x) = dec k @ takeWhile (\<lambda>c. c \<noteq> CHR ''/'') x"
      by (rule takeWhile_append2)
    with that show ?thesis by (cases x) auto
  qed
  have "dec n = dec m" using tw [OF u, of n] tw [OF v, of m] eq by simp
  then show ?thesis by simp
qed

lemma relevant_not_scratch:
  assumes "relevant root m q" and "m \<noteq> n"
  shows "\<not> scratch root n q"
proof -
  have short: "\<not> prefix (slash root @ x) root" if "x \<noteq> []" for x
    using that slash_longer [of root] prefix_length_le [of "slash root @ x" root] by (cases x) auto
  have digit: "is_digit (CHR ''.'') = False" by (simp add: is_digit_def)
  obtain c cs where c: "dec m = c # cs" "is_digit c" using dec_head by blast
  with digit have cdot: "c \<noteq> CHR ''.''" by auto
  have gen: "\<not> under (generation_path root n) (generation_path root m)"
    "\<not> under (generation_path root n) (state_path root m)"
    using assms(2) dec_prefix_slash [of m "[]" n] dec_prefix_slash [of m "''/state.v1''" n]
    by (auto simp: under_iff path_defs)
  have "\<not> under (generation_path root n) root"
    using short [of "''generations/'' @ dec n"] by (auto simp: under_iff path_defs prefix_def)
  with assms(1) gen short c cdot show ?thesis
    by (auto simp: relevant_def scratch_def path_defs under_def)
qed

lemma stores_stable:
  assumes "\<And>q. relevant root (generation s) q \<Longrightarrow> \<not> S q"
  shows "stable S (\<lambda>w. stores root w s)"
  unfolding stable_def
proof (intro allI impI)
  fix w w' assume t: "touches S w w'" and st: "stores root w s"
  have user: "euid w' = euid w" using t by (simp add: touches_def same_process_def)
  have at: "file_at w' q = file_at w q \<and> private_at w' q = private_at w q"
    if "relevant root (generation s) q" for q
    using t assms that user by (simp add: touches_def private_at_def split: option.split)
  have "relevant root (generation s) root" "relevant root (generation s) (current_path root)"
    "relevant root (generation s) (generations_path root)"
    "relevant root (generation s) (generation_path root (generation s))"
    "relevant root (generation s) (state_path root (generation s))"
    by (simp_all add: relevant_def)
  note eqs = this [THEN at]
  have "generation_at root w' s = generation_at root w s" "link_at root w' (generation s) = link_at root w (generation s)"
    by (simp_all add: generation_at_def link_at_def eqs user split: option.split)
  with st show "stores root w' s" by (simp add: stores_def eqs)
qed


section \<open>The steps of a commit\<close>

definition letters_ok :: "world \<Rightarrow> bool" where
  "letters_ok w \<longleftrightarrow> length (suffix w) = 6 \<and> list_all is_alnum (suffix w)"

text \<open>A root that does not exist has nothing in it.\<close>

definition rooted :: "string \<Rightarrow> world \<Rightarrow> bool" where
  "rooted root w \<longleftrightarrow> file_at w root \<noteq> None \<or>
     file_at w (current_path root) = None \<and> file_at w (generations_path root) = None"

definition state_dir :: "nat \<Rightarrow> nat \<Rightarrow> inode" where
  "state_dir user number = \<lparr> st_kind = S_IFDIR, st_mode = 448, st_uid = user, st_nlink = 2, st_data = [],
     st_ino = number \<rparr>"

lemma create_directory_result:
  assumes "create_directory p 448 True w = (r, w')"
  shows "(same_files w w' \<or> file_at w p = None \<and> same_process w w' \<and>
      (\<forall>q. file_at w' q = (if q = p then Some (state_dir (euid w) (fresh_ino w)) else file_at w q))) \<and>
    (r \<noteq> None \<longrightarrow> private_at w' p)"
proof -
  obtain m u where m: "sys_mkdir p 448 w = (m, u)" by (cases "sys_mkdir p 448 w")
  obtain k v where k: "(case m of Inr _ \<Rightarrow> ok (sys_chmod p 448)
      | Inl e \<Rightarrow> require (True \<and> e = EEXIST)) u = (k, v)"
    by (cases "(case m of Inr _ \<Rightarrow> ok (sys_chmod p 448) | Inl e \<Rightarrow> require (True \<and> e = EEXIST)) u")
  have run: "create_directory p 448 True w =
      (case k of None \<Rightarrow> (None, v) | Some _ \<Rightarrow> private_directory p v)"
    using m k by (simp add: create_directory_def act_defs split: option.split)
  have uv: "same_files u v \<or> (\<exists>x. m = Inr x) \<and> (\<exists>i. file_at u p = Some i \<and> same_process u v \<and>
      (\<forall>q. file_at v q = (if q = p then Some (i\<lparr> st_mode := 448 \<rparr>) else file_at u q)))"
  proof (cases m)
    case (Inl e)
    with k show ?thesis by (simp add: require_def)
  next
    case (Inr x)
    obtain c u' where c: "sys_chmod p 448 u = (c, u')" by (cases "sys_chmod p 448 u")
    with k Inr have v: "v = u'" by (cases c) (auto simp: ok_def)
    show ?thesis
    proof (cases c)
      case (Inl e)
      have "same_files u u'"
        using c Inl unfolding sys_chmod_def
        by (intro faulty_Inl_same) (auto split: option.splits)
      with v show ?thesis by simp
    next
      case Inr
      with c v sys_chmod_success [of p 448 u u'] \<open>m = Inr x\<close> show ?thesis by (cases m) auto
    qed
  qed
  have wv: "same_files w v \<or> file_at w p = None \<and> same_process w v \<and>
      (\<forall>q. file_at v q = (if q = p then Some (state_dir (euid w) (fresh_ino w)) else file_at w q))"
  proof (cases m)
    case (Inl e)
    with sys_mkdir_failure [of p 448 w e u] m uv show ?thesis by (auto intro: same_files_trans)
  next
    case (Inr x)
    with sys_mkdir_success [of p 448 w u] m uv show ?thesis
      by (auto simp: same_files_def same_process_def state_dir_def)
  qed
  show ?thesis
  proof (cases k)
    case None
    with run assms wv show ?thesis by simp
  next
    case (Some y)
    with run assms have d: "private_directory p v = (r, w')" by simp
    have vw': "same_files v w'" by (rule framed_same_files [OF framed_private(1) d])
    have "private_at w' p" if "r \<noteq> None"
      using that d private_directory_success [of p v] vw' by (auto simp: same_files_private)
    with wv vw' show ?thesis
      by (auto intro: same_files_trans simp: same_files_def same_process_def)
  qed
qed


lemma path_distinct [simp]:
  "current_path root \<noteq> root" "generations_path root \<noteq> root" "root \<noteq> current_path root"
  "root \<noteq> generations_path root" "current_path root \<noteq> generations_path root"
  "generations_path root \<noteq> current_path root"
  by (simp_all add: path_defs)

lemma private_state_dir: "file_at w p = Some (state_dir (euid w) n) \<Longrightarrow> private_at w p"
  by (simp add: private_at_def state_dir_def)

lemma same_files_letters: "same_files w w' \<Longrightarrow> letters_ok w' = letters_ok w"
  by (simp add: same_files_def same_process_def letters_ok_def)

definition ready :: "string \<Rightarrow> c1_update_state \<Rightarrow> world \<Rightarrow> bool" where
  "ready root s w \<longleftrightarrow> stores root w s \<and> private_at w root \<and> private_at w (generations_path root) \<and>
     letters_ok w"

lemma make_root:
  "hoare (\<lambda>w. stores root w s \<and> rooted root w \<and> letters_ok w) (create_directory root 448 True)
     (\<lambda>_ w. stores root w s \<and> private_at w root \<and> letters_ok w) (\<lambda>w. stores root w s)"
  unfolding hoare_def
proof (intro allI impI)
  fix w r w' assume pre: "stores root w s \<and> rooted root w \<and> letters_ok w"
    and run: "create_directory root 448 True w = (r, w')"
  from create_directory_result [OF run] have "stores root w' s \<and> letters_ok w'"
  proof (elim conjE disjE)
    assume "same_files w w'"
    with pre show ?thesis by (simp add: same_files_stored same_files_letters)
  next
    assume none: "file_at w root = None" and p: "same_process w w'"
      and new: "\<forall>q. file_at w' q = (if q = root then Some (state_dir (euid w) (fresh_ino w)) else file_at w q)"
    from none pre have "generation s = 0" "s = zero_state"
      by (auto simp: stores_def private_at_def split: if_splits)
    moreover from none pre new have "file_at w' (current_path root) = None"
        "file_at w' (generations_path root) = None"
      by (simp_all add: rooted_def)
    moreover from new p have "private_at w' root"
      by (intro private_state_dir) (simp add: same_process_def)
    ultimately show ?thesis using pre p by (simp add: stores_def letters_ok_def same_process_def)
  qed
  with create_directory_result [OF run]
  show "case r of None \<Rightarrow> stores root w' s
      | Some x \<Rightarrow> stores root w' s \<and> private_at w' root \<and> letters_ok w'"
    by (cases r) auto
qed

lemma make_generations:
  "hoare (\<lambda>w. stores root w s \<and> private_at w root \<and> letters_ok w)
     (create_directory (generations_path root) 448 True)
     (\<lambda>_. ready root s) (\<lambda>w. stores root w s)"
  unfolding hoare_def
proof (intro allI impI)
  fix w r w' assume pre: "stores root w s \<and> private_at w root \<and> letters_ok w"
    and run: "create_directory (generations_path root) 448 True w = (r, w')"
  from create_directory_result [OF run]
  have "stores root w' s \<and> private_at w' root \<and> letters_ok w'"
  proof (elim conjE disjE)
    assume "same_files w w'"
    with pre show ?thesis
      by (simp add: same_files_stored same_files_private same_files_letters)
  next
    assume none: "file_at w (generations_path root) = None" and p: "same_process w w'"
      and new: "\<forall>q. file_at w' q = (if q = generations_path root then Some (state_dir (euid w) (fresh_ino w)) else file_at w q)"
    from none pre have zero: "generation s = 0" "s = zero_state"
      by (auto simp: stores_def private_at_def split: if_splits)
    from new p have gens: "private_at w' (generations_path root)"
      by (intro private_state_dir) (simp add: same_process_def)
    from new p pre have root: "private_at w' root"
      by (simp add: private_at_def same_process_def split: option.splits)
    have "file_at w root \<noteq> None" using pre by (auto simp: private_at_def split: option.splits)
    with zero pre have "file_at w (current_path root) = None" by (auto simp: stores_def)
    with zero gens root new pre p show ?thesis by (simp add: stores_def letters_ok_def same_process_def)
  qed
  with create_directory_result [OF run]
  show "case r of None \<Rightarrow> stores root w' s | Some x \<Rightarrow> ready root s w'"
    by (cases r) (auto simp: ready_def)
qed

text \<open>Everything before the switch works on scratch paths and keeps what is stored.\<close>

lemma ready_stable:
  assumes "generation s \<noteq> n"
  shows "stable (scratch root n) (ready root s)"
proof -
  have rel: "\<not> scratch root n root" "\<not> scratch root n (generations_path root)"
    using relevant_not_scratch [OF _ assms] by (simp_all add: relevant_def)
  have "stable (scratch root n) (\<lambda>w. stores root w s)"
    by (rule stores_stable) (use relevant_not_scratch [OF _ assms] in blast)
  then show ?thesis
    using rel by (auto simp: stable_def ready_def touches_def private_at_def letters_ok_def
        same_process_def split: option.splits)
qed

lemma draft_scratch:
  assumes "under (slash root @ ''generations/.new.'' @ x) q"
  shows "scratch root n q"
  using assms by (auto simp: scratch_def under_iff)

lemma current_tmp_scratch: "tmp_of (current_path root) q \<Longrightarrow> scratch root n q"
  by (auto simp: scratch_def tmp_of_def tmp_name_def under_iff path_defs)

lemma last_alnum: "letters \<noteq> [] \<Longrightarrow> list_all is_alnum letters \<Longrightarrow> slash (x @ letters) = x @ letters @ ''/''"
proof -
  assume "letters \<noteq> []" "list_all is_alnum letters"
  then have "is_alnum (last letters)" by (simp add: list_all_iff)
  then have "last letters \<noteq> CHR ''/''" by (auto simp: char_class_defs)
  with \<open>letters \<noteq> []\<close> show ?thesis by (simp add: slash_def)
qed


definition draft_path :: "string \<Rightarrow> nat \<Rightarrow> nat \<Rightarrow> string \<Rightarrow> string" where
  "draft_path root n process letters =
     slash root @ ''generations/.new.'' @ dec n @ ''.'' @ dec process @ ''.'' @ letters"

lemma draft_template:
  assumes "join_path (generations_path root) (''.new.'' @ dec n @ ''.'' @ dec k @ ''.XXXXXX'') = Some t"
  shows "take (length t - 6) t @ letters = draft_path root n k letters"
proof -
  have "t = slash (generations_path root) @ ''.new.'' @ dec n @ ''.'' @ dec k @ ''.XXXXXX''"
    using assms by (rule join_path_Some)
  then have "t = (slash root @ ''generations/.new.'' @ dec n @ ''.'' @ dec k @ ''.'') @ ''XXXXXX''"
    by (simp add: path_defs slash_def)
  moreover have "take (length (a @ ''XXXXXX'') - 6) (a @ ''XXXXXX'') = a" for a :: string
    by simp
  ultimately have "take (length t - 6) t = slash root @ ''generations/.new.'' @ dec n @ ''.'' @ dec k @ ''.''"
    by (simp only:)
  then show ?thesis by (simp add: draft_path_def)
qed

definition u64_state :: "c1_update_state \<Rightarrow> bool" where
  "u64_state s \<longleftrightarrow> generation s \<le> UINT64_MAX \<and> st_sequence s \<le> UINT64_MAX \<and>
     st_security_epoch s \<le> UINT64_MAX"

lemma request_state_ok: "commit_request_valid p s \<Longrightarrow> u64_state s \<Longrightarrow> state_ok s"
  by (simp add: commit_request_valid_def state_ok_def u64_state_def)

text \<open>The draft: what it holds once it is filled, and that renaming it gives the generation.\<close>

lemma fill_draft:
  assumes d: "private_at w d" and f: "file_at w sp = Some (written (euid w) 384 (state_text s))"
    and sp: "sp = d @ ''/state.v1''" and ok: "state_ok s"
    and len: "length (state_text s) < C1_STATE_FILE_MAX"
    and run: "sys_rename d (generation_path root (generation s)) w = (Inr (), w')"
    and ne: "d \<noteq> generation_path root (generation s)"
  shows "generation_at root w' s"
proof -
  let ?g = "generation_path root (generation s)"
  from sys_rename_success [OF run ne] have
    new: "file_at w' (?g @ x) = file_at w (d @ x)" if "x = [] \<or> hd x = CHR ''/''" for x
    using that by (auto simp: under_iff)
  have user: "euid w' = euid w" using sys_rename_success [OF run ne] by (simp add: same_process_def)
  have sg: "state_path root (generation s) = ?g @ ''/state.v1''" by (simp add: path_defs)
  from new [of "[]"] d user have "private_at w' ?g"
    by (simp add: private_at_def split: option.splits)
  moreover from new [of "''/state.v1''"] f sp
  have "file_at w' (state_path root (generation s)) = Some (written (euid w') 384 (state_text s))"
    by (simp add: sg user)
  moreover have "parse_state_data (state_text s) (generation s) = Some s"
    using ok by (simp add: state_file.parse_print [of s, simplified])
  ultimately show ?thesis using len by (simp add: generation_at_def written_def)
qed


lemma framed_lift_bind:
  "(\<And>x. r = Some x \<Longrightarrow> framed S (k x)) \<Longrightarrow> framed S (bind_act (lift r) k)"
  by (cases r) (auto simp: framed_def bind_act_def lift_def)

lemma framed_mkdtemp_bind:
  assumes "\<And>letters. S (take (length t - 6) t @ letters)"
    and "\<And>letters. framed S (k (take (length t - 6) t @ letters))"
  shows "framed S (bind_act (mkdtemp t) k)"
proof -
  have "bind_act (mkdtemp t) k =
      bind_act (asks suffix) (\<lambda>letters. bind_act (ok (sys_mkdir (take (length t - 6) t @ letters) 448))
        (\<lambda>_. k (take (length t - 6) t @ letters)))"
    by (auto simp: mkdtemp_def act_defs Let_def fun_eq_iff split: prod.split sum.split option.split)
  moreover have "framed S \<dots>"
    by (intro frames assms)
  ultimately show ?thesis by simp
qed

lemma prefix_extend: "prefix p d \<Longrightarrow> prefix p (d @ x)"
  by (simp add: prefix_prefix)

lemma prefix_under: "prefix p d \<Longrightarrow> under d q \<Longrightarrow> prefix p q"
  by (auto simp: under_iff prefix_extend)

lemma prefix_tmp_of: "prefix p d \<Longrightarrow> tmp_of d q \<Longrightarrow> prefix p q"
  by (auto simp: tmp_of_def tmp_name_def under_iff prefix_extend)

lemma prefix_slash: "prefix p d \<Longrightarrow> prefix p (slash d @ x)"
  by (simp add: slash_def prefix_extend)

lemma prefix_draft: "prefix (slash root @ ''generations/.new.'') (draft_path root n k letters)"
  by (simp add: draft_path_def)

lemma framed_write_generation:
  "framed (scratch root (generation next))
     (write_generation (generations_path root) (generation_path root (generation next)) next)"
proof -
  let ?S = "scratch root (generation next)" and ?D = "prefix (slash root @ ''generations/.new.'')"
  have D: "?D q \<Longrightarrow> ?S q" for q by (simp add: scratch_def)
  have inner: "framed ?S (case join_path d ''state.v1'' of
        None \<Rightarrow> then_act (ignore sys_touch) (then_act (ignore (sys_rmdir d)) stop)
      | Some sp \<Rightarrow>
          on_failure
            (then_act (require (length (state_text next) < C1_STATE_FILE_MAX))
            (then_act (c1_secure_atomic_write sp (state_text next) 384)
            (then_act (c1_secure_sync_directory d)
            (ok (sys_rename d (generation_path root (generation next)))))))
            (then_act (ignore (sys_unlink sp)) (ignore (sys_rmdir d))))"
    if d: "?D d" for d
  proof (cases "join_path d ''state.v1''")
    case None
    then show ?thesis
      by simp (intro frames D d)
  next
    case (Some sp)
    then have sp: "?D sp" using d by (auto dest: join_path_Some intro: prefix_slash)
    have new: "under (generation_path root (generation next)) q \<Longrightarrow> ?S q" for q
      by (simp add: scratch_def)
    have wr: "framed ?S (c1_secure_atomic_write sp x 384)" for x
      by (rule atomic_write_framed) (elim disjE, (rule D, erule prefix_under [OF sp]), (rule D, erule prefix_tmp_of [OF sp]))
    have move: "framed ?S (sys_rename d (generation_path root (generation next)))"
      by (rule framed_rename) (rule D, erule prefix_under [OF d], rule new)
    show ?thesis
      unfolding Some option.case
      by (intro framed_on_failure framed_then framed_require framed_ignore framed_sync_directory
          framed_ok wr move) (rule framed_sys, rule D, rule sp, rule framed_sys, rule D, rule d)
  qed
  show ?thesis
    unfolding write_generation_def Let_def
    by (intro framed_bind [OF framed_asks] framed_then framed_require framed_lift_bind framed_mkdtemp_bind;
        simp only: draft_template; (rule inner | rule D); rule prefix_draft)
qed


lemma write_generation_success:
  assumes run: "write_generation (generations_path root) (generation_path root (generation next)) next w
      = (Some x, w')"
    and letters: "letters_ok w" and ok: "state_ok next"
  shows "generation_at root w' next"
proof -
  let ?d = "draft_path root (generation next) (pid w) (suffix w)"
  have "suffix w \<noteq> []" using letters by (auto simp: letters_ok_def)
  then have last: "slash ?d = ?d @ ''/''"
    using letters last_alnum [of "suffix w" "slash root @ ''generations/.new.'' @ dec (generation next) @ ''.'' @ dec (pid w) @ ''.''"]
    by (auto simp: draft_path_def letters_ok_def)
  from run obtain t where t: "join_path (generations_path root)
      (''.new.'' @ dec (generation next) @ ''.'' @ dec (pid w) @ ''.XXXXXX'') = Some t"
    and rest: "bind_act (mkdtemp t) (\<lambda>d. case join_path d ''state.v1'' of
        None \<Rightarrow> then_act (ignore sys_touch) (then_act (ignore (sys_rmdir d)) stop)
      | Some sp \<Rightarrow>
          on_failure
            (then_act (require (length (state_text next) < C1_STATE_FILE_MAX))
            (then_act (c1_secure_atomic_write sp (state_text next) 384)
            (then_act (c1_secure_sync_directory d)
            (ok (sys_rename d (generation_path root (generation next)))))))
            (then_act (ignore (sys_unlink sp)) (ignore (sys_rmdir d)))) w = (Some x, w')"
    by (auto simp only: write_generation_def Let_def act_Some lift_Some)
  from rest obtain w1 where
    m: "sys_mkdir ?d 448 w = (Inr (), w1)"
    and rest2: "(case join_path ?d ''state.v1'' of
        None \<Rightarrow> then_act (ignore sys_touch) (then_act (ignore (sys_rmdir ?d)) stop)
      | Some sp \<Rightarrow>
          on_failure
            (then_act (require (length (state_text next) < C1_STATE_FILE_MAX))
            (then_act (c1_secure_atomic_write sp (state_text next) 384)
            (then_act (c1_secure_sync_directory ?d)
            (ok (sys_rename ?d (generation_path root (generation next)))))))
            (then_act (ignore (sys_unlink sp)) (ignore (sys_rmdir ?d)))) w1 = (Some x, w')"
    by (auto simp: mkdtemp_def Let_def act_Some draft_template [OF t])
  then obtain sp where sp0: "join_path ?d ''state.v1'' = Some sp"
    by (cases "join_path ?d ''state.v1''") (auto simp: act_Some)
  have sp: "sp = ?d @ ''/state.v1''" using join_path_Some [OF sp0] by (simp add: last)
  from rest2 sp0 obtain y1 y2 w2 w3 where
    len: "length (state_text next) < C1_STATE_FILE_MAX"
    and a: "c1_secure_atomic_write sp (state_text next) 384 w1 = (Some y1, w2)"
    and s: "c1_secure_sync_directory ?d w2 = (Some y2, w3)"
    and r: "sys_rename ?d (generation_path root (generation next)) w3 = (Inr (), w')"
    by (auto simp: act_Some)
  have made: "file_at w1 ?d = Some (state_dir (euid w) (fresh_ino w))" "same_process w w1"
    using sys_mkdir_success [OF m] by (simp_all add: state_dir_def)
  have "\<not> under sp ?d" "\<not> tmp_of sp ?d"
    by (auto simp: sp under_iff tmp_of_def tmp_name_def)
  then have d2: "file_at w2 ?d = file_at w1 ?d" and user: "euid w2 = euid w1"
    and f2: "file_at w2 sp = Some (written (euid w1) 384 (state_text next))"
    using atomic_write_result [where path = sp and data = "state_text next" and mode = 384 and w = w1]
      framedD [OF atomic_write_framed [of sp "\<lambda>q. under sp q \<or> tmp_of sp q"] a]
    by (auto simp: a touches_def same_process_def)
  have same: "same_files w2 w3" by (rule sync_directory_same [OF s])
  then have "private_at w3 ?d"
    using made d2 user by (intro private_state_dir) (simp add: same_files_def same_process_def)
  moreover have "file_at w3 sp = Some (written (euid w3) 384 (state_text next))"
    using f2 same user by (simp add: same_files_def same_process_def)
  moreover have "?d \<noteq> generation_path root (generation next)"
    using dec_head [of "generation next"] by (auto simp: draft_path_def path_defs is_digit_def)
  ultimately show ?thesis
    using fill_draft [OF _ _ sp ok len r] by blast
qed


definition prepared :: "string \<Rightarrow> c1_update_state \<Rightarrow> c1_update_state \<Rightarrow> world \<Rightarrow> bool" where
  "prepared root s next w \<longleftrightarrow> ready root s w \<and> generation_at root w next"

lemma current_not_generation:
  "\<not> tmp_of (current_path root) (generation_path root n)" "\<not> tmp_of (current_path root) (state_path root n)"
  "\<not> under (current_path root) (generation_path root n)" "\<not> under (current_path root) (state_path root n)"
  "\<not> under (current_path root) root" "\<not> under (current_path root) (generations_path root)"
  "\<not> tmp_of (current_path root) root" "\<not> tmp_of (current_path root) (generations_path root)"
proof -
  have short: "root \<noteq> slash root @ x @ y" if "x \<noteq> []" for x y
    using that by simp
  show "\<not> under (current_path root) root" "\<not> tmp_of (current_path root) root"
    using short by (auto simp: tmp_of_def tmp_name_def under_iff path_defs)
qed (auto simp: tmp_of_def tmp_name_def under_iff path_defs)

lemma prepared_stable:
  assumes "generation s \<noteq> generation next"
  shows "stable (tmp_of (current_path root)) (prepared root s next)"
  unfolding stable_def
proof (intro allI impI)
  fix w w' assume t: "touches (tmp_of (current_path root)) w w'" and p: "prepared root s next w"
  have "touches (scratch root (generation next)) w w'"
    using t current_tmp_scratch by (rule touches_mono)
  with p ready_stable [OF assms] have "ready root s w'"
    unfolding prepared_def stable_def by blast
  moreover have "generation_at root w' next"
    using p t current_not_generation(1,2) [of root "generation next"]
    by (auto simp: prepared_def generation_at_def private_at_def touches_def same_process_def
        split: option.splits)
  ultimately show "prepared root s next w'" by (simp add: prepared_def)
qed

definition link_inode :: "nat \<Rightarrow> nat \<Rightarrow> inode" where
  "link_inode user n = \<lparr> st_kind = S_IFLNK, st_mode = 511, st_uid = user, st_nlink = 1,
     st_data = ''generations/'' @ dec n, st_ino = 0 \<rparr>"

lemma rename_link:
  assumes run: "sys_rename t (current_path root) w = (Inr (), w')" and t: "t = tmp_name (current_path root) k i"
    and link: "file_at w t = Some (link_inode (euid w) (generation next))"
    and p: "prepared root s next w"
    and n: "generation next \<noteq> 0" "generation next \<le> UINT64_MAX"
  shows "stores root w' next"
proof -
  have ne: "t \<noteq> current_path root" by (simp add: t tmp_name_def)
  from sys_rename_success [OF run ne]
  have user: "euid w' = euid w" and cur: "file_at w' (current_path root) = file_at w t"
    and rest: "\<And>q. \<not> under (current_path root) q \<Longrightarrow> \<not> tmp_of (current_path root) q \<Longrightarrow>
      file_at w' q = file_at w q"
    by (auto simp: same_process_def tmp_of_def t)
  have same: "file_at w' q = file_at w q \<and> private_at w' q = private_at w q"
    if "\<not> under (current_path root) q" "\<not> tmp_of (current_path root) q" for q
    using rest [OF that] user by (simp add: private_at_def split: option.split)
  have "link_at root w' (generation next)"
    using cur link user by (simp add: link_at_def link_inode_def)
  moreover have "generation_at root w' next"
    using p same [OF current_not_generation(3,1)] same [OF current_not_generation(4,2)] user
    by (simp add: prepared_def generation_at_def split: option.splits)
  moreover have "private_at w' root" "private_at w' (generations_path root)"
    using p same [OF current_not_generation(5,7)] same [OF current_not_generation(6,8)]
    by (simp_all add: prepared_def ready_def)
  ultimately show ?thesis using n by (simp add: stores_def)
qed

lemma switch_hoare:
  assumes ne: "generation s \<noteq> generation next" and n: "generation next \<noteq> 0" "generation next \<le> UINT64_MAX"
  shows "hoare (prepared root s next)
    (switch_current root (current_path root) (''generations/'' @ dec (generation next)))
    (\<lambda>_ w. stores root w next) (\<lambda>w. stores root w s \<or> stores root w next)"
proof -
  let ?S = "tmp_of (current_path root)" and ?P = "prepared root s next"
  let ?t = "tmp_name (current_path root)" and ?n = "generation next"
  let ?L = "\<lambda>k i w. file_at w (?t k i) = Some (link_inode (euid w) ?n)"
  note P = prepared_stable [OF ne]
  have S: "?S (?t k i)" for k i by (rule under_tmp_name [OF under_self])
  let ?call = "\<lambda>k i w. if C1_UPDATE_PATH_MAX \<le> length (?t k i) then (Inl EOTHER, w)
      else sys_symlink (''generations/'' @ dec ?n) (?t k i) w"
  have call: "framed ?S (?call k i)" for k i
    using framed_sys(5) [of ?S "?t k i", OF S] by (simp add: framed_def)
  have look: "hoare ?P (probe (current_path root)) (\<lambda>_. ?P) ?P"
    by (rule hoare_keep [OF framed_probe P])
  have check: "hoare ?P (require b) (\<lambda>_. ?P) ?P" for b
    by (rule hoare_keep [OF framed_require P])
  have process: "hoare ?P (asks pid) (\<lambda>_. ?P) ?P"
    by (rule hoare_keep [OF framed_asks P])
  have names: "hoare ?P (attempt_names 128 0 (?call k)) (\<lambda>i w. ?P w \<and> (i < 128 \<longrightarrow> ?L k i w)) ?P" for k
  proof (rule hoare_stable [where S = ?S])
    show "framed ?S (attempt_names 128 0 (?call k))" by (intro framed_attempt_names call)
    show "stable ?S ?P" by (rule P)
    show "i < 128 \<longrightarrow> ?L k i w'" if "attempt_names 128 0 (?call k) w = (Some i, w')" for w w' i
      using attempt_names_success [OF that]
      by (auto simp: link_inode_def same_process_def dest!: sys_symlink_success split: if_splits)
  qed
  have limit: "hoare (\<lambda>w. ?P w \<and> (i < 128 \<longrightarrow> ?L k i w)) (require (i < 128)) (\<lambda>_ w. ?P w \<and> ?L k i w) ?P"
    for k i by (auto simp: hoare_def require_def)
  have switch: "hoare (\<lambda>w. ?P w \<and> ?L k i w)
      (on_failure (ok (sys_rename (?t k i) (current_path root))) (ignore (sys_unlink (?t k i))))
      (\<lambda>_ w. stores root w next) (\<lambda>w. stores root w s)" for k i
    unfolding hoare_def
  proof (intro allI impI)
    fix w r w' assume pre: "?P w \<and> ?L k i w"
      and run: "on_failure (ok (sys_rename (?t k i) (current_path root)))
        (ignore (sys_unlink (?t k i))) w = (r, w')"
    show "case r of None \<Rightarrow> stores root w' s | Some x \<Rightarrow> stores root w' next"
    proof (cases r)
      case None
      then obtain e v where v: "sys_rename (?t k i) (current_path root) w = (Inl e, v)"
          and w': "w' = snd (ignore (sys_unlink (?t k i)) v)"
        using run by (auto simp: on_failure_def ok_def split: prod.splits option.splits sum.splits)
      have "touches ?S w v"
        using sys_rename_failure [OF v] by (simp add: same_files_def touches_def)
      moreover have "touches ?S v w'"
        unfolding w' using framed_ignore [OF framed_sys(6) [of ?S, OF S]] by (simp add: framed_def)
      ultimately have "touches ?S w w'" by (rule touches_trans)
      with pre P have "?P w'" unfolding stable_def by blast
      with None show ?thesis by (simp add: prepared_def ready_def)
    next
      case (Some x)
      with run have "sys_rename (?t k i) (current_path root) w = (Inr (), w')" by (simp add: act_Some)
      from rename_link [OF this refl _ _ n, of s] pre Some show ?thesis by simp
    qed
  qed
  have sync: "hoare (\<lambda>w. stores root w next) (c1_secure_sync_directory root)
      (\<lambda>_ w. stores root w next) (\<lambda>w. stores root w s \<or> stores root w next)"
    unfolding hoare_def
    by (auto dest!: sync_directory_same simp: same_files_stored split: option.split)
  show ?thesis
    unfolding switch_current_def then_act_def
    by (rule hoare_seq [OF look], rule hoare_seq [OF check], rule hoare_seq [OF process],
        rule hoare_seq [OF names], rule hoare_seq [OF limit], rule hoare_seq [OF switch], rule sync)
       (simp_all add: prepared_def ready_def)
qed


lemma stores_unique:
  assumes "stores root w s" and "stores root w t"
  shows "s = t"
proof -
  have zero: "s' = zero_state \<and> (file_at w root = None \<or> file_at w (current_path root) = None)"
    if "generation s' = 0" "stores root w s'" for s'
    using that(2) unfolding stores_def if_P [OF that(1)] by auto
  have pos: "private_at w root \<and> generation_at root w s' \<and> link_at root w (generation s')"
    if "generation s' \<noteq> 0" "stores root w s'" for s'
    using that(2) unfolding stores_def if_not_P [OF that(1)] by auto
  have mixed: False if "generation s' = 0" "stores root w s'" "generation t' \<noteq> 0" "stores root w t'" for s' t'
    using zero [OF that(1,2)] pos [OF that(3,4)] by (auto simp: private_at_def link_at_def)
  have both: "s = t" if "generation s \<noteq> 0" "generation t \<noteq> 0"
  proof -
    note ps = pos [OF that(1) assms(1)] and pt = pos [OF that(2) assms(2)]
    then have "generation s = generation t" by (auto simp: link_at_def split: option.splits)
    with ps pt show ?thesis by (auto simp: generation_at_def split: option.splits)
  qed
  show ?thesis
  proof (cases "generation s = 0")
    case True
    then have "generation t = 0" using mixed [OF True assms(1) _ assms(2)] by blast
    with True zero [OF True assms(1)] zero [OF _ assms(2)] show ?thesis by simp
  next
    case False
    then have "generation t \<noteq> 0" using mixed [OF _ assms(2) False assms(1)] by blast
    with False both show ?thesis by blast
  qed
qed

lemma same_files_rooted: "same_files w w' \<Longrightarrow> rooted root w' = rooted root w"
  by (simp add: rooted_def same_files_def)

lemma hoare_joined:
  assumes "\<And>x. r = Some x \<Longrightarrow> hoare P (k x) Q E" and "\<And>w. P w \<Longrightarrow> E w"
  shows "hoare P (bind_act (lift r) k) Q E"
  using assms by (cases r) (auto simp: hoare_def bind_act_def lift_def)

lemma publish_hoare:
  assumes ne: "generation s \<noteq> generation next" and n: "generation next \<noteq> 0" "generation next \<le> UINT64_MAX"
    and ok: "state_ok next"
  shows "hoare (ready root s) (publish_generation root (generations_path root) next)
    (\<lambda>_ w. stores root w next) (\<lambda>w. stores root w s \<or> stores root w next)"
proof -
  let ?g = "generation_path root (generation next)"
  note stable = ready_stable [OF ne]
  have look: "hoare (ready root s) (probe ?g) (\<lambda>_. ready root s) (ready root s)"
    by (rule hoare_keep [OF framed_probe stable])
  have old: "hoare (ready root s)
      (bind_act (load_generation_state ?g (generation next)) (\<lambda>stored. require (state_equal stored next)))
      (\<lambda>_ w. ready root s w \<and> generation_at root w next) (ready root s)"
  proof (rule hoare_stable [OF _ stable])
    show "generation_at root w' next"
      if "bind_act (load_generation_state ?g (generation next)) (\<lambda>stored. require (state_equal stored next)) w
        = (Some x, w')" for w x w'
    proof -
      from that have "load_generation_state ?g (generation next) w = (Some next, w')"
        by (auto simp: act_Some)
      from load_generation_success [OF this] framed_same_files [OF framed_load_generation this]
      show ?thesis by (simp add: same_files_stored)
    qed
  qed (intro frames)
  have new: "hoare (ready root s) (write_generation (generations_path root) ?g next)
      (\<lambda>_ w. ready root s w \<and> generation_at root w next) (ready root s)"
    by (rule hoare_stable [OF framed_write_generation stable])
       (rule write_generation_success, assumption, simp add: ready_def, rule ok)
  have make: "hoare (ready root s)
      (case existing of
         Some _ \<Rightarrow> bind_act (load_generation_state ?g (generation next)) (\<lambda>stored.
           require (state_equal stored next))
       | None \<Rightarrow> write_generation (generations_path root) ?g next)
      (\<lambda>_. prepared root s next) (ready root s)" for existing
    using old new unfolding prepared_def [abs_def] by (cases existing) (simp_all only: option.case)
  have keep: "hoare (prepared root s next) (c1_secure_sync_directory (generations_path root))
      (\<lambda>_. prepared root s next) (prepared root s next)"
    by (rule hoare_keep [OF framed_sync_directory prepared_stable [OF ne]])
  show ?thesis
    unfolding publish_generation_def then_act_def
    by (rule hoare_joined, drule join_root(3), simp only:, rule hoare_seq [OF look],
        rule hoare_seq [OF make], rule hoare_seq [OF keep], rule hoare_joined, drule join_root(1),
        simp only:, rule switch_hoare [OF ne n])
       (simp_all add: prepared_def ready_def)
qed

lemma commit_hoare:
  assumes u64: "u64_state next"
  shows "hoare (\<lambda>w. stores root w s \<and> rooted root w \<and> letters_ok w)
    (c1_update_state_commit root previous next)
    (\<lambda>_ w. stores root w next) (\<lambda>w. stores root w s \<or> stores root w next)"
proof (cases "commit_request_valid previous next")
  case False
  then show ?thesis
    by (auto simp: hoare_def c1_update_state_commit_def then_act_def bind_act_def require_def)
next
  case valid: True
  let ?P = "\<lambda>w. stores root w s \<and> rooted root w \<and> letters_ok w"
  let ?E = "\<lambda>w. stores root w s \<or> stores root w next"
  have n: "generation next \<noteq> 0" "generation next \<le> UINT64_MAX"
    using valid u64 by (simp_all add: commit_request_valid_def u64_state_def)
  have ok: "state_ok next" using request_state_ok [OF valid u64] .
  have check: "hoare ?P (require b) (\<lambda>_. ?P) ?P" for b
    by (simp add: hoare_def require_def)
  have load: "hoare ?P (c1_update_state_load root) (\<lambda>a w. ?P w \<and> a = s) ?P"
    unfolding hoare_def
  proof (intro allI impI)
    fix w r w' assume pre: "?P w" and run: "c1_update_state_load root w = (r, w')"
    have same: "same_files w w'" by (rule framed_same_files [OF framed_load run])
    have "a = s" if "r = Some a" for a
      using load_sound [of root w a w'] run that pre stores_unique by blast
    with pre same show "case r of None \<Rightarrow> ?P w' | Some a \<Rightarrow> ?P w' \<and> a = s"
      by (cases r) (simp_all add: same_files_stored same_files_rooted same_files_letters)
  qed
  have sync: "hoare ?P (c1_secure_sync_directory root) (\<lambda>_ w. stores root w next) ?E" if "s = next"
    unfolding hoare_def using that
    by (auto dest!: sync_directory_same simp: same_files_stored split: option.split)
  have work: "hoare ?P (then_act (require (state_equal s previous))
      (bind_act (lift (join_path root ''generations'')) (\<lambda>generations.
       then_act (create_directory root 448 True)
       (then_act (create_directory generations 448 True) (publish_generation root generations next)))))
      (\<lambda>_ w. stores root w next) ?E"
  proof (cases "s = previous")
    case False
    then show ?thesis by (auto simp: hoare_def then_act_def bind_act_def require_def)
  next
    case True
    then have ne: "generation s \<noteq> generation next"
      using valid by (simp add: commit_request_valid_def)
    show ?thesis
      unfolding then_act_def
      by (rule hoare_seq [OF check], rule hoare_joined, drule join_root(2), simp only:,
          rule hoare_seq [OF make_root], rule hoare_seq [OF make_generations], rule publish_hoare [OF ne n ok])
         simp_all
  qed
  have decide: "hoare (\<lambda>w. ?P w \<and> a = s)
      (if state_equal a next then c1_secure_sync_directory root
       else then_act (require (state_equal a previous))
        (bind_act (lift (join_path root ''generations'')) (\<lambda>generations.
         then_act (create_directory root 448 True)
         (then_act (create_directory generations 448 True) (publish_generation root generations next)))))
      (\<lambda>_ w. stores root w next) ?E" for a
  proof (cases "a = s")
    case True
    with sync work show ?thesis by auto
  qed (simp add: hoare_def)
  show ?thesis
    unfolding c1_update_state_commit_def then_act_def [of "require (commit_request_valid previous next)"]
    by (rule hoare_seq [OF check], rule hoare_seq [OF load], rule decide) simp_all
qed


section \<open>Loading reads what is stored\<close>

definition calm :: "world \<Rightarrow> world" where
  "calm w = w\<lparr> faults := [] \<rparr>"

text \<open>What the next start of the updater, undisturbed, loads.\<close>

definition reload :: "string \<Rightarrow> world \<Rightarrow> c1_update_state option" where
  "reload root w = fst (c1_update_state_load root (calm w))"

lemma calm_simps [simp]: "faults (calm w) = []" "file_at (calm w) p = file_at w p" "euid (calm w) = euid w"
  by (simp_all add: calm_def)

lemma calm_same: "same_files w (calm w)"
  by (simp add: same_files_def same_process_def calm_def)

lemma calm_calls:
  assumes "faults w = []"
  shows "probe p w = (Some (file_at w p), w)" "sys_touch w = (Inr (), w)"
    "sys_lstat p w = (case file_at w p of None \<Rightarrow> Inl ENOENT | Some i \<Rightarrow> Inr i, w)"
  using assms
  by (simp_all add: probe_def act_defs sys_defs faulty_def split: option.split)

lemma calm_private_directory:
  "faults w = [] \<Longrightarrow> private_at w p \<Longrightarrow> private_directory p w = (Some (), w)"
  by (auto simp: private_directory_def act_defs calm_calls private_at_def split: option.splits)

lemma calm_generation:
  assumes "faults w = []" and "generation_at root w s"
  shows "private_directory (generation_path root (generation s)) w = (Some (), w)"
    "private_state_file (state_path root (generation s)) w = (Some (), w)"
    "\<exists>d. c1_secure_read_file (state_path root (generation s)) C1_STATE_FILE_MAX None w = (Some d, w) \<and>
         parse_state_data d (generation s) = Some s"
  using assms
  by (auto simp: generation_at_def calm_private_directory private_state_file_def
      c1_secure_read_file_def act_defs calm_calls sys_open_read_def faulty_def split: option.splits)

lemma join_root_ok:
  assumes "root_ok root" and "n \<le> UINT64_MAX"
  shows "join_path root ''current'' = Some (current_path root)"
    "join_path root ''generations'' = Some (generations_path root)"
    "join_path root (''generations/'' @ dec n) = Some (generation_path root n)"
    "join_path (generations_path root) (dec n) = Some (generation_path root n)"
    "join_path (generation_path root n) ''state.v1'' = Some (state_path root n)"
proof -
  have len: "length (dec n) \<le> 20" using assms(2) length_dec [of n 20] by (simp add: UINT64_MAX_value)
  have root: "root \<noteq> []" "length (slash root) \<le> 3900"
    using assms(1) by (auto simp: root_ok_def slash_def)
  show "join_path root ''current'' = Some (current_path root)"
    "join_path root ''generations'' = Some (generations_path root)"
    "join_path root (''generations/'' @ dec n) = Some (generation_path root n)"
    using root len by (simp_all add: join_path_def path_defs C1_UPDATE_PATH_MAX_def)
  show "join_path (generations_path root) (dec n) = Some (generation_path root n)"
    using root len slash_generations [of root n]
    by (simp add: join_path_def C1_UPDATE_PATH_MAX_def) (simp add: path_defs)
  show "join_path (generation_path root n) ''state.v1'' = Some (state_path root n)"
    using root len slash_generation [of root n]
    by (simp add: join_path_def C1_UPDATE_PATH_MAX_def) (simp add: path_defs)
qed

lemma load_complete:
  assumes root: "root_ok root" and st: "stores root w s" and calm: "faults w = []"
  shows "c1_update_state_load root w = (Some s, w)"
proof (cases "generation s = 0")
  case True
  then have "s = zero_state" and "file_at w root = None \<or>
         private_at w root \<and> file_at w (current_path root) = None \<and>
         (file_at w (generations_path root) = None \<or> private_at w (generations_path root))"
    using st unfolding stores_def if_P [OF True] by auto
  then show ?thesis
    using calm_private_directory [OF calm]
    by (auto simp: c1_update_state_load_def load_without_link_def act_defs lift_def
        join_root_ok(1,2) [OF root le0] calm_calls [OF calm] private_at_def split: option.splits)
next
  case False
  then have p: "private_at w root" "private_at w (generations_path root)" "generation s \<le> UINT64_MAX"
    and g: "generation_at root w s" and l: "link_at root w (generation s)"
    using st unfolding stores_def if_not_P [OF False] by auto
  obtain r where r: "file_at w root = Some r" using p(1) by (auto simp: private_at_def split: option.splits)
  obtain i where i: "file_at w (current_path root) = Some i" "st_kind i = S_IFLNK" "st_uid i = euid w"
      "st_data i = ''generations/'' @ dec (generation s)"
    using l by (auto simp: link_at_def split: option.splits)
  have link: "sys_readlink (current_path root) w = (Inr (''generations/'' @ dec (generation s)), w)"
    using i calm by (simp add: sys_readlink_def faulty_def)
  have target: "parse_generation_target (''generations/'' @ dec (generation s)) = Some (generation s)"
    using False p by (simp only: parse_generation_target_iff) simp
  have len: "length (''generations/'' @ dec (generation s)) < 128"
    using p(3) length_dec [of "generation s" 20] by (simp add: UINT64_MAX_value)
  obtain d where d: "c1_secure_read_file (state_path root (generation s)) C1_STATE_FILE_MAX None w = (Some d, w)"
      "parse_state_data d (generation s) = Some s"
    using calm_generation(3) [OF calm g] by blast
  have "load_by_link root (current_path root) (generations_path root) i w = (Some s, w)"
    unfolding load_by_link_def
    by (simp only: act_defs lift_def calm_private_directory [OF calm p(2)] link target
        join_root_ok(3,5) [OF root p(3)] calm_generation(1,2) [OF calm g] d i len
        prod.case option.case sum.case if_True simp_thms append_is_Nil_conv list.distinct)
  then show ?thesis
    by (simp add: c1_update_state_load_def bind_act_def then_act_def lift_def join_root_ok(1,2) [OF root le0]
        calm_calls(1) [OF calm] r i(1) calm_private_directory [OF calm p(1)])
qed

lemma reload_iff: "root_ok root \<Longrightarrow> reload root w = Some s \<longleftrightarrow> stores root w s"
proof
  assume "root_ok root" "stores root w s"
  then show "reload root w = Some s"
    using load_complete [of root "calm w" s] by (simp add: reload_def same_files_stored [OF calm_same])
next
  assume "reload root w = Some s"
  then obtain w' where "c1_update_state_load root (calm w) = (Some s, w')"
    by (cases "c1_update_state_load root (calm w)") (simp add: reload_def)
  from load_sound [OF this] show "stores root w s" by (simp add: same_files_stored [OF calm_same])
qed


text \<open>C4. A commit is atomic under every pattern of faults. Whichever system call fails and wherever
  the power is lost, the next undisturbed load returns the state that was stored before or the
  complete next state; when the commit reports success it returns the next state. This holds for
  every caller argument \<open>previous\<close>, so also when it does not match what is stored.\<close>

theorem state_commit_atomic:
  assumes "root_ok root" and "reload root w = Some s" and "rooted root w" and "letters_ok w"
    and "u64_state next"
  shows "case c1_update_state_commit root previous next w of (r, w') \<Rightarrow>
    (if r = None then reload root w' \<in> {Some s, Some next} else reload root w' = Some next)"
proof -
  obtain r w' where run: "c1_update_state_commit root previous next w = (r, w')"
    by (cases "c1_update_state_commit root previous next w")
  have "stores root w s" using assms(1,2) by (simp add: reload_iff)
  with hoareD [OF commit_hoare [OF assms(5), where root = root and s = s] _ run] assms(3,4)
  show ?thesis by (cases r) (auto simp: run reload_iff [OF assms(1)])
qed

text \<open>A device with an empty state root, and a first update that starts downloading; the power is lost
  at the system call that the list of outcomes names.\<close>

definition demo_root :: string where "demo_root = ''/s''"

definition demo_world :: "outcome list \<Rightarrow> world" where
  "demo_world fs = \<lparr> files = [(''/'', state_dir 0 1), (''/s'', state_dir 0 1)],
     euid = 0, pid = 7, suffix = ''abcdef'', faults = fs \<rparr>"

definition demo_next :: c1_update_state where
  "demo_next = \<lparr> generation = 1, phase = C1_UPDATE_DOWNLOADING, st_sequence = 30,
     st_security_epoch = 2, release = ''2.9.12'', digest = demo_digest \<rparr>"

lemma demo_stored: "stores demo_root (demo_world fs) zero_state"
  by (simp add: stores_def zero_state_def demo_world_def demo_root_def file_at_def private_at_def
      state_dir_def path_defs slash_def)

theorem state_commit_atomic_witness:
  "case c1_update_state_commit demo_root zero_state demo_next (demo_world (replicate 33 Done @ [Cut 0])) of
     (r, w') \<Rightarrow> (if r = None then reload demo_root w' \<in> {Some zero_state, Some demo_next}
                 else reload demo_root w' = Some demo_next)"
proof (rule state_commit_atomic)
  show root: "root_ok demo_root" by (simp add: root_ok_def demo_root_def)
  show "reload demo_root (demo_world (replicate 33 Done @ [Cut 0])) = Some zero_state"
    using demo_stored by (simp add: reload_iff [OF root])
  show "rooted demo_root (demo_world (replicate 33 Done @ [Cut 0]))"
    by (simp add: rooted_def demo_world_def demo_root_def file_at_def)
  show "letters_ok (demo_world (replicate 33 Done @ [Cut 0]))"
    by (simp add: letters_ok_def demo_world_def char_class_defs)
  show "u64_state demo_next" by (simp add: u64_state_def demo_next_def c_arith)
qed


section \<open>An orphan generation blocks other commits of its number\<close>

definition orphaned :: "string \<Rightarrow> c1_update_state \<Rightarrow> c1_update_state \<Rightarrow> world \<Rightarrow> bool" where
  "orphaned root s t w \<longleftrightarrow> ready root s w \<and> generation_at root w t"

lemma orphaned_stable: "stable (\<lambda>q. False) (orphaned root s t)"
proof -
  have "orphaned root s t w'" if "same_files w w'" "orphaned root s t w" for w w'
    using that same_files_stored [OF that(1)] same_files_private [OF that(1)] same_files_letters [OF that(1)]
    by (simp add: orphaned_def ready_def)
  then show ?thesis by (simp add: stable_def touches_none)
qed

lemma create_existing:
  "file_at w p \<noteq> None \<Longrightarrow> create_directory p 448 True w = (r, w') \<Longrightarrow> same_files w w'"
  by (drule create_directory_result) auto

lemma orphaned_create:
  assumes "\<And>w. orphaned root s t w \<Longrightarrow> file_at w p \<noteq> None"
  shows "hoare (orphaned root s t) (create_directory p 448 True) (\<lambda>_. orphaned root s t) (orphaned root s t)"
  unfolding hoare_def
proof (intro allI impI)
  fix w r w' assume "orphaned root s t w" "create_directory p 448 True w = (r, w')"
  with create_existing [OF assms] orphaned_stable have "orphaned root s t w'"
    unfolding stable_def touches_none by blast
  then show "case r of None \<Rightarrow> orphaned root s t w' | Some x \<Rightarrow> orphaned root s t w'" by (cases r) auto
qed

lemma orphaned_exists:
  assumes "orphaned root s t w"
  shows "file_at w root \<noteq> None" "file_at w (generations_path root) \<noteq> None"
    "file_at w (generation_path root (generation t)) \<noteq> None"
  using assms by (auto simp: orphaned_def ready_def generation_at_def private_at_def split: option.splits)

lemma generation_unique:
  "generation_at root w s \<Longrightarrow> generation_at root w t \<Longrightarrow> generation s = generation t \<Longrightarrow> s = t"
  by (cases "file_at w (state_path root (generation s))") (simp_all add: generation_at_def)

lemma orphan_publish:
  assumes n: "generation t = generation next" and ne: "t \<noteq> next"
  shows "hoare (orphaned root s t) (publish_generation root (generations_path root) next)
    (\<lambda>_ _. False) (orphaned root s t)"
proof -
  let ?P = "orphaned root s t" and ?g = "generation_path root (generation next)"
  note P = orphaned_stable
  have look: "hoare ?P (probe ?g) (\<lambda>e w. ?P w \<and> e \<noteq> None) ?P"
  proof (rule hoare_stable [OF framed_probe P])
    fix w e w' assume "?P w" "probe ?g w = (Some e, w')"
    with orphaned_exists(3) [of root s t w] probe_success [of ?g w e w'] n show "e \<noteq> None" by simp
  qed
  have old: "hoare ?P
      (bind_act (load_generation_state ?g (generation next)) (\<lambda>stored. require (state_equal stored next)))
      (\<lambda>_ _. False) ?P"
  proof (rule hoare_weaken)
    show "hoare ?P (bind_act (load_generation_state ?g (generation next)) (\<lambda>stored. require (state_equal stored next)))
        (\<lambda>x w. ?P w \<and> False) ?P"
    proof (rule hoare_stable [OF _ P])
      fix w x w'
      assume "?P w" and "bind_act (load_generation_state ?g (generation next))
        (\<lambda>stored. require (state_equal stored next)) w = (Some x, w')"
      then have "load_generation_state ?g (generation next) w = (Some next, w')"
        by (auto simp: act_Some)
      from load_generation_success [OF this] \<open>?P w\<close> generation_unique [of root w t "next"] n ne
      show "False" by (simp add: orphaned_def)
    qed (intro frames)
  qed simp_all
  have make: "hoare (\<lambda>w. ?P w \<and> existing \<noteq> None)
      (case existing of
         Some _ \<Rightarrow> bind_act (load_generation_state ?g (generation next)) (\<lambda>stored.
           require (state_equal stored next))
       | None \<Rightarrow> write_generation (generations_path root) ?g next)
      (\<lambda>_ _. False) ?P" for existing
    using old by (cases existing) (auto simp: hoare_def)
  show ?thesis
    unfolding publish_generation_def then_act_def
    by (rule hoare_joined, drule join_root(3), simp only:, rule hoare_seq [OF look],
        rule hoare_seq [OF make]) (simp_all add: hoare_def)
qed

lemma orphan_commit:
  assumes n: "generation t = generation next" and ne: "t \<noteq> next" "s \<noteq> next"
  shows "hoare (orphaned root s t) (c1_update_state_commit root previous next)
    (\<lambda>_ _. False) (orphaned root s t)"
proof -
  let ?P = "orphaned root s t"
  note P = orphaned_stable
  have check: "hoare ?P (require b) (\<lambda>_. ?P) ?P" for b
    by (rule hoare_keep [OF framed_require P])
  have load: "hoare ?P (c1_update_state_load root) (\<lambda>a w. ?P w \<and> a = s) ?P"
  proof (rule hoare_stable [OF framed_load P])
    fix w a w' assume "?P w" "c1_update_state_load root w = (Some a, w')"
    with load_sound [of root w a w'] stores_unique [of root w a s] show "a = s"
      by (simp add: orphaned_def ready_def)
  qed
  have make: "hoare ?P (create_directory root 448 True) (\<lambda>_. ?P) ?P"
    "hoare ?P (create_directory (generations_path root) 448 True) (\<lambda>_. ?P) ?P"
    by (rule orphaned_create, erule orphaned_exists)+
  have work: "hoare (\<lambda>w. ?P w \<and> a = s)
      (if state_equal a next then c1_secure_sync_directory root
       else then_act (require (state_equal a previous))
        (bind_act (lift (join_path root ''generations'')) (\<lambda>generations.
         then_act (create_directory root 448 True)
         (then_act (create_directory generations 448 True) (publish_generation root generations next)))))
      (\<lambda>_ _. False) ?P" for a
  proof (cases "a = s")
    case True
    have "hoare ?P (then_act (require (state_equal a previous))
        (bind_act (lift (join_path root ''generations'')) (\<lambda>generations.
         then_act (create_directory root 448 True)
         (then_act (create_directory generations 448 True) (publish_generation root generations next)))))
      (\<lambda>_ _. False) ?P"
      unfolding then_act_def
      by (rule hoare_seq [OF check], rule hoare_joined, drule join_root(2), simp only:,
          rule hoare_seq [OF make(1)], rule hoare_seq [OF make(2)], rule orphan_publish [OF n ne(1)])
    with True ne(2) show ?thesis by simp
  qed (simp add: hoare_def)
  show ?thesis
    unfolding c1_update_state_commit_def then_act_def [of "require (commit_request_valid previous next)"]
    by (rule hoare_seq [OF check], rule hoare_seq [OF load], rule work) simp_all
qed

text \<open>C15. An orphan generation is permanent. When a commit was interrupted after the generation
  directory got its final name and before the link was switched, the stored state is still the
  old one; from then on every commit of another state with that generation number fails, without
  any fault, and leaves the orphan in place, so it fails again at every later attempt.\<close>

theorem orphan_generation_blocks:
  assumes "stores root w s" and "private_at w root" and "private_at w (generations_path root)"
    and "letters_ok w" and "generation_at root w t"
    and "generation t = generation next" and "t \<noteq> next" and "s \<noteq> next"
  shows "case c1_update_state_commit root previous next w of (r, w') \<Rightarrow>
    r = None \<and> stores root w' s \<and> generation_at root w' t"
proof -
  obtain r w' where run: "c1_update_state_commit root previous next w = (r, w')"
    by (cases "c1_update_state_commit root previous next w")
  have "orphaned root s t w" using assms(1-5) by (simp add: orphaned_def ready_def)
  from hoareD [OF orphan_commit [OF assms(6-8)] this run] show ?thesis
    by (cases r) (simp_all add: run orphaned_def ready_def)
qed

text \<open>The device that lost power in its first commit, after the draft was renamed; the update that was
  interrupted was for sequence 30, the one that follows is for the newer sequence 31.\<close>

definition orphan_world :: world where
  "orphan_world = \<lparr> files = [(''/'', state_dir 0 1), (''/s'', state_dir 0 1),
       (''/s/generations'', state_dir 0 1), (''/s/generations/1'', state_dir 0 1),
       (''/s/generations/1/state.v1'', written 0 384 (state_text demo_next))],
     euid = 0, pid = 7, suffix = ''abcdef'', faults = [] \<rparr>"

theorem orphan_generation_blocks_witness:
  "case c1_update_state_commit demo_root zero_state (demo_next\<lparr> st_sequence := 31 \<rparr>) orphan_world of
     (r, w') \<Rightarrow> r = None \<and> stores demo_root w' zero_state \<and> generation_at demo_root w' demo_next"
proof (rule orphan_generation_blocks)
  have one: "dec 1 = ''1''" "dec (Suc 0) = ''1''"
    using dec_num_value [of "''1''"] by (simp_all add: canonical_number_def is_digit_def num_value_def)
  have ok: "state_ok demo_next" by (simp add: state_ok_def demo_next_def c_arith)
  have len: "length (state_text demo_next) \<le> C1_STATE_FILE_MAX"
    using length_dec [of 30 2] length_dec [of 2 1]
    by (simp add: state_text_def demo_next_def C1_STATE_FILE_MAX_def demo_digest_def)
  have parse: "parse_state_data (state_text demo_next) (Suc 0) = Some demo_next"
  proof -
    have "generation demo_next = Suc 0" by (simp add: demo_next_def)
    then show ?thesis using state_file.parse_print [OF ok] by simp
  qed
  show "stores demo_root orphan_world zero_state" "private_at orphan_world demo_root"
    "private_at orphan_world (generations_path demo_root)"
    by (simp_all add: stores_def zero_state_def orphan_world_def demo_root_def file_at_def
        private_at_def state_dir_def path_defs slash_def)
  show "generation_at demo_root orphan_world demo_next"
    using len parse
    by (simp add: generation_at_def orphan_world_def demo_root_def file_at_def one
        private_at_def state_dir_def path_defs slash_def written_def) (simp add: demo_next_def one)
  show "letters_ok orphan_world"
    by (simp add: letters_ok_def orphan_world_def char_class_defs)
qed (simp_all add: demo_next_def zero_state_def)


end
