(* ===== verification/Boot.thy ===== *)
theory Boot
  imports StateStore
begin

text \<open>
  Activation, recovery, confirmation and rollback of core releases
  (\<open>src/C1ancher/src/update/boot.c\<close> and the path helpers of \<open>io.c\<close>). The release check
  \<open>c1_update_validate_release\<close> enters as an argument \<open>validate\<close>, an action that reads only; the exec of
  the recovery binary is not modelled. C1\_UPDATE\_BUSY and -1 are one failure here.
\<close>

definition C1_UPDATE_PENDING_BOOT_LIMIT :: nat where "C1_UPDATE_PENDING_BOOT_LIMIT = 3"

type_synonym validator = "string \<Rightarrow> c1_update_state option \<Rightarrow> unit act"

section \<open>Paths and locks (io.c)\<close>

definition c1_update_join_path :: "string \<Rightarrow> string \<Rightarrow> string option" where
  "c1_update_join_path left right =
     (if left = [] \<or> right = [] \<or> hd right = CHR ''/'' \<or> sublist ''../'' right \<or> right = ''..''
      then None
      else let out = slash left @ right
           in if length out < C1_UPDATE_PATH_MAX then Some out else None)"

text \<open>The directories above a path, in the order the loop visits them.\<close>

definition path_prefixes :: "string \<Rightarrow> string list" where
  "path_prefixes path = map (\<lambda>i. take i path) (filter (\<lambda>i. path ! i = CHR ''/'') [1..<length path])"

fun all_directories :: "string list \<Rightarrow> unit act" where
  "all_directories [] = ret ()"
| "all_directories (p # ps) =
     bind_act (ok (sys_lstat p)) (\<lambda>information.
     then_act (require (st_kind information = S_IFDIR)) (all_directories ps))"

definition no_symlink_components :: "string \<Rightarrow> unit act" where
  "no_symlink_components path =
     then_act (require (path \<noteq> [] \<and> hd path = CHR ''/'' \<and> length path < C1_UPDATE_PATH_MAX \<and>
                        \<not> sublist ''//'' path \<and> \<not> sublist ''/./'' path \<and> \<not> sublist ''/../'' path))
     (all_directories (path_prefixes path))"

text \<open>\<open>c1_update_check_trusted_directory\<close> with the device argument -1, as boot.c calls it.\<close>

definition c1_update_check_trusted_directory :: "string \<Rightarrow> unit act" where
  "c1_update_check_trusted_directory path =
     then_act (no_symlink_components path)
     (bind_act (ok (sys_lstat path)) (\<lambda>information.
      bind_act (asks euid) (\<lambda>user.
      require (st_kind information = S_IFDIR \<and> st_uid information = user \<and>
               st_mode information AND 18 = 0))))"

text \<open>Opening the lock file creates it when it is missing; the record lock itself succeeds unless the
  call meets a fault, which stands for another process that holds it.\<close>

definition sys_open_lock :: "string \<Rightarrow> inode sys" where
  "sys_open_lock p = faulty (\<lambda>k w. w)
     (\<lambda>w. case file_at w p of
            Some i \<Rightarrow> if st_kind i = S_IFLNK \<or> st_kind i = S_IFDIR then (Inl EOTHER, w) else (Inr i, w)
          | None \<Rightarrow>
              if is_dir w (parent_directory p)
              then let i = \<lparr> st_kind = S_IFREG, st_mode = 384, st_uid = euid w, st_nlink = 1, st_data = [], st_ino = 0 \<rparr>
                   in (Inr i, put_file p i w)
              else (Inl ENOENT, w))"

definition c1_update_lock :: "string \<Rightarrow> unit act" where
  "c1_update_lock root =
     bind_act (lift (c1_update_join_path root ''.c1updater.lock'')) (\<lambda>lock_path.
     bind_act (ok (sys_open_lock lock_path)) (\<lambda>information.
     bind_act (asks euid) (\<lambda>user.
     on_failure
       (then_act (ok sys_touch)
       (then_act (require (st_kind information = S_IFREG \<and> st_nlink information = 1 \<and>
                           st_uid information = user))
       (then_act (ok (sys_chmod lock_path 384))
       (ok sys_touch))))
       (ignore sys_touch))))"

definition begin_locked :: "string \<Rightarrow> string \<Rightarrow> unit act" where
  "begin_locked state_root core_root =
     then_act (c1_update_check_trusted_directory state_root)
     (then_act (c1_update_check_trusted_directory core_root)
     (c1_update_lock state_root))"

text \<open>Every entry point runs its body under the lock and closes the lock descriptor at the end.\<close>

definition locked :: "string \<Rightarrow> string \<Rightarrow> 'a act \<Rightarrow> 'a act" where
  "locked state_root core_root body =
     then_act (begin_locked state_root core_root)
     (\<lambda>w. case body w of (r, w') \<Rightarrow> (r, snd (sys_touch w')))"

section \<open>Release pointers\<close>

definition release_char :: "char \<Rightarrow> bool" where
  "release_char c \<longleftrightarrow> is_alnum c \<or> c = CHR ''.'' \<or> c = CHR ''_'' \<or> c = CHR ''-'' \<or> c = CHR ''+''"

definition safe_release_name :: "string \<Rightarrow> bool" where
  "safe_release_name name \<longleftrightarrow>
     name \<noteq> [] \<and> length name \<le> 2 * C1_UPDATE_TOKEN_MAX + 24 \<and> list_all release_char name \<and>
     hd name \<noteq> CHR ''.'' \<and> last name \<noteq> CHR ''.''"

definition candidate_target :: "c1_update_state \<Rightarrow> string option" where
  "candidate_target s =
     (let target = ''releases/'' @ dec (st_sequence s) @ ''-'' @ release s
      in if length target < 192 then Some target else None)"

definition parse_target :: "string \<Rightarrow> string option" where
  "parse_target target =
     (if take 9 target \<noteq> ''releases/'' \<or> CHR ''/'' \<in> set (drop 9 target) \<or>
         \<not> safe_release_name (drop 9 target)
      then None else Some (drop 9 target))"

definition read_pointer :: "string \<Rightarrow> string \<Rightarrow> string act" where
  "read_pointer core_root which =
     bind_act (lift (c1_update_join_path core_root which)) (\<lambda>path.
     bind_act (ok (sys_lstat path)) (\<lambda>information.
     then_act (require (st_kind information = S_IFLNK))
     (bind_act (ok (sys_readlink path)) (\<lambda>target.
      then_act (require (target \<noteq> [] \<and> length target < 192))
      (then_act (require (parse_target target \<noteq> None)) (ret target))))))"

definition atomic_pointer :: "string \<Rightarrow> string \<Rightarrow> string \<Rightarrow> unit act" where
  "atomic_pointer core_root which target =
     then_act (require (parse_target target \<noteq> None))
     (bind_act (lift (c1_update_join_path core_root which)) (\<lambda>path.
      bind_act (probe path) (\<lambda>information.
      then_act (require (case information of None \<Rightarrow> True | Some i \<Rightarrow> st_kind i = S_IFLNK))
      (bind_act (asks pid) (\<lambda>process.
       bind_act (attempt_names 128 0 (\<lambda>attempt w.
           if length (tmp_name path process attempt) \<ge> C1_UPDATE_PATH_MAX then (Inl EOTHER, w)
           else sys_symlink target (tmp_name path process attempt) w)) (\<lambda>attempt.
       if attempt = 128
       then then_act (ignore (sys_unlink (tmp_name path process 127))) stop
       else
         then_act (on_failure (ok (sys_rename (tmp_name path process attempt) path))
                    (ignore (sys_unlink (tmp_name path process attempt))))
         (c1_secure_sync_directory core_root)))))))"

section \<open>Counting pending boots\<close>

definition clear_pending_boots :: "string \<Rightarrow> unit act" where
  "clear_pending_boots root =
     bind_act (lift (c1_update_join_path root ''pending-boots.v1'')) (\<lambda>path.
     bind_act (errno_of (sys_unlink path)) (\<lambda>r. case r of
        Inl e \<Rightarrow> require (e = ENOENT)
      | Inr _ \<Rightarrow> c1_secure_sync_directory root))"

definition valid_boot_id :: "string \<Rightarrow> bool" where
  "valid_boot_id boot_id \<longleftrightarrow>
     length boot_id = 36 \<and>
     list_all (\<lambda>i. if i \<in> {8, 13, 18, 23} then boot_id ! i = CHR ''-'' else is_lower_hex (boot_id ! i))
       [0..<36]"

text \<open>The conversions of the \<open>sscanf\<close> format \<open>%64[0-9a-f]\<close>, white space, \<open>%36[0-9a-f-]\<close>, white space, \<open>%u\<close>.\<close>

definition scan_class :: "nat \<Rightarrow> (char \<Rightarrow> bool) \<Rightarrow> string \<Rightarrow> (string \<times> string) option" where
  "scan_class limit P s =
     (let t = takeWhile P (take limit s) in if t = [] then None else Some (t, drop (length t) s))"

definition UINT_MAX :: nat where "UINT_MAX = 2 ^ 32 - 1"

definition scan_unsigned :: "string \<Rightarrow> (nat \<times> string) option" where
  "scan_unsigned s =
     (let s1 = dropWhile is_space s;
          negative = (s1 \<noteq> [] \<and> hd s1 = CHR ''-'');
          s2 = (if s1 \<noteq> [] \<and> (hd s1 = CHR ''-'' \<or> hd s1 = CHR ''+'') then tl s1 else s1);
          digits = takeWhile is_digit s2;
          value = num_value digits
      in if digits = [] then None
         else Some (if value > UINT_MAX then UINT_MAX
                    else if negative \<and> value \<noteq> 0 then UINT_MAX + 1 - value else value,
                    drop (length digits) s2))"

definition scan_pending :: "string \<Rightarrow> (string \<times> string \<times> nat \<times> string) option" where
  "scan_pending data =
     Option.bind (scan_class 64 is_lower_hex data) (\<lambda>(digest, r1).
     Option.bind (scan_class 36 (\<lambda>c. is_lower_hex c \<or> c = CHR ''-'') (dropWhile is_space r1)) (\<lambda>(boot, r2).
     Option.bind (scan_unsigned (dropWhile is_space r2)) (\<lambda>(attempts, r3).
     Some (digest, boot, attempts, r3))))"

definition pending_text :: "string \<Rightarrow> string \<Rightarrow> nat \<Rightarrow> string" where
  "pending_text dig boot attempts = dig @ [nl] @ boot @ [nl] @ dec attempts @ [nl]"

text \<open>The record is taken only when printing it again gives the same bytes.\<close>

definition parse_pending :: "string \<Rightarrow> (string \<times> string \<times> nat) option" where
  "parse_pending data =
     (case scan_pending data of
        None \<Rightarrow> None
      | Some (dig, boot, attempts, rest) \<Rightarrow>
          if rest \<noteq> [nl] \<or> length dig \<noteq> 64 \<or> \<not> valid_boot_id boot \<or> attempts = 0 \<or>
             attempts > C1_UPDATE_PENDING_BOOT_LIMIT \<or> pending_text dig boot attempts \<noteq> data
          then None else Some (dig, boot, attempts))"

text \<open>\<open>count_pending_boot\<close> returns 0 (\<open>Some False\<close>), 1 when the limit is reached (\<open>Some True\<close>), or -1. The
  \<open>decide_pending\<close> part is its decision on the stored record.\<close>

datatype pending_decision = AlreadyCounted | LimitReached | CountAs nat

definition decide_pending ::
  "(string \<times> string \<times> nat) option \<Rightarrow> string \<Rightarrow> string \<Rightarrow> pending_decision" where
  "decide_pending stored dig boot_id =
     (case stored of
        None \<Rightarrow> CountAs 1
      | Some (stored_digest, previous_boot, n) \<Rightarrow>
          if stored_digest \<noteq> dig then CountAs 1
          else if previous_boot = boot_id then AlreadyCounted
          else if n \<ge> C1_UPDATE_PENDING_BOOT_LIMIT then LimitReached
          else CountAs (n + 1))"

definition read_pending :: "string \<Rightarrow> (string \<times> string \<times> nat) option act" where
  "read_pending path =
     bind_act (probe path) (\<lambda>found.
     case found of
       None \<Rightarrow> ret None
     | Some information \<Rightarrow>
         bind_act (asks euid) (\<lambda>user.
         then_act (require (st_kind information = S_IFREG \<and> st_uid information = user \<and>
                            st_mode information AND 511 = 384 \<and> st_nlink information = 1))
         (bind_act (c1_secure_read_file path 127 None) (\<lambda>data.
          bind_act (lift (parse_pending data)) (\<lambda>record. ret (Some record))))))"

definition count_pending_boot :: "string \<Rightarrow> c1_update_state \<Rightarrow> string \<Rightarrow> bool act" where
  "count_pending_boot root state boot_id =
     then_act (require (valid_boot_id boot_id))
     (bind_act (lift (c1_update_join_path root ''pending-boots.v1'')) (\<lambda>path.
      bind_act (read_pending path) (\<lambda>stored.
      case decide_pending stored (digest state) boot_id of
        AlreadyCounted \<Rightarrow> ret False
      | LimitReached \<Rightarrow> ret True
      | CountAs n \<Rightarrow>
          then_act (require (length (pending_text (digest state) boot_id n) < 128))
          (then_act (c1_secure_atomic_write path (pending_text (digest state) boot_id n) 384)
          (ret False)))))"


section \<open>State steps and markers\<close>

definition state_advance ::
  "string \<Rightarrow> c1_update_state \<Rightarrow> c1_update_phase \<Rightarrow> bool \<Rightarrow> c1_update_state act" where
  "state_advance root state new_phase failed =
     (case c1_update_transition (Some state) new_phase (st_sequence state) (st_security_epoch state)
             (release state) (digest state) failed of
        Inl e \<Rightarrow> stop
      | Inr next \<Rightarrow>
          then_act (c1_update_state_commit root state next)
          (then_act (if new_phase = C1_UPDATE_CONFIRMED \<or> new_phase = C1_UPDATE_IDLE
                     then clear_pending_boots root else ret ())
          (ret next)))"

definition rollback_marker_path :: "string \<Rightarrow> string option" where
  "rollback_marker_path state_root = c1_update_join_path state_root ''rollback.v1''"

text \<open>A marker file holds the digest and a newline, 65 bytes.\<close>

definition marker_text :: "c1_update_state \<Rightarrow> string" where
  "marker_text state = digest state @ [nl]"

definition rollback_marker_status :: "string \<Rightarrow> c1_update_state \<Rightarrow> bool act" where
  "rollback_marker_status state_root state =
     bind_act (lift (rollback_marker_path state_root)) (\<lambda>path.
     bind_act (probe path) (\<lambda>found.
     case found of
       None \<Rightarrow> ret False
     | Some information \<Rightarrow>
         then_act (require (length (marker_text state) = 65 \<and> st_kind information = S_IFREG \<and>
                            st_nlink information = 1 \<and> st_mode information AND 511 = 384))
         (bind_act (c1_secure_read_file path 65 (Some 65)) (\<lambda>data.
          then_act (require (data = marker_text state)) (ret True)))))"

definition mark_rollback :: "string \<Rightarrow> c1_update_state \<Rightarrow> unit act" where
  "mark_rollback state_root state =
     then_act (require (length (marker_text state) = 65))
     (bind_act (lift (rollback_marker_path state_root)) (\<lambda>path.
      c1_secure_atomic_write path (marker_text state) 384))"

definition clear_rollback_marker :: "string \<Rightarrow> unit act" where
  "clear_rollback_marker state_root =
     bind_act (lift (rollback_marker_path state_root)) (\<lambda>path.
     bind_act (errno_of (sys_unlink path)) (\<lambda>r.
     then_act (require (case r of Inl e \<Rightarrow> e = ENOENT | Inr _ \<Rightarrow> True))
     (c1_secure_sync_directory state_root)))"

section \<open>Rollback and recovery\<close>

definition rollback_locked ::
  "string \<Rightarrow> string \<Rightarrow> string \<Rightarrow> c1_update_state \<Rightarrow> c1_update_state act" where
  "rollback_locked state_root core_root previous state =
     then_act (mark_rollback state_root state)
     (then_act (atomic_pointer core_root ''current'' previous)
     (bind_act (if phase state = C1_UPDATE_PENDING_BOOT
                then state_advance state_root state C1_UPDATE_PREPARED False else ret state) (\<lambda>state.
      bind_act (if phase state = C1_UPDATE_PREPARED \<or> phase state = C1_UPDATE_CONFIRMED
                then state_advance state_root state C1_UPDATE_IDLE True else ret state) (\<lambda>state.
      then_act (require (phase state = C1_UPDATE_IDLE))
      (then_act (clear_rollback_marker state_root)
      (ret state))))))"

text \<open>A rollback that a marker says was begun is finished.\<close>

definition resume_rollback ::
  "validator \<Rightarrow> string \<Rightarrow> string \<Rightarrow> c1_update_state \<Rightarrow> c1_update_state act" where
  "resume_rollback validate state_root core_root state =
     then_act (require (phase state = C1_UPDATE_PENDING_BOOT \<or> phase state = C1_UPDATE_PREPARED \<or>
                        phase state = C1_UPDATE_IDLE \<or> phase state = C1_UPDATE_CONFIRMED))
     (bind_act (read_pointer core_root ''previous'') (\<lambda>previous.
      then_act (validate previous None)
      (if phase state = C1_UPDATE_IDLE then
         then_act (atomic_pointer core_root ''current'' previous)
         (then_act (clear_rollback_marker state_root) (ret state))
       else if phase state = C1_UPDATE_CONFIRMED then
         then_act (atomic_pointer core_root ''current'' previous)
         (bind_act (state_advance state_root state C1_UPDATE_IDLE True) (\<lambda>state.
          then_act (clear_rollback_marker state_root) (ret state)))
       else rollback_locked state_root core_root previous state)))"

text \<open>Whether an action succeeds, its failure being an answer.\<close>

definition attempt :: "'a act \<Rightarrow> 'a option act" where
  "attempt m w = (case m w of (r, w') \<Rightarrow> (Some r, w'))"

text \<open>A pending boot: keep the candidate when it is valid and \<open>current\<close> is it or can still be made it;
  otherwise roll back.\<close>

definition recover_pending ::
  "validator \<Rightarrow> string \<Rightarrow> string \<Rightarrow> c1_update_state \<Rightarrow> c1_update_state act" where
  "recover_pending validate state_root core_root state =
     bind_act (lift (candidate_target state)) (\<lambda>candidate.
     bind_act (read_pointer core_root ''previous'') (\<lambda>previous.
     then_act (validate previous None)
     (bind_act (attempt (validate candidate (Some state))) (\<lambda>candidate_valid.
      bind_act (if candidate_valid \<noteq> None then attempt (read_pointer core_root ''current'') else ret None)
        (\<lambda>current.
      if current = Some candidate then ret state
      else if current = Some previous
      then then_act (atomic_pointer core_root ''current'' candidate) (ret state)
      else rollback_locked state_root core_root previous state)))))"

definition recover_locked ::
  "validator \<Rightarrow> string \<Rightarrow> string \<Rightarrow> c1_update_state \<Rightarrow> c1_update_state act" where
  "recover_locked validate state_root core_root state =
     bind_act (rollback_marker_status state_root state) (\<lambda>rollback_status.
     if rollback_status then resume_rollback validate state_root core_root state
     else if phase state \<noteq> C1_UPDATE_PENDING_BOOT then ret state
     else recover_pending validate state_root core_root state)"

section \<open>Entry points\<close>

definition c1_update_validate_current ::
  "validator \<Rightarrow> string \<Rightarrow> c1_update_state option \<Rightarrow> unit act" where
  "c1_update_validate_current validate core_root identity =
     bind_act (read_pointer core_root ''current'') (\<lambda>current. validate current identity)"

definition c1_update_activate :: "validator \<Rightarrow> string \<Rightarrow> string \<Rightarrow> unit act" where
  "c1_update_activate validate state_root core_root =
     locked state_root core_root
      (bind_act (c1_update_state_load state_root) (\<lambda>state.
       bind_act (rollback_marker_status state_root state) (\<lambda>rollback_status.
       if rollback_status \<or> phase state = C1_UPDATE_PENDING_BOOT
       then then_act (recover_locked validate state_root core_root state) (ret ())
       else
         then_act (require (phase state = C1_UPDATE_PREPARED))
         (bind_act (lift (candidate_target state)) (\<lambda>candidate.
          then_act (validate candidate (Some state))
          (bind_act (read_pointer core_root ''current'') (\<lambda>current.
           then_act (validate current None)
           (then_act (atomic_pointer core_root ''previous'' current)
           (then_act (state_advance state_root state C1_UPDATE_PENDING_BOOT False)
           (atomic_pointer core_root ''current'' candidate))))))))))"

text \<open>\<open>bootstrap_pointer_status\<close> is 0 for a missing pointer, 1 for one at the candidate, else -1.\<close>

definition bootstrap_pointer_status :: "string \<Rightarrow> string \<Rightarrow> string \<Rightarrow> bool act" where
  "bootstrap_pointer_status core_root which candidate =
     bind_act (lift (c1_update_join_path core_root which)) (\<lambda>path.
     bind_act (probe path) (\<lambda>found.
     case found of
       None \<Rightarrow> ret False
     | Some information \<Rightarrow>
         then_act (require (st_kind information = S_IFLNK))
         (bind_act (read_pointer core_root which) (\<lambda>target.
          then_act (require (target = candidate)) (ret True)))))"

definition c1_update_bootstrap_activate :: "validator \<Rightarrow> string \<Rightarrow> string \<Rightarrow> unit act" where
  "c1_update_bootstrap_activate validate state_root core_root =
     locked state_root core_root
      (bind_act (c1_update_state_load state_root) (\<lambda>state.
       then_act (require (phase state = C1_UPDATE_PREPARED \<or> phase state = C1_UPDATE_PENDING_BOOT))
       (bind_act (lift (candidate_target state)) (\<lambda>candidate.
        then_act (validate candidate (Some state))
        (bind_act (attempt (bootstrap_pointer_status core_root ''current'' candidate)) (\<lambda>current_status.
         bind_act (attempt (bootstrap_pointer_status core_root ''previous'' candidate)) (\<lambda>previous_status.
         then_act (require (current_status \<noteq> None \<and> previous_status \<noteq> None \<and>
                            \<not> (phase state = C1_UPDATE_PREPARED \<and>
                               (current_status \<noteq> Some False \<or> previous_status \<noteq> Some False))))
         (bind_act (if phase state = C1_UPDATE_PREPARED
                    then state_advance state_root state C1_UPDATE_PENDING_BOOT False else ret state) (\<lambda>state.
          then_act (if current_status = Some False
                    then atomic_pointer core_root ''current'' candidate else ret ())
          (then_act (if previous_status = Some False
                     then atomic_pointer core_root ''previous'' candidate else ret ())
          (then_act (state_advance state_root state C1_UPDATE_CONFIRMED False) (ret ()))))))))))))"

definition c1_update_recover_boot :: "validator \<Rightarrow> string \<Rightarrow> string \<Rightarrow> string \<Rightarrow> unit act" where
  "c1_update_recover_boot validate state_root core_root boot_id =
     then_act (require (valid_boot_id boot_id))
     (locked state_root core_root
       (bind_act (c1_update_state_load state_root) (\<lambda>state.
        bind_act (recover_locked validate state_root core_root state) (\<lambda>state.
        if phase state = C1_UPDATE_PENDING_BOOT then
          bind_act (attempt (count_pending_boot state_root state boot_id)) (\<lambda>result.
          if result = Some False then ret ()
          else
            bind_act (read_pointer core_root ''previous'') (\<lambda>previous.
            then_act (validate previous None)
            (then_act (rollback_locked state_root core_root previous state) (ret ()))))
        else clear_pending_boots state_root))))"

definition c1_update_confirm :: "validator \<Rightarrow> string \<Rightarrow> string \<Rightarrow> unit act" where
  "c1_update_confirm validate state_root core_root =
     locked state_root core_root
      (bind_act (c1_update_state_load state_root) (\<lambda>state.
       then_act (require (phase state = C1_UPDATE_PENDING_BOOT))
       (bind_act (lift (candidate_target state)) (\<lambda>candidate.
        bind_act (read_pointer core_root ''current'') (\<lambda>current.
        then_act (require (current = candidate))
        (then_act (validate current (Some state))
        (then_act (state_advance state_root state C1_UPDATE_CONFIRMED False) (ret ()))))))))"

definition c1_update_rollback :: "validator \<Rightarrow> string \<Rightarrow> string \<Rightarrow> unit act" where
  "c1_update_rollback validate state_root core_root =
     locked state_root core_root
      (bind_act (c1_update_state_load state_root) (\<lambda>state.
       then_act (require (phase state = C1_UPDATE_PENDING_BOOT \<or> phase state = C1_UPDATE_CONFIRMED))
       (bind_act (read_pointer core_root ''previous'') (\<lambda>previous.
        then_act (if phase state = C1_UPDATE_CONFIRMED
                  then bind_act (read_pointer core_root ''current'') (\<lambda>current. require (current \<noteq> previous))
                  else ret ())
        (then_act (validate previous None)
        (then_act (rollback_locked state_root core_root previous state) (ret ())))))))"

definition c1_update_mark_ready :: "string \<Rightarrow> string \<Rightarrow> unit act" where
  "c1_update_mark_ready state_root ready_file =
     bind_act (c1_update_state_load state_root) (\<lambda>state.
     then_act (require (phase state = C1_UPDATE_PENDING_BOOT))
     (then_act (require (length (marker_text state) = 65))
     (c1_secure_atomic_write ready_file (marker_text state) 384)))"

definition c1_update_ready_matches :: "string \<Rightarrow> string \<Rightarrow> unit act" where
  "c1_update_ready_matches ready_file dig =
     bind_act (ok (sys_lstat ready_file)) (\<lambda>information.
     then_act (require (st_kind information = S_IFREG \<and> st_nlink information = 1 \<and>
                        st_mode information AND 511 = 384))
     (then_act (require (length (dig @ [nl]) = 65))
     (bind_act (c1_secure_read_file ready_file 65 (Some 65)) (\<lambda>data.
      require (data = dig @ [nl])))))"

section \<open>What the operations may change\<close>

text \<open>Everything a state root contains.\<close>

definition area :: "string \<Rightarrow> string \<Rightarrow> bool" where
  "area root q \<longleftrightarrow> q = root \<or> prefix (slash root) q"

lemma area_append [intro, simp]: "area root (slash root @ x)"
  by (simp add: area_def)

lemma area_under: "area root p \<Longrightarrow> p \<noteq> root \<Longrightarrow> under p q \<Longrightarrow> area root q"
  by (auto simp: area_def intro: prefix_under)

lemma area_tmp: "area root p \<Longrightarrow> p \<noteq> root \<Longrightarrow> tmp_of p q \<Longrightarrow> area root q"
  by (auto simp: area_def intro: prefix_tmp_of)

lemma update_join_Some: "c1_update_join_path l r = Some p \<Longrightarrow> p = slash l @ r \<and> r \<noteq> []"
  by (auto simp: c1_update_join_path_def Let_def split: if_splits)

lemma scratch_area: "scratch root n q \<Longrightarrow> area root q"
  using area_under [of root "generation_path root n" q]
  by (auto simp: scratch_def area_def path_defs prefix_def)

lemma framed_create_directory [frames]: "S p \<Longrightarrow> framed S (create_directory p mode b)"
  unfolding create_directory_def by (intro frames)

lemma framed_switch_current:
  "framed (area root) (switch_current root (current_path root) target)"
proof -
  have cur: "area root q" if "under (current_path root) q \<or> tmp_of (current_path root) q" for q
    using that area_under [of root "current_path root" q] area_tmp [of root "current_path root" q]
    by (auto simp: path_defs)
  have tmp: "area root (tmp_name (current_path root) k i)" for k i
    using cur under_tmp_name [OF under_self] by blast
  have call: "framed (area root) (\<lambda>w. if C1_UPDATE_PATH_MAX \<le> length (tmp_name (current_path root) k i)
      then (Inl EOTHER, w) else sys_symlink target (tmp_name (current_path root) k i) w)" for k i
    using framed_sys(5) [of "area root", OF tmp] by (simp add: framed_def)
  have mv: "framed (area root) (sys_rename (tmp_name (current_path root) k i) (current_path root))" for k i
    by (rule framed_rename) (use cur under_tmp_name in blast)+
  show ?thesis
    unfolding switch_current_def by (intro frames call mv tmp)
qed

lemma framed_commit [frames]: "framed (area root) (c1_update_state_commit root previous next)"
proof -
  have gens: "area root (generations_path root)" by (simp add: path_defs)
  have wr: "framed (area root)
      (write_generation (generations_path root) (generation_path root (generation next)) next)"
    by (rule framed_mono [OF framed_write_generation scratch_area])
  have publish: "framed (area root) (publish_generation root (generations_path root) next)"
    unfolding publish_generation_def
    by (rule framed_lift_bind, drule join_root(3), simp only:,
        intro framed_bind [OF framed_probe] framed_then framed_case_option wr framed_bind
          framed_load_generation framed_require framed_sync_directory framed_lift_bind,
        drule join_root(1), simp only:, rule framed_switch_current)
  have root: "area root root" by (simp add: area_def)
  have work: "framed (area root) (bind_act (lift (join_path root ''generations'')) (\<lambda>generations.
         then_act (create_directory root 448 True)
         (then_act (create_directory generations 448 True)
         (publish_generation root generations next))))"
    by (rule framed_lift_bind, drule join_root(2), simp only:,
        intro framed_then framed_create_directory root gens publish)
  show ?thesis
    unfolding c1_update_state_commit_def
    by (intro framed_then framed_require framed_bind framed_load framed_if framed_sync_directory work)
qed

text \<open>Two roots of which neither is inside the other.\<close>

definition apart :: "string \<Rightarrow> string \<Rightarrow> bool" where
  "apart a b \<longleftrightarrow> \<not> prefix (slash a) (slash b) \<and> \<not> prefix (slash b) (slash a)"

lemma slash_cases: "slash root = root \<or> slash root = root @ ''/''"
  by (simp add: slash_def)

lemma apart_area:
  assumes "apart a b"
  shows "\<not> area a (slash b @ x)"
proof
  assume "area a (slash b @ x)"
  then consider "slash b @ x = a" | "prefix (slash a) (slash b @ x)" by (auto simp: area_def)
  then show False
  proof cases
    case 1
    then have "prefix (slash b) (slash a)"
      using slash_cases [of a] by (metis append_assoc prefixI)
    with assms show False by (simp add: apart_def)
  next
    case 2
    then have "prefix (slash a) (slash b) \<or> prefix (slash b) (slash a)"
      using prefix_same_cases [of "slash a" "slash b @ x" "slash b"] by simp
    with assms show False by (simp add: apart_def)
  qed
qed

text \<open>The two pointers of the core root.\<close>

definition pointer_path :: "string \<Rightarrow> string \<Rightarrow> string" where
  "pointer_path core_root which = slash core_root @ which"

definition pointer :: "string \<Rightarrow> string \<Rightarrow> world \<Rightarrow> string \<Rightarrow> bool" where
  "pointer core_root which w t \<longleftrightarrow>
     (case file_at w (pointer_path core_root which) of
        None \<Rightarrow> False | Some i \<Rightarrow> st_kind i = S_IFLNK \<and> st_data i = t)"

lemma pointer_unique: "pointer c x w t \<Longrightarrow> pointer c x w u \<Longrightarrow> t = u"
  by (auto simp: pointer_def split: option.splits)

lemma pointer_stable: "\<not> S (pointer_path c x) \<Longrightarrow> stable S (\<lambda>w. pointer c x w t)"
  by (simp add: stable_def touches_def pointer_def)

text \<open>Where replacing one pointer works.\<close>

definition pointer_area :: "string \<Rightarrow> string \<Rightarrow> string \<Rightarrow> bool" where
  "pointer_area core_root which q \<longleftrightarrow>
     under (pointer_path core_root which) q \<or> tmp_of (pointer_path core_root which) q"

lemma framed_atomic_pointer:
  "framed (pointer_area core_root which) (atomic_pointer core_root which target)"
proof -
  let ?S = "pointer_area core_root which" and ?p = "pointer_path core_root which"
  have tmp: "?S (tmp_name ?p k i)" for k i
    using under_tmp_name [OF under_self] by (simp add: pointer_area_def)
  have call: "framed ?S (\<lambda>w. if C1_UPDATE_PATH_MAX \<le> length (tmp_name ?p k i)
      then (Inl EOTHER, w) else sys_symlink target (tmp_name ?p k i) w)" for k i
    using framed_sys(5) [of ?S, OF tmp] by (simp add: framed_def)
  have mv: "framed ?S (sys_rename (tmp_name ?p k i) ?p)" for k i
    by (rule framed_rename) (auto simp: pointer_area_def under_tmp_name)
  have path: "c1_update_join_path core_root which = Some p \<Longrightarrow> p = ?p" for p
    by (auto simp: pointer_path_def dest: update_join_Some)
  show ?thesis
    unfolding atomic_pointer_def
    by (rule framed_then [OF framed_require], rule framed_lift_bind, drule path, simp only:,
        intro frames call mv tmp)
qed

lemma framed_read_pointer [frames]: "framed S (read_pointer c x)"
  unfolding read_pointer_def by (intro frames framed_lift)

lemma read_pointer_success:
  assumes "read_pointer c x w = (Some t, w')"
  shows "pointer c x w t \<and> parse_target t \<noteq> None \<and> same_files w w'"
proof -
  have same: "same_files w w'" by (rule framed_same_files [OF framed_read_pointer assms])
  from assms obtain p i u v where p: "c1_update_join_path c x = Some p"
    and l: "sys_lstat p w = (Inr i, u)" and k: "st_kind i = S_IFLNK"
    and r: "sys_readlink p u = (Inr t, v)" and t: "parse_target t \<noteq> None"
    by (auto simp: read_pointer_def act_Some lift_Some)
  have "p = pointer_path c x" using update_join_Some [OF p] by (simp add: pointer_path_def)
  with sys_lstat_success [OF l] sys_readlink_success [OF r] t same show ?thesis
    by (auto simp: pointer_def same_files_at)
qed


section \<open>Replacing a pointer\<close>

text \<open>Whatever happens, the pointer is as before or designates the new target, and an assertion that
  does not speak of the temporary names survives until the switch.\<close>

lemma atomic_pointer_hoare:
  assumes P: "stable (tmp_of (pointer_path c x)) P"
  shows "hoare P (atomic_pointer c x target) (\<lambda>_ w. pointer c x w target)
    (\<lambda>w. P w \<or> pointer c x w target)"
proof (cases "c1_update_join_path c x")
  case None
  then show ?thesis
    by (auto simp: atomic_pointer_def hoare_def act_defs lift_def split: if_splits)
next
  case (Some p)
  let ?p = "pointer_path c x"
  have p: "p = ?p" using update_join_Some [OF Some] by (simp add: pointer_path_def)
  let ?S = "tmp_of ?p" and ?t = "tmp_name ?p"
  let ?L = "\<lambda>k i w. \<exists>j. file_at w (?t k i) = Some j \<and> st_kind j = S_IFLNK \<and> st_data j = target"
  let ?call = "\<lambda>k i w. if C1_UPDATE_PATH_MAX \<le> length (?t k i) then (Inl EOTHER, w)
      else sys_symlink target (?t k i) w"
  have S: "?S (?t k i)" for k i by (rule under_tmp_name [OF under_self])
  have call: "framed ?S (?call k i)" for k i
    using framed_sys(5) [of ?S "?t k i", OF S] by (simp add: framed_def)
  have check: "hoare P (require b) (\<lambda>_. P) P" for b
    by (rule hoare_keep [OF framed_require P])
  have look: "hoare P (probe ?p) (\<lambda>_. P) P"
    by (rule hoare_keep [OF framed_probe P])
  have process: "hoare P (asks pid) (\<lambda>_. P) P"
    by (rule hoare_keep [OF framed_asks P])
  have names: "hoare P (attempt_names 128 0 (?call k)) (\<lambda>i w. P w \<and> (i \<noteq> 128 \<longrightarrow> ?L k i w)) P" for k
  proof (rule hoare_stable [where S = ?S])
    show "framed ?S (attempt_names 128 0 (?call k))" by (intro framed_attempt_names call)
    show "stable ?S P" by (rule P)
    show "i \<noteq> 128 \<longrightarrow> ?L k i w'" if "attempt_names 128 0 (?call k) w = (Some i, w')" for w w' i
      using attempt_names_success [OF that] attempt_names_bound [OF that]
      by (auto dest!: sys_symlink_success split: if_splits)
  qed
  have exhausted: "hoare P (then_act (ignore (sys_unlink (?t k 127))) stop) Q P" for k and Q :: "unit \<Rightarrow> world \<Rightarrow> bool"
  proof (rule hoare_weaken [OF hoare_stable [where Q = "\<lambda>_ _. False"]])
    show "framed ?S (then_act (ignore (sys_unlink (?t k 127))) stop :: unit act)" by (intro frames S)
  qed (auto simp: P act_Some)
  have switch: "hoare (\<lambda>w. P w \<and> ?L k i w)
      (on_failure (ok (sys_rename (?t k i) ?p)) (ignore (sys_unlink (?t k i))))
      (\<lambda>_ w. pointer c x w target) P" for k i
    unfolding hoare_def
  proof (intro allI impI)
    fix w r w' assume pre: "P w \<and> ?L k i w"
      and run: "on_failure (ok (sys_rename (?t k i) ?p)) (ignore (sys_unlink (?t k i))) w = (r, w')"
    show "case r of None \<Rightarrow> P w' | Some y \<Rightarrow> pointer c x w' target"
    proof (cases r)
      case None
      then obtain e v where v: "sys_rename (?t k i) ?p w = (Inl e, v)"
          and w': "w' = snd (ignore (sys_unlink (?t k i)) v)"
        using run by (auto simp: on_failure_def ok_def split: prod.splits option.splits sum.splits)
      have "touches ?S w v"
        using sys_rename_failure [OF v] by (simp add: same_files_def touches_def)
      moreover have "touches ?S v w'"
        unfolding w' using framed_ignore [OF framed_sys(6) [of ?S, OF S]] by (simp add: framed_def)
      ultimately have "touches ?S w w'" by (rule touches_trans)
      with pre P None show ?thesis unfolding stable_def by auto
    next
      case (Some y)
      with run have mv: "sys_rename (?t k i) ?p w = (Inr (), w')" by (simp add: act_Some)
      have "?t k i \<noteq> ?p" by (simp add: tmp_name_def)
      from sys_rename_success [OF mv this] pre Some show ?thesis by (auto simp: pointer_def)
    qed
  qed
  have sync: "hoare (\<lambda>w. pointer c x w target) (c1_secure_sync_directory c)
      (\<lambda>_ w. pointer c x w target) (\<lambda>w. P w \<or> pointer c x w target)"
    unfolding hoare_def
    by (auto dest!: sync_directory_same simp: pointer_def same_files_at split: option.split)
  have finish: "hoare (\<lambda>w. P w \<and> (i \<noteq> 128 \<longrightarrow> ?L k i w))
      (if i = 128 then then_act (ignore (sys_unlink (?t k 127))) stop
       else then_act (on_failure (ok (sys_rename (?t k i) ?p)) (ignore (sys_unlink (?t k i))))
         (c1_secure_sync_directory c))
      (\<lambda>_ w. pointer c x w target) (\<lambda>w. P w \<or> pointer c x w target)" for k i
  proof (cases "i = 128")
    case True
    then show ?thesis using hoare_weaken [OF exhausted [of k]] by simp
  next
    case False
    have "hoare (\<lambda>w. P w \<and> ?L k i w)
       (then_act (on_failure (ok (sys_rename (?t k i) ?p)) (ignore (sys_unlink (?t k i))))
         (c1_secure_sync_directory c)) (\<lambda>_ w. pointer c x w target) (\<lambda>w. P w \<or> pointer c x w target)"
      unfolding then_act_def by (rule hoare_seq [OF switch sync]) simp
    with False show ?thesis by simp
  qed
  have lifted: "bind_act (lift (Some p)) k = k p" for k :: "string \<Rightarrow> unit act"
    by (simp add: bind_act_def lift_def fun_eq_iff)
  show ?thesis
    unfolding atomic_pointer_def Some lifted then_act_def [of "require _"]
    unfolding p
    by (rule hoare_seq [OF check], rule hoare_seq [OF look], rule hoare_seq [OF check],
        rule hoare_seq [OF process], rule hoare_seq [OF names], rule finish) simp_all
qed


section \<open>The current pointer stays on good releases\<close>

text \<open>The current pointer designates a good release, and the releases in \<open>T\<close> have been found good.\<close>

definition secured :: "string \<Rightarrow> (world \<Rightarrow> string \<Rightarrow> bool) \<Rightarrow> string set \<Rightarrow> world \<Rightarrow> bool" where
  "secured core_root good T w \<longleftrightarrow>
     (\<exists>t. pointer core_root ''current'' w t \<and> good w t) \<and> (\<forall>t \<in> T. good w t)"

definition keeps :: "(world \<Rightarrow> bool) \<Rightarrow> 'a act \<Rightarrow> bool" where
  "keeps P m \<longleftrightarrow> hoare P m (\<lambda>_. P) P"

named_theorems keeping \<open>rules for actions that keep an assertion\<close>

lemma keeps_bind [keeping]: "keeps P m \<Longrightarrow> (\<And>x. keeps P (k x)) \<Longrightarrow> keeps P (bind_act m k)"
  unfolding keeps_def by (rule hoare_bind)

lemma keeps_then [keeping]: "keeps P m \<Longrightarrow> keeps P k \<Longrightarrow> keeps P (then_act m k)"
  unfolding keeps_def by (rule hoare_then)

lemma keeps_framed: "framed S m \<Longrightarrow> stable S P \<Longrightarrow> keeps P m"
  unfolding keeps_def by (rule hoare_keep)

lemma keeps_if [keeping]: "keeps P m \<Longrightarrow> keeps P k \<Longrightarrow> keeps P (if b then m else k)"
  by simp

lemma keeps_case_option [keeping]:
  "keeps P m \<Longrightarrow> (\<And>x. keeps P (k x)) \<Longrightarrow> keeps P (case r of None \<Rightarrow> m | Some x \<Rightarrow> k x)"
  by (cases r) auto

lemma keeps_simple [keeping]: "keeps P (ret x)" "keeps P stop" "keeps P (require b)" "keeps P (lift r)"
  by (auto simp: keeps_def hoare_def ret_def stop_def require_def lift_def split: option.split)

lemma keeps_attempt [keeping]: "keeps P m \<Longrightarrow> keeps P (attempt m)"
  unfolding keeps_def hoare_def attempt_def by (auto split: prod.splits option.splits)

lemma framed_clear_pending [frames]: "framed (area root) (clear_pending_boots root)"
  unfolding clear_pending_boots_def
  by (rule framed_lift_bind, drule update_join_Some, elim conjE, simp only:,
      intro framed_bind framed_errno_of framed_sys area_append framed_case_sum framed_require
        framed_sync_directory)

lemma framed_state_advance [frames]: "framed (area root) (state_advance root s ph f)"
  unfolding state_advance_def
  by (intro frames)

lemma framed_marker [frames]:
  "framed (area root) (mark_rollback root s)" "framed (area root) (clear_rollback_marker root)"
proof -
  have "framed (area root) (c1_secure_atomic_write (slash root @ ''rollback.v1'') d 384)" for d
    by (rule atomic_write_framed)
       (use area_under [of root "slash root @ ''rollback.v1''"] area_tmp [of root "slash root @ ''rollback.v1''"] in auto)
  then show "framed (area root) (mark_rollback root s)"
    unfolding mark_rollback_def rollback_marker_path_def
    by (intro framed_then framed_require)
       (rule framed_lift_bind, drule update_join_Some, elim conjE, simp only:)
  show "framed (area root) (clear_rollback_marker root)"
    unfolding clear_rollback_marker_def rollback_marker_path_def
    by (rule framed_lift_bind, drule update_join_Some, elim conjE, simp only:,
        intro framed_bind framed_then framed_errno_of framed_sys area_append framed_require
          framed_sync_directory)
qed

lemma framed_marker_status [frames]: "framed S (rollback_marker_status root s)"
  unfolding rollback_marker_status_def by (intro frames framed_lift)

lemma framed_read_pending [frames]: "framed S (read_pending p)"
  unfolding read_pending_def by (intro frames framed_lift)

lemma framed_count [frames]: "framed (area root) (count_pending_boot root s b)"
proof -
  have wr: "framed (area root) (c1_secure_atomic_write (slash root @ ''pending-boots.v1'') d 384)" for d
    by (rule atomic_write_framed)
       (use area_under [of root "slash root @ ''pending-boots.v1''"]
          area_tmp [of root "slash root @ ''pending-boots.v1''"] in auto)
  have decide: "framed (area root) (case decide_pending stored (digest s) b of
        AlreadyCounted \<Rightarrow> ret False
      | LimitReached \<Rightarrow> ret True
      | CountAs n \<Rightarrow>
          then_act (require (length (pending_text (digest s) b n) < 128))
          (then_act (c1_secure_atomic_write (slash root @ ''pending-boots.v1'') (pending_text (digest s) b n) 384)
          (ret False)))" for stored
    by (cases "decide_pending stored (digest s) b") (auto intro!: frames wr)
  show ?thesis
    unfolding count_pending_boot_def
    by (rule framed_then [OF framed_require], rule framed_lift_bind, drule update_join_Some, elim conjE,
        simp only:, rule framed_bind [OF framed_read_pending decide])
qed

definition lock_path :: "string \<Rightarrow> string" where
  "lock_path root = slash root @ ''.c1updater.lock''"

lemma framed_lock: "framed (\<lambda>q. q = lock_path sr) (begin_locked sr cr)"
proof -
  have dirs: "framed S (all_directories ps)" for S ps
    by (induction ps) (auto intro!: frames)
  have trusted: "framed S (c1_update_check_trusted_directory p)" for S p
    unfolding c1_update_check_trusted_directory_def no_symlink_components_def
    by (intro frames dirs)
  have opened: "S p \<Longrightarrow> framed S (sys_open_lock p)" for S p
    unfolding sys_open_lock_def
    by (intro framed_faulty) (auto simp: Let_def intro: touches_put split: option.split)
  show ?thesis
    unfolding begin_locked_def c1_update_lock_def
    by (intro framed_then trusted)
       (rule framed_lift_bind, drule update_join_Some, elim conjE, simp only: lock_path_def [symmetric],
        intro frames opened refl)
qed

section \<open>Runs of the boot operations\<close>

datatype boot_call = Activate | Bootstrap | Recover string | Confirm | Rollback

fun boot_call_act :: "validator \<Rightarrow> string \<Rightarrow> string \<Rightarrow> boot_call \<Rightarrow> unit act" where
  "boot_call_act validate sr cr Activate = c1_update_activate validate sr cr"
| "boot_call_act validate sr cr Bootstrap = c1_update_bootstrap_activate validate sr cr"
| "boot_call_act validate sr cr (Recover boot_id) = c1_update_recover_boot validate sr cr boot_id"
| "boot_call_act validate sr cr Confirm = c1_update_confirm validate sr cr"
| "boot_call_act validate sr cr Rollback = c1_update_rollback validate sr cr"

text \<open>A history: each call meets its own list of outcomes, and after a loss of power the next call
  starts on the disk that is left.\<close>

fun boot_run :: "validator \<Rightarrow> string \<Rightarrow> string \<Rightarrow> (boot_call \<times> outcome list) list \<Rightarrow> world \<Rightarrow> world" where
  "boot_run validate sr cr [] w = w"
| "boot_run validate sr cr ((c, fs) # cs) w =
     boot_run validate sr cr cs (snd (boot_call_act validate sr cr c (w\<lparr> faults := fs \<rparr>)))"

section \<open>The contract of the release check\<close>

text \<open>What boot.c relies on: the check only reads, what it accepts is good, and being good depends on
  files (\<open>inputs\<close>) that lie outside the state root and are not the two pointers.\<close>

lemma pointer_names:
  "\<not> pointer_area c ''previous'' (pointer_path c ''current'')"
  "\<not> pointer_area c ''current'' (pointer_path c ''previous'')"
  by (auto simp: pointer_area_def pointer_path_def under_iff tmp_of_def tmp_name_def)

lemma bind_ret: "bind_act (ret x) k = k x"
  by (simp add: bind_act_def ret_def fun_eq_iff)

locale release_check =
  fixes validate :: validator
    and good :: "world \<Rightarrow> string \<Rightarrow> bool"
    and inputs :: "string \<Rightarrow> bool"
    and sr cr :: string
  assumes reads_only: "framed (\<lambda>q. False) (validate t i)"
    and accepted: "validate t i w = (Some u, w') \<Longrightarrow> good w t"
    and depends: "stable (\<lambda>q. \<not> inputs q) (\<lambda>w. good w t)"
    and apart: "apart sr cr"
    and inputs_state: "inputs q \<Longrightarrow> \<not> area sr q"
    and inputs_pointers: "inputs q \<Longrightarrow> \<not> pointer_area cr ''current'' q \<and> \<not> pointer_area cr ''previous'' q"
begin

abbreviation safe :: "string set \<Rightarrow> world \<Rightarrow> bool" where
  "safe T \<equiv> secured cr good T"

lemma good_stable: "(\<And>q. inputs q \<Longrightarrow> \<not> S q) \<Longrightarrow> stable S (\<lambda>w. good w t)"
  using depends [of t] unfolding stable_def by (metis touches_mono)

lemma safe_stable:
  assumes "\<And>q. inputs q \<Longrightarrow> \<not> S q" and "\<not> S (pointer_path cr ''current'')"
  shows "stable S (safe T)"
  unfolding stable_def
proof (intro allI impI)
  fix w w' assume t: "touches S w w'" and s: "safe T w"
  have "good w' u" if "good w u" for u
    using good_stable [OF assms(1)] t that by (auto simp: stable_def)
  moreover have "pointer cr ''current'' w' u = pointer cr ''current'' w u" for u
    using t assms(2) by (simp add: touches_def pointer_def)
  ultimately show "safe T w'" using s by (auto simp: secured_def)
qed

lemma same_safe: "stable (\<lambda>q. False) (safe T)"
  by (rule safe_stable) auto

lemma safe_same: "same_files w w' \<Longrightarrow> safe T w \<Longrightarrow> safe T w'"
  using same_safe by (auto simp: stable_def touches_none)

text \<open>After an accepted check the target is known to be good.\<close>

lemma check_keeps:
  assumes "keeps (safe (insert t T)) k"
  shows "keeps (safe T) (then_act (validate t i) k)"
  unfolding keeps_def then_act_def
proof (rule hoare_bind)
  show "hoare (safe T) (validate t i) (\<lambda>_. safe (insert t T)) (safe T)"
    unfolding hoare_def
  proof (intro allI impI)
    fix w r w' assume s: "safe T w" and run: "validate t i w = (r, w')"
    have same: "same_files w w'" by (rule framed_same_files [OF reads_only run])
    have "good w' t" if "r \<noteq> None"
      using accepted [of t i w] run that good_stable [of "\<lambda>q. False" t] same
      by (auto simp: stable_def touches_none)
    with safe_same [OF same s] show "case r of None \<Rightarrow> safe T w' | Some x \<Rightarrow> safe (insert t T) w'"
      by (cases r) (auto simp: secured_def)
  qed
  show "hoare (safe (insert t T)) k (\<lambda>_. safe T) (safe T)"
    using assms unfolding keeps_def by (rule hoare_weaken) (auto simp: secured_def)
qed

lemma maybe_keeps:
  assumes "keeps (safe (insert t T)) (k (Some ()))" and "keeps (safe T) (k None)"
  shows "keeps (safe T) (bind_act (attempt (validate t i)) k)"
  unfolding keeps_def
proof (rule hoare_bind)
  show "hoare (safe T) (attempt (validate t i)) (\<lambda>r. safe (if r = None then T else insert t T)) (safe T)"
    unfolding hoare_def
  proof (intro allI impI)
    fix w r w' assume s: "safe T w" and run: "attempt (validate t i) w = (r, w')"
    obtain v u where v: "validate t i w = (v, u)" by (cases "validate t i w")
    have same: "same_files w u" by (rule framed_same_files [OF reads_only v])
    have "good u t" if "v \<noteq> None"
      using accepted [of t i w] v that good_stable [of "\<lambda>q. False" t] same
      by (auto simp: stable_def touches_none)
    with safe_same [OF same s] run v
    show "case r of None \<Rightarrow> safe T w' | Some r \<Rightarrow> safe (if r = None then T else insert t T) w'"
      by (auto simp: attempt_def secured_def)
  qed
  show "hoare (safe (if r = None then T else insert t T)) (k r) (\<lambda>_. safe T) (safe T)" for r
  proof (cases r)
    case None
    with assms(2) show ?thesis by (simp add: keeps_def)
  next
    case (Some u)
    have "hoare (safe (insert t T)) (k (Some ())) (\<lambda>_. safe T) (safe T)"
      using assms(1) unfolding keeps_def by (rule hoare_weaken) (auto simp: secured_def)
    with Some show ?thesis by simp
  qed
qed

lemma state_keeps: "framed (area sr) m \<Longrightarrow> keeps (safe T) m"
  by (rule keeps_framed, assumption, rule safe_stable)
     (simp_all add: inputs_state pointer_path_def apart_area [OF apart])

lemma reads_keep: "framed (\<lambda>q. False) m \<Longrightarrow> keeps (safe T) m"
  by (rule keeps_framed [OF _ same_safe])

lemma previous_keeps: "keeps (safe T) (atomic_pointer cr ''previous'' t)"
  by (rule keeps_framed [OF framed_atomic_pointer safe_stable])
     (blast dest: inputs_pointers, rule pointer_names)

lemma current_keeps:
  assumes "t \<in> T"
  shows "keeps (safe T) (atomic_pointer cr ''current'' t)"
proof -
  let ?p = "pointer_path cr ''current''"
  let ?G = "\<lambda>w. \<forall>u \<in> T. good w u"
  have G: "stable (pointer_area cr ''current'') ?G"
  proof -
    have "stable (pointer_area cr ''current'') (\<lambda>w. good w u)" for u
      by (rule good_stable) (auto dest: inputs_pointers)
    then show ?thesis by (auto simp: stable_def)
  qed
  have S: "stable (tmp_of ?p) (safe T)"
    by (rule safe_stable) (auto dest: inputs_pointers simp: pointer_area_def tmp_of_not_self)
  show ?thesis
    unfolding keeps_def hoare_def
  proof (intro allI impI)
    fix w r w' assume s: "safe T w" and run: "atomic_pointer cr ''current'' t w = (r, w')"
    have "?G w'"
      using s G framedD [OF framed_atomic_pointer run] by (auto simp: stable_def secured_def)
    moreover have "safe T w' \<or> pointer cr ''current'' w' t"
      using hoareD [OF atomic_pointer_hoare [OF S] s run] by (auto split: option.splits)
    ultimately have "safe T w'" using assms by (auto simp: secured_def)
    then show "case r of None \<Rightarrow> safe T w' | Some x \<Rightarrow> safe T w'" by (cases r) auto
  qed
qed

lemmas steps_keep = state_keeps [OF framed_state_advance] state_keeps [OF framed_marker(1)]
  state_keeps [OF framed_marker(2)] state_keeps [OF framed_count] state_keeps [OF framed_clear_pending]
  reads_keep [OF framed_read_pointer] reads_keep [OF framed_marker_status] reads_keep [OF framed_load]

lemma rollback_locked_keeps: "t \<in> T \<Longrightarrow> keeps (safe T) (rollback_locked sr cr t s)"
  unfolding rollback_locked_def
  by (intro keeping current_keeps steps_keep)

lemma recover_locked_keeps: "keeps (safe T) (recover_locked validate sr cr s)"
proof -
  have resume: "keeps (safe T) (resume_rollback validate sr cr s)"
    unfolding resume_rollback_def
    by (intro keeps_then keeps_bind keeps_simple check_keeps keeps_if steps_keep current_keeps
        rollback_locked_keeps insertI1)
  have pending: "keeps (safe T) (recover_pending validate sr cr s)"
    unfolding recover_pending_def
  proof (intro keeps_bind [OF keeps_simple(4)] keeps_bind [OF steps_keep(6)] check_keeps maybe_keeps)
    fix candidate previous
    let ?k = "\<lambda>current. if current = Some candidate then ret s
          else if current = Some previous
          then then_act (atomic_pointer cr ''current'' candidate) (ret s)
          else rollback_locked sr cr previous s"
    show "keeps (safe (insert candidate (insert previous T)))
        (bind_act (if Some () \<noteq> None then attempt (read_pointer cr ''current'') else ret None) ?k)"
      by (intro keeping steps_keep current_keeps rollback_locked_keeps) auto
    show "keeps (safe (insert previous T))
        (bind_act (if None \<noteq> (None :: unit option) then attempt (read_pointer cr ''current'') else ret None) ?k)"
      by (simp add: bind_ret) (rule rollback_locked_keeps, simp)
  qed
  show ?thesis
    unfolding recover_locked_def by (intro keeping steps_keep resume pending)
qed

lemma locked_keeps:
  assumes "keeps (safe T) body"
  shows "keeps (safe T) (locked sr cr body)"
proof -
  have "keeps (safe T) (\<lambda>w. case body w of (r, w') \<Rightarrow> (r, snd (sys_touch w')))"
    unfolding keeps_def hoare_def
  proof (intro allI impI)
    fix w r w' assume s: "safe T w"
      and run: "(case body w of (r, w') \<Rightarrow> (r, snd (sys_touch w'))) = (r, w')"
    obtain q u where u: "body w = (q, u)" by (cases "body w")
    obtain e v where v: "sys_touch u = (e, v)" by (cases "sys_touch u")
    have "safe T u" using hoareD [OF assms [unfolded keeps_def] s u] by (cases q) auto
    then have "safe T v" by (rule safe_same [OF sys_touch_success [OF v]])
    with run u v show "case r of None \<Rightarrow> safe T w' | Some x \<Rightarrow> safe T w'" by (cases r) auto
  qed
  then show ?thesis
    unfolding locked_def by (intro keeps_then state_keeps [OF framed_mono [OF framed_lock]]) (simp add: lock_path_def)
qed

text \<open>All entry points, in any order and under any faults, keep the current pointer good.\<close>

lemma call_keeps: "keeps (safe T) (boot_call_act validate sr cr c)"
proof (cases c)
  case Activate
  then show ?thesis
    by (simp add: c1_update_activate_def)
       (intro locked_keeps keeps_bind keeps_then keeps_if keeps_simple check_keeps steps_keep
         recover_locked_keeps previous_keeps current_keeps insertI1 insertI2)
next
  case Bootstrap
  have status: "keeps (safe T) (bootstrap_pointer_status cr x t)" for T x t
    unfolding bootstrap_pointer_status_def
    by (intro keeping steps_keep reads_keep framed_probe)
  from Bootstrap show ?thesis
    by (simp add: c1_update_bootstrap_activate_def)
       (intro locked_keeps keeps_bind keeps_then keeps_if keeps_simple check_keeps steps_keep
         keeps_attempt status previous_keeps current_keeps insertI1)
next
  case (Recover b)
  then show ?thesis
    by (simp add: c1_update_recover_boot_def)
       (intro keeps_then keeps_simple locked_keeps keeps_bind keeps_if keeps_attempt check_keeps
         steps_keep recover_locked_keeps rollback_locked_keeps insertI1)
next
  case Confirm
  then show ?thesis
    by (simp add: c1_update_confirm_def)
       (intro locked_keeps keeps_bind keeps_then keeps_simple check_keeps steps_keep)
next
  case Rollback
  then show ?thesis
    by (simp add: c1_update_rollback_def)
       (intro locked_keeps keeps_bind keeps_then keeps_if keeps_simple check_keeps steps_keep
         rollback_locked_keeps insertI1)
qed

lemma run_safe: "safe {} w \<Longrightarrow> safe {} (boot_run validate sr cr cs w)"
proof (induction cs arbitrary: w)
  case Nil
  then show ?case by simp
next
  case (Cons c cs)
  obtain k fs where c: "c = (k, fs)" by (cases c)
  have "same_files w (w\<lparr> faults := fs \<rparr>)" by (simp add: same_files_def same_process_def)
  then have "safe {} (w\<lparr> faults := fs \<rparr>)" using Cons.prems by (rule safe_same)
  moreover obtain r w' where run: "boot_call_act validate sr cr k (w\<lparr> faults := fs \<rparr>) = (r, w')"
    by (cases "boot_call_act validate sr cr k (w\<lparr> faults := fs \<rparr>)")
  ultimately have "safe {} w'"
    using hoareD [OF call_keeps [of "{}" k, unfolded keeps_def] _ run] by (cases r) auto
  with Cons.IH c run show ?case by simp
qed

end


end
