(* ===== verification/Release.thy ===== *)
theory Release
  imports Manifest Sha256 Boot
begin

text \<open>
  The check of an installed release: signed manifest (\<open>security/trusted_ed25519.c\<close> and
  \<open>c1_update_repository_load_local\<close> of \<open>update/repository.c\<close>), compatibility of the bootstrap
  (\<open>c1_update_check_compatibility\<close> of \<open>protocol.c\<close>) and \<open>c1_update_validate_release\<close> of \<open>boot.c\<close>. The
  signature algorithm itself is vendored code: \<open>verify signature payload key\<close> is an argument, and nothing
  is assumed of it. The last part shows that this check has the contract on which the boot
  operations rely, on the deployed paths.
\<close>

type_synonym signature_check = "string \<Rightarrow> string \<Rightarrow> string \<Rightarrow> bool"

section \<open>Signatures\<close>

definition C1_ED25519_PAYLOAD_MAX :: nat where "C1_ED25519_PAYLOAD_MAX = 256 * 1024"

definition c1_trusted_ed25519_verify ::
  "signature_check \<Rightarrow> string \<Rightarrow> string \<Rightarrow> string \<Rightarrow> bool" where
  "c1_trusted_ed25519_verify verify signature payload public_key \<longleftrightarrow>
     length payload \<le> C1_ED25519_PAYLOAD_MAX \<and> verify signature payload public_key"

definition c1_trusted_ed25519_verify_files ::
  "signature_check \<Rightarrow> string \<Rightarrow> string \<Rightarrow> string \<Rightarrow> unit act" where
  "c1_trusted_ed25519_verify_files verify key_path signature_path payload =
     then_act (require (length payload \<le> C1_ED25519_PAYLOAD_MAX))
     (bind_act (c1_secure_read_file key_path 32 (Some 32)) (\<lambda>public_key.
      bind_act (c1_secure_read_file signature_path 64 (Some 64)) (\<lambda>signature.
      require (c1_trusted_ed25519_verify verify signature payload public_key))))"

section \<open>Loading a release\<close>

record c1_update_release =
  manifest :: c1_update_manifest
  manifest_data :: string
  signature :: string

definition c1_update_repository_load_local ::
  "signature_check \<Rightarrow> string \<Rightarrow> string \<Rightarrow> c1_update_release act" where
  "c1_update_repository_load_local verify release_directory key_path =
     bind_act (lift (c1_update_join_path release_directory ''manifest.v1'')) (\<lambda>manifest_path.
     bind_act (lift (c1_update_join_path release_directory ''manifest.v1.sig'')) (\<lambda>signature_path.
     bind_act (c1_secure_read_file manifest_path C1_UPDATE_MANIFEST_MAX None) (\<lambda>data.
     bind_act (c1_secure_read_file signature_path 64 (Some 64)) (\<lambda>sig.
     then_act (c1_trusted_ed25519_verify_files verify key_path signature_path data)
     (case c1_update_parse_manifest data of
        Inl e \<Rightarrow> stop
      | Inr m \<Rightarrow> ret \<lparr> manifest = m, manifest_data = data, signature = sig \<rparr>)))))"

section \<open>Compatibility with the bootstrap\<close>

definition C1_UPDATER_VERSION :: string where "C1_UPDATER_VERSION = ''1.1.0''"

text \<open>One \<open>%64s\<close> conversion: white space is skipped, then up to 64 other bytes are taken.\<close>

definition scan_word :: "string \<Rightarrow> (string \<times> string) option" where
  "scan_word s = scan_class 64 (\<lambda>c. \<not> is_space c) (dropWhile is_space s)"

text \<open>The capability record: version and script digest, nothing after them but one newline.\<close>

definition parse_capability :: "string \<Rightarrow> (string \<times> string) option" where
  "parse_capability data =
     Option.bind (scan_word data) (\<lambda>(version, r1).
     Option.bind (scan_word r1) (\<lambda>(expected, r2).
     if r2 = [nl] then Some (version, expected) else None))"

definition compatible :: "c1_update_manifest \<Rightarrow> string \<Rightarrow> bool" where
  "compatible m bootstrap \<longleftrightarrow>
     c1_update_check_compatibility_versions (Some m) bootstrap C1_UPDATER_VERSION = Inr ()"

definition c1_update_check_compatibility :: "c1_update_manifest \<Rightarrow> unit act" where
  "c1_update_check_compatibility m =
     (if compatible m ''1.0.0'' then ret ()
      else
        bind_act (probe ''/etc/c1updater/bootstrap.version'') (\<lambda>found.
        case found of
          None \<Rightarrow> require (compatible m ''1.0.0'')
        | Some record \<Rightarrow>
            bind_act (ok (sys_lstat ''/etc/c1updater'')) (\<lambda>directory.
            then_act (require (st_kind directory = S_IFDIR \<and> st_uid directory = 0 \<and>
                               st_mode directory AND 18 = 0 \<and>
                               st_kind record = S_IFREG \<and> st_uid record = 0 \<and> st_nlink record = 1 \<and>
                               st_mode record AND 511 = 384))
            (bind_act (ok (sys_lstat ''/etc/app_daemon'')) (\<lambda>script.
             then_act (require (st_kind script = S_IFREG \<and> st_uid script = 0 \<and>
                                st_mode script AND 18 = 0))
             (bind_act (c1_secure_read_file ''/etc/c1updater/bootstrap.version'' 132 None) (\<lambda>data.
              bind_act (lift (parse_capability data)) (\<lambda>(version, expected).
              bind_act (c1_sha256_file ''/etc/app_daemon'' 65536 None) (\<lambda>hash.
              then_act (require (expected = c1_sha256_hex hash))
              (require (compatible m version)))))))))))"

section \<open>The release check\<close>

definition artifact_matches :: "string \<Rightarrow> c1_update_component \<Rightarrow> unit act" where
  "artifact_matches path component =
     bind_act (ok (sys_lstat path)) (\<lambda>information.
     then_act (require (st_kind information = S_IFREG \<and> st_nlink information = 1 \<and>
                        st_mode information AND 511 = comp_mode component))
     (bind_act (c1_sha256_file path (comp_size component) (Some (comp_size component))) (\<lambda>dig.
      require (c1_sha256_hex dig = sha256 component))))"

text \<open>The part of a path after its last slash; the code rejects a path without a slash.\<close>

definition base_name :: "string \<Rightarrow> string option" where
  "base_name path =
     (if CHR ''/'' \<in> set path then Some (rev (takeWhile (\<lambda>c. c \<noteq> CHR ''/'') (rev path))) else None)"

fun artifacts_match :: "string \<Rightarrow> c1_update_component list \<Rightarrow> unit act" where
  "artifacts_match artifacts [] = ret ()"
| "artifacts_match artifacts (c # cs) =
     bind_act (lift (base_name (comp_path c))) (\<lambda>base.
     bind_act (lift (c1_update_join_path artifacts base)) (\<lambda>artifact.
     then_act (artifact_matches artifact c) (artifacts_match artifacts cs)))"

definition identity_matches :: "c1_update_state \<Rightarrow> c1_update_release \<Rightarrow> bool" where
  "identity_matches identity r \<longleftrightarrow>
     st_sequence identity = mf_sequence (manifest r) \<and>
     st_security_epoch identity = mf_security_epoch (manifest r) \<and>
     release identity = mf_version (manifest r) \<and>
     digest identity = c1_sha256_hex (c1_sha256 (manifest_data r))"

definition c1_update_validate_release ::
  "signature_check \<Rightarrow> string \<Rightarrow> string \<Rightarrow> string \<Rightarrow> c1_update_state option \<Rightarrow> unit act" where
  "c1_update_validate_release verify core_root key_path target identity =
     bind_act (lift (parse_target target)) (\<lambda>name.
     then_act (c1_update_check_trusted_directory core_root)
     (bind_act (lift (c1_update_join_path core_root ''releases'')) (\<lambda>releases.
      then_act (c1_update_check_trusted_directory releases)
      (bind_act (lift (c1_update_join_path core_root target)) (\<lambda>release_path.
       then_act (c1_update_check_trusted_directory release_path)
       (bind_act (c1_update_repository_load_local verify release_path key_path) (\<lambda>r.
        then_act (c1_update_check_compatibility (manifest r))
        (let expected = dec (mf_sequence (manifest r)) @ ''-'' @ mf_version (manifest r) in
         then_act (require (length expected < 192 \<and> name = expected \<and>
                            (\<forall>i \<in> set_option identity. identity_matches i r)))
         (bind_act (lift (c1_update_join_path release_path ''artifacts'')) (\<lambda>artifacts.
          then_act (c1_update_check_trusted_directory artifacts)
          (artifacts_match artifacts (components (manifest r)))))))))))))"

section \<open>An intact release\<close>

definition release_path :: "string \<Rightarrow> string \<Rightarrow> string" where
  "release_path core_root target = slash core_root @ target"

definition regular_data :: "world \<Rightarrow> string \<Rightarrow> string option" where
  "regular_data w p =
     Option.bind (file_at w p) (\<lambda>i. if st_kind i = S_IFREG then Some (st_data i) else None)"

definition artifact_intact :: "string \<Rightarrow> world \<Rightarrow> string \<Rightarrow> c1_update_component \<Rightarrow> bool" where
  "artifact_intact core_root w target c \<longleftrightarrow>
     (\<exists>base d. base_name (comp_path c) = Some base \<and>
        regular_data w (slash (slash (release_path core_root target) @ ''artifacts'') @ base) = Some d \<and>
        length d = comp_size c \<and> c1_sha256_hex (c1_sha256 d) = sha256 c)"

text \<open>The release directory exists and holds a manifest that carries a valid signature under the trusted key, the
  directory has the name that the manifest gives it, and every component is there with its size and hash.\<close>

definition release_intact ::
  "signature_check \<Rightarrow> string \<Rightarrow> string \<Rightarrow> world \<Rightarrow> string \<Rightarrow> bool" where
  "release_intact verify core_root key_path w target \<longleftrightarrow>
     is_dir w (release_path core_root target) \<and>
     (\<exists>data sig key m.
        regular_data w (slash (release_path core_root target) @ ''manifest.v1'') = Some data \<and>
        regular_data w (slash (release_path core_root target) @ ''manifest.v1.sig'') = Some sig \<and>
        regular_data w key_path = Some key \<and>
        verify sig data key \<and> c1_update_parse_manifest data = Inr m \<and>
        target = ''releases/'' @ dec (mf_sequence m) @ ''-'' @ mf_version m \<and>
        (\<forall>c \<in> set (components m). artifact_intact core_root w target c))"

text \<open>What that depends on.\<close>

definition release_inputs :: "string \<Rightarrow> string \<Rightarrow> string \<Rightarrow> bool" where
  "release_inputs core_root key_path q \<longleftrightarrow>
     q = key_path \<or> prefix (slash core_root @ ''releases/'') q"


section \<open>The check has its contract\<close>

lemma framed_verify_files [frames]: "framed S (c1_trusted_ed25519_verify_files v k s p)"
  unfolding c1_trusted_ed25519_verify_files_def by (intro frames)

lemma framed_load_local [frames]: "framed S (c1_update_repository_load_local v d k)"
  unfolding c1_update_repository_load_local_def by (intro frames framed_lift)

lemma framed_trusted [frames]: "framed S (c1_update_check_trusted_directory p)"
proof -
  have "framed S (all_directories ps)" for ps
    by (induction ps) (auto intro!: frames)
  then show ?thesis
    unfolding c1_update_check_trusted_directory_def no_symlink_components_def
    by (intro frames)
qed

lemma framed_compatibility [frames]: "framed S (c1_update_check_compatibility m)"
  unfolding c1_update_check_compatibility_def
  by (intro frames framed_lift) (auto intro!: frames split: prod.split)

lemma framed_artifacts [frames]: "framed S (artifacts_match a cs)"
  by (induction cs) (auto simp: artifact_matches_def intro!: frames framed_lift)

lemma framed_validate [frames]: "framed S (c1_update_validate_release v c k t i)"
  unfolding c1_update_validate_release_def by (intro frames framed_lift)

lemma same_regular: "same_files w w' \<Longrightarrow> regular_data w' p = regular_data w p"
  by (simp add: regular_data_def same_files_def)

lemma read_regular:
  "c1_secure_read_file p m e w = (Some d, w') \<Longrightarrow> regular_data w p = Some d \<and> same_files w w'"
  by (auto simp: regular_data_def dest!: read_file_success)

lemma hash_regular:
  "c1_sha256_file p m (Some n) w = (Some h, w') \<Longrightarrow>
   \<exists>d. regular_data w p = Some d \<and> length d = n \<and> h = c1_sha256 d"
  by (auto simp: regular_data_def dest!: sha256_file_success)

lemma artifacts_match_success:
  assumes "artifacts_match (slash (release_path core target) @ ''artifacts'') cs w = (Some u, w')"
  shows "\<forall>c \<in> set cs. artifact_intact core w target c"
  using assms
proof (induction cs arbitrary: w)
  case Nil
  then show ?case by simp
next
  case (Cons c cs)
  let ?a = "slash (release_path core target) @ ''artifacts''"
  from Cons.prems obtain base p x v where b: "base_name (comp_path c) = Some base"
    and p: "c1_update_join_path ?a base = Some p" and m: "artifact_matches p c w = (Some x, v)"
    and rest: "artifacts_match ?a cs v = (Some u, w')"
    by (auto simp: act_Some lift_Some)
  have p': "p = slash ?a @ base" using update_join_Some [OF p] by simp
  have "framed S (artifact_matches p c)" for S
    unfolding artifact_matches_def by (intro frames)
  then have same: "same_files w v" using m by (rule framed_same_files)
  from m obtain i w1 h w2 where l: "sys_lstat p w = (Inr i, w1)"
    and h: "c1_sha256_file p (comp_size c) (Some (comp_size c)) w1 = (Some h, w2)"
    and e: "c1_sha256_hex h = sha256 c"
    by (auto simp: artifact_matches_def act_Some)
  from hash_regular [OF h] sys_lstat_success [OF l] e b p'
  have here: "artifact_intact core w target c"
    by (auto simp: artifact_intact_def same_regular)
  have "artifact_intact core v target d \<longleftrightarrow> artifact_intact core w target d" for d
    by (simp add: artifact_intact_def same_regular [OF same])
  with Cons.IH [OF rest] here show ?case by simp
qed

lemma load_local_success:
  assumes "c1_update_repository_load_local verify dir key w = (Some r, w')"
  shows "same_files w w' \<and> regular_data w (slash dir @ ''manifest.v1'') = Some (manifest_data r) \<and>
    regular_data w (slash dir @ ''manifest.v1.sig'') = Some (signature r) \<and>
    (\<exists>k. regular_data w key = Some k \<and> verify (signature r) (manifest_data r) k) \<and>
    c1_update_parse_manifest (manifest_data r) = Inr (manifest r)"
proof -
  have same: "same_files w w'" by (rule framed_same_files [OF framed_load_local assms])
  from assms obtain mp sp d s v1 v2 v3 where
    mp: "c1_update_join_path dir ''manifest.v1'' = Some mp"
    and sp: "c1_update_join_path dir ''manifest.v1.sig'' = Some sp"
    and d: "c1_secure_read_file mp C1_UPDATE_MANIFEST_MAX None w = (Some d, v1)"
    and s: "c1_secure_read_file sp 64 (Some 64) v1 = (Some s, v2)"
    and f: "c1_trusted_ed25519_verify_files verify key sp d v2 = (Some (), v3)"
    and parsed: "(case c1_update_parse_manifest d of Inl e \<Rightarrow> stop
        | Inr m \<Rightarrow> ret \<lparr> manifest = m, manifest_data = d, signature = s \<rparr>) v3 = (Some r, w')"
    by (auto simp: c1_update_repository_load_local_def act_Some lift_Some)
  from parsed obtain m where m: "c1_update_parse_manifest d = Inr m"
    and r: "r = \<lparr> manifest = m, manifest_data = d, signature = s \<rparr>"
    by (cases "c1_update_parse_manifest d") (auto simp: act_Some)
  from f obtain k w4 s' w5 where k: "c1_secure_read_file key 32 (Some 32) v2 = (Some k, w4)"
    and s': "c1_secure_read_file sp 64 (Some 64) w4 = (Some s', w5)" and ok: "verify s' d k"
    by (auto simp: c1_trusted_ed25519_verify_files_def act_Some c1_trusted_ed25519_verify_def)
  note facts = read_regular [OF d] read_regular [OF s] read_regular [OF k] read_regular [OF s']
  then have "regular_data v1 x = regular_data w x" "regular_data v2 x = regular_data w x"
    "regular_data w4 x = regular_data w x" for x by (metis same_regular)+
  with facts have "regular_data w sp = Some s" "regular_data w key = Some k" "s' = s" by auto
  with facts same m r ok update_join_Some [OF mp] update_join_Some [OF sp] show ?thesis by auto
qed

lemma trusted_success:
  assumes "c1_update_check_trusted_directory p w = (Some x, w')"
  shows "is_dir w p \<and> same_files w w'"
proof -
  from assms obtain y v i v' where "no_symlink_components p w = (Some y, v)"
    and l: "sys_lstat p v = (Inr i, v')" and k: "st_kind i = S_IFDIR"
    by (auto simp: c1_update_check_trusted_directory_def act_Some)
  moreover have dirs: "framed S (all_directories ps)" for S ps
    by (induction ps) (auto intro!: frames)
  then have "framed (\<lambda>q. False) (no_symlink_components p)"
    unfolding no_symlink_components_def by (intro frames dirs)
  ultimately have "same_files w v" by (blast intro: framed_same_files)
  with sys_lstat_success [OF l] k framed_same_files [OF framed_trusted assms] show ?thesis
    by (simp add: is_dir_def same_files_def)
qed

lemma validate_success:
  assumes "c1_update_validate_release verify core key target i w = (Some u, w')"
  shows "release_intact verify core key w target"
proof -
  let ?p = "release_path core target"
  from assms obtain name v0 rp v1 v2 r v3 v4 a v5 v6 x0 x1 x2 x3 where
    name: "parse_target target = Some name"
    and t0: "c1_update_check_trusted_directory core w = (Some x0, v0)"
    and t1: "c1_update_check_trusted_directory rp v0 = (Some x1, v1)"
    and p: "c1_update_join_path core target = Some a"
    and t2: "c1_update_check_trusted_directory a v1 = (Some x2, v2)"
    and load: "c1_update_repository_load_local verify a key v2 = (Some r, v3)"
    and comp: "c1_update_check_compatibility (manifest r) v3 = (Some x3, v4)"
    and n: "name = dec (mf_sequence (manifest r)) @ ''-'' @ mf_version (manifest r)"
    and rest: "bind_act (lift (c1_update_join_path a ''artifacts'')) (\<lambda>artifacts.
          then_act (c1_update_check_trusted_directory artifacts)
          (artifacts_match artifacts (components (manifest r)))) v4 = (Some u, w')"
    by (auto simp: c1_update_validate_release_def Let_def act_Some lift_Some)
  have a: "a = ?p" using update_join_Some [OF p] by (simp add: release_path_def)
  from rest obtain b v7 x4 where b: "c1_update_join_path ?p ''artifacts'' = Some b"
    and t3: "c1_update_check_trusted_directory b v4 = (Some x4, v7)"
    and art: "artifacts_match b (components (manifest r)) v7 = (Some u, w')"
    by (auto simp: a act_Some lift_Some)
  have b: "b = slash ?p @ ''artifacts''" using update_join_Some [OF b] by simp
  have same: "same_files w v2" "same_files w v7"
    using framed_same_files [OF framed_trusted t0] framed_same_files [OF framed_trusted t1]
      framed_same_files [OF framed_trusted t2] load_local_success [OF load]
      framed_same_files [OF framed_compatibility comp] framed_same_files [OF framed_trusted t3]
    by (blast intro: same_files_trans)+
  have "same_files w v1"
    using framed_same_files [OF framed_trusted t0] framed_same_files [OF framed_trusted t1]
    by (blast intro: same_files_trans)
  with trusted_success [OF t2] have dir: "is_dir w ?p"
    by (simp add: is_dir_def same_files_def a)
  have target: "target = ''releases/'' @ name"
    using name by (metis append_take_drop_id option.distinct(1) option.inject parse_target_def)
  have "artifact_intact core v7 target d = artifact_intact core w target d" for d
    by (simp add: artifact_intact_def same_regular [OF same(2)])
  with artifacts_match_success [OF art [unfolded b]]
  have "\<forall>c \<in> set (components (manifest r)). artifact_intact core w target c" by simp
  with load_local_success [OF load] target n dir show ?thesis
    unfolding release_intact_def a by (auto simp: same_regular [OF same(1)])
qed

text \<open>The check depends on the key and on the directories whose names begin with a number.\<close>

lemma intact_stable:
  assumes key: "\<not> S key" and dirs: "\<And>n q. prefix (slash core @ ''releases/'' @ dec n) q \<Longrightarrow> \<not> S q"
  shows "stable S (\<lambda>w. release_intact verify core key w t)"
  unfolding stable_def
proof (intro allI impI)
  fix w w' assume touch: "touches S w w'" and intact: "release_intact verify core key w t"
  have at: "file_at w' q = file_at w q" if "\<not> S q" for q
    using touch that by (simp add: touches_def)
  from intact obtain n rest where "t = ''releases/'' @ dec n @ rest" unfolding release_intact_def by blast
  then have base: "prefix (slash core @ ''releases/'' @ dec n) (release_path core t)"
    by (simp add: release_path_def)
  have same: "regular_data w' q = regular_data w q" if "prefix (slash core @ ''releases/'' @ dec n) q" for q
    using at [OF dirs [OF that]] by (simp add: regular_data_def)
  have deep: "prefix (slash core @ ''releases/'' @ dec n) (slash (release_path core t) @ x)" for x
    by (rule prefix_slash [OF base])
  have deeper: "prefix (slash core @ ''releases/'' @ dec n) (slash (slash (release_path core t) @ y) @ x)" for x y
    by (blast intro: prefix_slash base)
  have "is_dir w' (release_path core t) = is_dir w (release_path core t)"
    using at [OF dirs [OF base]] by (simp add: is_dir_def)
  moreover have "regular_data w' key = regular_data w key" using at [OF key] by (simp add: regular_data_def)
  moreover have "artifact_intact core w' t c = artifact_intact core w t c" for c
    by (simp add: artifact_intact_def same [OF deeper])
  ultimately show "release_intact verify core key w' t"
    using intact by (simp add: release_intact_def same [OF deep])
qed

lemma intact_depends:
  "stable (\<lambda>q. \<not> release_inputs core key q) (\<lambda>w. release_intact verify core key w t)"
proof (rule intact_stable)
  fix n q assume "prefix (slash core @ ''releases/'' @ dec n) q"
  then have "prefix (slash core @ ''releases/'') q" by (metis append_assoc append_prefixD)
  then show "\<not> \<not> release_inputs core key q" by (simp add: release_inputs_def)
qed (simp add: release_inputs_def)

section \<open>The deployed check\<close>

definition C1_UPDATE_DEFAULT_STATE_ROOT :: string where
  "C1_UPDATE_DEFAULT_STATE_ROOT = ''/usr/data/c1/update/state''"
definition C1_UPDATE_DEFAULT_CORE_ROOT :: string where
  "C1_UPDATE_DEFAULT_CORE_ROOT = ''/usr/data/c1/core''"
definition C1_UPDATE_DEFAULT_KEY :: string where
  "C1_UPDATE_DEFAULT_KEY = ''/etc/c1updater/core.ed25519.pub''"

lemmas deployed_paths = C1_UPDATE_DEFAULT_STATE_ROOT_def C1_UPDATE_DEFAULT_CORE_ROOT_def
  C1_UPDATE_DEFAULT_KEY_def

interpretation deployed: release_check
  "c1_update_validate_release verify C1_UPDATE_DEFAULT_CORE_ROOT C1_UPDATE_DEFAULT_KEY"
  "release_intact verify C1_UPDATE_DEFAULT_CORE_ROOT C1_UPDATE_DEFAULT_KEY"
  "release_inputs C1_UPDATE_DEFAULT_CORE_ROOT C1_UPDATE_DEFAULT_KEY"
  C1_UPDATE_DEFAULT_STATE_ROOT C1_UPDATE_DEFAULT_CORE_ROOT
  for verify
proof unfold_locales
  fix q assume q: "release_inputs C1_UPDATE_DEFAULT_CORE_ROOT C1_UPDATE_DEFAULT_KEY q"
  then show "\<not> area C1_UPDATE_DEFAULT_STATE_ROOT q"
    by (auto simp: release_inputs_def area_def deployed_paths slash_def prefix_def)
  from q show "\<not> pointer_area C1_UPDATE_DEFAULT_CORE_ROOT ''current'' q \<and>
      \<not> pointer_area C1_UPDATE_DEFAULT_CORE_ROOT ''previous'' q"
    by (auto simp: release_inputs_def deployed_paths slash_def prefix_def pointer_area_def
        pointer_path_def under_iff tmp_of_def tmp_name_def)
qed (auto simp: apart_def deployed_paths slash_def intro: framed_validate validate_success intact_depends)

section \<open>A release on disk\<close>

definition demo_component :: "nat \<Rightarrow> string \<Rightarrow> c1_update_component" where
  "demo_component i d = \<lparr> role = roles ! i, comp_path = paths ! i,
     sha256 = c1_sha256_hex (c1_sha256 d), comp_size = length d, comp_mode = 448 \<rparr>"

definition demo_manifest :: c1_update_manifest where
  "demo_manifest = \<lparr> mf_sequence = 30, mf_version = ''2.9.12'', mf_security_epoch = 2,
     mf_target = C1_UPDATE_TARGET, min_bootstrap = ''1.0.0'', min_updater = ''1.1.0'',
     compatibility = ''c1'', source_revision = ''abc'', source_date_epoch = 7,
     components = [demo_component 0 ''ui'', demo_component 1 ''pkg'', demo_component 2 ''run'',
       demo_component 3 ''up''] \<rparr>"

definition regular :: "string \<Rightarrow> inode" where
  "regular d = \<lparr> st_kind = S_IFREG, st_mode = 448, st_uid = 0, st_nlink = 1, st_data = d, st_ino = 0 \<rparr>"

definition demo_disk :: world where
  "demo_disk = \<lparr> files =
     [(''/usr/data/c1/core/current'', (regular ''releases/30-2.9.12'')\<lparr> st_kind := S_IFLNK \<rparr>),
      (''/etc/c1updater/core.ed25519.pub'', regular ''key''),
      (''/usr/data/c1/core/releases/30-2.9.12'', (regular [])\<lparr> st_kind := S_IFDIR, st_nlink := 3 \<rparr>),
      (''/usr/data/c1/core/releases/30-2.9.12/manifest.v1'', regular (manifest_text demo_manifest)),
      (''/usr/data/c1/core/releases/30-2.9.12/manifest.v1.sig'', regular ''sig''),
      (''/usr/data/c1/core/releases/30-2.9.12/artifacts/C1ancher'', regular ''ui''),
      (''/usr/data/c1/core/releases/30-2.9.12/artifacts/c1pkg'', regular ''pkg''),
      (''/usr/data/c1/core/releases/30-2.9.12/artifacts/C1ancher-launcher'', regular ''run''),
      (''/usr/data/c1/core/releases/30-2.9.12/artifacts/c1updater'', regular ''up'')],
     euid = 0, pid = 1, suffix = ''abcdef'', faults = [] \<rparr>"

lemma digest_valid: "valid_digest (c1_sha256_hex (c1_sha256 d))"
  by (simp add: valid_digest_def hex_text one_shot length_digest)

lemma demo_tokens: "safe_token ''2.9.12'' \<and> safe_token ''1.0.0'' \<and> safe_token ''1.1.0'' \<and>
    safe_token ''c1'' \<and> safe_token ''abc''"
  by (simp add: safe_token_def C1_UPDATE_TOKEN_MAX_def is_alnum_def is_digit_def is_lower_def
      token_punctuation_def upt_rec char_class_defs less_eq_char_def)

lemma demo_component_ok: "i < 4 \<Longrightarrow> d \<noteq> [] \<Longrightarrow> length d < 10 \<Longrightarrow> component_ok i (demo_component i d)"
  by (simp add: demo_component_def component_ok_def protocol_validators digest_valid
      C1_UPDATE_COMPONENT_MAX_def)

lemma demo_manifest_ok: "manifest_ok demo_manifest"
proof -
  have "\<forall>i < 4. component_ok i (components demo_manifest ! i)"
    using demo_component_ok [of 0 "''ui''"] demo_component_ok [of 1 "''pkg''"]
      demo_component_ok [of 2 "''run''"] demo_component_ok [of 3 "''up''"]
    by (simp add: demo_manifest_def numeral_eq_Suc All_less_Suc)
  then show ?thesis
    using demo_tokens
    by (simp add: manifest_ok_def demo_manifest_def u64_ok_def UINT64_MAX_value demo_component_def
        C1_UPDATE_PAYLOAD_MAX_def)
qed

lemma demo_parsed: "c1_update_parse_manifest (manifest_text demo_manifest) = Inr demo_manifest"
  using manifest_file.parse_print [OF demo_manifest_ok] by (simp split: sum.splits)

lemma demo_dec: "dec 30 = ''30''"
  by (simp add: dec.simps char_of_def bit_0)

abbreviation demo_check :: signature_check where
  "demo_check \<equiv> \<lambda>s p k. s = ''sig'' \<and> k = ''key''"

lemma demo_intact:
  "release_intact demo_check C1_UPDATE_DEFAULT_CORE_ROOT C1_UPDATE_DEFAULT_KEY demo_disk ''releases/30-2.9.12''"
proof -
  note at = demo_disk_def regular_def regular_data_def file_at_def deployed_paths release_path_def slash_def
  have comp: "artifact_intact C1_UPDATE_DEFAULT_CORE_ROOT demo_disk ''releases/30-2.9.12'' c"
    if "c \<in> set (components demo_manifest)" for c
    using that
    by (auto simp: artifact_intact_def at demo_manifest_def demo_component_def base_name_def paths_def
        numeral_eq_Suc)
  moreover have "is_dir demo_disk (release_path C1_UPDATE_DEFAULT_CORE_ROOT ''releases/30-2.9.12'')"
    by (simp add: at is_dir_def)
  moreover have "mf_sequence demo_manifest = 30" "mf_version demo_manifest = ''2.9.12''"
    by (simp_all add: demo_manifest_def)
  moreover have "regular_data demo_disk (slash (release_path C1_UPDATE_DEFAULT_CORE_ROOT ''releases/30-2.9.12'') @ ''manifest.v1'') =
      Some (manifest_text demo_manifest)"
    "regular_data demo_disk (slash (release_path C1_UPDATE_DEFAULT_CORE_ROOT ''releases/30-2.9.12'') @ ''manifest.v1.sig'') =
      Some ''sig''"
    "regular_data demo_disk C1_UPDATE_DEFAULT_KEY = Some ''key''"
    by (simp_all add: at)
  ultimately show ?thesis
    unfolding release_intact_def using demo_parsed demo_dec comp by simp
qed

text \<open>C3. Nothing the boot operations do breaks the installed release. If the \<open>current\<close> pointer names an
  intact release (manifest signed under the trusted key, every component with its size and hash), then
  after any history of activations, recoveries, confirmations and rollbacks, each meeting any system
  call failures or a loss of power at any point, it again names an intact release.\<close>

theorem current_release_always_intact:
  fixes w :: world
  assumes "pointer C1_UPDATE_DEFAULT_CORE_ROOT ''current'' w t"
    and "release_intact verify C1_UPDATE_DEFAULT_CORE_ROOT C1_UPDATE_DEFAULT_KEY w t"
  shows "\<exists>t'. pointer C1_UPDATE_DEFAULT_CORE_ROOT ''current''
        (boot_run (c1_update_validate_release verify C1_UPDATE_DEFAULT_CORE_ROOT C1_UPDATE_DEFAULT_KEY)
           C1_UPDATE_DEFAULT_STATE_ROOT C1_UPDATE_DEFAULT_CORE_ROOT history w) t' \<and>
      release_intact verify C1_UPDATE_DEFAULT_CORE_ROOT C1_UPDATE_DEFAULT_KEY
        (boot_run (c1_update_validate_release verify C1_UPDATE_DEFAULT_CORE_ROOT C1_UPDATE_DEFAULT_KEY)
           C1_UPDATE_DEFAULT_STATE_ROOT C1_UPDATE_DEFAULT_CORE_ROOT history w) t'"
  using deployed.run_safe [where w = w and cs = history and verify = verify] assms by (auto simp: secured_def)

theorem current_release_always_intact_witness:
  "\<exists>t'. pointer C1_UPDATE_DEFAULT_CORE_ROOT ''current''
        (boot_run (c1_update_validate_release demo_check C1_UPDATE_DEFAULT_CORE_ROOT C1_UPDATE_DEFAULT_KEY)
           C1_UPDATE_DEFAULT_STATE_ROOT C1_UPDATE_DEFAULT_CORE_ROOT [(Activate, [Off]), (Rollback, [])] demo_disk) t' \<and>
      release_intact demo_check C1_UPDATE_DEFAULT_CORE_ROOT C1_UPDATE_DEFAULT_KEY
        (boot_run (c1_update_validate_release demo_check C1_UPDATE_DEFAULT_CORE_ROOT C1_UPDATE_DEFAULT_KEY)
           C1_UPDATE_DEFAULT_STATE_ROOT C1_UPDATE_DEFAULT_CORE_ROOT [(Activate, [Off]), (Rollback, [])] demo_disk) t'"
  by (rule current_release_always_intact [OF _ demo_intact])
    (simp add: pointer_def pointer_path_def demo_disk_def regular_def file_at_def deployed_paths slash_def)

end
