(* ===== verification/Repository.thy ===== *)
theory Repository
  imports Release
begin

text \<open>
  Remote access to the core repository (\<open>src/C1ancher/src/update/repository.c\<close>): URL checks, the retry
  loop of one download, the fallback origin of \<open>platform/repository_endpoint.h\<close> and fetching a signed
  release. The transfers themselves are made by an external \<open>curl\<close>: what each attempt gives, and what
  the monotonic clock reads around it, is an argument of the model, a list of \<open>transfer\<close> observations per
  origin and path. Nothing is assumed of them except the file size limit that the code sets on the child. A
  failing clock is a negative reading.
\<close>

definition C1_UPDATE_URL_MAX :: nat where "C1_UPDATE_URL_MAX = 2048"
definition C1_UPDATE_MANIFEST_NAME :: string where "C1_UPDATE_MANIFEST_NAME = ''manifest.v1''"
definition C1_UPDATE_SIGNATURE_NAME :: string where "C1_UPDATE_SIGNATURE_NAME = ''manifest.v1.sig''"
definition C1_UPDATE_DEFAULT_REPOSITORY :: string where
  "C1_UPDATE_DEFAULT_REPOSITORY = ''http://www.fwz233.com/c1/core/v1/stable''"
definition C1_UPDATE_HTTP_RETRY_WINDOW_SECONDS :: int where "C1_UPDATE_HTTP_RETRY_WINDOW_SECONDS = 120"
definition C1_UPDATE_HTTP_RETRY_DELAY_SECONDS :: int where "C1_UPDATE_HTTP_RETRY_DELAY_SECONDS = 5"
definition C1_UPDATE_HTTP_MAX_ATTEMPTS :: nat where "C1_UPDATE_HTTP_MAX_ATTEMPTS = 25"
definition C1_UPDATE_METADATA_SECONDS :: int where "C1_UPDATE_METADATA_SECONDS = 45"
definition C1_REPOSITORY_PRIMARY_ORIGIN :: string where
  "C1_REPOSITORY_PRIMARY_ORIGIN = ''http://www.fwz233.com''"
definition C1_REPOSITORY_FALLBACK_ORIGIN :: string where
  "C1_REPOSITORY_FALLBACK_ORIGIN = ''http://123.56.214.77''"

lemmas retry_constants = C1_UPDATE_HTTP_RETRY_WINDOW_SECONDS_def C1_UPDATE_HTTP_RETRY_DELAY_SECONDS_def
  C1_UPDATE_HTTP_MAX_ATTEMPTS_def C1_UPDATE_METADATA_SECONDS_def

section \<open>URLs\<close>

definition scheme_length :: "string \<Rightarrow> nat option" where
  "scheme_length url =
     (if prefix ''https://'' url then Some 8 else if prefix ''http://'' url then Some 7 else None)"

definition url_char :: "char \<Rightarrow> bool" where
  "url_char c \<longleftrightarrow> \<not> (byte c < 0x21 \<or> byte c = 0x7f \<or> c = CHR 0x5C \<or> c = CHR ''#'' \<or> c = CHR ''?'')"

definition c1_update_repository_validate_url :: "string \<Rightarrow> bool" where
  "c1_update_repository_validate_url base_url \<longleftrightarrow>
     base_url \<noteq> [] \<and> length base_url \<le> C1_UPDATE_URL_MAX \<and>
     (case scheme_length base_url of
        None \<Rightarrow> False
      | Some scheme \<Rightarrow>
          let authority = takeWhile (\<lambda>c. c \<noteq> CHR ''/'') (drop scheme base_url) in
          authority \<noteq> [] \<and> list_all url_char base_url \<and> CHR ''@'' \<notin> set authority \<and>
          \<not> sublist ''/../'' base_url \<and> \<not> Sublist.suffix ''/..'' base_url)"

definition c1_update_repository_read_url :: "string \<Rightarrow> nat \<Rightarrow> string act" where
  "c1_update_repository_read_url path url_size =
     then_act (require (url_size \<noteq> 0))
     (bind_act (probe path) (\<lambda>found.
      case found of
        None \<Rightarrow> then_act (require (length C1_UPDATE_DEFAULT_REPOSITORY + 1 \<le> url_size))
                  (ret C1_UPDATE_DEFAULT_REPOSITORY)
      | Some information \<Rightarrow>
          bind_act (asks euid) (\<lambda>user.
          then_act (require (st_kind information = S_IFREG \<and> st_nlink information = 1 \<and>
                             st_uid information = user))
          (bind_act (c1_secure_read_file path (C1_UPDATE_URL_MAX + 2) None) (\<lambda>data.
           let d1 = (if data \<noteq> [] \<and> last data = nl then butlast data else data);
               d2 = (if d1 \<noteq> [] \<and> last d1 = CHR 0x0D then butlast d1 else d1)
           in then_act (require (d2 \<noteq> [] \<and> length d2 < url_size \<and> CHR 0x00 \<notin> set d2 \<and>
                                 c1_update_repository_validate_url d2))
              (ret d2))))))"

definition relative_char :: "char \<Rightarrow> bool" where
  "relative_char c \<longleftrightarrow> is_alnum c \<or> c = CHR ''/'' \<or> c = CHR ''.'' \<or> c = CHR ''_'' \<or> c = CHR ''-''"

definition safe_relative_path :: "string \<Rightarrow> bool" where
  "safe_relative_path path \<longleftrightarrow>
     path \<noteq> [] \<and> hd path \<noteq> CHR ''/'' \<and> length path \<le> 255 \<and> \<not> sublist ''..'' path \<and>
     list_all relative_char path"

definition origin_url :: "string \<Rightarrow> string \<Rightarrow> string" where
  "origin_url base_url relative_path = slash base_url @ relative_path"

definition c1_repository_fallback_url :: "string \<Rightarrow> nat \<Rightarrow> string option" where
  "c1_repository_fallback_url primary capacity =
     (if capacity = 0 \<or> \<not> prefix C1_REPOSITORY_PRIMARY_ORIGIN primary then None
      else
        let rest = drop (length C1_REPOSITORY_PRIMARY_ORIGIN) primary;
            path = (if prefix '':80/'' rest then drop 3 rest else rest);
            out = C1_REPOSITORY_FALLBACK_ORIGIN @ path
        in if path = [] \<or> hd path \<noteq> CHR ''/'' \<or> length out \<ge> capacity then None else Some out)"

section \<open>One origin\<close>

text \<open>How the child of an attempt ended (\<open>Not_Started\<close> when the descriptor, the pipe or the fork failed), the status
  report it wrote to its pipe, the body it stored, and the clock before and after it; \<open>woken\<close> tells whether
  the sleep after it ran to its end.\<close>

datatype child_end = Not_Started | Killed | Exited nat

record transfer =
  now_at :: int
  ended :: child_end
  http_report :: string
  body :: string
  later :: int
  woken :: bool

text \<open>The three digits of the report, 0 for anything else; at most four bytes of it are read.\<close>

definition http_status :: "string \<Rightarrow> nat" where
  "http_status text_read =
     (case take 4 text_read of
        [a, b, c] \<Rightarrow> if is_digit a \<and> is_digit b \<and> is_digit c
                    then (byte a - 48) * 100 + (byte b - 48) * 10 + (byte c - 48) else 0
      | _ \<Rightarrow> 0)"

datatype answer = Stored | Busy | Refused | Cancelled

definition download_attempt :: "transfer \<Rightarrow> answer" where
  "download_attempt t =
     (case ended t of
        Not_Started \<Rightarrow> Refused
      | Killed \<Rightarrow> Cancelled
      | Exited status \<Rightarrow>
          if (status = 22 \<or> status = 63) \<and> (http_status (http_report t) = 429 \<or> http_status (http_report t) = 503)
          then Busy
          else if status = 0 \<and> 200 \<le> http_status (http_report t) \<and> http_status (http_report t) < 300
          then Stored else Refused)"

record session =
  asked_at :: int
  started_at :: int
  transfers :: "transfer list"

type_synonym network = "string \<Rightarrow> string \<Rightarrow> session"

datatype origin_result = ORIGIN_OK | ORIGIN_FAILED | ORIGIN_CANCELLED | ORIGIN_LOCAL

text \<open>Whether an attempt may start, and whether a busy one may be repeated. A deadline of 0 is none.\<close>

definition may_start :: "int \<Rightarrow> int \<Rightarrow> nat \<Rightarrow> int \<Rightarrow> bool" where
  "may_start started deadline n now \<longleftrightarrow>
     \<not> (now < started \<or> deadline \<noteq> 0 \<and> now \<ge> deadline \<or>
        n \<noteq> 0 \<and> now - started \<ge> C1_UPDATE_HTTP_RETRY_WINDOW_SECONDS)"

definition may_repeat :: "int \<Rightarrow> int \<Rightarrow> nat \<Rightarrow> int \<Rightarrow> bool" where
  "may_repeat started deadline n now \<longleftrightarrow>
     \<not> (n + 1 \<ge> C1_UPDATE_HTTP_MAX_ATTEMPTS \<or> now < started \<or>
        deadline \<noteq> 0 \<and> now + C1_UPDATE_HTTP_RETRY_DELAY_SECONDS \<ge> deadline \<or>
        now - started + C1_UPDATE_HTTP_RETRY_DELAY_SECONDS \<ge> C1_UPDATE_HTTP_RETRY_WINDOW_SECONDS)"

text \<open>The attempts that are made, and how the loop ends. Without a further observation the clock is
  taken to have failed.\<close>

fun transfer_plan :: "int \<Rightarrow> int \<Rightarrow> nat \<Rightarrow> transfer list \<Rightarrow> transfer list \<times> origin_result" where
  "transfer_plan started deadline n [] = ([], ORIGIN_FAILED)"
| "transfer_plan started deadline n (t # ts) =
     (if \<not> may_start started deadline n (now_at t) then ([], ORIGIN_FAILED)
      else case download_attempt t of
             Stored \<Rightarrow> ([t], ORIGIN_OK)
           | Cancelled \<Rightarrow> ([t], ORIGIN_CANCELLED)
           | Refused \<Rightarrow> ([t], ORIGIN_FAILED)
           | Busy \<Rightarrow>
               if \<not> may_repeat started deadline n (later t) \<or> \<not> woken t then ([t], ORIGIN_FAILED)
               else apfst (Cons t) (transfer_plan started deadline (n + 1) ts))"

text \<open>The child truncates the file and writes at most the limit it was given.\<close>

definition store_body :: "string \<Rightarrow> string \<Rightarrow> unit sys" where
  "store_body p data =
     faulty (\<lambda>k w. case file_at w p of None \<Rightarrow> w | Some i \<Rightarrow> put_file p (i\<lparr> st_data := take k data \<rparr>) w)
       (\<lambda>w. case file_at w p of
              None \<Rightarrow> (Inl ENOENT, w)
            | Some i \<Rightarrow> (Inr (), put_file p (i\<lparr> st_data := data \<rparr>) w))"

fun store_bodies :: "string \<Rightarrow> nat \<Rightarrow> transfer list \<Rightarrow> unit act" where
  "store_bodies destination maximum [] = ret ()"
| "store_bodies destination maximum (t # ts) =
     then_act (ignore (store_body destination (take maximum (body t)))) (store_bodies destination maximum ts)"

definition sys_access_x :: "string \<Rightarrow> unit sys" where
  "sys_access_x p = faulty (\<lambda>k w. w)
     (\<lambda>w. (case file_at w p of
             None \<Rightarrow> Inl ENOENT
           | Some i \<Rightarrow> if st_mode i AND 73 \<noteq> 0 then Inr () else Inl EOTHER, w))"

definition curl_path :: "string option act" where
  "curl_path =
     bind_act (attempt (ok (sys_access_x ''/usr/bin/curl''))) (\<lambda>first.
     if first \<noteq> None then ret (Some ''/usr/bin/curl'')
     else bind_act (attempt (ok (sys_access_x ''/bin/curl''))) (\<lambda>second.
       ret (if second \<noteq> None then Some ''/bin/curl'' else None)))"

definition finish_download :: "string \<Rightarrow> nat \<Rightarrow> nat option \<Rightarrow> origin_result act" where
  "finish_download destination maximum exact =
     bind_act (attempt (ok sys_touch)) (\<lambda>synced.
     if synced = None then then_act (ignore sys_touch) (ret ORIGIN_LOCAL)
     else bind_act (attempt (ok sys_touch)) (\<lambda>closed.
       if closed = None then ret ORIGIN_LOCAL
       else bind_act (attempt (c1_sha256_file destination maximum exact)) (\<lambda>hash.
         ret (if hash = None then ORIGIN_FAILED else ORIGIN_OK))))"

definition download_origin ::
  "network \<Rightarrow> string \<Rightarrow> string \<Rightarrow> string \<Rightarrow> nat \<Rightarrow> nat option \<Rightarrow> int \<Rightarrow> origin_result act" where
  "download_origin net base_url relative_path destination maximum exact deadline =
     bind_act curl_path (\<lambda>curl.
     if \<not> c1_update_repository_validate_url base_url \<or> \<not> safe_relative_path relative_path \<or> curl = None \<or>
        maximum = 0 \<or> maximum = UINT64_MAX \<or> (\<exists>n \<in> set_option exact. n > maximum)
     then ret ORIGIN_LOCAL
     else if length (origin_url base_url relative_path) \<ge> C1_UPDATE_URL_MAX + 257 then ret ORIGIN_LOCAL
     else
       bind_act (attempt (ok (sys_create destination 384))) (\<lambda>created.
       if created = None then ret ORIGIN_LOCAL
       else
         bind_act (attempt (ok sys_touch)) (\<lambda>checked.
         if checked = None then then_act (ignore sys_touch) (ret ORIGIN_LOCAL)
         else
           let s = net base_url relative_path;
               (made, answered) = transfer_plan (started_at s) deadline 0 (transfers s) in
           bind_act
             (if started_at s < 0 then then_act (ignore sys_touch) (ret ORIGIN_LOCAL)
              else
                then_act (store_bodies destination maximum made)
                (if answered = ORIGIN_OK then finish_download destination maximum exact
                 else then_act (ignore sys_touch) (ret answered))) (\<lambda>result.
           then_act (if result = ORIGIN_OK then ret () else ignore (sys_unlink destination))
           (ret result)))))"

section \<open>Two origins\<close>

definition is_metadata :: "string \<Rightarrow> bool" where
  "is_metadata relative_path \<longleftrightarrow>
     relative_path = C1_UPDATE_MANIFEST_NAME \<or> relative_path = C1_UPDATE_SIGNATURE_NAME"

definition c1_update_repository_download ::
  "network \<Rightarrow> string \<Rightarrow> string \<Rightarrow> string \<Rightarrow> nat \<Rightarrow> nat option \<Rightarrow> unit act" where
  "c1_update_repository_download net base_url relative_path destination maximum exact =
     (let asked = (\<lambda>base. asked_at (net base relative_path));
          limit = (\<lambda>base. if is_metadata relative_path then asked base + C1_UPDATE_METADATA_SECONDS else 0);
          get = (\<lambda>base. download_origin net base relative_path destination maximum exact (limit base)) in
      then_act (require (asked base_url \<ge> 0))
      (bind_act (get base_url) (\<lambda>result.
       bind_act
         (case (if result = ORIGIN_FAILED then c1_repository_fallback_url base_url (C1_UPDATE_URL_MAX + 1) else None) of
            None \<Rightarrow> ret result
          | Some fallback \<Rightarrow> then_act (require (asked fallback \<ge> 0)) (get fallback)) (\<lambda>final.
       require (final = ORIGIN_OK)))))"

definition fetch_release_origin ::
  "network \<Rightarrow> signature_check \<Rightarrow> string \<Rightarrow> string \<Rightarrow> string \<Rightarrow> string \<Rightarrow> string \<Rightarrow>
   (origin_result \<times> c1_update_release option) act" where
  "fetch_release_origin net verify base_url directory key_path manifest_path signature_path =
     (let now = asked_at (net base_url C1_UPDATE_MANIFEST_NAME);
          deadline = now + C1_UPDATE_METADATA_SECONDS in
      if now < 0 then ret (ORIGIN_LOCAL, None)
      else
        bind_act (download_origin net base_url C1_UPDATE_MANIFEST_NAME manifest_path
                    C1_UPDATE_MANIFEST_MAX None deadline) (\<lambda>r1.
        if r1 \<noteq> ORIGIN_OK then ret (r1, None)
        else
          bind_act (download_origin net base_url C1_UPDATE_SIGNATURE_NAME signature_path
                      64 (Some 64) deadline) (\<lambda>r2.
          if r2 \<noteq> ORIGIN_OK then ret (r2, None)
          else
            bind_act (attempt (c1_update_repository_load_local verify directory key_path)) (\<lambda>loaded.
            ret (case loaded of None \<Rightarrow> (ORIGIN_FAILED, None) | Some r \<Rightarrow> (ORIGIN_OK, Some r))))))"

text \<open>\<open>unlink\<close> that accepts a file that is not there.\<close>

definition unlink_gone :: "string \<Rightarrow> unit act" where
  "unlink_gone p = bind_act (errno_of (sys_unlink p)) (\<lambda>r. case r of
     Inr _ \<Rightarrow> ret () | Inl e \<Rightarrow> require (e = ENOENT))"

definition c1_update_repository_fetch_release ::
  "network \<Rightarrow> signature_check \<Rightarrow> string \<Rightarrow> string \<Rightarrow> string \<Rightarrow> c1_update_release act" where
  "c1_update_repository_fetch_release net verify base_url directory key_path =
     bind_act (lift (c1_update_join_path directory C1_UPDATE_MANIFEST_NAME)) (\<lambda>manifest_path.
     bind_act (lift (c1_update_join_path directory C1_UPDATE_SIGNATURE_NAME)) (\<lambda>signature_path.
     bind_act (probe manifest_path) (\<lambda>m.
     then_act (require (m = None))
     (bind_act (probe signature_path) (\<lambda>s.
      then_act (require (s = None))
      (let get = (\<lambda>base. fetch_release_origin net verify base directory key_path manifest_path signature_path) in
       bind_act (get base_url) (\<lambda>(r1, loaded).
       bind_act
         (case (if r1 = ORIGIN_FAILED then c1_repository_fallback_url base_url (C1_UPDATE_URL_MAX + 1) else None) of
            None \<Rightarrow> ret (r1, loaded)
          | Some fallback \<Rightarrow>
              then_act (unlink_gone manifest_path) (then_act (unlink_gone signature_path) (get fallback)))
         (\<lambda>(r2, release).
       case release of
         Some r \<Rightarrow> ret r
       | None \<Rightarrow> then_act (ignore (sys_unlink manifest_path))
                   (then_act (ignore (sys_unlink signature_path)) stop)))))))))"

section \<open>What the functions touch\<close>

lemma framed_attempt [frames]: "framed S m \<Longrightarrow> framed S (attempt m)"
  by (auto simp: framed_def attempt_def split: prod.splits) (metis snd_conv)

lemma framed_store_body [frames]: "S p \<Longrightarrow> framed S (store_body p d)"
  unfolding store_body_def by (intro framed_faulty) (auto intro: touches_put split: option.split)

lemma framed_store_bodies [frames]: "S p \<Longrightarrow> framed S (store_bodies p n ts)"
  by (induction ts) (auto intro!: frames)

lemma framed_curl_path [frames]: "framed S curl_path"
proof -
  have "framed S (sys_access_x p)" for p
    unfolding sys_access_x_def by (intro framed_faulty) auto
  then show ?thesis unfolding curl_path_def by (intro frames)
qed

lemma framed_finish [frames]: "framed S (finish_download p m e)"
  unfolding finish_download_def by (intro frames)

lemma framed_download_origin [frames]:
  assumes "S destination"
  shows "framed S (download_origin net base rel destination m e d)"
  unfolding download_origin_def Let_def case_prod_beta
  by (intro frames assms)

lemma framed_download [frames]:
  "S destination \<Longrightarrow> framed S (c1_update_repository_download net base rel destination m e)"
  unfolding c1_update_repository_download_def Let_def by (intro frames)

lemma framed_fetch_origin [frames]:
  "S mp \<Longrightarrow> S sp \<Longrightarrow> framed S (fetch_release_origin net v base dir key mp sp)"
  unfolding fetch_release_origin_def Let_def by (intro frames)

lemma framed_unlink_gone [frames]: "S p \<Longrightarrow> framed S (unlink_gone p)"
  unfolding unlink_gone_def by (intro frames)

lemma framed_case_prod [frames]: "(\<And>x y. framed S (k x y)) \<Longrightarrow> framed S (case p of (x, y) \<Rightarrow> k x y)"
  by (cases p) simp

lemma framed_fetch_release [frames]:
  assumes "S (slash dir @ C1_UPDATE_MANIFEST_NAME)" and "S (slash dir @ C1_UPDATE_SIGNATURE_NAME)"
  shows "framed S (c1_update_repository_fetch_release net v base dir key)"
proof -
  have path: "c1_update_join_path dir x = Some p \<Longrightarrow> p = slash dir @ x" for p x
    by (auto dest: update_join_Some)
  show ?thesis
    unfolding c1_update_repository_fetch_release_def Let_def
    by (rule framed_lift_bind, drule path, rule framed_lift_bind, drule path, simp only:,
        intro frames assms)
qed


section \<open>The attempts of one download\<close>

text \<open>Every attempt but the last met a busy server, waited its delay, and left room for another.\<close>

lemma plan_shape:
  assumes "transfer_plan started deadline n ts = (made, r)"
  shows "made = take (length made) ts \<and>
    (r = ORIGIN_OK \<longleftrightarrow> made \<noteq> [] \<and> download_attempt (last made) = Stored) \<and>
    (r = ORIGIN_CANCELLED \<longleftrightarrow> made \<noteq> [] \<and> download_attempt (last made) = Cancelled) \<and>
    (\<forall>t \<in> set (butlast made). download_attempt t = Busy \<and> woken t)"
  using assms
proof (induction started deadline n ts arbitrary: made r rule: transfer_plan.induct)
  case (2 started deadline n t ts)
  show ?case
  proof (cases "may_start started deadline n (now_at t) \<and> download_attempt t = Busy \<and>
      may_repeat started deadline n (later t) \<and> woken t")
    case True
    then obtain made' where rest: "transfer_plan started deadline (n + 1) ts = (made', r)"
      and made: "made = t # made'"
      using "2.prems" by (auto simp: apfst_def map_prod_def split: prod.splits)
    with "2.IH" True show ?thesis by (cases "made' = []") auto
  next
    case False
    with "2.prems" show ?thesis by (auto split: answer.splits if_splits)
  qed
qed simp

lemma plan_started:
  assumes "transfer_plan started deadline n ts = (made, r)" and "i < length made"
  shows "may_start started deadline (n + i) (now_at (made ! i)) \<and>
    (i + 1 < length made \<longrightarrow> may_repeat started deadline (n + i) (later (made ! i)))"
  using assms
proof (induction started deadline n ts arbitrary: made r i rule: transfer_plan.induct)
  case (2 started deadline n t ts)
  show ?case
  proof (cases "may_start started deadline n (now_at t) \<and> download_attempt t = Busy \<and>
      may_repeat started deadline n (later t) \<and> woken t")
    case True
    then obtain made' where rest: "transfer_plan started deadline (n + 1) ts = (made', r)"
      and made: "made = t # made'"
      using "2.prems"(1) by (auto simp: apfst_def map_prod_def split: prod.splits)
    with "2.IH" [of made' r] True "2.prems"(2) show ?thesis
      by (cases i) auto
  next
    case False
    with "2.prems" show ?thesis by (auto split: answer.splits if_splits)
  qed
qed simp

lemma plan_length: "length (fst (transfer_plan started deadline n ts)) \<le> max 1 (25 - n)"
proof (induction started deadline n ts rule: transfer_plan.induct)
  case (2 started deadline n t ts)
  then show ?case
    by (auto simp: may_repeat_def retry_constants apfst_def map_prod_def split: answer.split prod.split)
qed simp

text \<open>C33. One download makes at most 25 attempts. Each of them starts after the download did, before
  its deadline and, from the second on, within 120 seconds of the start; every attempt but the last met a busy
  server and slept to its end, with at least the delay of 5 seconds left in both windows. The download
  proceeds exactly when its last attempt stored a body.\<close>

theorem download_attempts_bounded:
  assumes "transfer_plan started deadline 0 ts = (made, result)"
  shows "length made \<le> 25 \<and> made = take (length made) ts \<and>
    (result = ORIGIN_OK \<longleftrightarrow> made \<noteq> [] \<and> download_attempt (last made) = Stored) \<and>
    (\<forall>i < length made.
       started \<le> now_at (made ! i) \<and> (deadline \<noteq> 0 \<longrightarrow> now_at (made ! i) < deadline) \<and>
       (i > 0 \<longrightarrow> now_at (made ! i) - started < 120)) \<and>
    (\<forall>i. i + 1 < length made \<longrightarrow>
       download_attempt (made ! i) = Busy \<and> woken (made ! i) \<and> started \<le> later (made ! i) \<and>
       later (made ! i) + 5 < started + 120 \<and> (deadline \<noteq> 0 \<longrightarrow> later (made ! i) + 5 < deadline))"
proof (intro conjI allI impI)
  show "length made \<le> 25" using plan_length [of started deadline 0 ts] assms by simp
next
  fix i assume i: "i + 1 < length made"
  then have "made ! i \<in> set (butlast made)"
    by (metis Suc_eq_plus1 diff_Suc_1 in_set_conv_nth length_butlast less_diff_conv nth_butlast)
  with plan_shape [OF assms] show "download_attempt (made ! i) = Busy" "woken (made ! i)" by auto
  have "may_repeat started deadline i (later (made ! i))"
    using plan_started [OF assms, of i] i by simp
  then show "started \<le> later (made ! i)" "later (made ! i) + 5 < started + 120"
    and "deadline \<noteq> 0 \<Longrightarrow> later (made ! i) + 5 < deadline"
    by (auto simp: may_repeat_def retry_constants)
next
  fix i assume i: "i < length made"
  then have "may_start started deadline i (now_at (made ! i))"
    using plan_started [OF assms, of i] by simp
  then show "started \<le> now_at (made ! i)" and "deadline \<noteq> 0 \<Longrightarrow> now_at (made ! i) < deadline"
    and "0 < i \<Longrightarrow> now_at (made ! i) - started < 120"
    by (auto simp: may_start_def retry_constants)
qed (use plan_shape [OF assms] in auto)

theorem download_attempts_bounded_witness:
  "let busy = \<lparr> now_at = 3, ended = Exited 22, http_report = ''503'', body = [], later = 4, woken = True \<rparr>;
       stored = \<lparr> now_at = 9, ended = Exited 0, http_report = ''200'', body = ''x'', later = 10, woken = True \<rparr> in
   transfer_plan 2 47 0 [busy, stored, busy] = ([busy, stored], ORIGIN_OK) \<and>
   download_attempt stored = Stored \<and> now_at stored < 47 \<and> now_at stored - 2 < 120"
proof -
  let ?busy = "\<lparr> now_at = 3, ended = Exited 22, http_report = ''503'', body = [], later = 4, woken = True \<rparr>"
  let ?stored = "\<lparr> now_at = 9, ended = Exited 0, http_report = ''200'', body = ''x'', later = 10, woken = True \<rparr>"
  have run: "transfer_plan 2 47 0 [?busy, ?stored, ?busy] = ([?busy, ?stored], ORIGIN_OK)"
    by (simp add: may_start_def may_repeat_def retry_constants download_attempt_def http_status_def
        is_digit_def char_class_defs less_eq_char_def)
  from download_attempts_bounded [OF run] run show ?thesis by (auto simp: Let_def)
qed

section \<open>A fetched release\<close>

text \<open>What a release object says is what the two files hold, signed under the key.\<close>

definition release_stored :: "signature_check \<Rightarrow> string \<Rightarrow> string \<Rightarrow> world \<Rightarrow> c1_update_release \<Rightarrow> bool" where
  "release_stored verify directory key_path w r \<longleftrightarrow>
     regular_data w (slash directory @ ''manifest.v1'') = Some (manifest_data r) \<and>
     regular_data w (slash directory @ ''manifest.v1.sig'') = Some (signature r) \<and>
     (\<exists>k. regular_data w key_path = Some k \<and> verify (signature r) (manifest_data r) k) \<and>
     c1_update_parse_manifest (manifest_data r) = Inr (manifest r)"

lemma load_stored:
  assumes "c1_update_repository_load_local verify dir key w = (Some r, w')"
  shows "release_stored verify dir key w' r"
  using load_local_success [OF assms] by (auto simp: release_stored_def same_regular)

text \<open>What holds of every result a function gives.\<close>

definition yields :: "('a \<Rightarrow> world \<Rightarrow> bool) \<Rightarrow> 'a act \<Rightarrow> bool" where
  "yields Q m \<longleftrightarrow> (\<forall>w x w'. m w = (Some x, w') \<longrightarrow> Q x w')"

lemma yields_bind: "(\<And>x. yields Q (k x)) \<Longrightarrow> yields Q (bind_act m k)"
  by (auto simp: yields_def act_Some)

lemma yields_then: "yields Q k \<Longrightarrow> yields Q (then_act m k)"
  by (auto simp: yields_def act_Some)

lemma yields_through: "yields R m \<Longrightarrow> (\<And>x w w' y. R x w \<Longrightarrow> k x w = (Some y, w') \<Longrightarrow> Q y w') \<Longrightarrow> yields Q (bind_act m k)"
  unfolding yields_def bind_act_Some by blast

lemma yields_if: "(b \<Longrightarrow> yields Q m) \<Longrightarrow> (\<not> b \<Longrightarrow> yields Q k) \<Longrightarrow> yields Q (if b then m else k)"
  by simp

lemma yields_ret: "(\<And>w. Q x w) \<Longrightarrow> yields Q (ret x)"
  by (auto simp: yields_def act_Some)

lemma yields_option:
  "(x = None \<Longrightarrow> yields Q m) \<Longrightarrow> (\<And>y. x = Some y \<Longrightarrow> yields Q (k y)) \<Longrightarrow>
   yields Q (case x of None \<Rightarrow> m | Some y \<Rightarrow> k y)"
  by (cases x) auto

abbreviation loaded_stored ::
  "signature_check \<Rightarrow> string \<Rightarrow> string \<Rightarrow> origin_result \<times> c1_update_release option \<Rightarrow> world \<Rightarrow> bool" where
  "loaded_stored verify dir key \<equiv> \<lambda>(q, x) w. case x of None \<Rightarrow> True
     | Some r \<Rightarrow> q = ORIGIN_OK \<and> release_stored verify dir key w r"

lemma attempt_load:
  "yields (\<lambda>x w. case x of None \<Rightarrow> True | Some r \<Rightarrow> release_stored verify dir key w r)
     (attempt (c1_update_repository_load_local verify dir key))"
  by (auto simp: yields_def attempt_def load_stored split: prod.splits option.split)

lemma fetch_origin_stored:
  "yields (loaded_stored verify dir key) (fetch_release_origin net verify base dir key mp sp)"
proof -
  let ?load = "bind_act (attempt (c1_update_repository_load_local verify dir key)) (\<lambda>loaded.
      ret (case loaded of None \<Rightarrow> (ORIGIN_FAILED, None) | Some r \<Rightarrow> (ORIGIN_OK, Some r)))"
  have "yields (loaded_stored verify dir key) ?load"
    by (rule yields_through [OF attempt_load]) (auto simp: act_Some split: option.splits)
  then show ?thesis
    unfolding fetch_release_origin_def Let_def
    by (intro yields_if yields_ret yields_bind [of _ "\<lambda>r. if r \<noteq> ORIGIN_OK then _ r else _ r"]) auto
qed

lemma fetch_stored:
  "yields (\<lambda>r w. release_stored verify dir key w r) (c1_update_repository_fetch_release net verify base dir key)"
proof -
  have fallback: "loaded_stored verify dir key p v'"
    if "unlink_gone mp v = (Some x, v1)" and "unlink_gone sp v1 = (Some y, v2)"
      and "fetch_release_origin net verify b dir key mp sp v2 = (Some p, v')"
    for b mp sp v v1 v2 v' p x y
    using fetch_origin_stored that(3) unfolding yields_def by blast
  show ?thesis
    unfolding c1_update_repository_fetch_release_def Let_def
    by (intro yields_bind yields_then yields_through [OF fetch_origin_stored])
      (fastforce simp: act_Some dest: fallback split: prod.splits option.splits if_splits)
qed

text \<open>C32. Whatever the network delivers from either origin, and whatever calls fail, fetching a release
  succeeds only with a manifest and a signature that are stored in the given directory, verify under the
  trusted key and parse to the release that is returned; no other file is touched, on success or failure.\<close>

theorem fetched_release_verified:
  "case c1_update_repository_fetch_release net verify base directory key_path w of (result, w') \<Rightarrow>
     (case result of None \<Rightarrow> True | Some r \<Rightarrow> release_stored verify directory key_path w' r) \<and>
     {q. file_at w' q \<noteq> file_at w q} \<subseteq>
       {slash directory @ C1_UPDATE_MANIFEST_NAME, slash directory @ C1_UPDATE_SIGNATURE_NAME}"
proof -
  obtain result w' where run: "c1_update_repository_fetch_release net verify base directory key_path w = (result, w')"
    by fastforce
  have "framed (\<lambda>q. q \<in> {slash directory @ C1_UPDATE_MANIFEST_NAME, slash directory @ C1_UPDATE_SIGNATURE_NAME})
      (c1_update_repository_fetch_release net verify base directory key_path)"
    by (rule framed_fetch_release) simp_all
  with run have "file_at w' q = file_at w q"
    if "q \<notin> {slash directory @ C1_UPDATE_MANIFEST_NAME, slash directory @ C1_UPDATE_SIGNATURE_NAME}" for q
    using that by (metis framed_def snd_conv touches_def)
  then have "{q. file_at w' q \<noteq> file_at w q} \<subseteq>
      {slash directory @ C1_UPDATE_MANIFEST_NAME, slash directory @ C1_UPDATE_SIGNATURE_NAME}" by blast
  with run fetch_stored [of verify directory key_path net base] show ?thesis
    by (auto simp: yields_def split: option.split)
qed

end
