(* ===== verification/UpdateIo.thy ===== *)
theory UpdateIo
  imports Repository
begin

text \<open>
  The rest of \<open>src/C1ancher/src/update/io.c\<close>: directories, the query of free space, verified copies and
  the removal of a tree. A directory is read as one snapshot of its entries. What \<open>statvfs\<close> answers is an
  argument: block count and block size of the file system of a path. Device numbers are not modelled, so the
  comparison of \<open>st_dev\<close> is left out.
\<close>

section \<open>Directories\<close>

definition child_names :: "world \<Rightarrow> string \<Rightarrow> string list" where
  "child_names w d =
     remdups (filter (\<lambda>n. n \<noteq> [] \<and> CHR ''/'' \<notin> set n)
       (map (drop (length (slash d))) (filter (prefix (slash d)) (map fst (files w)))))"

definition sys_list :: "string \<Rightarrow> string list sys" where
  "sys_list p = faulty (\<lambda>k w. w)
     (\<lambda>w. (if is_dir w p then Inr (child_names w p) else Inl ENOENT, w))"

text \<open>\<open>for\<close> loops that leave at the first failure.\<close>

primrec for_each :: "('a \<Rightarrow> unit act) \<Rightarrow> 'a list \<Rightarrow> unit act" where
  "for_each f [] = ret ()"
| "for_each f (x # xs) = then_act (f x) (for_each f xs)"

definition c1_update_make_directory :: "string \<Rightarrow> nat \<Rightarrow> bool \<Rightarrow> unit act" where
  "c1_update_make_directory path mode allow_existing =
     bind_act (errno_of (sys_mkdir path mode)) (\<lambda>r.
     then_act (case r of
                 Inr _ \<Rightarrow> ok (sys_chmod path mode)
               | Inl e \<Rightarrow> require (allow_existing \<and> e = EEXIST))
     (c1_update_check_trusted_directory path))"

type_synonym statvfs = "string \<Rightarrow> (nat \<times> nat) option"

definition c1_update_check_space :: "statvfs \<Rightarrow> string \<Rightarrow> nat \<Rightarrow> bool" where
  "c1_update_check_space query path required =
     (case query path of
        None \<Rightarrow> False
      | Some (free, block_size) \<Rightarrow>
          block_size \<noteq> 0 \<and> free \<le> UINT64_MAX div block_size \<and> required \<le> free * block_size)"

section \<open>Copies\<close>

text \<open>The bytes are hashed in pieces of 16384 while they are copied, which gives the hash of the whole
  (\<open>sha256_streaming\<close>). Nothing else runs between the two \<open>fstat\<close> calls.\<close>

definition c1_update_copy_file :: "string \<Rightarrow> string \<Rightarrow> nat \<Rightarrow> string \<Rightarrow> nat \<Rightarrow> unit act" where
  "c1_update_copy_file source destination expected_size expected_sha256 final_mode =
     bind_act (ok (sys_open_read source)) (\<lambda>opened.
     then_act
       (on_failure
          (then_act (ok sys_touch)
          (then_act (require (st_kind opened = S_IFREG \<and> st_nlink opened = 1 \<and>
                              length (st_data opened) = expected_size))
          (ok (sys_create destination 384))))
          (ignore sys_touch))
     (on_failure
        (then_act
          (on_failure
             (then_act (ok (sys_chmod destination 384))
             (then_act (ok sys_touch)
             (then_act (ok (sys_write destination (st_data opened)))
             (then_act (ok sys_touch)
             (then_act (ok sys_touch)
             (then_act (require (c1_sha256_hex (c1_sha256 (st_data opened)) = expected_sha256))
             (then_act (ok sys_touch)
             (bind_act (c1_sha256_file destination expected_size (Some expected_size)) (\<lambda>checked_digest.
              then_act (require (c1_sha256_hex checked_digest = expected_sha256))
              (then_act (ok (sys_chmod destination final_mode))
              (ok sys_touch)))))))))))
             (then_act (ignore sys_touch) (ignore sys_touch)))
          (then_act (ignore sys_touch) (ok sys_touch)))
        (ignore (sys_unlink destination))))"

section \<open>Removal of a tree\<close>

text \<open>The recursion with fuel: a child's path is longer than its parent's and bounded by
  \<open>C1_UPDATE_PATH_MAX\<close>, so that much fuel is enough (\<open>remove_fuel\<close> below).\<close>

primrec remove_tree :: "nat \<Rightarrow> string \<Rightarrow> unit act" where
  "remove_tree 0 path = stop"
| "remove_tree (Suc n) path =
     bind_act (probe path) (\<lambda>found.
     case found of
       None \<Rightarrow> ret ()
     | Some information \<Rightarrow>
         if st_kind information \<noteq> S_IFDIR then ok (sys_unlink path)
         else
           bind_act (ok (sys_list path)) (\<lambda>names.
           then_act
             (on_failure
                (for_each (\<lambda>name.
                   if name = ''.'' \<or> name = ''..'' then ret ()
                   else bind_act (lift (c1_update_join_path path name)) (\<lambda>child. remove_tree n child)) names)
                (ignore sys_touch))
           (then_act (ok sys_touch) (ok (sys_rmdir path)))))"

definition c1_update_remove_tree :: "string \<Rightarrow> unit act" where
  "c1_update_remove_tree path = remove_tree (Suc C1_UPDATE_PATH_MAX) path"

section \<open>What they touch\<close>

lemma framed_list [frames]: "framed S (sys_list p)"
  unfolding sys_list_def by (intro framed_faulty) auto

lemma framed_for_each [frames]: "(\<And>x. framed S (f x)) \<Longrightarrow> framed S (for_each f xs)"
  by (induction xs) (auto intro: frames)

lemma framed_make_directory [frames]: "S p \<Longrightarrow> framed S (c1_update_make_directory p m b)"
  unfolding c1_update_make_directory_def by (intro frames)

lemma framed_copy_file [frames]: "S d \<Longrightarrow> framed S (c1_update_copy_file s d n h m)"
  unfolding c1_update_copy_file_def by (intro frames)

lemma framed_remove [frames]: "(\<And>q. prefix path q \<Longrightarrow> S q) \<Longrightarrow> framed S (remove_tree n path)"
proof (induction n arbitrary: path)
  case 0
  then show ?case by (simp add: framed_stop)
next
  case (Suc n)
  have here: "S path" using Suc.prems by simp
  have child: "framed S (remove_tree n c)" if "c1_update_join_path path x = Some c" for x c
  proof (rule Suc.IH)
    fix q assume "prefix c q"
    moreover have "prefix path c" using update_join_Some [OF that] prefix_slash [of path path x] by simp
    ultimately show "S q" using Suc.prems prefix_order.order_trans by blast
  qed
  have loop: "framed S (for_each (\<lambda>name. if name = ''.'' \<or> name = ''..'' then ret ()
      else bind_act (lift (c1_update_join_path path name)) (remove_tree n)) names)" for names
    by (intro framed_for_each framed_if framed_ret framed_lift_bind child)
  show ?case
    unfolding remove_tree.simps
    by (intro framed_bind framed_case_option framed_if framed_then framed_on_failure loop)
      (intro frames here)+
qed

lemma framed_remove_tree [frames]: "(\<And>q. prefix path q \<Longrightarrow> S q) \<Longrightarrow> framed S (c1_update_remove_tree path)"
  unfolding c1_update_remove_tree_def by (rule framed_remove)

section \<open>The removal ends\<close>

lemma for_each_cong: "(\<And>x. x \<in> set xs \<Longrightarrow> f x = g x) \<Longrightarrow> for_each f xs = for_each g xs"
  by (induction xs) auto

lemma bind_lift_cong: "(\<And>x. r = Some x \<Longrightarrow> f x = g x) \<Longrightarrow> bind_act (lift r) f = bind_act (lift r) g"
  by (cases r) (auto simp: bind_act_def lift_def)

lemma join_longer:
  assumes "c1_update_join_path path name = Some child"
  shows "length path < length child \<and> length child < C1_UPDATE_PATH_MAX"
proof -
  have "child = slash path @ name" "name \<noteq> []" using update_join_Some [OF assms] by simp_all
  moreover have "length child < C1_UPDATE_PATH_MAX"
    using assms by (auto simp: c1_update_join_path_def Let_def split: if_splits)
  ultimately show ?thesis using slash_longer [of path] by (cases name) auto
qed

lemma remove_fuel:
  assumes "C1_UPDATE_PATH_MAX < n + length path" and "C1_UPDATE_PATH_MAX < m + length path"
    and "0 < n" and "0 < m"
  shows "remove_tree n path = remove_tree m path"
  using assms
proof (induction n arbitrary: m path)
  case 0
  then show ?case by simp
next
  case (Suc n)
  then obtain k where m: "m = Suc k" by (cases m) auto
  have child: "bind_act (lift (c1_update_join_path path name)) (remove_tree n) =
      bind_act (lift (c1_update_join_path path name)) (remove_tree k)" for name
  proof (rule bind_lift_cong)
    fix c assume "c1_update_join_path path name = Some c"
    from join_longer [OF this] Suc.prems m show "remove_tree n c = remove_tree k c"
      by (intro Suc.IH) auto
  qed
  show ?case by (simp only: m remove_tree.simps child)
qed

lemma sys_unlink_success:
  "sys_unlink p w = (Inr (), w') \<Longrightarrow> same_process w w' \<and> (\<forall>q. file_at w' q = (if q = p then None else file_at w q))"
  unfolding sys_unlink_def
  by (drule faulty_Inr) (auto simp: same_process_def split: option.splits if_splits)

lemma empty_dir_file: "empty_dir w d \<Longrightarrow> file_at w q \<noteq> None \<Longrightarrow> under d q \<Longrightarrow> q = d"
  by (auto simp: empty_dir_def list_all_iff file_at_def dest!: map_of_SomeD)

lemma sys_rmdir_success:
  assumes "sys_rmdir p w = (Inr (), w')"
  shows "same_process w w' \<and> (\<forall>q. under p q \<longrightarrow> file_at w' q = None) \<and>
   (\<forall>q. \<not> under p q \<longrightarrow> file_at w' q = file_at w q)"
proof -
  from assms obtain fs where "empty_dir (w\<lparr> faults := fs \<rparr>) p" and w': "w' = del_file p (w\<lparr> faults := fs \<rparr>)"
    unfolding sys_rmdir_def by (auto dest!: faulty_Inr split: if_splits)
  then have "file_at w q = None" if "under p q" "q \<noteq> p" for q
    using empty_dir_file [of "w\<lparr> faults := fs \<rparr>" p q] that by (cases "file_at w q") auto
  then show ?thesis by (auto simp: w' same_process_def)
qed

lemma remove_gone:
  assumes "remove_tree n path w = (Some u, w')"
  shows "file_at w' path = None"
proof (cases n)
  case 0
  with assms show ?thesis by (simp add: act_Some)
next
  case (Suc k)
  with assms obtain found v where p: "probe path w = (Some found, v)"
    and rest: "(case found of None \<Rightarrow> ret ()
      | Some information \<Rightarrow>
          if st_kind information \<noteq> S_IFDIR then ok (sys_unlink path)
          else bind_act (ok (sys_list path)) (\<lambda>names.
            then_act (on_failure (for_each (\<lambda>name. if name = ''.'' \<or> name = ''..'' then ret ()
              else bind_act (lift (c1_update_join_path path name)) (remove_tree k)) names) (ignore sys_touch))
            (then_act (ok sys_touch) (ok (sys_rmdir path))))) v = (Some u, w')"
    by (auto simp: bind_act_Some)
  show ?thesis
  proof (cases found)
    case None
    with p rest show ?thesis by (auto simp: act_Some same_files_def dest!: probe_success)
  next
    case (Some i)
    with rest consider "sys_unlink path v = (Inr (), w')" | v' where "sys_rmdir path v' = (Inr (), w')"
      by (cases "st_kind i = S_IFDIR") (auto simp: act_Some)
    then show ?thesis
      by cases (auto dest!: sys_unlink_success sys_rmdir_success)
  qed
qed


section \<open>A copy is verified\<close>

lemma copy_file_success:
  assumes "c1_update_copy_file s d n h mode w = (Some (), w')"
  shows "\<exists>content. regular_data w s = Some content \<and> length content = n \<and> c1_sha256_hex (c1_sha256 content) = h \<and>
    file_at w d = None \<and> file_at w' d = Some (written (euid w) mode content) \<and>
    same_process w w' \<and> (\<forall>q. q \<noteq> d \<longrightarrow> file_at w' q = file_at w q)"
proof -
  from assms obtain b w1 w2 w3 w4 w5 w6 w7 w8 w9 w10 w11 w12 w13 w14 x where
    o: "sys_open_read s w = (Inr b, w1)" and k: "st_kind b = S_IFREG" "length (st_data b) = n"
    and t1: "sys_touch w1 = (Inr (), w2)" and c: "sys_create d 384 w2 = (Inr (), w3)"
    and m: "sys_chmod d 384 w3 = (Inr (), w4)" and t2: "sys_touch w4 = (Inr (), w5)"
    and wr: "sys_write d (st_data b) w5 = (Inr (), w6)"
    and t3: "sys_touch w6 = (Inr (), w7)" "sys_touch w7 = (Inr (), w8)"
    and h: "c1_sha256_hex (c1_sha256 (st_data b)) = h"
    and t4: "sys_touch w8 = (Inr (), w9)"
    and s: "c1_sha256_file d n (Some n) w9 = (Some x, w10)"
    and m2: "sys_chmod d mode w10 = (Inr (), w11)" and t5: "sys_touch w11 = (Inr (), w12)"
    and t6: "ignore sys_touch w12 = (Some (), w13)" "sys_touch w13 = (Inr (), w')"
    by (auto simp: c1_update_copy_file_def act_Some)
  have v: "same_files w1 w2" "same_files w4 w5" "same_files w6 w10" "same_files w11 w'"
    using sys_touch_success [OF t1] sys_touch_success [OF t2] sys_touch_success [OF t3(1)]
      sys_touch_success [OF t3(2)] sys_touch_success [OF t4] framed_same_files [OF framed_sha256_file s]
      sys_touch_success [OF t5] sys_touch_success [OF t6(2)]
      framed_same_files [OF framed_ignore [OF framed_reads(4)] t6(1)]
    by (blast intro: same_files_trans)+
  note facts = sys_open_read_success [OF o] v(1) sys_create_success [OF c] sys_chmod_success [OF m] v(2)
  then have at: "file_at w5 d = Some (written (euid w) 384 [])"
    by (auto simp: same_files_def same_process_def written_def)
  note facts2 = sys_write_success [OF wr at] v(3) sys_chmod_success [OF m2] v(4)
  have "file_at w' d = Some (written (euid w) mode (st_data b))"
    using facts2 by (auto simp: same_files_def written_def)
  moreover have "\<forall>q. q \<noteq> d \<longrightarrow> file_at w' q = file_at w q" "same_process w w'"
    using facts facts2 by (auto simp: same_files_def same_process_def)
  moreover have "regular_data w s = Some (st_data b)" "file_at w d = None"
    using facts k by (auto simp: regular_data_def same_files_def)
  ultimately show ?thesis using k h by blast
qed

end
