(* ===== verification/Transaction.thy ===== *)
theory Transaction
  imports UpdateIo
begin

text \<open>
  Preparing a release (\<open>src/C1ancher/src/update/transaction.c\<close>): a signed release is fetched or read, its
  components are staged, copied and verified into a draft directory, the draft is renamed to its immutable name
  and the update state is advanced to PREPARED. The network, the signature algorithm and the free space are
  arguments. The second half shows that a run of boot operations and preparations, under any faults, never
  breaks the release that the \<open>current\<close> pointer names, and what a successful preparation has left on disk.
\<close>

section \<open>Helpers\<close>

definition C1_UPDATE_SPACE_RESERVE :: nat where "C1_UPDATE_SPACE_RESERVE = 4 * 1024 * 1024"

record c1_update_transaction_config =
  staging_at :: string
  core_at :: string
  state_at :: string
  key_at :: string
  space_check :: "(string \<Rightarrow> nat \<Rightarrow> bool) option"

record c1_update_transaction_result =
  result_phase :: c1_update_phase
  result_sequence :: nat
  result_release :: string

fun sum_sizes :: "nat \<Rightarrow> c1_update_component list \<Rightarrow> nat option" where
  "sum_sizes v [] = Some v"
| "sum_sizes v (c # cs) =
     (if v > UINT64_MAX - comp_size c then None else sum_sizes (v + comp_size c) cs)"

definition sum_payload :: "c1_update_manifest \<Rightarrow> nat option" where
  "sum_payload m =
     Option.bind (sum_sizes 0 (components m)) (\<lambda>v.
     if v > UINT64_MAX - C1_UPDATE_SPACE_RESERVE then None else Some (v + C1_UPDATE_SPACE_RESERVE))"

definition make_name :: "nat \<Rightarrow> nat \<Rightarrow> string \<Rightarrow> string option" where
  "make_name capacity sequence version =
     (let out = dec sequence @ ''-'' @ version in if length out < capacity then Some out else None)"

definition state_identity :: "c1_update_state \<Rightarrow> c1_update_release \<Rightarrow> string \<Rightarrow> bool" where
  "state_identity s r dig \<longleftrightarrow>
     st_sequence s = mf_sequence (manifest r) \<and> st_security_epoch s = mf_security_epoch (manifest r) \<and>
     release s = mf_version (manifest r) \<and> digest s = dig"

definition advance_state ::
  "string \<Rightarrow> c1_update_state \<Rightarrow> c1_update_phase \<Rightarrow> c1_update_release \<Rightarrow> string \<Rightarrow> c1_update_state act" where
  "advance_state state_root state new_phase r dig =
     (case c1_update_transition (Some state) new_phase (mf_sequence (manifest r))
             (mf_security_epoch (manifest r)) (mf_version (manifest r)) dig False of
        Inl e \<Rightarrow> stop
      | Inr next \<Rightarrow> then_act (c1_update_state_commit state_root state next) (ret next))"

definition fail_state :: "string \<Rightarrow> c1_update_release \<Rightarrow> string \<Rightarrow> unit act" where
  "fail_state state_root r dig =
     ignore (bind_act (c1_update_state_load state_root) (\<lambda>state.
       if generation state \<noteq> 0 \<and> phase state \<noteq> C1_UPDATE_IDLE \<and> state_identity state r dig then
         (case c1_update_transition (Some state) C1_UPDATE_IDLE (mf_sequence (manifest r))
                 (mf_security_epoch (manifest r)) (mf_version (manifest r)) dig True of
            Inl e \<Rightarrow> stop
          | Inr next \<Rightarrow> c1_update_state_commit state_root state next)
       else ret ()))"

definition count_entries :: "string \<Rightarrow> nat \<Rightarrow> unit act" where
  "count_entries path expected =
     bind_act (ok (sys_list path)) (\<lambda>names.
     then_act (ok sys_touch)
     (require (length (filter (\<lambda>n. n \<noteq> ''.'' \<and> n \<noteq> ''..'') names) = expected)))"

definition file_matches :: "string \<Rightarrow> nat \<Rightarrow> string \<Rightarrow> unit act" where
  "file_matches path bytes expected =
     bind_act (c1_sha256_file path bytes (Some bytes)) (\<lambda>dig. require (c1_sha256_hex dig = expected))"

definition prepared_artifact_matches :: "string \<Rightarrow> nat \<Rightarrow> string \<Rightarrow> unit act" where
  "prepared_artifact_matches path bytes expected =
     bind_act (ok (sys_lstat path)) (\<lambda>information.
     then_act (require (st_kind information = S_IFREG \<and> st_nlink information = 1 \<and>
                        st_mode information AND 511 = 448))
     (file_matches path bytes expected))"

definition existing_release_matches :: "string \<Rightarrow> c1_update_release \<Rightarrow> string \<Rightarrow> unit act" where
  "existing_release_matches final_path r manifest_digest =
     (let signature_hex = c1_sha256_hex (c1_sha256 (signature r)) in
      then_act (c1_update_check_trusted_directory final_path)
      (then_act (count_entries final_path 3)
      (bind_act (lift (c1_update_join_path final_path ''artifacts'')) (\<lambda>artifacts.
       then_act (c1_update_check_trusted_directory artifacts)
       (then_act (count_entries artifacts 4)
       (bind_act (lift (c1_update_join_path final_path C1_UPDATE_MANIFEST_NAME)) (\<lambda>path.
        then_act (file_matches path (length (manifest_data r)) manifest_digest)
        (bind_act (lift (c1_update_join_path final_path C1_UPDATE_SIGNATURE_NAME)) (\<lambda>path.
         then_act (file_matches path (length (signature r)) signature_hex)
         (for_each (\<lambda>component.
            bind_act (lift (base_name (comp_path component))) (\<lambda>base.
            bind_act (lift (c1_update_join_path artifacts base)) (\<lambda>path.
            prepared_artifact_matches path (comp_size component) (sha256 component))))
           (components (manifest r))))))))))))"

definition write_release_metadata :: "string \<Rightarrow> c1_update_release \<Rightarrow> unit act" where
  "write_release_metadata draft r =
     bind_act (lift (c1_update_join_path draft C1_UPDATE_MANIFEST_NAME)) (\<lambda>path.
     then_act (c1_secure_atomic_write path (manifest_data r) 384)
     (bind_act (lift (c1_update_join_path draft C1_UPDATE_SIGNATURE_NAME)) (\<lambda>path.
      c1_secure_atomic_write path (signature r) 384)))"

text \<open>Where a release comes from: a repository on the network or a local directory.\<close>

datatype source = Remote network string | Local string

definition acquire_artifacts :: "source \<Rightarrow> string \<Rightarrow> c1_update_release \<Rightarrow> unit act" where
  "acquire_artifacts src staging_artifacts r =
     for_each (\<lambda>component.
       bind_act (lift (base_name (comp_path component))) (\<lambda>base.
       bind_act (lift (c1_update_join_path staging_artifacts base)) (\<lambda>output.
       then_act
         (case src of
            Remote net url \<Rightarrow>
              c1_update_repository_download net url (comp_path component) output
                (comp_size component) (Some (comp_size component))
          | Local directory \<Rightarrow>
              bind_act (lift (c1_update_join_path directory (comp_path component))) (\<lambda>input.
              c1_update_copy_file input output (comp_size component) (sha256 component) 384))
         (file_matches output (comp_size component) (sha256 component)))))
       (components (manifest r))"

definition copy_to_draft :: "string \<Rightarrow> string \<Rightarrow> c1_update_release \<Rightarrow> unit act" where
  "copy_to_draft staging_artifacts draft_artifacts r =
     for_each (\<lambda>component.
       bind_act (lift (base_name (comp_path component))) (\<lambda>base.
       bind_act (lift (c1_update_join_path staging_artifacts base)) (\<lambda>from.
       bind_act (lift (c1_update_join_path draft_artifacts base)) (\<lambda>destination.
       then_act (c1_update_copy_file from destination (comp_size component) (sha256 component) 448)
       (file_matches destination (comp_size component) (sha256 component))))))
       (components (manifest r))"

definition validate_config :: "c1_update_transaction_config \<Rightarrow> unit act" where
  "validate_config config =
     then_act (c1_update_check_trusted_directory (staging_at config))
     (then_act (c1_update_check_trusted_directory (core_at config))
     (c1_update_check_trusted_directory (state_at config)))"

text \<open>Clean-up that is made whether the body succeeds or fails, and does not change its result.\<close>

definition finally_act :: "'a act \<Rightarrow> unit act \<Rightarrow> 'a act" where
  "finally_act m c w = (case m w of (r, w') \<Rightarrow> (r, snd (c w')))"

section \<open>One release\<close>

definition space_ok :: "statvfs \<Rightarrow> c1_update_transaction_config \<Rightarrow> string \<Rightarrow> nat \<Rightarrow> bool" where
  "space_ok query config path required =
     (case space_check config of
        None \<Rightarrow> c1_update_check_space query path required
      | Some check \<Rightarrow> check path required)"

definition space_required :: "c1_update_release \<Rightarrow> nat option" where
  "space_required r =
     Option.bind (sum_payload (manifest r)) (\<lambda>payload.
     if payload > UINT64_MAX - length (manifest_data r) - length (signature r) then None
     else Some (payload + length (manifest_data r) + length (signature r)))"

definition outcome_of :: "c1_update_state \<Rightarrow> c1_update_release \<Rightarrow> c1_update_transaction_result" where
  "outcome_of state r = \<lparr> result_phase = phase state, result_sequence = mf_sequence (manifest r),
     result_release = mf_version (manifest r) \<rparr>"

text \<open>The draft is filled, made durable and renamed to its final name.\<close>

definition place_release ::
  "bool \<Rightarrow> string \<Rightarrow> string \<Rightarrow> string \<Rightarrow> string \<Rightarrow> c1_update_release \<Rightarrow> unit act" where
  "place_release enough staging_artifacts releases name final_path r =
     then_act (require enough)
     (bind_act (asks pid) (\<lambda>process.
      let draft_name = ''.new.'' @ name @ ''.'' @ dec process @ ''.XXXXXX'' in
      then_act (require (length draft_name < 128))
      (bind_act (lift (c1_update_join_path releases draft_name)) (\<lambda>template.
       bind_act (mkdtemp template) (\<lambda>draft.
       on_failure
         (bind_act (lift (c1_update_join_path draft ''artifacts'')) (\<lambda>draft_artifacts.
          then_act (c1_update_make_directory draft_artifacts 448 False)
          (then_act (copy_to_draft staging_artifacts draft_artifacts r)
          (then_act (c1_secure_sync_directory draft_artifacts)
          (then_act (write_release_metadata draft r)
          (then_act (c1_secure_sync_directory draft)
          (then_act (ok (sys_rename draft final_path))
          (c1_secure_sync_directory releases))))))))
         (ignore (c1_update_remove_tree draft)))))))"

text \<open>What follows once the state says that the transaction has started.\<close>

definition complete_release ::
  "statvfs \<Rightarrow> c1_update_transaction_config \<Rightarrow> source \<Rightarrow> string \<Rightarrow> nat \<Rightarrow> string \<Rightarrow> string \<Rightarrow> string \<Rightarrow>
   bool \<Rightarrow> c1_update_release \<Rightarrow> string \<Rightarrow> c1_update_state \<Rightarrow> c1_update_transaction_result act" where
  "complete_release query config src staging_artifacts space releases name final_path final_exists r dig state =
     then_act
       (if final_exists then ret ()
        else then_act (require (space_ok query config (staging_at config) space))
               (acquire_artifacts src staging_artifacts r))
     (bind_act
       (if phase state = C1_UPDATE_DOWNLOADING
        then advance_state (state_at config) state C1_UPDATE_VERIFIED r dig else ret state) (\<lambda>state.
      then_act
        (if final_exists then ret ()
         else place_release (space_ok query config (core_at config) space) staging_artifacts releases name
                final_path r)
      (bind_act (advance_state (state_at config) state C1_UPDATE_PREPARED r dig) (\<lambda>state.
       ret (outcome_of state r)))))"

definition start_state ::
  "string \<Rightarrow> c1_update_state \<Rightarrow> c1_update_release \<Rightarrow> string \<Rightarrow> c1_update_state act" where
  "start_state state_root state r dig =
     (if phase state = C1_UPDATE_IDLE \<or> phase state = C1_UPDATE_CONFIRMED
      then advance_state state_root state C1_UPDATE_DOWNLOADING r dig
      else if phase state = C1_UPDATE_DOWNLOADING \<or> phase state = C1_UPDATE_VERIFIED then ret state
      else stop)"

definition confirmed_release ::
  "c1_update_transaction_config \<Rightarrow> string \<Rightarrow> c1_update_release \<Rightarrow> string \<Rightarrow> c1_update_state \<Rightarrow>
   c1_update_transaction_result act" where
  "confirmed_release config name r dig state =
     bind_act (lift (c1_update_join_path (core_at config) ''releases'')) (\<lambda>releases.
     then_act (c1_update_check_trusted_directory releases)
     (bind_act (lift (c1_update_join_path releases name)) (\<lambda>final_path.
      then_act (existing_release_matches final_path r dig) (ret (outcome_of state r)))))"

definition new_release ::
  "statvfs \<Rightarrow> c1_update_transaction_config \<Rightarrow> source \<Rightarrow> string \<Rightarrow> nat \<Rightarrow> string \<Rightarrow>
   c1_update_release \<Rightarrow> string \<Rightarrow> c1_update_state \<Rightarrow> c1_update_transaction_result act" where
  "new_release query config src staging_artifacts space name r dig state =
     bind_act (lift (c1_update_join_path (core_at config) ''releases'')) (\<lambda>releases.
     then_act (c1_update_make_directory releases 448 True)
     (bind_act (lift (c1_update_join_path releases name)) (\<lambda>final_path.
      bind_act (probe final_path) (\<lambda>found.
      then_act (if found = None then ret () else existing_release_matches final_path r dig)
      (if phase state = C1_UPDATE_PREPARED
       then then_act (require (found \<noteq> None)) (ret (outcome_of state r))
       else
         bind_act (start_state (state_at config) state r dig) (\<lambda>state.
         on_failure
           (complete_release query config src staging_artifacts space releases name final_path
              (found \<noteq> None) r dig state)
           (fail_state (state_at config) r dig)))))))"

definition process_release ::
  "statvfs \<Rightarrow> c1_update_transaction_config \<Rightarrow> source \<Rightarrow> string \<Rightarrow> string \<Rightarrow> c1_update_release \<Rightarrow>
   c1_update_transaction_result act" where
  "process_release query config src transaction staging_artifacts r =
     finally_act
       (then_act (c1_update_check_compatibility (manifest r))
       (let dig = c1_sha256_hex (c1_sha256 (manifest_data r)) in
        bind_act (lift (space_required r)) (\<lambda>space.
        bind_act (lift (make_name 96 (mf_sequence (manifest r)) (mf_version (manifest r)))) (\<lambda>name.
        bind_act (c1_update_state_load (state_at config)) (\<lambda>state.
        if generation state \<noteq> 0 \<and>
           (st_sequence state > mf_sequence (manifest r) \<or>
            st_security_epoch state > mf_security_epoch (manifest r)) then stop
        else if generation state \<noteq> 0 \<and> st_sequence state = mf_sequence (manifest r) \<and>
                \<not> state_identity state r dig then stop
        else if phase state = C1_UPDATE_CONFIRMED \<and> state_identity state r dig
        then confirmed_release config name r dig state
        else if phase state \<noteq> C1_UPDATE_IDLE \<and> phase state \<noteq> C1_UPDATE_CONFIRMED \<and>
                \<not> state_identity state r dig then stop
        else new_release query config src staging_artifacts space name r dig state)))))
       (ignore (c1_update_remove_tree transaction))"

section \<open>The transaction\<close>

definition prepare_common ::
  "signature_check \<Rightarrow> statvfs \<Rightarrow> c1_update_transaction_config \<Rightarrow> source \<Rightarrow> c1_update_transaction_result act" where
  "prepare_common verify query config src =
     then_act (validate_config config)
     (then_act (c1_update_lock (state_at config))
     (finally_act
       (bind_act (asks pid) (\<lambda>process.
        let transaction_name = ''.txn.'' @ dec process @ ''.XXXXXX'' in
        then_act (require (length transaction_name < 64))
        (bind_act (lift (c1_update_join_path (staging_at config) transaction_name)) (\<lambda>template.
         bind_act (mkdtemp template) (\<lambda>transaction.
         finally_act
           (bind_act
              (case src of
                 Remote net url \<Rightarrow>
                   c1_update_repository_fetch_release net verify url transaction (key_at config)
               | Local directory \<Rightarrow> c1_update_repository_load_local verify directory (key_at config)) (\<lambda>r.
            bind_act (lift (c1_update_join_path transaction ''artifacts'')) (\<lambda>staging_artifacts.
            then_act (c1_update_make_directory staging_artifacts 448 False)
            (then_act
              (case src of Remote net url \<Rightarrow> ret () | Local directory \<Rightarrow> write_release_metadata transaction r)
            (process_release query config src transaction staging_artifacts r)))))
           (ignore (c1_update_remove_tree transaction)))))))
       (ignore sys_touch)))"

definition c1_update_prepare_local ::
  "signature_check \<Rightarrow> statvfs \<Rightarrow> c1_update_transaction_config \<Rightarrow> string \<Rightarrow> c1_update_transaction_result act" where
  "c1_update_prepare_local verify query config directory = prepare_common verify query config (Local directory)"

definition c1_update_prepare ::
  "signature_check \<Rightarrow> statvfs \<Rightarrow> c1_update_transaction_config \<Rightarrow> network \<Rightarrow> string \<Rightarrow>
   c1_update_transaction_result act" where
  "c1_update_prepare verify query config net url = prepare_common verify query config (Remote net url)"

end
