(* ===== verification/Preparation.thy ===== *)
theory Preparation
  imports Transaction
begin

text \<open>
  Preparing updates never harms the installed release: the contract of the release check is extended by what
  the transaction of \<open>update/transaction.c\<close> needs (drafts and staging are not inputs of a good release, and
  renaming a draft to a name that is free keeps good releases good), and the runs of boot operations are
  extended by preparations.
\<close>

section \<open>What the transaction touches\<close>

lemma prefix_closed_under: "(\<And>q. prefix p q \<Longrightarrow> S q) \<Longrightarrow> S (slash p @ x)"
  using prefix_slash [of p p x] by simp

lemma framed_advance [frames]: "framed (area root) (advance_state root s ph r d)"
  unfolding advance_state_def by (intro frames)

lemma framed_fail [frames]: "framed (area root) (fail_state root r d)"
  unfolding fail_state_def by (intro frames)

lemma framed_file_matches [frames]: "framed S (file_matches p n h)"
  unfolding file_matches_def by (intro frames)

lemma framed_existing [frames]: "framed S (existing_release_matches f r d)"
  unfolding existing_release_matches_def count_entries_def prepared_artifact_matches_def
  by (intro frames)

lemma framed_metadata:
  assumes "\<And>q. prefix draft q \<Longrightarrow> S q"
  shows "framed S (write_release_metadata draft r)"
proof -
  have wr: "framed S (c1_secure_atomic_write p d m)" if "c1_update_join_path draft x = Some p" for p d m x
  proof (rule atomic_write_framed)
    fix q assume "under p q \<or> tmp_of p q"
    moreover have "prefix draft p" using update_join_Some [OF that] prefix_slash [of draft draft x] by simp
    ultimately show "S q" using assms prefix_under prefix_tmp_of by blast
  qed
  show ?thesis
    unfolding write_release_metadata_def
    by (rule framed_lift_bind, rule framed_then [OF wr], assumption, rule framed_lift_bind, rule wr)
qed

lemma framed_acquire:
  assumes "\<And>q. prefix sa q \<Longrightarrow> S q"
  shows "framed S (acquire_artifacts src sa r)"
proof -
  have "S p" if "c1_update_join_path sa x = Some p" for p x
    using update_join_Some [OF that] prefix_closed_under [of sa S, OF assms] by simp
  then show ?thesis
    unfolding acquire_artifacts_def
    by (intro framed_for_each framed_lift_bind framed_then framed_file_matches)
      (auto split: source.split intro!: framed_download framed_lift_bind framed_copy_file)
qed

lemma framed_copy_to_draft:
  assumes "\<And>q. prefix da q \<Longrightarrow> S q"
  shows "framed S (copy_to_draft sa da r)"
proof -
  have "S p" if "c1_update_join_path da x = Some p" for p x
    using update_join_Some [OF that] prefix_closed_under [of da S, OF assms] by simp
  then show ?thesis
    unfolding copy_to_draft_def
    by (intro framed_for_each framed_lift_bind framed_then framed_file_matches framed_copy_file)
qed

section \<open>Rules for known results\<close>

lemma hoare_known:
  assumes "keeps P m" and "\<And>w x w'. m w = (Some x, w') \<Longrightarrow> R x"
    and "\<And>x. R x \<Longrightarrow> hoare P (k x) Q E" and "\<And>w. P w \<Longrightarrow> E w"
  shows "hoare P (bind_act m k) Q E"
proof (rule hoare_bind)
  show "hoare P m (\<lambda>x w. P w \<and> R x) E"
    using assms(1,2,4) by (auto simp: keeps_def hoare_def split: option.splits)
  show "hoare (\<lambda>w. P w \<and> R x) (k x) Q E" for x
    using assms(3) [of x] by (auto simp: hoare_def)
qed

lemma hoare_lift:
  assumes "\<And>x. r = Some x \<Longrightarrow> hoare P (k x) Q E" and "\<And>w. P w \<Longrightarrow> E w"
  shows "hoare P (bind_act (lift r) k) Q E"
  by (rule hoare_known [where R = "\<lambda>x. r = Some x"]) (auto simp: assms keeping lift_Some)

lemma hoare_first:
  assumes "keeps P m" and "hoare P k Q E" and "\<And>w. P w \<Longrightarrow> E w"
  shows "hoare P (then_act m k) Q E"
  unfolding then_act_def by (rule hoare_known [OF assms(1), where R = "\<lambda>_. True"]) (auto simp: assms)

lemma hoare_any:
  assumes "keeps P m" and "\<And>x. hoare P (k x) Q E" and "\<And>w. P w \<Longrightarrow> E w"
  shows "hoare P (bind_act m k) Q E"
  by (rule hoare_known [OF assms(1), where R = "\<lambda>_. True"]) (auto simp: assms)

lemma hoare_cleanup:
  assumes "hoare P m Q E" and "keeps E c"
  shows "hoare P (on_failure m c) Q E"
  unfolding hoare_def
proof (intro allI impI)
  fix w r w' assume p: "P w" and run: "on_failure m c w = (r, w')"
  obtain s v where m: "m w = (s, v)" by (cases "m w")
  obtain u v' where c: "c v = (u, v')" by (cases "c v")
  from hoareD [OF assms(1) p m] hoareD [OF assms(2) [unfolded keeps_def] _ c] m c run
  show "case r of None \<Rightarrow> E w' | Some x \<Rightarrow> Q x w'"
    by (cases s; cases u) (auto simp: on_failure_def)
qed

lemma keeps_finally:
  assumes "keeps P m" and "keeps P c"
  shows "keeps P (finally_act m c)"
  unfolding keeps_def hoare_def
proof (intro allI impI)
  fix w r w' assume p: "P w" and run: "finally_act m c w = (r, w')"
  obtain s v where m: "m w = (s, v)" by (cases "m w")
  obtain u v' where c: "c v = (u, v')" by (cases "c v")
  from hoareD [OF assms(1) [unfolded keeps_def] p m] have "P v" by (cases s) auto
  with hoareD [OF assms(2) [unfolded keeps_def] _ c] have "P v'" by (cases u) auto
  with run m c show "case r of None \<Rightarrow> P w' | Some x \<Rightarrow> P w'" by (cases r) (auto simp: finally_act_def)
qed

lemma keeps_ignore:
  assumes "keeps P m"
  shows "keeps P (ignore m)"
  unfolding keeps_def hoare_def
proof (intro allI impI)
  fix w r w' assume p: "P w" and run: "ignore m w = (r, w')"
  obtain s v where m: "m w = (s, v)" by (cases "m w")
  from hoareD [OF assms [unfolded keeps_def] p m] have "P v" by (cases s) auto
  with run m show "case r of None \<Rightarrow> P w' | Some x \<Rightarrow> P w'" by (cases r) (auto simp: ignore_def)
qed

lemma mkdtemp_path: "mkdtemp t w = (Some d, w') \<Longrightarrow> \<exists>letters. d = take (length t - 6) t @ letters"
  by (auto simp: mkdtemp_def act_Some Let_def)

lemma template_path: "length s = 6 \<Longrightarrow> take (length (x @ s) - 6) (x @ s) = x"
  by simp

lemma token_no_slash: "safe_token v \<Longrightarrow> CHR ''/'' \<notin> set v"
  by (auto simp: in_set_conv_nth char_class_defs less_eq_char_def token_punctuation_def dest!: safe_token_nth)

lemma framed_mkdtemp: "(\<And>letters. S (take (length t - 6) t @ letters)) \<Longrightarrow> framed S (mkdtemp t)"
  unfolding mkdtemp_def by (intro frames)

section \<open>The contract\<close>

text \<open>The directory of the releases and the drafts in it.\<close>

definition draft_prefix :: "string \<Rightarrow> string" where
  "draft_prefix core_root = slash core_root @ ''releases/.new.''"

definition draft_area :: "string \<Rightarrow> string \<Rightarrow> bool" where
  "draft_area core_root q \<longleftrightarrow> q = slash core_root @ ''releases'' \<or> prefix (draft_prefix core_root) q"

definition final_path :: "string \<Rightarrow> nat \<Rightarrow> string \<Rightarrow> string" where
  "final_path core_root sequence version = slash core_root @ ''releases/'' @ dec sequence @ ''-'' @ version"

text \<open>Everything but the rename that a preparation changes.\<close>

definition work_area :: "string \<Rightarrow> string \<Rightarrow> string \<Rightarrow> string \<Rightarrow> bool" where
  "work_area sr st cr q \<longleftrightarrow> area sr q \<or> prefix (slash st @ ''.txn.'') q \<or> draft_area cr q"

lemma slash_releases: "slash (slash root @ ''releases'') = slash root @ ''releases/''"
  by (simp add: slash_def)

lemma final_not_work:
  assumes "apart sr cr" and "apart st cr"
  shows "\<not> work_area sr st cr (final_path cr n v)"
proof -
  have "\<not> area sr (final_path cr n v)" "\<not> area st (final_path cr n v)"
    using apart_area assms by (simp_all add: final_path_def)
  moreover from this(2) have "\<not> prefix (slash st @ ''.txn.'') (final_path cr n v)"
    using append_prefixD by (auto simp: area_def)
  moreover obtain c cs where "dec n = c # cs" "is_digit c" using dec_head by blast
  then have "\<not> draft_area cr (final_path cr n v)"
    by (auto simp: draft_area_def final_path_def draft_prefix_def is_digit_byte)
  ultimately show ?thesis by (simp add: work_area_def)
qed

lemma current_not_work:
  assumes "apart sr cr" and "apart st cr"
  shows "\<not> work_area sr st cr (pointer_path cr ''current'')"
proof -
  have "\<not> area sr (slash cr @ ''current'')" "\<not> area st (slash cr @ ''current'')"
    using apart_area assms by simp_all
  moreover from this(2) have "\<not> prefix (slash st @ ''.txn.'') (slash cr @ ''current'')"
    using append_prefixD by (auto simp: area_def)
  ultimately show ?thesis
    by (simp add: work_area_def draft_area_def draft_prefix_def pointer_path_def)
qed

section \<open>Runs of boot operations and preparations\<close>

text \<open>A preparation names what the machine offers it: the free space, the space check of the caller, the
  key file, and the network or directory it reads.\<close>

datatype update_call = Boot_Call boot_call
  | Prepare statvfs "(string \<Rightarrow> nat \<Rightarrow> bool) option" string source

fun update_call_act ::
  "validator \<Rightarrow> signature_check \<Rightarrow> string \<Rightarrow> string \<Rightarrow> string \<Rightarrow> update_call \<Rightarrow> unit act" where
  "update_call_act validate verify sr cr st (Boot_Call c) = boot_call_act validate sr cr c"
| "update_call_act validate verify sr cr st (Prepare query check key src) =
     bind_act (prepare_common verify query
       \<lparr> staging_at = st, core_at = cr, state_at = sr, key_at = key, space_check = check \<rparr> src) (\<lambda>_. ret ())"

fun update_run ::
  "validator \<Rightarrow> signature_check \<Rightarrow> string \<Rightarrow> string \<Rightarrow> string \<Rightarrow> (update_call \<times> outcome list) list \<Rightarrow>
   world \<Rightarrow> world" where
  "update_run validate verify sr cr st [] w = w"
| "update_run validate verify sr cr st ((c, fs) # cs) w =
     update_run validate verify sr cr st cs (snd (update_call_act validate verify sr cr st c (w\<lparr> faults := fs \<rparr>)))"

locale preparation = release_check +
  fixes st :: string
  assumes staging: "apart st cr"
    and works: "stable (work_area sr st cr) (\<lambda>w. good w t)"
    and placed: "good w t \<Longrightarrow> CHR ''/'' \<notin> set v \<Longrightarrow> file_at w (final_path cr n v) = None \<Longrightarrow>
      prefix (draft_prefix cr) draft \<Longrightarrow> sys_rename draft (final_path cr n v) w = (Inr (), w') \<Longrightarrow> good w' t"
begin

abbreviation work :: "string \<Rightarrow> bool" where
  "work \<equiv> work_area sr st cr"

lemma work_safe: "stable work (safe T)"
  unfolding stable_def
proof (intro allI impI)
  fix w w' assume touch: "touches work w w'" and safe: "safe T w"
  have "good w' t" if "good w t" for t
    using works [of t] touch that by (simp add: stable_def)
  moreover have "pointer cr ''current'' w' t = pointer cr ''current'' w t" for t
    using touch current_not_work [OF apart staging] by (simp add: touches_def pointer_def)
  ultimately show "safe T w'" using safe by (auto simp: secured_def)
qed

text \<open>The state before the release is placed: its name is free.\<close>

abbreviation vacant :: "nat \<Rightarrow> string \<Rightarrow> world \<Rightarrow> bool" where
  "vacant n v \<equiv> \<lambda>w. safe {} w \<and> file_at w (final_path cr n v) = None"

lemma work_vacant: "stable work (vacant n v)"
  by (intro stable_conj work_safe)
    (use final_not_work [OF apart staging] in \<open>auto simp: stable_def touches_def\<close>)

lemma work_keeps: "framed work m \<Longrightarrow> keeps (safe {}) m" "framed work m \<Longrightarrow> keeps (vacant n v) m"
  by (auto intro: keeps_framed work_safe work_vacant)

lemma state_work: "framed (area sr) m \<Longrightarrow> framed work m"
  by (rule framed_mono, assumption) (simp add: work_area_def)

lemma draft_closed: "prefix (draft_prefix cr) p \<Longrightarrow> prefix p q \<Longrightarrow> work q"
  unfolding work_area_def draft_area_def using prefix_order.order_trans by blast

lemma rename_safe:
  assumes "CHR ''/'' \<notin> set v" and "prefix (draft_prefix cr) draft"
  shows "hoare (vacant n v) (ok (sys_rename draft (final_path cr n v))) (\<lambda>_. safe {}) (safe {})"
  unfolding hoare_def
proof (intro allI impI)
  fix w r w' assume vac: "vacant n v w" and run: "ok (sys_rename draft (final_path cr n v)) w = (r, w')"
  obtain e where e: "sys_rename draft (final_path cr n v) w = (e, w')"
    using run by (auto simp: ok_def split: prod.splits sum.splits)
  have "safe {} w'"
  proof (cases e)
    case (Inl x)
    with e vac show ?thesis using safe_same sys_rename_failure by blast
  next
    case (Inr u)
    with e have ren: "sys_rename draft (final_path cr n v) w = (Inr (), w')" by simp
    have ne: "draft \<noteq> final_path cr n v"
      using draft_closed [OF assms(2) prefix_order.order_refl] final_not_work [OF apart staging] by metis
    have "file_at w' (pointer_path cr ''current'') = file_at w (pointer_path cr ''current'')"
    proof -
      have "\<not> under (final_path cr n v) (pointer_path cr ''current'')"
        by (auto simp: under_iff final_path_def pointer_path_def)
      moreover have "\<not> under draft (pointer_path cr ''current'')"
        using prefix_under [OF assms(2)] by (fastforce simp: draft_prefix_def pointer_path_def)
      ultimately show ?thesis using sys_rename_success [OF ren ne] by simp
    qed
    then have "pointer cr ''current'' w' t = pointer cr ''current'' w t" for t
      by (simp add: pointer_def)
    with vac placed [OF _ assms(1) _ assms(2) ren] show ?thesis by (auto simp: secured_def)
  qed
  then show "case r of None \<Rightarrow> safe {} w' | Some x \<Rightarrow> safe {} w'" by (cases r) auto
qed

lemma copy_work:
  assumes "\<And>q. prefix d q \<Longrightarrow> work q" and "c1_update_join_path d ''artifacts'' = Some a"
  shows "framed work (c1_update_make_directory a m b)" and "framed work (copy_to_draft sa a r)"
    and "framed work (acquire_artifacts src a r)"
proof -
  have a: "prefix d a" using update_join_Some [OF assms(2)] prefix_slash [of d d] by simp
  have sub: "work q" if "prefix a q" for q
    using assms(1) a that prefix_order.order_trans by blast
  show "framed work (c1_update_make_directory a m b)"
    by (rule framed_make_directory) (simp add: sub)
  show "framed work (copy_to_draft sa a r)" by (rule framed_copy_to_draft [OF sub])
  show "framed work (acquire_artifacts src a r)" by (rule framed_acquire [OF sub])
qed

lemma place_safe:
  assumes v: "CHR ''/'' \<notin> set v" and name: "name = dec n @ ''-'' @ v"
  shows "hoare (vacant n v)
    (place_release enough sa (slash cr @ ''releases'') name (final_path cr n v) r) (\<lambda>_. safe {}) (safe {})"
proof -
  have draft: "prefix (draft_prefix cr) (take (length t - 6) t @ letters)"
    if "c1_update_join_path (slash cr @ ''releases'') (''.new.'' @ name @ ''.'' @ dec k @ ''.XXXXXX'') = Some t"
    for t k letters
  proof -
    have t: "t = (draft_prefix cr @ name @ ''.'' @ dec k @ ''.'') @ ''XXXXXX''"
      using update_join_Some [OF that] by (simp add: draft_prefix_def slash_releases)
    have "take (length t - 6) t = draft_prefix cr @ name @ ''.'' @ dec k @ ''.''"
      unfolding t by (rule template_path) simp
    then show ?thesis by simp
  qed
  have fill: "hoare (vacant n v)
      (on_failure
         (bind_act (lift (c1_update_join_path d ''artifacts'')) (\<lambda>draft_artifacts.
          then_act (c1_update_make_directory draft_artifacts 448 False)
          (then_act (copy_to_draft sa draft_artifacts r)
          (then_act (c1_secure_sync_directory draft_artifacts)
          (then_act (write_release_metadata d r)
          (then_act (c1_secure_sync_directory d)
          (then_act (ok (sys_rename d (final_path cr n v)))
          (c1_secure_sync_directory (slash cr @ ''releases'')))))))))
         (ignore (c1_update_remove_tree d))) (\<lambda>_. safe {}) (safe {})"
    if d: "prefix (draft_prefix cr) d" for d
  proof -
    have sub: "work q" if "prefix d q" for q using draft_closed [OF d that] .
    note copies = copy_work [OF sub]
    have sync: "framed work (c1_secure_sync_directory p)" for p by (rule frames)
    have last: "hoare (vacant n v)
        (then_act (ok (sys_rename d (final_path cr n v))) (c1_secure_sync_directory p)) (\<lambda>_. safe {}) (safe {})" for p
      by (rule hoare_then [OF rename_safe [OF v d]])
        (use work_keeps(1) [OF sync] in \<open>simp add: keeps_def\<close>)
    show ?thesis
      by (intro hoare_cleanup hoare_lift hoare_first last work_keeps copies sync framed_metadata
          keeps_ignore framed_remove_tree sub) simp_all
  qed
  show ?thesis
    unfolding place_release_def Let_def
  proof (rule hoare_first [OF keeps_simple(3)], rule hoare_any [OF work_keeps(2) [OF framed_asks]],
      rule hoare_first [OF keeps_simple(3)], rule hoare_lift)
    fix k t
    assume t: "c1_update_join_path (slash cr @ ''releases'') (''.new.'' @ name @ ''.'' @ dec k @ ''.XXXXXX'') = Some t"
    have "framed work (mkdtemp t)"
      by (rule framed_mkdtemp) (rule draft_closed [OF draft [OF t] prefix_order.order_refl])
    from work_keeps(2) [OF this]
    show "hoare (vacant n v) (bind_act (mkdtemp t) (\<lambda>d. on_failure
         (bind_act (lift (c1_update_join_path d ''artifacts'')) (\<lambda>draft_artifacts.
          then_act (c1_update_make_directory draft_artifacts 448 False)
          (then_act (copy_to_draft sa draft_artifacts r)
          (then_act (c1_secure_sync_directory draft_artifacts)
          (then_act (write_release_metadata d r)
          (then_act (c1_secure_sync_directory d)
          (then_act (ok (sys_rename d (final_path cr n v)))
          (c1_secure_sync_directory (slash cr @ ''releases'')))))))))
         (ignore (c1_update_remove_tree d)))) (\<lambda>_. safe {}) (safe {})"
    proof (rule hoare_known [where R = "prefix (draft_prefix cr)"])
      show "prefix (draft_prefix cr) d" if "mkdtemp t w = (Some d, w')" for w d w'
        using mkdtemp_path [OF that] draft [OF t] by blast
    qed (auto intro: fill)
  qed auto
qed

lemma advance_work: "framed work (advance_state sr s ph r d)"
  by (rule state_work [OF framed_advance])

lemma complete_safe:
  assumes v: "CHR ''/'' \<notin> set v" and name: "name = dec n @ ''-'' @ v"
    and config: "state_at config = sr" "core_at config = cr"
    and sa: "\<And>q. prefix sa q \<Longrightarrow> work q"
  shows "hoare (\<lambda>w. safe {} w \<and> (\<not> final_exists \<longrightarrow> file_at w (final_path cr n v) = None))
    (complete_release query config src sa space (slash cr @ ''releases'') name (final_path cr n v)
       final_exists r dig state) (\<lambda>_. safe {}) (safe {})"
proof -
  have acquire: "framed work (acquire_artifacts src sa r)" by (rule framed_acquire [OF sa])
  have advance: "framed work (if phase state = C1_UPDATE_DOWNLOADING
      then advance_state (state_at config) state C1_UPDATE_VERIFIED r dig else ret state)"
    unfolding config by (intro framed_if advance_work framed_ret)
  have ending: "keeps (safe {}) (bind_act (advance_state (state_at config) s C1_UPDATE_PREPARED r dig)
      (\<lambda>state. ret (outcome_of state r)))" for s
    unfolding config by (intro keeps_bind work_keeps(1) advance_work keeps_simple(1))
  show ?thesis
  proof (cases final_exists)
    case True
    have "keeps (safe {}) (complete_release query config src sa space (slash cr @ ''releases'') name
        (final_path cr n v) True r dig state)"
      unfolding complete_release_def
      by (simp only: if_True) (intro keeps_then keeps_simple keeps_bind work_keeps(1) advance ending)
    with True show ?thesis by (simp add: keeps_def)
  next
    case False
    have "hoare (vacant n v)
      (complete_release query config src sa space (slash cr @ ''releases'') name (final_path cr n v)
         final_exists r dig state) (\<lambda>_. safe {}) (safe {})"
      unfolding complete_release_def using False
      by (simp only: if_False, intro hoare_first hoare_any keeps_then keeps_simple work_keeps acquire advance
          hoare_then [OF place_safe [OF v name] ending [unfolded keeps_def]]) auto
    with False show ?thesis by simp
  qed
qed

lemma new_safe:
  assumes v: "CHR ''/'' \<notin> set v" and name: "name = dec n @ ''-'' @ v"
    and config: "state_at config = sr" "core_at config = cr"
    and sa: "\<And>q. prefix sa q \<Longrightarrow> work q"
  shows "keeps (safe {}) (new_release query config src sa space name r dig state)"
proof -
  have releases: "work (slash cr @ ''releases'')" by (simp add: work_area_def draft_area_def)
  have make: "framed work (c1_update_make_directory (slash cr @ ''releases'') 448 True)"
    by (rule framed_make_directory) (rule releases)
  have final: "q = final_path cr n v" if "c1_update_join_path (slash cr @ ''releases'') name = Some q" for q
    using update_join_Some [OF that] by (simp add: final_path_def slash_releases name)
  have fail: "keeps (safe {}) (fail_state (state_at config) r dig)"
    unfolding config by (rule work_keeps(1) [OF state_work [OF framed_fail]])
  have start: "framed work (start_state (state_at config) state r dig)"
    unfolding start_state_def config by (intro framed_if framed_ret framed_stop advance_work)
  let ?P = "\<lambda>found w. safe {} w \<and> (found = None \<longrightarrow> file_at w (final_path cr n v) = None)"
  have stable: "stable work (?P found)" for found
    by (cases found) (use work_vacant [of n v] work_safe [of "{}"] in \<open>auto simp: stable_def\<close>)
  note kept = keeps_framed [OF _ stable]
  have ending: "hoare (?P found) (if phase state = C1_UPDATE_PREPARED
       then then_act (require (found \<noteq> None)) (ret (outcome_of state r))
       else
         bind_act (start_state (state_at config) state r dig) (\<lambda>state.
         on_failure
           (complete_release query config src sa space (slash cr @ ''releases'') name (final_path cr n v)
              (found \<noteq> None) r dig state)
           (fail_state (state_at config) r dig))) (\<lambda>_. safe {}) (safe {})" for found
  proof (cases "phase state = C1_UPDATE_PREPARED")
    case True
    have "keeps (safe {}) (then_act (require (found \<noteq> None)) (ret (outcome_of state r)))"
      by (intro keeping)
    then have "hoare (?P found) (then_act (require (found \<noteq> None)) (ret (outcome_of state r)))
        (\<lambda>_. safe {}) (safe {})"
      unfolding keeps_def by (rule hoare_weaken) auto
    with True show ?thesis by simp
  next
    case False
    have whole: "hoare (?P found)
        (on_failure
           (complete_release query config src sa space (slash cr @ ''releases'') name (final_path cr n v)
              (found \<noteq> None) r dig s)
           (fail_state (state_at config) r dig)) (\<lambda>_. safe {}) (safe {})" for s
      by (rule hoare_cleanup [OF hoare_weaken [OF complete_safe [OF v name config]] fail]) (simp_all add: sa)
    have "hoare (?P found) (bind_act (start_state (state_at config) state r dig) (\<lambda>state.
         on_failure
           (complete_release query config src sa space (slash cr @ ''releases'') name (final_path cr n v)
              (found \<noteq> None) r dig state)
           (fail_state (state_at config) r dig))) (\<lambda>_. safe {}) (safe {})"
      by (rule hoare_any [OF kept [OF start] whole]) simp
    with False show ?thesis by simp
  qed
  have probing: "hoare (safe {}) (bind_act (probe (final_path cr n v)) (\<lambda>found.
      then_act (if found = None then ret () else existing_release_matches (final_path cr n v) r dig)
      (if phase state = C1_UPDATE_PREPARED
       then then_act (require (found \<noteq> None)) (ret (outcome_of state r))
       else
         bind_act (start_state (state_at config) state r dig) (\<lambda>state.
         on_failure
           (complete_release query config src sa space (slash cr @ ''releases'') name (final_path cr n v)
              (found \<noteq> None) r dig state)
           (fail_state (state_at config) r dig))))) (\<lambda>_. safe {}) (safe {})"
  proof (rule hoare_bind)
    show "hoare (safe {}) (probe (final_path cr n v)) ?P (safe {})"
      by (rule hoare_weaken [OF hoare_stable [where Q = "\<lambda>found w. found = file_at w (final_path cr n v)",
            OF framed_probe same_safe]]) (auto dest!: probe_success simp: same_files_def)
  qed (intro hoare_first kept framed_if framed_ret framed_existing ending, simp)
  show ?thesis
    unfolding new_release_def keeps_def config(2)
    by (rule hoare_lift, drule update_join_Some, elim conjE, simp only:,
        rule hoare_first [OF work_keeps(1) [OF make]], rule hoare_lift, drule final, simp only:, rule probing) auto
qed

lemma process_safe:
  assumes v: "CHR ''/'' \<notin> set (mf_version (manifest r))"
    and config: "state_at config = sr" "core_at config = cr"
    and sa: "\<And>q. prefix sa q \<Longrightarrow> work q" and transaction: "\<And>q. prefix transaction q \<Longrightarrow> work q"
  shows "keeps (safe {}) (process_release query config src transaction sa r)"
proof -
  have reads: "keeps (safe {}) (c1_update_check_compatibility (manifest r))"
    "keeps (safe {}) (c1_update_state_load p)" for p
    by (intro reads_keep frames)+
  have confirmed: "keeps (safe {}) (confirmed_release config name r d s)" for name d s
    unfolding confirmed_release_def by (intro reads_keep frames)
  have name: "keeps (safe {}) (bind_act (lift (make_name 96 (mf_sequence (manifest r)) (mf_version (manifest r)))) k)"
    if "\<And>name. name = dec (mf_sequence (manifest r)) @ ''-'' @ mf_version (manifest r) \<Longrightarrow> keeps (safe {}) (k name)"
    for k :: "string \<Rightarrow> c1_update_transaction_result act"
    unfolding keeps_def
    by (rule hoare_lift) (use that in \<open>auto simp: make_name_def Let_def keeps_def split: if_splits\<close>)
  show ?thesis
    unfolding process_release_def Let_def
    by (intro keeps_finally keeps_then reads keeps_bind keeps_simple name keeps_if confirmed
        new_safe [OF v _ config sa] keeps_ignore work_keeps(1) framed_remove_tree transaction)
qed

abbreviation release_from :: "signature_check \<Rightarrow> source \<Rightarrow> string \<Rightarrow> string \<Rightarrow> c1_update_release act" where
  "release_from verify src d key \<equiv>
     (case src of
        Remote net url \<Rightarrow> c1_update_repository_fetch_release net verify url d key
      | Local directory \<Rightarrow> c1_update_repository_load_local verify directory key)"

lemma release_from_known:
  assumes "release_from verify src d key w = (Some r, w')"
  shows "CHR ''/'' \<notin> set (mf_version (manifest r))"
proof -
  have "c1_update_parse_manifest (manifest_data r) = Inr (manifest r)"
  proof (cases src)
    case (Remote net url)
    with assms have "c1_update_repository_fetch_release net verify url d key w = (Some r, w')" by simp
    with fetch_stored [of verify d key net url] show ?thesis
      unfolding yields_def release_stored_def by blast
  next
    case (Local directory)
    with assms load_stored [of verify directory key w r w'] show ?thesis
      unfolding release_stored_def by simp
  qed
  then have "manifest_ok (manifest r)" using manifest_sound by blast
  then show ?thesis unfolding manifest_ok_def using token_no_slash by blast
qed

lemma transaction_safe:
  assumes config: "state_at config = sr" "core_at config = cr" "staging_at config = st"
    and d: "prefix (slash st @ ''.txn.'') d"
  shows "keeps (safe {}) (finally_act
           (bind_act (release_from verify src d (key_at config)) (\<lambda>r.
            bind_act (lift (c1_update_join_path d ''artifacts'')) (\<lambda>staging_artifacts.
            then_act (c1_update_make_directory staging_artifacts 448 False)
            (then_act
              (case src of Remote net url \<Rightarrow> ret () | Local directory \<Rightarrow> write_release_metadata d r)
            (process_release query config src d staging_artifacts r)))))
           (ignore (c1_update_remove_tree d)))"
proof -
  have sub: "work q" if "prefix d q" for q
    using prefix_order.order_trans [OF d that] by (simp add: work_area_def)
  have entry: "work (slash d @ x)" for x
    by (rule sub) (simp add: prefix_slash)
  have source: "framed work (release_from verify src d (key_at config))"
    by (cases src) (simp_all add: framed_fetch_release framed_load_local entry)
  have metadata: "framed work (case src of Remote net url \<Rightarrow> ret () | Local directory \<Rightarrow> write_release_metadata d r)" for r
    by (cases src) (simp_all add: framed_ret framed_metadata sub)
  have inner: "work q" if "c1_update_join_path d ''artifacts'' = Some a" and "prefix a q" for a q
  proof (rule sub)
    have "prefix d a" using update_join_Some [OF that(1)] prefix_slash [of d d] by simp
    then show "prefix d q" using that(2) by (rule prefix_order.order_trans)
  qed
  have rest: "hoare (safe {}) (bind_act (lift (c1_update_join_path d ''artifacts'')) (\<lambda>staging_artifacts.
            then_act (c1_update_make_directory staging_artifacts 448 False)
            (then_act
              (case src of Remote net url \<Rightarrow> ret () | Local directory \<Rightarrow> write_release_metadata d r)
            (process_release query config src d staging_artifacts r)))) (\<lambda>_. safe {}) (safe {})"
    if v: "CHR ''/'' \<notin> set (mf_version (manifest r))" for r
  proof (rule hoare_lift)
    fix a assume a: "c1_update_join_path d ''artifacts'' = Some a"
    have process: "keeps (safe {}) (process_release query config src d a r)"
      by (rule process_safe [OF v config(1,2) inner [OF a] sub])
    have make: "keeps (safe {}) (c1_update_make_directory a 448 False)"
      by (rule work_keeps(1) [OF framed_make_directory], rule inner [OF a]) simp
    show "hoare (safe {}) (then_act (c1_update_make_directory a 448 False)
            (then_act
              (case src of Remote net url \<Rightarrow> ret () | Local directory \<Rightarrow> write_release_metadata d r)
            (process_release query config src d a r))) (\<lambda>_. safe {}) (safe {})"
      using keeps_then [OF make keeps_then [OF work_keeps(1) [OF metadata] process]]
      by (simp only: keeps_def)
  qed simp
  have body: "keeps (safe {}) (bind_act (release_from verify src d (key_at config)) (\<lambda>r.
            bind_act (lift (c1_update_join_path d ''artifacts'')) (\<lambda>staging_artifacts.
            then_act (c1_update_make_directory staging_artifacts 448 False)
            (then_act
              (case src of Remote net url \<Rightarrow> ret () | Local directory \<Rightarrow> write_release_metadata d r)
            (process_release query config src d staging_artifacts r)))))"
    unfolding keeps_def
    by (rule hoare_known [OF work_keeps(1) [OF source] release_from_known rest])
  have "keeps (safe {}) (ignore (c1_update_remove_tree d))"
    by (rule keeps_ignore [OF work_keeps(1) [OF framed_remove_tree [OF sub]]])
  with body show ?thesis by (rule keeps_finally)
qed

lemma prepare_safe:
  assumes config: "state_at config = sr" "core_at config = cr" "staging_at config = st"
  shows "keeps (safe {}) (prepare_common verify query config src)"
proof -
  have trusted: "keeps (safe {}) (validate_config config)"
    unfolding validate_config_def by (intro reads_keep frames)
  have lock: "keeps (safe {}) (c1_update_lock (state_at config))"
  proof (rule state_keeps)
    have opened: "framed S (sys_open_lock p)" if "S p" for S p
      using that unfolding sys_open_lock_def
      by (intro framed_faulty) (auto simp: Let_def intro: touches_put split: option.split)
    show "framed (area sr) (c1_update_lock (state_at config))"
      unfolding config c1_update_lock_def
      by (rule framed_lift_bind, drule update_join_Some, elim conjE, simp only:, intro frames opened area_append)
  qed
  have made: "prefix (slash st @ ''.txn.'') (take (length t - 6) t @ letters)"
    if "c1_update_join_path (staging_at config) (''.txn.'' @ dec k @ ''.XXXXXX'') = Some t" for t k letters
  proof -
    have t: "t = (slash st @ ''.txn.'' @ dec k @ ''.'') @ ''XXXXXX''"
      using update_join_Some [OF that] by (simp add: config)
    have "take (length t - 6) t = slash st @ ''.txn.'' @ dec k @ ''.''"
      unfolding t by (rule template_path) simp
    then show ?thesis by simp
  qed
  have temporary: "keeps (safe {}) (bind_act (lift (c1_update_join_path (staging_at config) (''.txn.'' @ dec n @ ''.XXXXXX'')))
      (\<lambda>t. bind_act (mkdtemp t) k))"
    if k: "\<And>d. prefix (slash st @ ''.txn.'') d \<Longrightarrow> keeps (safe {}) (k d)"
    for n and k :: "string \<Rightarrow> c1_update_transaction_result act"
    unfolding keeps_def
  proof (rule hoare_lift)
    fix t assume t: "c1_update_join_path (staging_at config) (''.txn.'' @ dec n @ ''.XXXXXX'') = Some t"
    have "keeps (safe {}) (mkdtemp t)"
      by (rule work_keeps(1) [OF framed_mkdtemp]) (use made [OF t] in \<open>simp add: work_area_def\<close>)
    then show "hoare (safe {}) (bind_act (mkdtemp t) k) (\<lambda>_. safe {}) (safe {})"
    proof (rule hoare_known [where R = "prefix (slash st @ ''.txn.'')"])
      show "prefix (slash st @ ''.txn.'') d" if "mkdtemp t w = (Some d, w')" for w d w'
        using mkdtemp_path [OF that] made [OF t] by blast
    qed (use k in \<open>simp_all add: keeps_def\<close>)
  qed simp
  have "keeps (safe {}) (ignore sys_touch)"
    by (intro reads_keep frames)
  then show ?thesis
    unfolding prepare_common_def Let_def
    by (intro keeps_then trusted lock keeps_finally keeps_bind [OF reads_keep [OF framed_asks]] keeps_simple
        temporary transaction_safe config)
qed

lemma update_call_keeps: "keeps (safe {}) (update_call_act validate verify sr cr st c)"
  by (cases c) (auto intro!: call_keeps prepare_safe keeps_bind keeps_simple)

lemma update_run_safe: "safe {} w \<Longrightarrow> safe {} (update_run validate verify sr cr st cs w)"
proof (induction cs arbitrary: w)
  case Nil
  then show ?case by simp
next
  case (Cons c cs)
  obtain k fs where c: "c = (k, fs)" by (cases c)
  have "same_files w (w\<lparr> faults := fs \<rparr>)" by (simp add: same_files_def same_process_def)
  then have "safe {} (w\<lparr> faults := fs \<rparr>)" using Cons.prems by (rule safe_same)
  moreover obtain r w' where run: "update_call_act validate verify sr cr st k (w\<lparr> faults := fs \<rparr>) = (r, w')"
    by fastforce
  ultimately have "safe {} w'"
    using hoareD [OF update_call_keeps [unfolded keeps_def] _ run] by (cases r) auto
  with Cons.IH c run show ?case by simp
qed

end

section \<open>An intact release survives the rename of another\<close>

lemma slash_free_name:
  assumes "a @ u = b @ z" and "CHR ''/'' \<notin> set a" and "CHR ''/'' \<notin> set b"
    and "u = [] \<or> hd u = CHR ''/''" and "z = [] \<or> hd z = CHR ''/''"
  shows "a = b"
proof -
  have "takeWhile (\<lambda>c. c \<noteq> CHR ''/'') (x @ y) = x"
    if x: "CHR ''/'' \<notin> set x" and y: "y = [] \<or> hd y = CHR ''/''" for x y
  proof -
    have "takeWhile (\<lambda>c. c \<noteq> CHR ''/'') (x @ y) = x @ takeWhile (\<lambda>c. c \<noteq> CHR ''/'') y"
      by (rule takeWhile_append2) (use x in auto)
    with y show ?thesis by (cases y) auto
  qed
  with assms show ?thesis by metis
qed

lemma intact_same:
  assumes intact: "release_intact verify core key w t" and key: "file_at w' key = file_at w key"
    and below: "\<And>q. under (release_path core t) q \<Longrightarrow> file_at w' q = file_at w q"
  shows "release_intact verify core key w' t"
proof -
  from intact obtain m where t: "t = ''releases/'' @ dec (mf_sequence m) @ ''-'' @ mf_version m"
    and m: "manifest_ok m"
    unfolding release_intact_def using manifest_sound by blast
  have "mf_version m \<noteq> []" and "CHR ''/'' \<notin> set (mf_version m)"
    using m token_no_slash by (auto simp: manifest_ok_def safe_token_def)
  then have "last (release_path core t) \<noteq> CHR ''/''"
    using last_in_set by (fastforce simp: t release_path_def)
  then have slash: "slash (release_path core t) = release_path core t @ ''/''"
    by (simp add: slash_def t release_path_def)
  have deep: "regular_data w' (slash (release_path core t) @ x) = regular_data w (slash (release_path core t) @ x)" for x
    using below by (simp add: slash regular_data_def under_def)
  have "regular_data w' (slash (slash (release_path core t) @ ''artifacts'') @ x) =
      regular_data w (slash (slash (release_path core t) @ ''artifacts'') @ x)" for x
  proof -
    have "slash (slash (release_path core t) @ ''artifacts'') = release_path core t @ ''/artifacts/''"
      by (simp add: slash) (simp add: slash_def)
    with below show ?thesis by (simp add: regular_data_def under_def)
  qed
  then have "artifact_intact core w' t c = artifact_intact core w t c" for c
    by (simp add: artifact_intact_def)
  moreover have "is_dir w' (release_path core t) = is_dir w (release_path core t)"
    using below by (simp add: is_dir_def)
  moreover have "regular_data w' key = regular_data w key" using key by (simp add: regular_data_def)
  ultimately show ?thesis
    using intact by (simp add: release_intact_def deep)
qed

lemma intact_placed:
  assumes intact: "release_intact verify core key w t" and v: "CHR ''/'' \<notin> set v"
    and vacant: "file_at w (final_path core n v) = None" and draft: "prefix (draft_prefix core) draft"
    and key: "\<not> prefix (slash core @ ''releases/'') key"
    and ren: "sys_rename draft (final_path core n v) w = (Inr (), w')"
  shows "release_intact verify core key w' t"
proof -
  have ne: "draft \<noteq> final_path core n v"
  proof
    assume "draft = final_path core n v"
    moreover obtain c cs where "dec n = c # cs" "is_digit c" using dec_head by blast
    ultimately show False using draft by (auto simp: prefix_def draft_prefix_def final_path_def is_digit_byte)
  qed
  have other: "file_at w' q = file_at w q" if "\<not> under (final_path core n v) q" "\<not> under draft q" for q
    using sys_rename_success [OF ren ne] that by simp
  from intact obtain m where t: "t = ''releases/'' @ dec (mf_sequence m) @ ''-'' @ mf_version m"
    and m: "manifest_ok m" and dir: "is_dir w (release_path core t)"
    unfolding release_intact_def using manifest_sound by blast
  let ?name = "dec (mf_sequence m) @ ''-'' @ mf_version m"
  have name: "CHR ''/'' \<notin> set ?name" "CHR ''/'' \<notin> set (dec n @ ''-'' @ v)"
    using m token_no_slash v dec_no_slash by (auto simp: manifest_ok_def)
  show ?thesis
  proof (rule intact_same [OF intact])
    have "prefix (slash core @ ''releases/'') draft"
      using draft by (auto simp: draft_prefix_def prefix_def)
    then have "\<not> under draft key" using key prefix_under by blast
    moreover have "prefix (slash core @ ''releases/'') (final_path core n v)" by (simp add: final_path_def)
    then have "\<not> under (final_path core n v) key" using key prefix_under by blast
    ultimately show "file_at w' key = file_at w key" by (intro other)
  next
    fix q assume q: "under (release_path core t) q"
    then obtain u where u: "q = slash core @ ''releases/'' @ ?name @ u" "u = [] \<or> hd u = CHR ''/''"
      by (auto simp: under_iff release_path_def t)
    have "\<not> under (final_path core n v) q"
    proof
      assume "under (final_path core n v) q"
      then obtain z where "?name @ u = (dec n @ ''-'' @ v) @ z" "z = [] \<or> hd z = CHR ''/''"
        using u(1) by (auto simp: under_iff final_path_def)
      then have "?name = dec n @ ''-'' @ v" using slash_free_name name u(2) by blast
      with dir vacant show False by (simp add: is_dir_def release_path_def t final_path_def)
    qed
    moreover have "\<not> under draft q"
    proof
      assume "under draft q"
      with draft have "prefix (draft_prefix core) q" by (rule prefix_under)
      moreover obtain c cs where "dec (mf_sequence m) = c # cs" "is_digit c" using dec_head by blast
      ultimately show False by (auto simp: u(1) draft_prefix_def is_digit_byte)
    qed
    ultimately show "file_at w' q = file_at w q" by (rule other)
  qed
qed

section \<open>The deployed transaction\<close>

definition C1_UPDATE_DEFAULT_STAGING_ROOT :: string where
  "C1_UPDATE_DEFAULT_STAGING_ROOT = ''/storage/c1/update/staging''"

lemma deployed_work:
  assumes "prefix (slash C1_UPDATE_DEFAULT_CORE_ROOT @ ''releases/'' @ dec n) q"
  shows "\<not> work_area C1_UPDATE_DEFAULT_STATE_ROOT C1_UPDATE_DEFAULT_STAGING_ROOT C1_UPDATE_DEFAULT_CORE_ROOT q"
proof -
  from assms obtain z where q: "q = ''/usr/data/c1/core/releases/'' @ dec n @ z"
    by (auto simp: prefix_def deployed_paths slash_def)
  obtain c cs where "dec n = c # cs" "is_digit c" using dec_head by blast
  then show ?thesis
    by (auto simp: q work_area_def area_def draft_area_def draft_prefix_def deployed_paths slash_def
        C1_UPDATE_DEFAULT_STAGING_ROOT_def is_digit_byte)
qed

interpretation device: preparation
  "c1_update_validate_release verify C1_UPDATE_DEFAULT_CORE_ROOT C1_UPDATE_DEFAULT_KEY"
  "release_intact verify C1_UPDATE_DEFAULT_CORE_ROOT C1_UPDATE_DEFAULT_KEY"
  "release_inputs C1_UPDATE_DEFAULT_CORE_ROOT C1_UPDATE_DEFAULT_KEY"
  C1_UPDATE_DEFAULT_STATE_ROOT C1_UPDATE_DEFAULT_CORE_ROOT C1_UPDATE_DEFAULT_STAGING_ROOT
  for verify
proof unfold_locales
  show "apart C1_UPDATE_DEFAULT_STAGING_ROOT C1_UPDATE_DEFAULT_CORE_ROOT"
    by (simp add: apart_def deployed_paths slash_def C1_UPDATE_DEFAULT_STAGING_ROOT_def)
  show "stable (work_area C1_UPDATE_DEFAULT_STATE_ROOT C1_UPDATE_DEFAULT_STAGING_ROOT C1_UPDATE_DEFAULT_CORE_ROOT)
      (\<lambda>w. release_intact verify C1_UPDATE_DEFAULT_CORE_ROOT C1_UPDATE_DEFAULT_KEY w t)" for t
    by (rule intact_stable [OF _ deployed_work])
      (simp add: work_area_def area_def draft_area_def draft_prefix_def deployed_paths slash_def
        C1_UPDATE_DEFAULT_STAGING_ROOT_def)
  show "release_intact verify C1_UPDATE_DEFAULT_CORE_ROOT C1_UPDATE_DEFAULT_KEY w' t"
    if "release_intact verify C1_UPDATE_DEFAULT_CORE_ROOT C1_UPDATE_DEFAULT_KEY w t" "CHR ''/'' \<notin> set v"
      "file_at w (final_path C1_UPDATE_DEFAULT_CORE_ROOT n v) = None"
      "prefix (draft_prefix C1_UPDATE_DEFAULT_CORE_ROOT) draft"
      "sys_rename draft (final_path C1_UPDATE_DEFAULT_CORE_ROOT n v) w = (Inr (), w')" for w w' t v n draft
    by (rule intact_placed [OF that(1-4) _ that(5)]) (simp add: deployed_paths slash_def)
qed

text \<open>C1. Updating never breaks the installed release. If the \<open>current\<close> pointer names an intact release, it
  does so again after any history of boot operations and preparations of new releases, from the network or
  from a directory, whatever the network delivers and however little space there is, each call meeting any
  system call failures or a loss of power at any point.\<close>

theorem updates_keep_current_release:
  assumes "pointer C1_UPDATE_DEFAULT_CORE_ROOT ''current'' w t"
    and "release_intact verify C1_UPDATE_DEFAULT_CORE_ROOT C1_UPDATE_DEFAULT_KEY w t"
  shows "\<exists>t'. pointer C1_UPDATE_DEFAULT_CORE_ROOT ''current''
        (update_run (c1_update_validate_release verify C1_UPDATE_DEFAULT_CORE_ROOT C1_UPDATE_DEFAULT_KEY) verify
           C1_UPDATE_DEFAULT_STATE_ROOT C1_UPDATE_DEFAULT_CORE_ROOT C1_UPDATE_DEFAULT_STAGING_ROOT history w) t' \<and>
      release_intact verify C1_UPDATE_DEFAULT_CORE_ROOT C1_UPDATE_DEFAULT_KEY
        (update_run (c1_update_validate_release verify C1_UPDATE_DEFAULT_CORE_ROOT C1_UPDATE_DEFAULT_KEY) verify
           C1_UPDATE_DEFAULT_STATE_ROOT C1_UPDATE_DEFAULT_CORE_ROOT C1_UPDATE_DEFAULT_STAGING_ROOT history w) t'"
  using device.update_run_safe [where w = w and cs = history and verify = verify] assms
  by (auto simp: secured_def)

theorem updates_keep_current_release_witness:
  "\<exists>t'. pointer C1_UPDATE_DEFAULT_CORE_ROOT ''current''
        (update_run (c1_update_validate_release demo_check C1_UPDATE_DEFAULT_CORE_ROOT C1_UPDATE_DEFAULT_KEY) demo_check
           C1_UPDATE_DEFAULT_STATE_ROOT C1_UPDATE_DEFAULT_CORE_ROOT C1_UPDATE_DEFAULT_STAGING_ROOT
           [(Prepare (\<lambda>p. Some (5000, 4096)) None C1_UPDATE_DEFAULT_KEY (Local ''/mnt/release''), [Done, Off]),
            (Boot_Call Activate, [])] demo_disk) t' \<and>
      release_intact demo_check C1_UPDATE_DEFAULT_CORE_ROOT C1_UPDATE_DEFAULT_KEY
        (update_run (c1_update_validate_release demo_check C1_UPDATE_DEFAULT_CORE_ROOT C1_UPDATE_DEFAULT_KEY) demo_check
           C1_UPDATE_DEFAULT_STATE_ROOT C1_UPDATE_DEFAULT_CORE_ROOT C1_UPDATE_DEFAULT_STAGING_ROOT
           [(Prepare (\<lambda>p. Some (5000, 4096)) None C1_UPDATE_DEFAULT_KEY (Local ''/mnt/release''), [Done, Off]),
            (Boot_Call Activate, [])] demo_disk) t'"
  by (rule updates_keep_current_release [OF _ demo_intact])
    (simp add: pointer_def pointer_path_def demo_disk_def regular_def file_at_def deployed_paths slash_def)

end
