(* ===== verification/Prepared.thy ===== *)
theory Prepared
  imports Preparation
begin

text \<open>
  What a successful preparation (\<open>update/transaction.c\<close>) leaves behind: the state on disk is PREPARED or
  CONFIRMED with the identity of a signed release, and the release directory holds its manifest, signature
  and every component with the sizes and hashes that the manifest gives.
\<close>

section \<open>A held release\<close>

definition held :: "world \<Rightarrow> string \<Rightarrow> nat \<Rightarrow> string \<Rightarrow> bool" where
  "held w p n h \<longleftrightarrow>
     (\<exists>d. regular_data w p = Some d \<and> length d = n \<and> c1_sha256_hex (c1_sha256 d) = h)"

definition component_held :: "world \<Rightarrow> string \<Rightarrow> c1_update_component \<Rightarrow> bool" where
  "component_held w artifacts c \<longleftrightarrow>
     (\<exists>base. base_name (comp_path c) = Some base \<and>
        held w (artifacts @ ''/'' @ base) (comp_size c) (sha256 c))"

definition release_held :: "world \<Rightarrow> string \<Rightarrow> c1_update_release \<Rightarrow> bool" where
  "release_held w directory r \<longleftrightarrow>
     held w (directory @ ''/manifest.v1'') (length (manifest_data r))
       (c1_sha256_hex (c1_sha256 (manifest_data r))) \<and>
     held w (directory @ ''/manifest.v1.sig'') (length (signature r)) (c1_sha256_hex (c1_sha256 (signature r))) \<and>
     (\<forall>c \<in> set (components (manifest r)). component_held w (directory @ ''/artifacts'') c)"

lemma held_same: "file_at w' p = file_at w p \<Longrightarrow> held w' p n h = held w p n h"
  by (simp add: held_def regular_data_def)

lemma held_files: "same_files w w' \<Longrightarrow> held w' p n h = held w p n h"
  by (rule held_same) (simp add: same_files_def)

lemma release_held_stable:
  assumes "\<And>q. prefix (d @ ''/'') q \<Longrightarrow> \<not> S q"
  shows "stable S (\<lambda>w. release_held w d r)"
  unfolding stable_def
proof (intro allI impI)
  fix w w' assume touch: "touches S w w'" and rel: "release_held w d r"
  have "file_at w' (d @ ''/'' @ x) = file_at w (d @ ''/'' @ x)" for x
    using touch assms by (simp add: touches_def)
  from this [of "''manifest.v1''"] this [of "''manifest.v1.sig''"] this [of "''artifacts/'' @ y" for y] rel
  show "release_held w' d r"
    by (simp add: release_held_def component_held_def held_def regular_data_def)
qed

lemma file_matches_held: "file_matches p n h w = (Some u, w') \<Longrightarrow> held w p n h"
  by (auto simp: file_matches_def act_Some held_def dest!: hash_regular)

lemma for_each_all:
  assumes "for_each f xs w = (Some u, w')" and "\<And>x. framed (\<lambda>q. False) (f x)"
    and "\<And>x v v'. f x v = (Some (), v') \<Longrightarrow> same_files w v \<Longrightarrow> P x"
  shows "\<forall>x \<in> set xs. P x"
  using assms(1,3)
proof (induction xs arbitrary: w)
  case Nil
  then show ?case by simp
next
  case (Cons x xs)
  from Cons.prems(1) obtain v where f: "f x w = (Some (), v)" and rest: "for_each f xs v = (Some u, w')"
    by (auto simp: act_Some)
  have "same_files w v" by (rule framed_same_files [OF assms(2) f])
  then have "\<forall>y \<in> set xs. P y"
    by (intro Cons.IH [OF rest]) (blast intro: Cons.prems(2) same_files_trans)
  moreover have "P x" using Cons.prems(2) [OF f] by simp
  ultimately show ?case by simp
qed

lemma existing_held:
  assumes "existing_release_matches d r dig w = (Some u, w')" and "dig = c1_sha256_hex (c1_sha256 (manifest_data r))"
    and slash: "slash d = d @ ''/''"
  shows "release_held w d r"
proof -
  let ?f = "\<lambda>component.
            bind_act (lift (base_name (comp_path component))) (\<lambda>base.
            bind_act (lift (c1_update_join_path (d @ ''/artifacts'') base)) (\<lambda>path.
            prepared_artifact_matches path (comp_size component) (sha256 component)))"
  from assms(1) obtain a v0 v1 v2 v3 v4 v5 v6 p q x0 where
    a: "c1_update_join_path d ''artifacts'' = Some a"
    and s0: "c1_update_check_trusted_directory d w = (Some x0, v0)"
    and s1: "count_entries d 3 v0 = (Some (), v1)"
    and s2: "c1_update_check_trusted_directory a v1 = (Some (), v2)"
    and s3: "count_entries a 4 v2 = (Some (), v3)"
    and p: "c1_update_join_path d C1_UPDATE_MANIFEST_NAME = Some p"
    and m1: "file_matches p (length (manifest_data r)) dig v3 = (Some (), v4)"
    and q: "c1_update_join_path d C1_UPDATE_SIGNATURE_NAME = Some q"
    and m2: "file_matches q (length (signature r)) (c1_sha256_hex (c1_sha256 (signature r))) v4 = (Some (), v5)"
    and each: "for_each (\<lambda>component.
            bind_act (lift (base_name (comp_path component))) (\<lambda>base.
            bind_act (lift (c1_update_join_path a base)) (\<lambda>path.
            prepared_artifact_matches path (comp_size component) (sha256 component))))
           (components (manifest r)) v5 = (Some u, w')"
    unfolding existing_release_matches_def Let_def act_Some lift_Some
    by (elim exE conjE) (rule that, (simp; fail)+)
  have paths: "a = d @ ''/artifacts''" "p = d @ ''/manifest.v1''" "q = d @ ''/manifest.v1.sig''"
    using update_join_Some [OF a] update_join_Some [OF p] update_join_Some [OF q] slash
    by (simp_all add: C1_UPDATE_MANIFEST_NAME_def C1_UPDATE_SIGNATURE_NAME_def)
  have count: "framed S (count_entries x n)" for S x n
    unfolding count_entries_def by (intro frames)
  note s01 = same_files_trans [OF framed_same_files [OF framed_trusted s0] framed_same_files [OF count s1]]
  note s23 = same_files_trans [OF framed_same_files [OF framed_trusted s2] framed_same_files [OF count s3]]
  note s3 = same_files_trans [OF s01 s23]
  note s4 = same_files_trans [OF s3 framed_same_files [OF framed_file_matches m1]]
  note s5 = same_files_trans [OF s4 framed_same_files [OF framed_file_matches m2]]
  have "\<forall>c \<in> set (components (manifest r)). component_held w (d @ ''/artifacts'') c"
  proof (rule for_each_all [OF each])
    show "framed (\<lambda>q. False) (bind_act (lift (base_name (comp_path x))) (\<lambda>base.
            bind_act (lift (c1_update_join_path a base)) (\<lambda>path.
            prepared_artifact_matches path (comp_size x) (sha256 x))))" for x :: c1_update_component
      unfolding prepared_artifact_matches_def by (intro frames)
    fix x :: c1_update_component and v v'
    assume run: "bind_act (lift (base_name (comp_path x))) (\<lambda>base.
            bind_act (lift (c1_update_join_path a base)) (\<lambda>path.
            prepared_artifact_matches path (comp_size x) (sha256 x))) v = (Some (), v')"
      and v: "same_files v5 v"
    from run obtain base path v1 v2 i where b: "base_name (comp_path x) = Some base"
      and path: "c1_update_join_path a base = Some path" and l: "sys_lstat path v = (Inr i, v1)"
      and m: "file_matches path (comp_size x) (sha256 x) v1 = (Some (), v2)"
      by (auto simp: act_Some lift_Some prepared_artifact_matches_def)
    have "path = d @ ''/artifacts/'' @ base"
      using update_join_Some [OF path] by (simp add: paths slash_def)
    moreover have "same_files w v1" using same_files_trans [OF same_files_trans [OF s5 v]] sys_lstat_success [OF l] by blast
    ultimately show "component_held w (d @ ''/artifacts'') x"
      using file_matches_held [OF m] b by (auto simp: component_held_def held_files)
  qed
  with file_matches_held [OF m1] file_matches_held [OF m2] show ?thesis
    by (simp add: release_held_def paths assms(2) held_files [OF s3] held_files [OF s4])
qed

section \<open>A placed release\<close>

text \<open>Files that are there stay as they are.\<close>

definition grows :: "world \<Rightarrow> world \<Rightarrow> bool" where
  "grows w w' \<longleftrightarrow> (\<forall>p. file_at w p \<noteq> None \<longrightarrow> file_at w' p = file_at w p)"

lemma grows_trans: "grows u v \<Longrightarrow> grows v w \<Longrightarrow> grows u w"
  by (metis grows_def)

lemma grows_same: "same_files w w' \<Longrightarrow> grows w w'"
  by (simp add: grows_def same_files_def)

lemma grows_held: "grows w w' \<Longrightarrow> held w p n h \<Longrightarrow> held w' p n h"
proof -
  assume g: "grows w w'" and h: "held w p n h"
  then have "file_at w p \<noteq> None" by (cases "file_at w p") (auto simp: held_def regular_data_def)
  with g have "file_at w' p = file_at w p" unfolding grows_def by blast
  from held_same [OF this] h show ?thesis by simp
qed

lemma copy_grows:
  assumes "c1_update_copy_file s d n h mode w = (Some (), w')"
  shows "grows w w' \<and> held w' d n h"
proof -
  from copy_file_success [OF assms] obtain content where "length content = n" "c1_sha256_hex (c1_sha256 content) = h"
    and "file_at w d = None" "file_at w' d = Some (written (euid w) mode content)"
    and "\<forall>q. q \<noteq> d \<longrightarrow> file_at w' q = file_at w q" by blast
  moreover from this(3,5) have "grows w w'" unfolding grows_def by metis
  ultimately show ?thesis by (auto simp: held_def regular_data_def written_def)
qed

lemma copy_to_draft_held:
  assumes "copy_to_draft sa a r w = (Some u, w')" and slash: "slash a = a @ ''/''"
  shows "grows w w' \<and> (\<forall>c \<in> set (components (manifest r)). component_held w' a c)"
proof -
  let ?f = "\<lambda>component.
       bind_act (lift (base_name (comp_path component))) (\<lambda>base.
       bind_act (lift (c1_update_join_path sa base)) (\<lambda>from.
       bind_act (lift (c1_update_join_path a base)) (\<lambda>destination.
       then_act (c1_update_copy_file from destination (comp_size component) (sha256 component) 448)
       (file_matches destination (comp_size component) (sha256 component)))))"
  have step: "grows v v' \<and> component_held v' a c" if "?f c v = (Some x, v')" for c v v' x
  proof -
    from that obtain base s p v1 where b: "base_name (comp_path c) = Some base"
      and p: "c1_update_join_path a base = Some p"
      and cp: "c1_update_copy_file s p (comp_size c) (sha256 c) 448 v = (Some (), v1)"
      and m: "file_matches p (comp_size c) (sha256 c) v1 = (Some x, v')"
      by (auto simp: act_Some lift_Some)
    have "p = a @ ''/'' @ base" using update_join_Some [OF p] slash by simp
    moreover have "same_files v1 v'" by (rule framed_same_files [OF framed_file_matches m])
    ultimately show ?thesis
      using copy_grows [OF cp] b grows_trans [OF _ grows_same] by (auto simp: component_held_def held_files)
  qed
  have "for_each ?f cs v = (Some x, v') \<Longrightarrow> grows v v' \<and> (\<forall>c \<in> set cs. component_held v' a c)" for cs v v' x
  proof (induction cs arbitrary: v)
    case Nil
    then show ?case by (simp add: act_Some grows_def)
  next
    case (Cons c cs)
    from Cons.prems obtain y z where f: "?f c v = (Some y, z)" and rest: "for_each ?f cs z = (Some x, v')"
      by (auto simp: then_act_Some)
    from step [OF f] Cons.IH [OF rest] show ?case
      by (auto intro: grows_trans grows_held simp: component_held_def)
  qed
  from this [OF assms(1) [unfolded copy_to_draft_def]] show ?thesis .
qed

lemma atomic_write_held:
  assumes "c1_secure_atomic_write p d mode w = (Some u, w')"
  shows "held w' p (length d) (c1_sha256_hex (c1_sha256 d))"
    and "\<And>q. \<not> under p q \<Longrightarrow> \<not> tmp_of p q \<Longrightarrow> file_at w' q = file_at w q"
  using atomic_write_result [where path = p and data = d and mode = mode and w = w] assms
  by (auto simp: held_def regular_data_def written_def)

lemma metadata_held:
  assumes "write_release_metadata d r w = (Some u, w')" and slash: "slash d = d @ ''/''"
    and "\<forall>c \<in> set (components (manifest r)). component_held w (d @ ''/artifacts'') c"
  shows "release_held w' d r"
proof -
  from assms(1) obtain p q v where p: "c1_update_join_path d C1_UPDATE_MANIFEST_NAME = Some p"
    and w1: "c1_secure_atomic_write p (manifest_data r) 384 w = (Some (), v)"
    and q: "c1_update_join_path d C1_UPDATE_SIGNATURE_NAME = Some q"
    and w2: "c1_secure_atomic_write q (signature r) 384 v = (Some u, w')"
    by (auto simp: write_release_metadata_def act_Some lift_Some)
  have paths: "p = d @ ''/manifest.v1''" "q = d @ ''/manifest.v1.sig''"
    using update_join_Some [OF p] update_join_Some [OF q] slash
    by (simp_all add: C1_UPDATE_MANIFEST_NAME_def C1_UPDATE_SIGNATURE_NAME_def)
  have first: "\<not> under q p" "\<not> tmp_of q p"
    by (auto simp: paths under_iff tmp_of_def tmp_name_def)
  have art: "\<not> under p (d @ ''/artifacts/'' @ x)" "\<not> tmp_of p (d @ ''/artifacts/'' @ x)"
      "\<not> under q (d @ ''/artifacts/'' @ x)" "\<not> tmp_of q (d @ ''/artifacts/'' @ x)" for x
    by (auto simp: paths under_iff tmp_of_def tmp_name_def)
  have "file_at w' (d @ ''/artifacts/'' @ x) = file_at w (d @ ''/artifacts/'' @ x)" for x
    using atomic_write_held(2) [OF w1 art(1,2)] atomic_write_held(2) [OF w2 art(3,4)] by simp
  then have "component_held w' (d @ ''/artifacts'') c" if "component_held w (d @ ''/artifacts'') c" for c
    using that by (auto simp: component_held_def held_def regular_data_def)
  moreover have "held w' p (length (manifest_data r)) (c1_sha256_hex (c1_sha256 (manifest_data r)))"
    using atomic_write_held(1) [OF w1] atomic_write_held(2) [OF w2 first] by (simp add: held_def regular_data_def)
  ultimately show ?thesis
    using atomic_write_held(1) [OF w2] assms(3) by (simp add: release_held_def paths)
qed

lemma rename_held:
  assumes ren: "sys_rename d e w = (Inr (), w')" and ne: "d \<noteq> e" and "release_held w d r"
  shows "release_held w' e r"
proof -
  have "file_at w' (e @ ''/'' @ x) = file_at w (d @ ''/'' @ x)" for x
    using sys_rename_success [OF ren ne] by (simp add: under_def)
  from this [of "''manifest.v1''"] this [of "''manifest.v1.sig''"] this [of "''artifacts/'' @ y" for y] assms(3)
  show ?thesis by (simp add: release_held_def component_held_def held_def regular_data_def)
qed

lemma framed_place:
  assumes d: "\<And>q. prefix (draft_prefix cr) q \<Longrightarrow> S q" and f: "\<And>q. under final q \<Longrightarrow> S q"
  shows "framed S (place_release enough sa (slash cr @ ''releases'') name final r)"
proof -
  have fill: "framed S
      (on_failure
         (bind_act (lift (c1_update_join_path e ''artifacts'')) (\<lambda>draft_artifacts.
          then_act (c1_update_make_directory draft_artifacts 448 False)
          (then_act (copy_to_draft sa draft_artifacts r)
          (then_act (c1_secure_sync_directory draft_artifacts)
          (then_act (write_release_metadata e r)
          (then_act (c1_secure_sync_directory e)
          (then_act (ok (sys_rename e final))
          (c1_secure_sync_directory (slash cr @ ''releases'')))))))))
         (ignore (c1_update_remove_tree e)))"
    if e: "prefix (draft_prefix cr) e" for e
  proof -
    have sub: "S q" if "prefix e q" for q using d e that prefix_order.order_trans by blast
    have inner: "S q" if "c1_update_join_path e ''artifacts'' = Some a" "prefix a q" for a q
    proof (rule sub)
      have "prefix e a" using update_join_Some [OF that(1)] prefix_slash [of e e] by simp
      then show "prefix e q" using that(2) by (rule prefix_order.order_trans)
    qed
    have ren: "framed S (sys_rename e final)"
      by (rule framed_rename) (use sub f prefix_under in blast)+
    show ?thesis
      by (intro framed_on_failure framed_lift_bind framed_then framed_make_directory framed_copy_to_draft
          framed_sync_directory framed_metadata framed_ok ren framed_ignore framed_remove_tree)
        (auto intro: sub inner)
  qed
  show ?thesis
    unfolding place_release_def Let_def
  proof (rule framed_then [OF framed_require], rule framed_bind [OF framed_asks],
      rule framed_then [OF framed_require], rule framed_lift_bind)
    fix k t
    assume t: "c1_update_join_path (slash cr @ ''releases'') (''.new.'' @ name @ ''.'' @ dec k @ ''.XXXXXX'') = Some t"
    have t': "t = (draft_prefix cr @ name @ ''.'' @ dec k @ ''.'') @ ''XXXXXX''"
      using update_join_Some [OF t] by (simp add: draft_prefix_def slash_releases)
    have take: "take (length t - 6) t = draft_prefix cr @ name @ ''.'' @ dec k @ ''.''"
      unfolding t' by (rule template_path) simp
    show "framed S (bind_act (mkdtemp t) (\<lambda>draft. on_failure
         (bind_act (lift (c1_update_join_path draft ''artifacts'')) (\<lambda>draft_artifacts.
          then_act (c1_update_make_directory draft_artifacts 448 False)
          (then_act (copy_to_draft sa draft_artifacts r)
          (then_act (c1_secure_sync_directory draft_artifacts)
          (then_act (write_release_metadata draft r)
          (then_act (c1_secure_sync_directory draft)
          (then_act (ok (sys_rename draft final))
          (c1_secure_sync_directory (slash cr @ ''releases'')))))))))
         (ignore (c1_update_remove_tree draft))))"
      by (rule framed_mkdtemp_bind) (simp_all add: take d fill)
  qed
qed

lemma place_held:
  assumes run: "place_release enough sa (slash cr @ ''releases'') name final r w = (Some u, w')"
    and letters: "letters_ok w" and final: "\<not> prefix (draft_prefix cr) final"
  shows "release_held w' final r"
proof -
  from run obtain w0 w1 w2 w3 w4 w5 w6 w7 w8 t d a x where
    t: "c1_update_join_path (slash cr @ ''releases'') (''.new.'' @ name @ ''.'' @ dec (pid w) @ ''.XXXXXX'') = Some t"
    and d: "mkdtemp t w = (Some d, w1)"
    and a: "c1_update_join_path d ''artifacts'' = Some a"
    and mk: "c1_update_make_directory a 448 False w1 = (Some (), w2)"
    and cp: "copy_to_draft sa a r w2 = (Some (), w3)"
    and s1: "c1_secure_sync_directory a w3 = (Some (), w4)"
    and md: "write_release_metadata d r w4 = (Some (), w5)"
    and s2: "c1_secure_sync_directory d w5 = (Some (), w6)"
    and ren: "sys_rename d final w6 = (Inr (), w7)"
    and s3: "c1_secure_sync_directory (slash cr @ ''releases'') w7 = (Some x, w')"
    by (auto simp: place_release_def Let_def act_Some lift_Some)
  have t': "t = (draft_prefix cr @ name @ ''.'' @ dec (pid w) @ ''.'') @ ''XXXXXX''"
    using update_join_Some [OF t] by (simp add: draft_prefix_def slash_releases)
  have take: "take (length t - 6) t = draft_prefix cr @ name @ ''.'' @ dec (pid w) @ ''.''"
    unfolding t' by (rule template_path) simp
  have d': "d = (draft_prefix cr @ name @ ''.'' @ dec (pid w) @ ''.'') @ suffix w"
    using d by (auto simp: mkdtemp_def Let_def act_Some take)
  have "suffix w \<noteq> []" "list_all is_alnum (suffix w)" using letters by (auto simp: letters_ok_def)
  then have slash: "slash d = d @ ''/''"
    using last_alnum [of "suffix w" "draft_prefix cr @ name @ ''.'' @ dec (pid w) @ ''.''"]
    by (simp add: d')
  have a': "a = d @ ''/artifacts''" using update_join_Some [OF a] slash by simp
  have "slash a = a @ ''/''" by (simp add: a' slash_def)
  from copy_to_draft_held [OF cp this] have
    "\<forall>c \<in> set (components (manifest r)). component_held w3 (d @ ''/artifacts'') c" by (simp add: a')
  then have "\<forall>c \<in> set (components (manifest r)). component_held w4 (d @ ''/artifacts'') c"
    using held_files [OF sync_directory_same [OF s1]] by (simp add: component_held_def)
  from metadata_held [OF md slash this] have "release_held w6 d r"
    using held_files [OF sync_directory_same [OF s2]] by (simp add: release_held_def component_held_def)
  moreover have "d \<noteq> final" using final by (auto simp: d')
  ultimately have "release_held w7 final r" using rename_held ren by blast
  then show ?thesis
    using held_files [OF sync_directory_same [OF s3]] by (simp add: release_held_def component_held_def)
qed

section \<open>The stored state\<close>

definition stored_at :: "string \<Rightarrow> c1_update_state \<Rightarrow> world \<Rightarrow> bool" where
  "stored_at sr s w \<longleftrightarrow> stores sr w s \<and> file_at w sr \<noteq> None \<and> letters_ok w"

lemma relevant_area: "relevant root n q \<Longrightarrow> area root q"
  by (auto simp: relevant_def area_def path_defs)

lemma stored_stable: "(\<And>q. area sr q \<Longrightarrow> \<not> S q) \<Longrightarrow> stable S (stored_at sr s)"
proof -
  assume S: "\<And>q. area sr q \<Longrightarrow> \<not> S q"
  have "stable S (\<lambda>w. file_at w sr \<noteq> None \<and> letters_ok w)"
    using S [of sr] by (auto simp: stable_def touches_def same_process_def letters_ok_def area_def)
  moreover have "stable S (\<lambda>w. stores sr w s)"
    by (rule stores_stable) (use S relevant_area in blast)
  ultimately show ?thesis
    using stable_conj [of S "\<lambda>w. stores sr w s"] by (simp add: stored_at_def [abs_def])
qed

text \<open>Only success is of interest here.\<close>

abbreviation gives :: "(world \<Rightarrow> bool) \<Rightarrow> 'a act \<Rightarrow> ('a \<Rightarrow> world \<Rightarrow> bool) \<Rightarrow> bool" where
  "gives P m Q \<equiv> hoare P m Q (\<lambda>_. True)"

lemma gives_iff: "gives P m Q \<longleftrightarrow> (\<forall>w x w'. P w \<longrightarrow> m w = (Some x, w') \<longrightarrow> Q x w')"
  by (auto simp: hoare_def split: option.splits)

lemma gives_framed: "framed S m \<Longrightarrow> stable S P \<Longrightarrow> gives P m (\<lambda>_. P)"
  by (rule hoare_weaken [OF hoare_keep]) auto

lemma advance_gives:
  assumes seq: "mf_sequence (manifest r) \<le> UINT64_MAX" "mf_security_epoch (manifest r) \<le> UINT64_MAX"
  shows "gives (stored_at sr s) (advance_state sr s ph r dig)
    (\<lambda>s' w. stored_at sr s' w \<and> phase s' = ph \<and> state_identity s' r dig)"
proof (cases "c1_update_transition (Some s) ph (mf_sequence (manifest r)) (mf_security_epoch (manifest r))
      (mf_version (manifest r)) dig False")
  case (Inl e)
  then show ?thesis by (simp add: advance_state_def gives_iff act_Some)
next
  case (Inr t)
  note step = transition_Inr [OF Inr, simplified]
  show ?thesis
    unfolding gives_iff
  proof (intro allI impI)
    fix w s' w' assume st: "stored_at sr s w" and run: "advance_state sr s ph r dig w = (Some s', w')"
    from run Inr have c: "c1_update_state_commit sr s t w = (Some (), w')" and s': "s' = t"
      by (auto simp: advance_state_def act_Some)
    have gen: "generation s \<le> UINT64_MAX" using st by (auto simp: stored_at_def stores_def split: if_splits)
    then have u64: "u64_state t" using step seq by (auto simp: u64_state_def)
    have "rooted sr w" using st by (simp add: stored_at_def rooted_def)
    with hoareD [OF commit_hoare [OF u64, of sr s s] _ c] st have new: "stores sr w' t"
      by (simp add: stored_at_def)
    moreover have "generation t \<noteq> 0" using step by simp
    ultimately have "file_at w' sr \<noteq> None" by (auto simp: stores_def private_at_def split: option.splits)
    moreover have "letters_ok w'"
      using framedD [OF framed_commit c] st
      by (simp add: stored_at_def letters_ok_def touches_def same_process_def)
    ultimately show "stored_at sr s' w' \<and> phase s' = ph \<and> state_identity s' r dig"
      using new step by (simp add: stored_at_def s' state_identity_def)
  qed
qed

lemma gives_conj:
  assumes "gives P m Q" and "framed S m" and "stable S R"
  shows "gives (\<lambda>w. P w \<and> R w) m (\<lambda>x w. Q x w \<and> R w)"
  using assms(1) framedD [OF assms(2)] assms(3) unfolding gives_iff stable_def by blast

lemma gives_bind: "gives P m R \<Longrightarrow> (\<And>x. gives (R x) (k x) Q) \<Longrightarrow> gives P (bind_act m k) Q"
  unfolding gives_iff bind_act_Some by blast

lemma gives_then: "gives P m (\<lambda>_. R) \<Longrightarrow> gives R k Q \<Longrightarrow> gives P (then_act m k) Q"
  unfolding gives_iff then_act_Some by blast

lemma gives_weaken:
  "gives P m Q \<Longrightarrow> (\<And>w. P' w \<Longrightarrow> P w) \<Longrightarrow> (\<And>x w. Q x w \<Longrightarrow> Q' x w) \<Longrightarrow> gives P' m Q'"
  unfolding gives_iff by blast

lemma gives_lift: "(\<And>x. r = Some x \<Longrightarrow> gives P (k x) Q) \<Longrightarrow> gives P (bind_act (lift r) k) Q"
  unfolding gives_iff bind_act_Some lift_Some by blast

lemma gives_require: "(b \<Longrightarrow> gives P k Q) \<Longrightarrow> gives P (then_act (require b) k) Q"
  unfolding gives_iff then_act_Some require_Some by blast

lemma gives_cleanup: "gives P m Q \<Longrightarrow> gives P (on_failure m c) Q"
  unfolding gives_iff on_failure_Some .

lemma gives_stop: "gives P stop Q"
  unfolding gives_iff by (simp add: stop_Some)

lemma gives_finally:
  assumes "gives P m Q" and "framed S c" and "\<And>x. stable S (Q x)"
  shows "gives P (finally_act m c) Q"
  unfolding gives_iff
proof (intro allI impI)
  fix w x w' assume p: "P w" and run: "finally_act m c w = (Some x, w')"
  obtain s v where m: "m w = (s, v)" by (cases "m w")
  obtain u v' where c: "c v = (u, v')" by (cases "c v")
  from run m c have "s = Some x" "w' = v'" by (auto simp: finally_act_def)
  with assms(1) p m have "Q x v" unfolding gives_iff by blast
  moreover have "touches S v v'" using framedD [OF assms(2) c] .
  ultimately show "Q x w'" using assms(3) \<open>w' = v'\<close> unfolding stable_def by blast
qed

section \<open>The whole preparation\<close>

locale layout =
  fixes sr st cr key :: string
  assumes state_core: "apart sr cr" and staging_core: "apart st cr" and state_staging: "apart sr st"
    and key_state: "\<not> area sr key" and key_staging: "\<not> prefix (slash st @ ''.txn.'') key"
    and key_core: "\<not> prefix (slash cr @ ''releases'') key"
begin

abbreviation txn :: "string \<Rightarrow> bool" where
  "txn q \<equiv> prefix (slash st @ ''.txn.'') q"

abbreviation releases_area :: "string \<Rightarrow> bool" where
  "releases_area q \<equiv> prefix (slash cr @ ''releases'') q"

lemma outside: "txn q \<Longrightarrow> \<not> area sr q" "releases_area q \<Longrightarrow> \<not> area sr q" "releases_area q \<Longrightarrow> \<not> txn q"
proof -
  show "txn q \<Longrightarrow> \<not> area sr q" using apart_area [OF state_staging] by (auto simp: prefix_def)
  show "releases_area q \<Longrightarrow> \<not> area sr q" using apart_area [OF state_core] by (auto simp: prefix_def)
  assume r: "releases_area q"
  then have "\<not> area st q" using apart_area [OF staging_core] by (auto simp: prefix_def)
  then show "\<not> txn q" using append_prefixD by (auto simp: area_def)
qed

lemma final_area: "prefix (final_path cr n v) q \<Longrightarrow> releases_area q"
  by (auto simp: final_path_def prefix_def)

lemma held_state: "stable (area sr) (\<lambda>w. release_held w (final_path cr n v) r)"
  by (rule release_held_stable) (use final_area append_prefixD outside in blast)

lemma held_txn: "stable txn (\<lambda>w. release_held w (final_path cr n v) r)"
  by (rule release_held_stable) (use final_area append_prefixD outside in blast)

lemma stored_txn: "stable txn (stored_at sr s)"
  by (rule stored_stable) (use outside in blast)

lemma stored_releases: "stable releases_area (stored_at sr s)"
  by (rule stored_stable) (use outside in blast)

lemma place_area: "framed releases_area (place_release e sa (slash cr @ ''releases'') name (final_path cr n v) r)"
  by (rule framed_place) (auto simp: draft_prefix_def final_path_def prefix_def under_def)

lemma final_not_draft: "\<not> prefix (draft_prefix cr) (final_path cr n v)"
proof -
  obtain c cs where "dec n = c # cs" "is_digit c" using dec_head by blast
  then show ?thesis by (auto simp: draft_prefix_def final_path_def is_digit_byte)
qed

abbreviation completed ::
  "c1_update_release \<Rightarrow> string \<Rightarrow> c1_update_transaction_result \<Rightarrow> world \<Rightarrow> bool" where
  "completed r dig \<equiv> \<lambda>result w. \<exists>s. stored_at sr s w \<and> result = outcome_of s r \<and> state_identity s r dig \<and>
     (phase s = C1_UPDATE_PREPARED \<or> phase s = C1_UPDATE_CONFIRMED) \<and>
     release_held w (final_path cr (mf_sequence (manifest r)) (mf_version (manifest r))) r"

lemma complete_gives:
  assumes seq: "mf_sequence (manifest r) \<le> UINT64_MAX" "mf_security_epoch (manifest r) \<le> UINT64_MAX"
    and config: "state_at config = sr" "core_at config = cr" and sa: "\<And>q. prefix sa q \<Longrightarrow> txn q"
    and final: "final = final_path cr (mf_sequence (manifest r)) (mf_version (manifest r))"
  shows "gives (\<lambda>w. stored_at sr s w \<and> (final_exists \<longrightarrow> release_held w final r))
    (complete_release query config src sa space (slash cr @ ''releases'') name final final_exists r dig s)
    (completed r dig)"
proof -
  let ?H = "\<lambda>w. final_exists \<longrightarrow> release_held w final r"
  have H: "stable S ?H" if "stable S (\<lambda>w. release_held w final r)" for S
    using that by (auto simp: stable_def)
  have acquire: "gives (\<lambda>w. stored_at sr s w \<and> ?H w)
      (if final_exists then ret ()
        else then_act (require (space_ok query config (staging_at config) space))
               (acquire_artifacts src sa r)) (\<lambda>_ w. stored_at sr s w \<and> ?H w)"
  proof (rule gives_framed)
    show "framed txn (if final_exists then ret ()
        else then_act (require (space_ok query config (staging_at config) space))
               (acquire_artifacts src sa r))"
      by (intro framed_if framed_ret framed_then framed_require framed_acquire sa)
    show "stable txn (\<lambda>w. stored_at sr s w \<and> ?H w)"
      by (intro stable_conj stored_txn H) (simp add: final held_txn)
  qed
  have verified: "gives (\<lambda>w. stored_at sr s w \<and> ?H w)
      (if phase s = C1_UPDATE_DOWNLOADING
        then advance_state (state_at config) s C1_UPDATE_VERIFIED r dig else ret s)
      (\<lambda>s' w. stored_at sr s' w \<and> ?H w)"
  proof (cases "phase s = C1_UPDATE_DOWNLOADING")
    case True
    have "stable (area sr) ?H" by (rule H) (simp add: final held_state)
    from gives_conj [OF advance_gives [OF seq] framed_advance this]
    have "gives (\<lambda>w. stored_at sr s w \<and> ?H w) (advance_state sr s C1_UPDATE_VERIFIED r dig)
        (\<lambda>s' w. stored_at sr s' w \<and> ?H w)" by (rule gives_weaken) auto
    with True config show ?thesis by simp
  qed (simp add: gives_iff ret_Some)
  have place: "gives (\<lambda>w. stored_at sr s' w \<and> ?H w)
      (if final_exists then ret ()
         else place_release (space_ok query config (core_at config) space) sa (slash cr @ ''releases'') name final r)
      (\<lambda>_ w. stored_at sr s' w \<and> release_held w final r)" for s'
  proof (cases final_exists)
    case False
    have "gives (stored_at sr s') (place_release e sa (slash cr @ ''releases'') name final r)
        (\<lambda>_ w. stored_at sr s' w \<and> release_held w final r)" for e
      unfolding gives_iff
    proof (intro allI impI)
      fix w u w' assume st: "stored_at sr s' w"
        and run: "place_release e sa (slash cr @ ''releases'') name final r w = (Some u, w')"
      have "stored_at sr s' w'"
        using framedD [OF place_area run [unfolded final]] st stored_releases unfolding stable_def by blast
      moreover have "release_held w' final r"
        using place_held [OF run] st final_not_draft by (simp add: stored_at_def final)
      ultimately show "stored_at sr s' w' \<and> release_held w' final r" by simp
    qed
    with False show ?thesis by simp
  qed (simp add: gives_iff ret_Some)
  have finish: "gives (\<lambda>w. stored_at sr s' w \<and> release_held w final r)
      (bind_act (advance_state (state_at config) s' C1_UPDATE_PREPARED r dig) (\<lambda>state. ret (outcome_of state r)))
      (completed r dig)" for s'
  proof (rule gives_bind)
    show "gives (\<lambda>w. stored_at sr s' w \<and> release_held w final r)
        (advance_state (state_at config) s' C1_UPDATE_PREPARED r dig)
        (\<lambda>t w. (stored_at sr t w \<and> phase t = C1_UPDATE_PREPARED \<and> state_identity t r dig) \<and> release_held w final r)"
      unfolding config(1)
      by (rule gives_conj [OF advance_gives [OF seq] framed_advance]) (simp add: final held_state)
    show "gives (\<lambda>w. (stored_at sr t w \<and> phase t = C1_UPDATE_PREPARED \<and> state_identity t r dig) \<and>
        release_held w final r) (ret (outcome_of t r)) (completed r dig)" for t
      by (auto simp: gives_iff ret_Some final)
  qed
  show ?thesis
    unfolding complete_release_def
    by (rule gives_then [OF acquire], rule gives_bind [OF verified], rule gives_then [OF place], rule finish)
qed

text \<open>What is known of a release that was loaded.\<close>

abbreviation sound :: "c1_update_release \<Rightarrow> bool" where
  "sound r \<equiv> c1_update_parse_manifest (manifest_data r) = Inr (manifest r)"

lemma sound_facts:
  assumes "sound r"
  shows "mf_sequence (manifest r) \<le> UINT64_MAX" "mf_security_epoch (manifest r) \<le> UINT64_MAX"
    and "slash (final_path cr (mf_sequence (manifest r)) (mf_version (manifest r))) =
      final_path cr (mf_sequence (manifest r)) (mf_version (manifest r)) @ ''/''"
proof -
  have m: "manifest_ok (manifest r)" using assms manifest_sound by blast
  then show "mf_sequence (manifest r) \<le> UINT64_MAX" "mf_security_epoch (manifest r) \<le> UINT64_MAX"
    by (auto simp: manifest_ok_def u64_ok_def)
  have "CHR ''/'' \<notin> set (mf_version (manifest r))" "mf_version (manifest r) \<noteq> []"
    using m token_no_slash by (auto simp: manifest_ok_def safe_token_def)
  then have "last (mf_version (manifest r)) \<noteq> CHR ''/''" using last_in_set by metis
  then show "slash (final_path cr (mf_sequence (manifest r)) (mf_version (manifest r))) =
      final_path cr (mf_sequence (manifest r)) (mf_version (manifest r)) @ ''/''"
    using \<open>mf_version (manifest r) \<noteq> []\<close> by (simp add: slash_def final_path_def)
qed

abbreviation final_of :: "c1_update_release \<Rightarrow> string" where
  "final_of r \<equiv> final_path cr (mf_sequence (manifest r)) (mf_version (manifest r))"

lemma existing_gives:
  assumes "sound r"
  shows "gives (stored_at sr s)
    (existing_release_matches (final_of r) r (c1_sha256_hex (c1_sha256 (manifest_data r))))
    (\<lambda>_ w. stored_at sr s w \<and> release_held w (final_of r) r)"
  unfolding gives_iff
proof (intro allI impI)
  fix w u w' assume st: "stored_at sr s w"
    and run: "existing_release_matches (final_of r) r (c1_sha256_hex (c1_sha256 (manifest_data r))) w = (Some u, w')"
  have same: "same_files w w'" by (rule framed_same_files [OF framed_existing run])
  have "stable (\<lambda>q. False) (stored_at sr s)" by (rule stored_stable) simp
  with same st have "stored_at sr s w'" by (rule_tac stable_same_files)
  moreover have "release_held w' (final_of r) r"
    using existing_held [OF run refl sound_facts(3) [OF assms]] held_files [OF same]
    by (simp add: release_held_def component_held_def)
  ultimately show "stored_at sr s w' \<and> release_held w' (final_of r) r" by simp
qed

lemma new_gives:
  assumes r: "sound r" and dig: "dig = c1_sha256_hex (c1_sha256 (manifest_data r))"
    and config: "state_at config = sr" "core_at config = cr" and sa: "\<And>q. prefix sa q \<Longrightarrow> txn q"
    and name: "name = dec (mf_sequence (manifest r)) @ ''-'' @ mf_version (manifest r)"
    and active: "phase s = C1_UPDATE_PREPARED \<Longrightarrow> state_identity s r dig"
  shows "gives (stored_at sr s) (new_release query config src sa space name r dig s) (completed r dig)"
proof -
  have join: "f = final_of r" if "c1_update_join_path (slash cr @ ''releases'') name = Some f" for f
    using update_join_Some [OF that] by (simp add: final_path_def slash_releases name)
  have make: "gives (stored_at sr s) (c1_update_make_directory (slash cr @ ''releases'') 448 True) (\<lambda>_. stored_at sr s)"
    by (rule gives_framed [OF framed_make_directory stored_releases]) simp
  have probing: "gives (stored_at sr s) (probe f) (\<lambda>_. stored_at sr s)" for f
    by (rule gives_framed [OF framed_probe [of "\<lambda>q. False"] stored_stable]) simp
  let ?H = "\<lambda>found w. stored_at sr s w \<and> (found \<longrightarrow> release_held w (final_of r) r)"
  have check: "gives (stored_at sr s)
      (if found = None then ret () else existing_release_matches (final_of r) r dig) (\<lambda>_. ?H (found \<noteq> None))"
    for found :: "inode option"
    using existing_gives [OF r, of s] by (cases found) (auto simp: gives_iff ret_Some dig)
  have ready: "gives (?H found) (then_act (require found) (ret (outcome_of s r))) (completed r dig)"
    if "phase s = C1_UPDATE_PREPARED" for found
    using that active by (auto simp: gives_iff act_Some)
  have go: "gives (?H found) (bind_act (start_state (state_at config) s r dig) (\<lambda>state.
         on_failure
           (complete_release query config src sa space (slash cr @ ''releases'') name (final_of r) found r dig state)
           (fail_state (state_at config) r dig))) (completed r dig)" for found
  proof (rule gives_bind)
    let ?R = "\<lambda>w. found \<longrightarrow> release_held w (final_of r) r"
    have R: "stable (area sr) ?R" using held_state by (auto simp: stable_def)
    have advance: "gives (?H found) (advance_state sr s C1_UPDATE_DOWNLOADING r dig) (\<lambda>t w. stored_at sr t w \<and> ?R w)"
      by (rule gives_weaken [OF gives_conj [OF advance_gives [OF sound_facts(1,2) [OF r]] framed_advance R]]) auto
    have stay: "gives (?H found) (ret s) (\<lambda>t w. stored_at sr t w \<and> ?R w)"
      by (auto simp: gives_iff ret_Some)
    show "gives (?H found) (start_state (state_at config) s r dig) (\<lambda>t w. stored_at sr t w \<and> ?R w)"
      unfolding start_state_def config by (simp only: advance stay gives_stop split: if_split) simp
    show "gives (\<lambda>w. stored_at sr t w \<and> ?R w)
        (on_failure
           (complete_release query config src sa space (slash cr @ ''releases'') name (final_of r) found r dig t)
           (fail_state (state_at config) r dig)) (completed r dig)" for t
      by (rule gives_cleanup [OF complete_gives [OF sound_facts(1,2) [OF r] config sa refl]])
  qed
  show ?thesis
    unfolding new_release_def config(2)
    by (rule gives_lift, drule update_join_Some, elim conjE, simp only:, rule gives_then [OF make],
        rule gives_lift, drule join, simp only:, rule gives_bind [OF probing], rule gives_then [OF check])
      (use ready go in auto)
qed

lemma completed_txn: "stable txn (completed r dig result)"
  using stored_txn held_txn [of "mf_sequence (manifest r)" "mf_version (manifest r)" r]
  unfolding stable_def by blast

lemma confirmed_gives:
  assumes r: "sound r" and dig: "dig = c1_sha256_hex (c1_sha256 (manifest_data r))"
    and config: "core_at config = cr" and name: "name = dec (mf_sequence (manifest r)) @ ''-'' @ mf_version (manifest r)"
    and s: "phase s = C1_UPDATE_CONFIRMED" "state_identity s r dig"
  shows "gives (stored_at sr s) (confirmed_release config name r dig s) (completed r dig)"
proof -
  have join: "f = final_of r" if "c1_update_join_path (slash cr @ ''releases'') name = Some f" for f
    using update_join_Some [OF that] by (simp add: final_path_def slash_releases name)
  have trusted: "gives (stored_at sr s) (c1_update_check_trusted_directory p) (\<lambda>_. stored_at sr s)" for p
    by (rule gives_framed [OF framed_trusted [of "\<lambda>q. False"] stored_stable]) simp
  have finish: "gives (\<lambda>w. stored_at sr s w \<and> release_held w (final_of r) r) (ret (outcome_of s r)) (completed r dig)"
    using s by (auto simp: gives_iff ret_Some)
  show ?thesis
    unfolding confirmed_release_def config
    by (rule gives_lift, drule update_join_Some, elim conjE, simp only:, rule gives_then [OF trusted],
        rule gives_lift, drule join, simp only: dig, rule gives_then [OF existing_gives [OF r]])
      (use finish dig in simp)
qed

lemma process_gives:
  assumes r: "sound r" and dig: "dig = c1_sha256_hex (c1_sha256 (manifest_data r))"
    and config: "state_at config = sr" "core_at config = cr" and sa: "\<And>q. prefix sa q \<Longrightarrow> txn q"
    and transaction: "\<And>q. prefix transaction q \<Longrightarrow> txn q"
  shows "gives (\<lambda>w. file_at w sr \<noteq> None \<and> letters_ok w)
    (process_release query config src transaction sa r) (completed r dig)"
proof -
  let ?P = "\<lambda>w. file_at w sr \<noteq> None \<and> letters_ok w"
  have calm: "stable (\<lambda>q. False) ?P"
    by (auto simp: stable_def touches_def letters_ok_def same_process_def)
  have compat: "gives ?P (c1_update_check_compatibility (manifest r)) (\<lambda>_. ?P)"
    by (rule gives_framed [OF framed_compatibility calm])
  have load: "gives ?P (c1_update_state_load (state_at config)) (\<lambda>s. stored_at sr s)"
    unfolding config gives_iff
  proof (intro allI impI)
    fix w s w' assume p: "?P w" and run: "c1_update_state_load sr w = (Some s, w')"
    from load_sound [OF run] have st: "stores sr w s" and same: "same_files w w'" by auto
    with p show "stored_at sr s w'"
      using same_files_stored [OF same] same_files_letters [OF same]
      by (simp add: stored_at_def same_files_at [OF same])
  qed
  have name: "gives ?P (bind_act (lift (make_name 96 (mf_sequence (manifest r)) (mf_version (manifest r)))) k) Q"
    if "\<And>name. name = dec (mf_sequence (manifest r)) @ ''-'' @ mf_version (manifest r) \<Longrightarrow> gives ?P (k name) Q"
    for k :: "string \<Rightarrow> c1_update_transaction_result act" and Q
    by (rule gives_lift) (use that in \<open>auto simp: make_name_def Let_def split: if_splits\<close>)
  have branch: "gives (stored_at sr s)
       (if generation s \<noteq> 0 \<and>
           (st_sequence s > mf_sequence (manifest r) \<or>
            st_security_epoch s > mf_security_epoch (manifest r)) then stop
        else if generation s \<noteq> 0 \<and> st_sequence s = mf_sequence (manifest r) \<and>
                \<not> state_identity s r dig then stop
        else if phase s = C1_UPDATE_CONFIRMED \<and> state_identity s r dig
        then confirmed_release config name r dig s
        else if phase s \<noteq> C1_UPDATE_IDLE \<and> phase s \<noteq> C1_UPDATE_CONFIRMED \<and>
                \<not> state_identity s r dig then stop
        else new_release query config src sa space name r dig s) (completed r dig)"
    if n: "name = dec (mf_sequence (manifest r)) @ ''-'' @ mf_version (manifest r)" for s name space
  proof -
    have new: "gives (stored_at sr s) (new_release query config src sa space name r dig s) (completed r dig)"
      if "phase s = C1_UPDATE_PREPARED \<Longrightarrow> state_identity s r dig"
      by (rule new_gives [OF r dig config _ n]) (use sa that in auto)
    show ?thesis
      using confirmed_gives [OF r dig config(2) n, where s = s]
        gives_stop [where P = "stored_at sr s" and Q = "completed r dig"]
      by (auto intro!: new)
  qed
  show ?thesis
    unfolding process_release_def Let_def dig [symmetric]
    by (rule gives_finally [OF _ framed_ignore [OF framed_remove_tree [OF transaction]] completed_txn],
        rule gives_then [OF compat], rule gives_lift, rule name, rule gives_bind [OF load], rule branch)
qed

text \<open>Everything that is changed, which leaves the key alone.\<close>

abbreviation touched :: "string \<Rightarrow> bool" where
  "touched q \<equiv> area sr q \<or> txn q \<or> releases_area q"

lemma framed_touched:
  "framed (area sr) m \<Longrightarrow> framed touched m" "framed txn m \<Longrightarrow> framed touched m"
  "framed releases_area m \<Longrightarrow> framed touched m"
  by (auto elim: framed_mono)

lemma framed_finally: "framed S m \<Longrightarrow> framed S c \<Longrightarrow> framed S (finally_act m c)"
  unfolding framed_def finally_act_def by (auto split: prod.splits) (metis snd_conv touches_trans)

lemma complete_framed:
  assumes config: "state_at config = sr" "core_at config = cr" and sa: "\<And>q. prefix sa q \<Longrightarrow> txn q"
  shows "framed touched (complete_release query config src sa space (slash cr @ ''releases'') name
    (final_path cr n v) final_exists r dig s)"
proof -
  have acquire: "framed touched (acquire_artifacts src sa r)"
    by (rule framed_touched(2) [OF framed_acquire [OF sa]])
  show ?thesis
    unfolding complete_release_def config
    by (intro framed_then framed_if framed_ret framed_require acquire framed_bind
        framed_touched(1) [OF framed_advance] framed_touched(3) [OF place_area])
qed

lemma process_framed:
  assumes config: "state_at config = sr" "core_at config = cr" and sa: "\<And>q. prefix sa q \<Longrightarrow> txn q"
    and transaction: "\<And>q. prefix transaction q \<Longrightarrow> txn q"
  shows "framed touched (process_release query config src transaction sa r)"
proof -
  have clean: "framed touched (ignore (c1_update_remove_tree transaction))"
    by (rule framed_touched(2) [OF framed_ignore [OF framed_remove_tree [OF transaction]]])
  have confirmed: "framed touched (confirmed_release config name r d s)" for name d s
    unfolding confirmed_release_def by (intro frames)
  have new: "framed touched (new_release query config src sa space name r d s)"
    if name: "make_name 96 (mf_sequence (manifest r)) (mf_version (manifest r)) = Some name" for space name d s
  proof -
    have join: "f = final_of r" if "c1_update_join_path (slash cr @ ''releases'') name = Some f" for f
      using update_join_Some [OF that] name
      by (auto simp: final_path_def slash_releases make_name_def Let_def split: if_splits)
    have tail: "framed touched (bind_act (probe (final_of r)) (\<lambda>found.
        then_act (if found = None then ret () else existing_release_matches (final_of r) r d)
        (if phase s = C1_UPDATE_PREPARED
         then then_act (require (found \<noteq> None)) (ret (outcome_of s r))
         else
           bind_act (start_state sr s r d) (\<lambda>state.
           on_failure
             (complete_release query config src sa space (slash cr @ ''releases'') name (final_of r)
                (found \<noteq> None) r d state)
             (fail_state sr r d)))))"
      unfolding start_state_def
      by (intro framed_bind framed_probe framed_then framed_if framed_ret framed_existing framed_require
          framed_on_failure framed_stop framed_touched(1) [OF framed_advance] framed_touched(1) [OF framed_fail]
          complete_framed config sa)
    have make: "framed touched (c1_update_make_directory (slash cr @ ''releases'') 448 True)"
      by (rule framed_make_directory) simp
    show ?thesis
      unfolding new_release_def config
      by (rule framed_lift_bind, drule update_join_Some, elim conjE, simp only:, rule framed_then [OF make],
          rule framed_lift_bind, drule join, simp only:, rule tail)
  qed
  show ?thesis
    unfolding process_release_def Let_def
    by (rule framed_finally [OF _ clean], rule framed_then [OF framed_compatibility],
        rule framed_bind [OF framed_lift], rule framed_lift_bind, rule framed_bind [OF framed_load])
      (intro framed_if framed_stop confirmed new)
qed

lemma key_untouched: "\<not> touched key"
  using key_state key_staging key_core by simp

abbreviation authentic :: "signature_check \<Rightarrow> c1_update_release \<Rightarrow> world \<Rightarrow> bool" where
  "authentic verify r w \<equiv> sound r \<and>
     (\<exists>k. regular_data w key = Some k \<and> verify (signature r) (manifest_data r) k)"

lemma authentic_stable: "\<not> S key \<Longrightarrow> stable S (authentic verify r)"
  by (auto simp: stable_def touches_def regular_data_def)

abbreviation prepared ::
  "signature_check \<Rightarrow> c1_update_transaction_result \<Rightarrow> world \<Rightarrow> bool" where
  "prepared verify \<equiv> \<lambda>result w. \<exists>r. authentic verify r w \<and>
     completed r (c1_sha256_hex (c1_sha256 (manifest_data r))) result w"

abbreviation release_from :: "signature_check \<Rightarrow> source \<Rightarrow> string \<Rightarrow> string \<Rightarrow> c1_update_release act" where
  "release_from verify src d k \<equiv>
     (case src of
        Remote net url \<Rightarrow> c1_update_repository_fetch_release net verify url d k
      | Local directory \<Rightarrow> c1_update_repository_load_local verify directory k)"

lemma base_stable:
  assumes "\<not> S sr"
  shows "stable S (\<lambda>w. file_at w sr \<noteq> None \<and> letters_ok w)"
  unfolding stable_def
proof (intro allI impI, elim conjE)
  fix w w' assume t: "touches S w w'" and p: "file_at w sr \<noteq> None" "letters_ok w"
  from t assms have "file_at w' sr = file_at w sr" by (simp add: touches_def)
  with t p show "file_at w' sr \<noteq> None \<and> letters_ok w'"
    by (simp add: touches_def letters_ok_def same_process_def)
qed

lemma prepared_txn: "stable txn (prepared verify result)"
  using authentic_stable [where S = txn and verify = verify, OF key_staging] completed_txn
  unfolding stable_def by blast

lemma transaction_gives:
  assumes config: "state_at config = sr" "core_at config = cr" "key_at config = key"
    and d: "prefix (slash st @ ''.txn.'') d" and slash: "slash d = d @ ''/''"
  shows "gives (\<lambda>w. file_at w sr \<noteq> None \<and> letters_ok w) (finally_act
           (bind_act (release_from verify src d (key_at config)) (\<lambda>r.
            bind_act (lift (c1_update_join_path d ''artifacts'')) (\<lambda>staging_artifacts.
            then_act (c1_update_make_directory staging_artifacts 448 False)
            (then_act
              (case src of Remote net url \<Rightarrow> ret () | Local directory \<Rightarrow> write_release_metadata d r)
            (process_release query config src d staging_artifacts r)))))
           (ignore (c1_update_remove_tree d))) (prepared verify)"
proof -
  let ?P = "\<lambda>w. file_at w sr \<noteq> None \<and> letters_ok w"
  have sub: "txn q" if "prefix d q" for q using prefix_order.order_trans [OF d that] .
  have entry: "txn (slash d @ x)" for x by (rule sub) (simp add: prefix_slash)
  have P: "stable txn ?P" by (rule base_stable) (use outside(1) [of sr] in \<open>auto simp: area_def\<close>)
  have source: "framed txn (release_from verify src d key)"
    by (cases src) (simp_all add: framed_fetch_release framed_load_local entry)
  have loaded: "gives ?P (release_from verify src d key) (\<lambda>r w. ?P w \<and> authentic verify r w)"
    unfolding gives_iff
  proof (intro allI impI)
    fix w r w' assume p: "?P w" and run: "release_from verify src d key w = (Some r, w')"
    have "\<exists>dir. release_stored verify dir key w' r"
    proof (cases src)
      case (Remote net url)
      with run have "c1_update_repository_fetch_release net verify url d key w = (Some r, w')" by simp
      with fetch_stored [of verify d key net url] show ?thesis unfolding yields_def by blast
    next
      case (Local directory)
      with run load_stored [of verify directory key w r w'] show ?thesis by auto
    qed
    then have "authentic verify r w'" by (auto simp: release_stored_def)
    moreover have "?P w'" using framedD [OF source run] P p unfolding stable_def by blast
    ultimately show "?P w' \<and> authentic verify r w'" by simp
  qed
  have rest: "gives (\<lambda>w. ?P w \<and> authentic verify r w)
      (bind_act (lift (c1_update_join_path d ''artifacts'')) (\<lambda>a.
        then_act (c1_update_make_directory a 448 False)
        (then_act
          (case src of Remote net url \<Rightarrow> ret () | Local directory \<Rightarrow> write_release_metadata d r)
        (process_release query config src d a r)))) (prepared verify)" for r
  proof (rule gives_lift)
    fix a assume a: "c1_update_join_path d ''artifacts'' = Some a"
    have inner: "txn q" if "prefix a q" for q
    proof (rule sub)
      have "prefix d a" using update_join_Some [OF a] prefix_slash [of d d] by simp
      then show "prefix d q" using that by (rule prefix_order.order_trans)
    qed
    have both: "stable txn (\<lambda>w. ?P w \<and> authentic verify r w)"
      using stable_conj [OF P authentic_stable [where S = txn, OF key_staging]] by simp
    have make: "framed txn (c1_update_make_directory a 448 False)"
      by (rule framed_make_directory) (rule inner, simp)
    have metadata: "framed txn (case src of Remote net url \<Rightarrow> ret () | Local directory \<Rightarrow> write_release_metadata d r)"
      by (cases src) (simp_all add: framed_ret framed_metadata sub)
    have process: "gives (\<lambda>w. ?P w \<and> authentic verify r w) (process_release query config src d a r) (prepared verify)"
    proof (cases "sound r")
      case True
      have "stable touched (authentic verify r)" by (rule authentic_stable [where S = touched, OF key_untouched])
      from gives_conj [OF process_gives [OF True refl config(1,2) inner sub] process_framed [OF config(1,2) inner sub] this]
      show ?thesis by (rule gives_weaken) auto
    qed (auto simp: gives_iff)
    show "gives (\<lambda>w. ?P w \<and> authentic verify r w) (then_act (c1_update_make_directory a 448 False)
        (then_act
          (case src of Remote net url \<Rightarrow> ret () | Local directory \<Rightarrow> write_release_metadata d r)
        (process_release query config src d a r))) (prepared verify)"
      by (rule gives_then [OF gives_framed [OF make both]], rule gives_then [OF gives_framed [OF metadata both]],
          rule process)
  qed
  show ?thesis
    unfolding config(3)
    by (rule gives_finally [OF gives_bind [OF loaded rest] framed_ignore [OF framed_remove_tree [OF sub]] prepared_txn])
qed

lemma prepare_gives:
  assumes config: "state_at config = sr" "core_at config = cr" "staging_at config = st" "key_at config = key"
  shows "gives letters_ok (prepare_common verify query config src) (prepared verify)"
proof -
  let ?P = "\<lambda>w. file_at w sr \<noteq> None \<and> letters_ok w"
  have valid: "gives letters_ok (validate_config config) (\<lambda>_. ?P)"
    unfolding gives_iff
  proof (intro allI impI)
    fix w u w' assume l: "letters_ok w" and run: "validate_config config w = (Some u, w')"
    from run config obtain v x where t: "c1_update_check_trusted_directory sr v = (Some x, w')"
      by (auto simp: validate_config_def act_Some)
    have "framed (\<lambda>q. False) (validate_config config)" unfolding validate_config_def by (intro frames)
    from framed_same_files [OF this run] l have "letters_ok w'" by (simp add: same_files_letters)
    moreover have "file_at w' sr \<noteq> None"
      using trusted_success [OF t] by (auto simp: is_dir_def same_files_def split: option.splits)
    ultimately show "?P w'" by simp
  qed
  have lock: "gives ?P (c1_update_lock (state_at config)) (\<lambda>_. ?P)"
  proof (rule gives_framed)
    let ?L = "\<lambda>q. q = slash sr @ ''.c1updater.lock''"
    have opened: "framed S (sys_open_lock p)" if "S p" for S p
      using that unfolding sys_open_lock_def
      by (intro framed_faulty) (auto simp: Let_def intro: touches_put split: option.split)
    show "framed ?L (c1_update_lock (state_at config))"
      unfolding config c1_update_lock_def
      by (rule framed_lift_bind, drule update_join_Some, elim conjE, simp only:, intro frames opened refl)
    show "stable ?L ?P"
      by (auto simp: stable_def touches_def letters_ok_def same_process_def)
  qed
  have txn_part: "gives ?P (bind_act (lift (c1_update_join_path (staging_at config) (''.txn.'' @ dec n @ ''.XXXXXX'')))
      (\<lambda>t. bind_act (mkdtemp t) k)) Q"
    if k: "\<And>d. prefix (slash st @ ''.txn.'') d \<Longrightarrow> slash d = d @ ''/'' \<Longrightarrow> gives ?P (k d) Q"
    for n Q and k :: "string \<Rightarrow> c1_update_transaction_result act"
  proof (rule gives_lift)
    fix t assume "c1_update_join_path (staging_at config) (''.txn.'' @ dec n @ ''.XXXXXX'') = Some t"
    then have t: "t = (slash st @ ''.txn.'' @ dec n @ ''.'') @ ''XXXXXX''"
      using update_join_Some by (fastforce simp: config)
    have take: "take (length t - 6) t = slash st @ ''.txn.'' @ dec n @ ''.''"
      unfolding t by (rule template_path) simp
    show "gives ?P (bind_act (mkdtemp t) k) Q"
      unfolding gives_iff bind_act_Some
    proof (intro allI impI, elim exE conjE)
      fix w x w' d v assume p: "file_at w sr \<noteq> None" "letters_ok w" and m: "mkdtemp t w = (Some d, v)" and kd: "k d v = (Some x, w')"
      have d: "d = (slash st @ ''.txn.'' @ dec n @ ''.'') @ suffix w"
        using m by (auto simp: mkdtemp_def Let_def act_Some take)
      then have pre: "prefix (slash st @ ''.txn.'') d" by simp
      have "suffix w \<noteq> []" "list_all is_alnum (suffix w)" using p by (auto simp: letters_ok_def)
      then have sl: "slash d = d @ ''/''"
        using last_alnum [of "suffix w" "slash st @ ''.txn.'' @ dec n @ ''.''"] by (simp add: d)
      have "framed txn (mkdtemp t)" by (rule framed_mkdtemp) (simp add: take)
      moreover have "stable txn ?P"
        by (rule base_stable) (use outside(1) [of sr] in \<open>auto simp: area_def\<close>)
      ultimately have "?P v" using framedD [where m = "mkdtemp t" and r = "Some d", OF _ m] p unfolding stable_def by blast
      with k [OF pre sl] kd show "Q x w'" unfolding gives_iff by blast
    qed
  qed
  have ending: "framed (\<lambda>q. False) (ignore sys_touch)" by (intro frames)
  have kept: "stable (\<lambda>q. False) (prepared verify result)" for result
    using prepared_txn touches_mono [of "\<lambda>q. False" _ _ txn] unfolding stable_def by blast
  have still: "stable (\<lambda>q. False) ?P" by (rule base_stable) simp
  show ?thesis
    unfolding prepare_common_def Let_def
    by (rule gives_then [OF valid], rule gives_then [OF lock], rule gives_finally [OF _ ending kept],
        rule gives_bind [OF gives_framed [OF framed_asks still]], rule gives_require, rule txn_part,
        rule transaction_gives [OF config(1,2,4)])
qed

end

section \<open>The deployed preparation\<close>

interpretation device_layout: layout C1_UPDATE_DEFAULT_STATE_ROOT C1_UPDATE_DEFAULT_STAGING_ROOT
  C1_UPDATE_DEFAULT_CORE_ROOT C1_UPDATE_DEFAULT_KEY
  by unfold_locales
    (simp_all add: apart_def area_def deployed_paths slash_def C1_UPDATE_DEFAULT_STAGING_ROOT_def)

lemma deployed_root_ok: "root_ok C1_UPDATE_DEFAULT_STATE_ROOT"
  by (simp add: root_ok_def deployed_paths)



end
