(* ===== verification/PkgVersion.thy ===== *)
theory PkgVersion
  imports Prelude "HOL-Library.Product_Lexorder"
begin

text \<open>
  Version numbers of packages (the version part of \<open>src/C1ancher/src/pkg/tui_model.c\<close>): the two
  accepted notations, two to four numbers and semantic versions with a prerelease part, and the
  comparison that decides what an update is. The C code works on slices of the text (pointer and
  length); a slice is its string here. The last part gives every version a key in a linear order and
  shows that the comparison is the order of the keys.
\<close>

definition C1PKG_VERSION_MAX :: nat where "C1PKG_VERSION_MAX = 48"

record semver_view =
  major :: string
  minor :: string
  patch :: string
  prerelease :: string

section \<open>Parsing\<close>

definition parse_numeric_component :: "string \<Rightarrow> char option \<Rightarrow> (string \<times> string) option" where
  "parse_numeric_component cursor terminator =
     (let value = takeWhile is_digit cursor; rest = dropWhile is_digit cursor in
      if value = [] \<or> length value > 1 \<and> hd value = CHR ''0'' then None
      else case terminator of
             None \<Rightarrow> Some (value, rest)
           | Some t \<Rightarrow> if rest = [] \<or> hd rest \<noteq> t then None else Some (value, tl rest))"

definition identifier_char :: "char \<Rightarrow> bool" where
  "identifier_char c \<longleftrightarrow> is_alnum c \<or> c = CHR ''-''"

abbreviation dot :: char where "dot \<equiv> CHR ''.''"

function identifiers_valid :: "bool \<Rightarrow> string \<Rightarrow> bool" where
  "identifiers_valid pre value =
     (if value = [] then True
      else
       let identifier = takeWhile (\<lambda>c. c \<noteq> dot) value; rest = dropWhile (\<lambda>c. c \<noteq> dot) value in
       list_all identifier_char identifier \<and> identifier \<noteq> [] \<and>
       \<not> (pre \<and> list_all is_digit identifier \<and> length identifier > 1 \<and> hd identifier = CHR ''0'') \<and>
       (rest = [] \<or> tl rest \<noteq> [] \<and> identifiers_valid pre (tl rest)))"
  by pat_completeness auto
termination
by (relation "measure (\<lambda>(pre, v). length v)") (simp_all add: length_tl_dropWhile)

declare identifiers_valid.simps [simp del]

definition validate_identifiers :: "string \<Rightarrow> bool \<Rightarrow> bool" where
  "validate_identifiers value pre \<longleftrightarrow> value \<noteq> [] \<and> identifiers_valid pre value"

definition parse_semver :: "string \<Rightarrow> semver_view option" where
  "parse_semver value =
     (if value = [] then None else
      Option.bind (parse_numeric_component value (Some dot)) (\<lambda>(ma, c1).
      Option.bind (parse_numeric_component c1 (Some dot)) (\<lambda>(mi, c2).
      Option.bind (parse_numeric_component c2 None) (\<lambda>(pa, c3).
      if c3 \<noteq> [] \<and> hd c3 \<noteq> CHR ''-'' \<and> hd c3 \<noteq> CHR ''+'' then None
      else
        let has_pre = c3 \<noteq> [] \<and> hd c3 = CHR ''-'';
            pre = (if has_pre then takeWhile (\<lambda>c. c \<noteq> CHR ''+'') (tl c3) else []);
            c4 = (if has_pre then dropWhile (\<lambda>c. c \<noteq> CHR ''+'') (tl c3) else c3) in
        if has_pre \<and> \<not> validate_identifiers pre True then None
        else if c4 \<noteq> [] \<and> hd c4 = CHR ''+'' \<and> \<not> validate_identifiers (tl c4) False then None
        else Some \<lparr> major = ma, minor = mi, patch = pa, prerelease = pre \<rparr>))))"

section \<open>Comparing\<close>

text \<open>\<open>memcmp\<close> of two slices of the same length has the sign of \<open>strcmp\<close>.\<close>

definition compare_text_number :: "string \<Rightarrow> string \<Rightarrow> int" where
  "compare_text_number left right =
     (if length left \<noteq> length right then (if length left < length right then -1 else 1)
      else sgn (strcmp left right))"

definition identifier_is_numeric :: "string \<Rightarrow> bool" where
  "identifier_is_numeric value = list_all is_digit value"

definition compare_identifier :: "string \<Rightarrow> string \<Rightarrow> int" where
  "compare_identifier left right =
     (let left_numeric = identifier_is_numeric left; right_numeric = identifier_is_numeric right in
      if left_numeric \<and> right_numeric then compare_text_number left right
      else if left_numeric \<noteq> right_numeric then (if left_numeric then -1 else 1)
      else
        let common = (if length left < length right then length left else length right);
            result = strcmp (take common left) (take common right) in
        if result \<noteq> 0 then (if result < 0 then -1 else 1)
        else if length left < length right then -1
        else if length left > length right then 1 else 0)"

text \<open>The loop of \<open>compare_prerelease\<close>, on what is left of both sides.\<close>

function prerelease_loop :: "string \<Rightarrow> string \<Rightarrow> int" where
  "prerelease_loop left right =
     (if left \<noteq> [] \<and> right \<noteq> [] then
        let result = compare_identifier (takeWhile (\<lambda>c. c \<noteq> dot) left) (takeWhile (\<lambda>c. c \<noteq> dot) right) in
        if result \<noteq> 0 then result
        else prerelease_loop (tl (dropWhile (\<lambda>c. c \<noteq> dot) left)) (tl (dropWhile (\<lambda>c. c \<noteq> dot) right))
      else if left = [] \<and> right = [] then 0
      else if left = [] then -1 else 1)"
  by pat_completeness auto
termination
by (relation "measure (\<lambda>(left, right). length left)") (simp_all add: length_tl_dropWhile)

declare prerelease_loop.simps [simp del]

definition compare_prerelease :: "semver_view \<Rightarrow> semver_view \<Rightarrow> int" where
  "compare_prerelease left right =
     (if prerelease left = [] \<or> prerelease right = [] then
        (if length (prerelease left) = length (prerelease right) then 0
         else if prerelease left = [] then 1 else -1)
      else prerelease_loop (prerelease left) (prerelease right))"

fun version_parts_loop :: "nat \<Rightarrow> string \<Rightarrow> (string list \<times> string) option" where
  "version_parts_loop 0 cursor = Some ([], cursor)"
| "version_parts_loop (Suc room) cursor =
     (if cursor = [] then Some ([], cursor)
      else
        let part = takeWhile is_digit cursor; rest = dropWhile is_digit cursor in
        if part = [] \<or> length part > 1 \<and> hd part = CHR ''0'' then None
        else if rest = [] then Some ([part], [])
        else if hd rest \<noteq> dot \<or> tl rest = [] then None
        else map_option (\<lambda>(parts, r). (part # parts, r)) (version_parts_loop room (tl rest)))"

definition parse_repository_version :: "string \<Rightarrow> string list option" where
  "parse_repository_version value =
     (if length value > C1PKG_VERSION_MAX then None
      else case version_parts_loop 4 value of
             None \<Rightarrow> None
           | Some (parts, cursor) \<Rightarrow>
               if cursor = [] \<and> length parts \<ge> 2
               then Some (parts @ replicate (4 - length parts) ''0'') else None)"

text \<open>Later parts count only while the earlier ones are equal.\<close>

fun first_difference :: "int list \<Rightarrow> int" where
  "first_difference [] = 0"
| "first_difference (r # rs) = (if r = 0 then first_difference rs else r)"

definition c1pkg_version_compare :: "string \<Rightarrow> string \<Rightarrow> int option" where
  "c1pkg_version_compare left right =
     (case (parse_repository_version left, parse_repository_version right) of
        (Some left_parts, Some right_parts) \<Rightarrow>
          Some (first_difference (map2 compare_text_number left_parts right_parts))
      | _ \<Rightarrow>
          (case (parse_semver left, parse_semver right) of
             (Some l, Some r) \<Rightarrow>
               Some (first_difference
                 [compare_text_number (major l) (major r), compare_text_number (minor l) (minor r),
                  compare_text_number (patch l) (patch r), compare_prerelease l r])
           | _ \<Rightarrow> None))"

text \<open>1 is install or update, 0 current, -1 downgrade or unordered.\<close>

definition c1pkg_install_decision :: "string option \<Rightarrow> string option \<Rightarrow> int" where
  "c1pkg_install_decision installed available =
     (case available of
        None \<Rightarrow> -1
      | Some new \<Rightarrow>
          if new = [] then -1
          else case installed of
                 None \<Rightarrow> 1
               | Some old \<Rightarrow>
                   if old = [] then 1
                   else if old = new then 0
                   else case c1pkg_version_compare new old of
                          None \<Rightarrow> -1
                        | Some comparison \<Rightarrow> if comparison > 0 then 1 else if comparison = 0 then 0 else -1)"

section \<open>The order of versions\<close>

text \<open>An identifier of a prerelease: numbers come before words and are compared by value, words by
  their bytes.\<close>

datatype ident = Number nat | Word string

instantiation ident :: linorder
begin

fun less_eq_ident :: "ident \<Rightarrow> ident \<Rightarrow> bool" where
  "less_eq_ident (Number m) (Number n) = (m \<le> n)"
| "less_eq_ident (Number m) (Word t) = True"
| "less_eq_ident (Word s) (Number n) = False"
| "less_eq_ident (Word s) (Word t) = (s \<le> t)"

definition less_ident :: "ident \<Rightarrow> ident \<Rightarrow> bool" where
  "less_ident x y \<longleftrightarrow> x \<le> y \<and> \<not> y \<le> (x::ident)"

instance
proof
  fix x y z :: ident
  show "x < y \<longleftrightarrow> x \<le> y \<and> \<not> y \<le> x" by (simp add: less_ident_def)
  show "x \<le> x" by (cases x) auto
  show "x \<le> y \<Longrightarrow> y \<le> z \<Longrightarrow> x \<le> z" by (cases x; cases y; cases z) auto
  show "x \<le> y \<Longrightarrow> y \<le> x \<Longrightarrow> x = y" by (cases x; cases y) auto
  show "x \<le> y \<or> y \<le> x" by (cases x; cases y) auto
qed

end

lemma less_ident_simps [simp]:
  "Number m < Number n \<longleftrightarrow> m < n" "Number m < Word t" "\<not> Word s < Number n"
  "Word s < Word t \<longleftrightarrow> s < t"
  by (auto simp: less_ident_def)

definition ident_of :: "string \<Rightarrow> ident" where
  "ident_of s = (if list_all is_digit s then Number (num_value s) else Word s)"

definition idents :: "string \<Rightarrow> ident list" where
  "idents p = (if p = [] then [] else map ident_of (split_on dot p))"

text \<open>Numbers first; then a prerelease comes before its release; then the identifiers in order.\<close>

type_synonym version_key = "nat list \<times> bool \<times> ident list"

definition semver_key :: "semver_view \<Rightarrow> version_key" where
  "semver_key v = ([num_value (major v), num_value (minor v), num_value (patch v), 0],
                   prerelease v = [], idents (prerelease v))"

definition version_key :: "string \<Rightarrow> version_key" where
  "version_key t =
     (case parse_repository_version t of
        Some parts \<Rightarrow> (map num_value parts, True, [])
      | None \<Rightarrow> (case parse_semver t of Some v \<Rightarrow> semver_key v | None \<Rightarrow> ([], False, [])))"

definition comparable :: "string \<Rightarrow> string \<Rightarrow> bool" where
  "comparable l r \<longleftrightarrow>
     parse_repository_version l \<noteq> None \<and> parse_repository_version r \<noteq> None \<or>
     parse_semver l \<noteq> None \<and> parse_semver r \<noteq> None"

definition order_sign :: "'a::linorder \<Rightarrow> 'a \<Rightarrow> int" where
  "order_sign x y = (if x < y then -1 else if x = y then 0 else 1)"

lemma order_sign_zero [simp]: "order_sign x y = 0 \<longleftrightarrow> x = y"
  by (simp add: order_sign_def)

lemma order_sign_same [simp]: "order_sign x x = 0"
  by simp

lemma order_sign_Cons:
  "order_sign (x # xs) (y # ys) = (if order_sign x y = 0 then order_sign xs ys else order_sign x y)"
  by (auto simp: order_sign_def)

lemma order_sign_Pair:
  "order_sign (x, u) (y, v) = (if order_sign x y = 0 then order_sign u v else order_sign x y)"
  by (auto simp: order_sign_def less_prod_def)

subsection \<open>Numbers\<close>

lemma num_value_foldl:
  "foldl (\<lambda>a c. 10 * a + (byte c - 48)) k s = k * 10 ^ length s + num_value s"
proof (induction s rule: rev_induct)
  case (snoc c s)
  then show ?case by (simp add: algebra_simps)
qed simp

lemma num_value_Cons: "num_value (c # s) = (byte c - 48) * 10 ^ length s + num_value s"
  using num_value_foldl [of "byte c - 48" s] by (simp add: num_value_def)

lemma num_value_bound: "list_all is_digit s \<Longrightarrow> num_value s < 10 ^ length s"
proof (induction s)
  case (Cons c s)
  then have "byte c - 48 \<le> 9" "num_value s < 10 ^ length s" by (auto simp: is_digit_byte)
  then have "(byte c - 48) * 10 ^ length s + num_value s < 9 * 10 ^ length s + 10 ^ length s"
    by (intro add_le_less_mono mult_right_mono) auto
  then show ?case by (simp add: num_value_Cons)
qed simp

lemma num_value_same_length:
  assumes "length a = length b" and "list_all is_digit a" and "list_all is_digit b"
  shows "order_sign (num_value a) (num_value b) = order_sign a b"
  using assms
proof (induction a b rule: list_induct2)
  case (Cons x xs y ys)
  let ?d = "10 ^ length xs :: nat"
  have digits: "is_digit x" "is_digit y" using Cons.prems by auto
  have less: "num_value xs < ?d" "num_value ys < ?d"
    using Cons num_value_bound [of xs] num_value_bound [of ys] by auto
  have nv: "num_value (x # xs) = (byte x - 48) * ?d + num_value xs"
    "num_value (y # ys) = (byte y - 48) * ?d + num_value ys"
    by (simp_all add: num_value_Cons Cons.hyps)
  have step: "k * ?d + u < l * ?d + v" if "k < l" "u < ?d" for k l u v :: nat
  proof -
    have "k * ?d + u < (k + 1) * ?d" using that by simp
    also have "\<dots> \<le> l * ?d" using that by (intro mult_right_mono) auto
    finally show ?thesis by simp
  qed
  consider "x = y" | "byte x < byte y" | "byte y < byte x"
    by (metis byte_eq_iff nat_neq_iff)
  then show ?case
  proof cases
    case 1
    have "order_sign (k + u) (k + v) = order_sign u v" for k u v :: nat by (simp add: order_sign_def)
    with 1 Cons show ?thesis by (simp add: num_value_Cons order_sign_Cons)
  next
    case 2
    with digits have "byte x - 48 < byte y - 48" by (auto simp: is_digit_byte)
    with step less nv have "num_value (x # xs) < num_value (y # ys)" by simp
    moreover have "x < y" using 2 by (simp add: less_char_def)
    ultimately show ?thesis by (simp add: order_sign_def)
  next
    case 3
    with digits have "byte y - 48 < byte x - 48" by (auto simp: is_digit_byte)
    with step less nv have "num_value (y # ys) < num_value (x # xs)" by simp
    moreover have "y < x" using 3 by (simp add: less_char_def)
    ultimately show ?thesis by (auto simp: order_sign_def)
  qed
qed simp

lemma sgn_strcmp: "sgn (strcmp a b) = order_sign a b"
  by (auto simp: strcmp_def order_sign_def)

lemma canonical_lower: "canonical_number s \<Longrightarrow> 1 < length s \<Longrightarrow> 10 ^ (length s - 1) \<le> num_value s"
proof (cases s)
  case (Cons c t)
  assume "canonical_number s" and "1 < length s"
  with Cons have c: "is_digit c" "c \<noteq> CHR ''0''" by (auto simp: canonical_number_def)
  then have "byte c \<noteq> 48" using byte_eq_iff [of c "CHR ''0''"] by simp
  with c have "1 \<le> byte c - 48" by (auto simp: is_digit_byte)
  then have "1 * 10 ^ length t \<le> (byte c - 48) * 10 ^ length t" by (rule mult_right_mono) simp
  with Cons show ?thesis by (simp add: num_value_Cons trans_le_add1)
qed simp

lemma shorter_less:
  assumes "canonical_number a" and "canonical_number b" and "length a < length b"
  shows "num_value a < num_value b"
proof -
  have "num_value a < 10 ^ length a"
    using assms(1) by (simp add: num_value_bound canonical_number_def)
  also have "\<dots> \<le> 10 ^ (length b - 1)" using assms(3) by (intro power_increasing) auto
  also have "\<dots> \<le> num_value b"
    using assms canonical_lower [OF assms(2)] by (cases "length a") (auto simp: canonical_number_def)
  finally show ?thesis .
qed

lemma compare_text_number_sign:
  assumes "canonical_number a" and "canonical_number b"
  shows "compare_text_number a b = order_sign (num_value a) (num_value b)"
proof (cases "length a = length b")
  case True
  then show ?thesis
    using assms num_value_same_length [of a b]
    by (simp add: compare_text_number_def sgn_strcmp canonical_number_def)
next
  case False
  then show ?thesis
    using shorter_less [of a b] shorter_less [of b a] assms
    by (cases "length a < length b") (auto simp: compare_text_number_def order_sign_def)
qed

subsection \<open>Identifiers\<close>

lemma compare_words:
  "(let common = (if length a < length b then length a else length b);
        result = strcmp (take common a) (take common b) in
    if result \<noteq> 0 then (if result < 0 then -1 else 1)
    else if length a < length b then -1 else if length a > length b then 1 else 0) = order_sign a b"
proof (induction a arbitrary: b)
  case Nil
  then show ?case by (cases b) (auto simp: order_sign_def)
next
  case (Cons x a)
  show ?case
  proof (cases b)
    case Nil
    then show ?thesis by (simp add: order_sign_def)
  next
    case b: (Cons y c)
    show ?thesis
      using Cons.IH [of c] by (auto simp: b Let_def order_sign_def strcmp_def split: if_splits)
  qed
qed

definition identifier_ok :: "string \<Rightarrow> bool" where
  "identifier_ok s \<longleftrightarrow> s \<noteq> [] \<and> (list_all is_digit s \<longrightarrow> canonical_number s)"

lemma compare_identifier_sign:
  "identifier_ok a \<Longrightarrow> identifier_ok b \<Longrightarrow> compare_identifier a b = order_sign (ident_of a) (ident_of b)"
  using compare_words [of a b]
  by (auto simp: compare_identifier_def identifier_is_numeric_def ident_of_def identifier_ok_def
      compare_text_number_sign order_sign_def Let_def)

lemma idents_step:
  assumes "identifiers_valid True p" and "p \<noteq> []"
  defines "i \<equiv> takeWhile (\<lambda>c. c \<noteq> dot) p" and "q \<equiv> tl (dropWhile (\<lambda>c. c \<noteq> dot) p)"
  shows "idents p = ident_of i # idents q \<and> identifier_ok i \<and> identifiers_valid True q"
proof -
  let ?r = "dropWhile (\<lambda>c. c \<noteq> dot) p"
  have "i \<noteq> [] \<and> \<not> (list_all is_digit i \<and> length i > 1 \<and> hd i = CHR ''0'') \<and>
      (?r = [] \<or> q \<noteq> [] \<and> identifiers_valid True q)"
    using assms(1,2) identifiers_valid.simps [of True p] unfolding i_def q_def Let_def by simp
  then have v: "i \<noteq> []" "list_all is_digit i \<longrightarrow> \<not> (length i > 1 \<and> hd i = CHR ''0'')"
    "?r = [] \<or> q \<noteq> [] \<and> identifiers_valid True q" by blast+
  have split: "i @ ?r = p" unfolding i_def by (rule takeWhile_dropWhile_id)
  have no: "dot \<notin> set i" unfolding i_def by (auto dest: set_takeWhileD)
  have ok: "identifier_ok i"
    using v(1,2) by (auto simp: identifier_ok_def canonical_number_def)
      (metis One_nat_def Suc_lessI length_greater_0_conv)
  show ?thesis
  proof (cases "?r = []")
    case True
    have "q = []" by (simp only: q_def True list.sel)
    moreover have "i = p" using split True by (metis append_Nil2)
    ultimately have "q = []" "i = p" by simp_all
    with ok no assms(2) show ?thesis
      by (simp add: idents_def split_on_no_sep identifiers_valid.simps [of True "[]"])
  next
    case False
    have "hd ?r = dot" using hd_dropWhile [OF False] by blast
    then have "?r = dot # q" using False unfolding q_def by (metis list.collapse)
    then have "p = i @ dot # q" using split by metis
    with v(3) False ok no show ?thesis by (simp add: idents_def split_on_append)
  qed
qed

lemma idents_Nil [simp]: "idents [] = []"
  by (simp add: idents_def)

lemma prerelease_loop_sign:
  "identifiers_valid True l \<Longrightarrow> identifiers_valid True r \<Longrightarrow>
   prerelease_loop l r = order_sign (idents l) (idents r)"
proof (induction l r rule: prerelease_loop.induct)
  case (1 l r)
  show ?case
  proof (cases "l \<noteq> [] \<and> r \<noteq> []")
    case True
    let ?i = "takeWhile (\<lambda>c. c \<noteq> dot)" and ?q = "\<lambda>p. tl (dropWhile (\<lambda>c. c \<noteq> dot) p)"
    note l = idents_step [OF 1(2)] and r = idents_step [OF 1(3)]
    from True l r have sign: "compare_identifier (?i l) (?i r) = order_sign (ident_of (?i l)) (ident_of (?i r))"
      by (simp add: compare_identifier_sign)
    have unfold: "prerelease_loop l r = (let result = compare_identifier (?i l) (?i r) in
        if result \<noteq> 0 then result else prerelease_loop (?q l) (?q r))"
      using True by (subst prerelease_loop.simps) simp
    show ?thesis
    proof (cases "compare_identifier (?i l) (?i r) = 0")
      case True
      then have "prerelease_loop (?q l) (?q r) = order_sign (idents (?q l)) (idents (?q r))"
        using 1(1) \<open>l \<noteq> [] \<and> r \<noteq> []\<close> l r by blast
      with True \<open>l \<noteq> [] \<and> r \<noteq> []\<close> l r sign unfold show ?thesis by (simp add: order_sign_Cons)
    next
      case False
      with True l r sign unfold show ?thesis by (simp add: order_sign_Cons Let_def)
    qed
  next
    case False
    then have "prerelease_loop l r = (if l = [] \<and> r = [] then 0 else if l = [] then -1 else 1)"
      by (subst prerelease_loop.simps) auto
    then show ?thesis
      using False idents_step [OF 1(2)] idents_step [OF 1(3)]
      by (cases "l = []"; cases "r = []") (auto simp: order_sign_def)
  qed
qed

subsection \<open>Both notations\<close>

lemma numeric_component_canonical:
  "parse_numeric_component s t = Some (v, r) \<Longrightarrow> canonical_number v"
proof -
  have "list_all is_digit (takeWhile is_digit s)" by (auto simp: list_all_iff dest: set_takeWhileD)
  then show "parse_numeric_component s t = Some (v, r) \<Longrightarrow> canonical_number v"
    by (auto simp: parse_numeric_component_def Let_def canonical_number_def split: if_splits option.splits)
      (metis One_nat_def Suc_lessI length_greater_0_conv)+
qed

lemma semver_parts:
  assumes "parse_semver t = Some v"
  obtains c1 c2 c3 where "parse_numeric_component t (Some dot) = Some (major v, c1)"
    and "parse_numeric_component c1 (Some dot) = Some (minor v, c2)"
    and "parse_numeric_component c2 None = Some (patch v, c3)"
    and "c3 \<noteq> [] \<longrightarrow> hd c3 = CHR ''-'' \<or> hd c3 = CHR ''+''" and "c3 = [] \<longrightarrow> prerelease v = []"
    and "prerelease v = [] \<or> validate_identifiers (prerelease v) True"
proof -
  from assms obtain ma c1 mi c2 pa c3 where
    p: "parse_numeric_component t (Some dot) = Some (ma, c1)"
      "parse_numeric_component c1 (Some dot) = Some (mi, c2)"
      "parse_numeric_component c2 None = Some (pa, c3)"
    and rest: "(if c3 \<noteq> [] \<and> hd c3 \<noteq> CHR ''-'' \<and> hd c3 \<noteq> CHR ''+'' then None
      else
        let has_pre = c3 \<noteq> [] \<and> hd c3 = CHR ''-'';
            pre = (if has_pre then takeWhile (\<lambda>c. c \<noteq> CHR ''+'') (tl c3) else []);
            c4 = (if has_pre then dropWhile (\<lambda>c. c \<noteq> CHR ''+'') (tl c3) else c3) in
        if has_pre \<and> \<not> validate_identifiers pre True then None
        else if c4 \<noteq> [] \<and> hd c4 = CHR ''+'' \<and> \<not> validate_identifiers (tl c4) False then None
        else Some \<lparr> major = ma, minor = mi, patch = pa, prerelease = pre \<rparr>) = Some v"
    unfolding parse_semver_def by (auto simp: bind_eq_Some_conv split: if_split_asm)
  have ends: "c3 \<noteq> [] \<longrightarrow> hd c3 = CHR ''-'' \<or> hd c3 = CHR ''+''"
    using rest by (cases "c3 \<noteq> [] \<and> hd c3 \<noteq> CHR ''-'' \<and> hd c3 \<noteq> CHR ''+''") auto
  with rest obtain pre where v: "v = \<lparr> major = ma, minor = mi, patch = pa, prerelease = pre \<rparr>"
    and pre: "pre = [] \<or> validate_identifiers pre True" and none: "c3 = [] \<longrightarrow> pre = []"
    unfolding Let_def
    by (cases "c3 = []"; cases "hd c3 = CHR ''-''") (fastforce split: if_split_asm)+
  show thesis
    by (rule that [of c1 c2 c3]) (use p ends v pre none in auto)
qed

lemma semver_canonical:
  assumes "parse_semver t = Some v"
  shows "canonical_number (major v) \<and> canonical_number (minor v) \<and>
     canonical_number (patch v) \<and> identifiers_valid True (prerelease v)"
proof -
  have "identifiers_valid True []" by (simp add: identifiers_valid.simps [of True "[]"])
  with assms show ?thesis
    by (elim semver_parts) (auto simp: validate_identifiers_def dest: numeric_component_canonical)
qed

lemma parts_canonical:
  "version_parts_loop n t = Some (ps, r) \<Longrightarrow> (\<forall>p \<in> set ps. canonical_number p) \<and> length ps \<le> n"
proof (induction n t arbitrary: ps r rule: version_parts_loop.induct)
  case (2 n t)
  let ?p = "takeWhile is_digit t"
  have digits: "list_all is_digit ?p" by (auto simp: list_all_iff dest: set_takeWhileD)
  have p: "canonical_number ?p" if "?p \<noteq> []" "length ?p > 1 \<longrightarrow> hd ?p \<noteq> CHR ''0''"
    using that digits by (auto simp: canonical_number_def)
      (metis One_nat_def Suc_lessI length_greater_0_conv)
  from 2 p show ?case by (fastforce simp: Let_def split: if_splits)
qed simp

lemma canonical_zero: "canonical_number ''0''"
  by (simp add: canonical_number_def is_digit_def)

lemma repository_canonical:
  "parse_repository_version t = Some ps \<Longrightarrow> length ps = 4 \<and> (\<forall>p \<in> set ps. canonical_number p)"
  using parts_canonical [of 4 t] canonical_zero
  by (auto simp: parse_repository_version_def split: if_splits option.splits)

lemma notations_agree:
  assumes "parse_repository_version t = Some ps" and "parse_semver t = Some v"
  shows "(map num_value ps, True, []) = semver_key v"
proof -
  from assms(2) obtain c1 c2 c3 where
    a: "parse_numeric_component t (Some dot) = Some (major v, c1)"
    and b: "parse_numeric_component c1 (Some dot) = Some (minor v, c2)"
    and c: "parse_numeric_component c2 None = Some (patch v, c3)"
    and d: "c3 \<noteq> [] \<longrightarrow> hd c3 = CHR ''-'' \<or> hd c3 = CHR ''+''" and e: "c3 = [] \<longrightarrow> prerelease v = []"
    by (elim semver_parts)
  have four: "4 = Suc (Suc (Suc (Suc 0)))" by simp
  from assms(1) obtain qs where "version_parts_loop 4 t = Some (qs, [])"
    "ps = qs @ replicate (4 - length qs) ''0''"
    by (auto simp: parse_repository_version_def split: option.splits if_splits)
  moreover from a b c d calculation(1) have "c3 = []" "qs = [major v, minor v, patch v]"
    by (auto simp: four parse_numeric_component_def Let_def split: if_splits)
  ultimately show ?thesis using e by (simp add: semver_key_def)
qed

lemma version_key_semver: "parse_semver t = Some v \<Longrightarrow> version_key t = semver_key v"
  by (cases "parse_repository_version t") (auto simp: version_key_def notations_agree)

lemma first_difference_sign:
  "length ps = length qs \<Longrightarrow> \<forall>p \<in> set ps \<union> set qs. canonical_number p \<Longrightarrow>
   first_difference (map2 compare_text_number ps qs) = order_sign (map num_value ps) (map num_value qs)"
proof (induction ps qs rule: list_induct2)
  case Nil
  then show ?case by simp
next
  case (Cons p ps q qs)
  then show ?case by (simp add: order_sign_Cons compare_text_number_sign)
qed

lemma compare_prerelease_sign:
  assumes "identifiers_valid True (prerelease l)" and "identifiers_valid True (prerelease r)"
  shows "compare_prerelease l r =
    order_sign (prerelease l = [], idents (prerelease l)) (prerelease r = [], idents (prerelease r))"
  using prerelease_loop_sign [OF assms]
  by (auto simp: compare_prerelease_def order_sign_Pair) (auto simp: order_sign_def)

lemma semver_sign:
  assumes "parse_semver a = Some l" and "parse_semver b = Some r"
  shows "first_difference
           [compare_text_number (major l) (major r), compare_text_number (minor l) (minor r),
            compare_text_number (patch l) (patch r), compare_prerelease l r]
         = order_sign (semver_key l) (semver_key r)"
  using semver_canonical [OF assms(1)] semver_canonical [OF assms(2)]
  by (simp add: compare_text_number_sign compare_prerelease_sign semver_key_def order_sign_Cons
      order_sign_Pair [of "_ # _"]) 

lemma version_compare_sign:
  "c1pkg_version_compare l r =
     (if comparable l r then Some (order_sign (version_key l) (version_key r)) else None)"
proof (cases "parse_repository_version l \<noteq> None \<and> parse_repository_version r \<noteq> None")
  case True
  then obtain ps qs where p: "parse_repository_version l = Some ps" "parse_repository_version r = Some qs"
    by blast
  have "first_difference (map2 compare_text_number ps qs) = order_sign (map num_value ps) (map num_value qs)"
    using repository_canonical [OF p(1)] repository_canonical [OF p(2)]
    by (intro first_difference_sign) auto
  with p show ?thesis
    by (simp add: c1pkg_version_compare_def comparable_def version_key_def order_sign_Pair)
next
  case False
  then have other: "c1pkg_version_compare l r =
      (case (parse_semver l, parse_semver r) of
         (Some x, Some y) \<Rightarrow> Some (order_sign (semver_key x) (semver_key y)) | _ \<Rightarrow> None)"
    by (auto simp: c1pkg_version_compare_def semver_sign simp del: first_difference.simps split: option.split)
  with False show ?thesis
    by (auto simp: comparable_def version_key_semver split: option.split)
qed

text \<open>C19. The comparison of package versions is a linear order. It is defined exactly on two versions of
  the same notation (two to four numbers, or semantic versions), and there it is the comparison of
  their keys in a linearly ordered type: the numbers by value, then a prerelease before its release,
  then the prerelease identifiers, numbers by value before words by bytes. So it is reflexive,
  antisymmetric up to equal keys and transitive, and no two updates form a cycle.\<close>

theorem version_compare_order:
  "c1pkg_version_compare l r =
     (if comparable l r then Some (order_sign (version_key l) (version_key r)) else None)"
  by (rule version_compare_sign)

text \<open>An installed package is replaced only by a strictly newer version. The decision is to install
  exactly when nothing is installed, or the offered version is comparable with the installed one and
  has a strictly larger key; the same or an equal version is current; everything else, a downgrade
  or an unordered pair, is refused.\<close>

lemma install_decision_exact:
  "c1pkg_install_decision installed (Some new) =
     (if new = [] then -1
      else if installed = None \<or> installed = Some [] then 1
      else if installed = Some new then 0
      else if \<not> comparable new (the installed) then -1
      else if version_key (the installed) < version_key new then 1
      else if version_key (the installed) = version_key new then 0 else -1)"
  by (auto simp: c1pkg_install_decision_def version_compare_sign order_sign_def split: option.split)

end
