(* ===== verification/PkgModel.thy ===== *)
theory PkgModel
  imports PkgVersion "HOL-Library.Sublist"
begin

text \<open>
  The input and list model of the package manager (the rest of \<open>src/C1ancher/src/pkg/tui_model.c\<close>,
  records of \<open>pkg.h\<close>): terminal keys with their escape sequences, the typed name prefix with its
  time limit and its matching, and the merged list of repository and installed packages.
\<close>

definition C1PKG_NAME_MAX :: nat where "C1PKG_NAME_MAX = 40"
definition C1PKG_MAX_PACKAGES :: nat where "C1PKG_MAX_PACKAGES = 128"
definition C1PKG_MAX_DOWNLOAD_ITEMS :: nat where "C1PKG_MAX_DOWNLOAD_ITEMS = C1PKG_MAX_PACKAGES * 2"
definition C1PKG_PACKAGE_NONE :: nat where "C1PKG_PACKAGE_NONE = C1PKG_MAX_PACKAGES"
definition C1PKG_PREFIX_TIMEOUT_MS :: nat where "C1PKG_PREFIX_TIMEOUT_MS = 1500"

section \<open>Terminal keys\<close>

text \<open>A key is the byte itself, or a command code from 256 on.\<close>

definition C1PKG_KEY_NONE :: nat where "C1PKG_KEY_NONE = 256"
definition C1PKG_KEY_UP :: nat where "C1PKG_KEY_UP = 257"
definition C1PKG_KEY_DOWN :: nat where "C1PKG_KEY_DOWN = 258"
definition C1PKG_KEY_LEFT :: nat where "C1PKG_KEY_LEFT = 259"
definition C1PKG_KEY_RIGHT :: nat where "C1PKG_KEY_RIGHT = 260"
definition C1PKG_KEY_ENTER :: nat where "C1PKG_KEY_ENTER = 261"
definition C1PKG_KEY_BACK :: nat where "C1PKG_KEY_BACK = 262"
definition C1PKG_KEY_REFRESH :: nat where "C1PKG_KEY_REFRESH = 263"
definition C1PKG_KEY_ERASE :: nat where "C1PKG_KEY_ERASE = 264"
definition C1PKG_KEY_CLEAR :: nat where "C1PKG_KEY_CLEAR = 265"
definition C1PKG_KEY_EOF :: nat where "C1PKG_KEY_EOF = 266"
definition C1PKG_KEY_QUIT :: nat where "C1PKG_KEY_QUIT = 267"

lemmas key_codes = C1PKG_KEY_NONE_def C1PKG_KEY_UP_def C1PKG_KEY_DOWN_def C1PKG_KEY_LEFT_def
  C1PKG_KEY_RIGHT_def C1PKG_KEY_ENTER_def C1PKG_KEY_BACK_def C1PKG_KEY_REFRESH_def
  C1PKG_KEY_ERASE_def C1PKG_KEY_CLEAR_def C1PKG_KEY_EOF_def C1PKG_KEY_QUIT_def

text \<open>What one \<open>poll\<close> and the \<open>read\<close> after it meet: a byte; an end of file or a failing read; an event
  without data; the time limit; an interrupted or a failing \<open>poll\<close>. A terminal is the list of what is
  to come, and quiet after that.\<close>

datatype arrival = Byte char | Closed | Hangup | Quiet | Interrupted | Broken

fun sys_poll :: "arrival list \<Rightarrow> arrival \<times> arrival list" where
  "sys_poll [] = (Quiet, [])"
| "sys_poll (a # as) = (a, as)"

text \<open>The rest of an escape sequence, through its final byte.\<close>

fun escape_bytes :: "nat \<Rightarrow> arrival list \<Rightarrow> nat list \<times> arrival list" where
  "escape_bytes 0 as = ([], as)"
| "escape_bytes (Suc room) as =
     (case sys_poll as of
        (Byte c, as') \<Rightarrow>
          if 64 \<le> byte c \<and> byte c \<le> 126 then ([byte c], as')
          else (case escape_bytes room as' of (bs, r) \<Rightarrow> (byte c # bs, r))
      | (a, as') \<Rightarrow> ([], as'))"

definition escape_key :: "nat list \<Rightarrow> nat" where
  "escape_key sequence =
     (if sequence = [65] then C1PKG_KEY_UP
      else if sequence = [66] then C1PKG_KEY_DOWN
      else if sequence = [67] then C1PKG_KEY_RIGHT
      else if sequence = [68] then C1PKG_KEY_LEFT
      else if sequence = [53, 126] then C1PKG_KEY_LEFT
      else if sequence = [54, 126] then C1PKG_KEY_RIGHT
      else C1PKG_KEY_NONE)"

definition plain_key :: "nat \<Rightarrow> nat" where
  "plain_key b =
     (if b = 13 \<or> b = 10 then C1PKG_KEY_ENTER
      else if b = 32 then C1PKG_KEY_REFRESH
      else if b = 8 \<or> b = 127 then C1PKG_KEY_ERASE
      else if b = 21 then C1PKG_KEY_CLEAR
      else if b = 3 then C1PKG_KEY_QUIT
      else if b \<ge> 33 then b else C1PKG_KEY_NONE)"

definition c1pkg_input_read :: "arrival list \<Rightarrow> nat \<times> arrival list" where
  "c1pkg_input_read as =
     (case sys_poll as of
        (Interrupted, as1) \<Rightarrow> (C1PKG_KEY_NONE, as1)
      | (Quiet, as1) \<Rightarrow> (C1PKG_KEY_NONE, as1)
      | (Byte b, as1) \<Rightarrow>
          if byte b = 27 then
            (case sys_poll as1 of
               (Byte c, as2) \<Rightarrow>
                 if byte c \<noteq> 91 \<and> byte c \<noteq> 79 then (C1PKG_KEY_NONE, as2)
                 else (case escape_bytes 16 as2 of (sequence, as3) \<Rightarrow> (escape_key sequence, as3))
             | (a, as2) \<Rightarrow> (C1PKG_KEY_BACK, as2))
          else (plain_key (byte b), as1)
      | (a, as1) \<Rightarrow> (C1PKG_KEY_EOF, as1))"

section \<open>The typed prefix\<close>

record c1pkg_prefix =
  prefix_text :: string
  updated_ms :: nat

definition c1pkg_prefix_clear :: "c1pkg_prefix \<Rightarrow> c1pkg_prefix" where
  "c1pkg_prefix_clear p = p\<lparr> prefix_text := [], updated_ms := 0 \<rparr>"

definition c1pkg_prefix_expire :: "c1pkg_prefix \<Rightarrow> nat \<Rightarrow> c1pkg_prefix \<times> bool" where
  "c1pkg_prefix_expire p now_ms =
     (if prefix_text p \<noteq> [] \<and>
         (now_ms < updated_ms p \<or> now_ms - updated_ms p \<ge> C1PKG_PREFIX_TIMEOUT_MS)
      then (c1pkg_prefix_clear p, True) else (p, False))"

text \<open>The byte of a key with upper case letters made lower case.\<close>

definition lower_byte :: "nat \<Rightarrow> nat" where
  "lower_byte key = (if 65 \<le> key \<and> key \<le> 90 then key + 32 else key)"

definition c1pkg_prefix_input :: "c1pkg_prefix \<Rightarrow> nat \<Rightarrow> nat \<Rightarrow> c1pkg_prefix \<times> bool" where
  "c1pkg_prefix_input p key now_ms =
     (if key \<noteq> C1PKG_KEY_ERASE \<and> key \<noteq> C1PKG_KEY_CLEAR \<and> (key < 33 \<or> key > 126) then (p, False)
      else
        let q = fst (c1pkg_prefix_expire p now_ms); text = prefix_text q;
            r = (if key = C1PKG_KEY_ERASE then q\<lparr> prefix_text := take (length text - 1) text \<rparr>
                 else if key = C1PKG_KEY_CLEAR then c1pkg_prefix_clear q
                 else if length text < C1PKG_NAME_MAX
                 then q\<lparr> prefix_text := text @ [char_of (lower_byte key)] \<rparr> else q)
        in (r\<lparr> updated_ms := now_ms \<rparr>, True))"

fun starts_with_ascii :: "string \<Rightarrow> string \<Rightarrow> bool" where
  "starts_with_ascii v [] = True"
| "starts_with_ascii [] (p # ps) = False"
| "starts_with_ascii (c # v) (p # ps) = (lower_byte (byte c) = byte p \<and> starts_with_ascii v ps)"

text \<open>A missing name or identifier matches nothing.\<close>

definition starts_with :: "string option \<Rightarrow> string \<Rightarrow> bool" where
  "starts_with v p = (case v of None \<Rightarrow> False | Some s \<Rightarrow> starts_with_ascii s p)"

definition c1pkg_prefix_match_rank :: "c1pkg_prefix \<Rightarrow> string option \<Rightarrow> string option \<Rightarrow> nat" where
  "c1pkg_prefix_match_rank p name pid =
     (let n = length (prefix_text p) in
      if n = 0 then 0
      else
        let id_matches = starts_with pid (prefix_text p); name_matches = starts_with name (prefix_text p) in
        if id_matches \<and> length (the pid) = n then 3
        else if name_matches \<and> length (the name) = n then 2
        else if id_matches \<or> name_matches then 1 else 0)"

definition c1pkg_prefix_matches :: "c1pkg_prefix \<Rightarrow> string option \<Rightarrow> string option \<Rightarrow> bool" where
  "c1pkg_prefix_matches p name pid \<longleftrightarrow> c1pkg_prefix_match_rank p name pid \<noteq> 0"

section \<open>Packages\<close>

record c1pkg_package =
  pkg_id :: string
  pkg_version :: string
  pkg_name :: string
  pkg_author :: string
  pkg_archive :: string
  pkg_entry :: string
  pkg_sha256 :: string
  pkg_size :: nat

record c1pkg_index =
  index_sequence :: nat
  packages :: "c1pkg_package list"

record c1pkg_installed =
  inst_id :: string
  inst_version :: string

datatype c1pkg_download_status =
    C1PKG_DOWNLOAD_NOT_INSTALLED | C1PKG_DOWNLOAD_CURRENT | C1PKG_DOWNLOAD_UPDATE_AVAILABLE
  | C1PKG_DOWNLOAD_INSTALLED_NEWER | C1PKG_DOWNLOAD_VERSION_UNKNOWN | C1PKG_DOWNLOAD_REMOVED

record c1pkg_download_item =
  item_id :: string
  item_name :: string
  item_author :: string
  installed_version :: string
  available_version :: string
  package_index :: nat
  item_status :: c1pkg_download_status

definition installed_status :: "string \<Rightarrow> string \<Rightarrow> c1pkg_download_status" where
  "installed_status installed available =
     (if installed = available then C1PKG_DOWNLOAD_CURRENT
      else case c1pkg_version_compare available installed of
             None \<Rightarrow> C1PKG_DOWNLOAD_VERSION_UNKNOWN
           | Some comparison \<Rightarrow>
               if comparison = 0 then C1PKG_DOWNLOAD_CURRENT
               else if comparison > 0 then C1PKG_DOWNLOAD_UPDATE_AVAILABLE
               else C1PKG_DOWNLOAD_INSTALLED_NEWER)"

definition add_repository_item ::
  "c1pkg_package \<Rightarrow> nat \<Rightarrow> c1pkg_installed option \<Rightarrow> c1pkg_download_item" where
  "add_repository_item p i installed =
     \<lparr> item_id = pkg_id p, item_name = pkg_name p,
       item_author = (if pkg_author p \<noteq> [] then pkg_author p else ''Unknown''),
       installed_version = (case installed of None \<Rightarrow> [] | Some x \<Rightarrow> inst_version x),
       available_version = pkg_version p, package_index = i,
       item_status = (case installed of None \<Rightarrow> C1PKG_DOWNLOAD_NOT_INSTALLED
                      | Some x \<Rightarrow> installed_status (inst_version x) (pkg_version p)) \<rparr>"

definition add_removed_item :: "c1pkg_installed \<Rightarrow> c1pkg_download_item" where
  "add_removed_item x =
     \<lparr> item_id = inst_id x, item_name = inst_id x, item_author = ''Unknown'',
       installed_version = inst_version x, available_version = [],
       package_index = C1PKG_PACKAGE_NONE, item_status = C1PKG_DOWNLOAD_REMOVED \<rparr>"

text \<open>The loop of \<open>c1pkg_download_list_build\<close>: items so far, index of the next package, what is left of
  both lists.\<close>

function download_loop ::
  "nat \<Rightarrow> nat \<Rightarrow> c1pkg_package list \<Rightarrow> c1pkg_installed list \<Rightarrow> c1pkg_download_item list option" where
  "download_loop count i ps xs =
     (if ps = [] \<and> xs = [] then Some []
      else if count \<ge> C1PKG_MAX_DOWNLOAD_ITEMS then None
      else if ps = [] then
        map_option (Cons (add_removed_item (hd xs))) (download_loop (count + 1) i ps (tl xs))
      else if xs = [] then
        map_option (Cons (add_repository_item (hd ps) i None)) (download_loop (count + 1) (i + 1) (tl ps) xs)
      else
        let order = strcmp (pkg_id (hd ps)) (inst_id (hd xs)) in
        if order < 0 then
          map_option (Cons (add_repository_item (hd ps) i None)) (download_loop (count + 1) (i + 1) (tl ps) xs)
        else if order > 0 then
          map_option (Cons (add_removed_item (hd xs))) (download_loop (count + 1) i ps (tl xs))
        else
          map_option (Cons (add_repository_item (hd ps) i (Some (hd xs))))
            (download_loop (count + 1) (i + 1) (tl ps) (tl xs)))"
  by pat_completeness auto
termination
  by (relation "measure (\<lambda>(count, i, ps, xs). length ps + length xs)") (auto simp: neq_Nil_conv)

declare download_loop.simps [simp del]

definition c1pkg_download_list_build ::
  "c1pkg_index \<Rightarrow> c1pkg_installed list \<Rightarrow> c1pkg_download_item list option" where
  "c1pkg_download_list_build index installed = download_loop 0 0 (packages index) installed"

section \<open>Keys\<close>

lemma escape_bytes_suffix: "suffix (snd (escape_bytes n as)) as"
proof (induction n as rule: escape_bytes.induct)
  case (2 n as)
  show ?case
  proof (cases as)
    case (Cons a bs)
    then show ?thesis
      using 2 by (cases a) (auto simp: suffix_ConsI split: prod.splits)
  qed simp
qed simp

lemma escape_bytes_whole:
  assumes "list_all (\<lambda>c. \<not> (64 \<le> byte c \<and> byte c \<le> 126)) ps" and "64 \<le> byte f" and "byte f \<le> 126"
    and "length ps < n"
  shows "escape_bytes n (map Byte (ps @ [f]) @ rest) = (map byte (ps @ [f]), rest)"
  using assms
proof (induction ps arbitrary: n)
  case Nil
  then show ?case by (cases n) auto
next
  case (Cons p ps)
  then obtain m where "n = Suc m" by (cases n) auto
  with Cons show ?case by simp
qed

lemma command_codes: "256 \<le> escape_key s" "plain_key b < 256 \<Longrightarrow> plain_key b = b \<and> 33 \<le> b \<and> b \<noteq> 127"
  by (auto simp: escape_key_def plain_key_def key_codes split: if_splits)



section \<open>The prefix\<close>

definition lower_char :: "char \<Rightarrow> char" where
  "lower_char c = char_of (lower_byte (byte c))"

lemma byte_lower [simp]: "byte (lower_char c) = lower_byte (byte c)"
  using byte_less_256 [of c] by (simp add: lower_char_def lower_byte_def)

lemma starts_with_prefix: "starts_with_ascii v p \<longleftrightarrow> prefix p (map lower_char v)"
proof (induction v p rule: starts_with_ascii.induct)
  case (3 c v p ps)
  have "lower_byte (byte c) = byte p \<longleftrightarrow> p = lower_char c"
    using byte_eq_iff [of "lower_char c" p] by auto
  with 3 show ?case by simp
qed auto

definition lowered :: "string option \<Rightarrow> string set" where
  "lowered v = (case v of None \<Rightarrow> {} | Some s \<Rightarrow> {map lower_char s})"

lemma starts_with_lowered: "starts_with v p \<longleftrightarrow> (\<exists>s \<in> lowered v. prefix p s)"
  by (simp add: starts_with_def lowered_def starts_with_prefix split: option.split)

lemma whole_lowered:
  "starts_with v p \<and> length (the v) = length p \<longleftrightarrow> p \<in> lowered v"
proof -
  have "prefix p (map lower_char s) \<and> length s = length p \<longleftrightarrow> p = map lower_char s" for s
    by (auto simp: prefix_def) (metis append_eq_append_conv append_Nil2 length_map)
  then show ?thesis
    by (simp add: starts_with_def lowered_def starts_with_prefix split: option.split)
qed

text \<open>Matching is by the lower-case text: an identifier equal to the prefix ranks above a name equal
  to it, which ranks above a mere beginning of either; an empty prefix and a missing text match
  nothing.\<close>

lemma match_rank_exact:
  "c1pkg_prefix_match_rank p name pid =
     (if prefix_text p = [] then 0
      else if prefix_text p \<in> lowered pid then 3
      else if prefix_text p \<in> lowered name then 2
      else if \<exists>s \<in> lowered pid \<union> lowered name. prefix (prefix_text p) s then 1 else 0)"
  using whole_lowered [of pid "prefix_text p"] whole_lowered [of name "prefix_text p"]
  by (auto simp: c1pkg_prefix_match_rank_def Let_def starts_with_lowered)

definition prefix_ok :: "c1pkg_prefix \<Rightarrow> bool" where
  "prefix_ok p \<longleftrightarrow> length (prefix_text p) \<le> C1PKG_NAME_MAX \<and>
     list_all (\<lambda>c. 33 \<le> byte c \<and> byte c \<le> 126 \<and> \<not> is_upper c) (prefix_text p)"

lemma prefix_input_ok: "prefix_ok p \<Longrightarrow> prefix_ok (fst (c1pkg_prefix_input p key now))"
  by (auto simp: prefix_ok_def c1pkg_prefix_input_def c1pkg_prefix_expire_def c1pkg_prefix_clear_def Let_def
      lower_byte_def is_upper_def less_eq_char_def key_codes list_all_iff dest: in_set_takeD)

text \<open>A run of timed keys.\<close>

fun prefix_run :: "c1pkg_prefix \<Rightarrow> (nat \<times> nat) list \<Rightarrow> c1pkg_prefix" where
  "prefix_run p [] = p"
| "prefix_run p ((key, now) # ks) = prefix_run (fst (c1pkg_prefix_input p key now)) ks"

lemma prefix_run_ok: "prefix_ok p \<Longrightarrow> prefix_ok (prefix_run p ks)"
  by (induction p ks rule: prefix_run.induct) (auto intro: prefix_input_ok)

fun prompt :: "nat \<Rightarrow> (nat \<times> nat) list \<Rightarrow> bool" where
  "prompt t [] = True"
| "prompt t ((key, now) # ks) = (t \<le> now \<and> now - t < C1PKG_PREFIX_TIMEOUT_MS \<and> prompt now ks)"

lemma typed_run:
  assumes "\<forall>(key, now) \<in> set ks. 33 \<le> key \<and> key \<le> 126" and "prompt (updated_ms p) ks"
    and "length (prefix_text p) \<le> C1PKG_NAME_MAX"
  shows "prefix_text (prefix_run p ks) =
    take C1PKG_NAME_MAX (prefix_text p @ map (\<lambda>(key, now). char_of (lower_byte key)) ks)"
  using assms
proof (induction ks arbitrary: p)
  case Nil
  then show ?case by simp
next
  case (Cons k ks)
  obtain key now where k: "k = (key, now)" by (cases k)
  let ?p = "fst (c1pkg_prefix_input p key now)"
  have p: "?p = (if length (prefix_text p) < C1PKG_NAME_MAX
      then \<lparr> prefix_text = prefix_text p @ [char_of (lower_byte key)], updated_ms = now \<rparr>
      else p\<lparr> updated_ms := now \<rparr>)"
    using Cons.prems k
    by (cases p) (auto simp: c1pkg_prefix_input_def c1pkg_prefix_expire_def key_codes Let_def)
  then have "prefix_text (prefix_run ?p ks) =
      take C1PKG_NAME_MAX (prefix_text ?p @ map (\<lambda>(key, now). char_of (lower_byte key)) ks)"
    using Cons.prems k by (intro Cons.IH) auto
  with p Cons.prems(3) k show ?case by (auto simp: take_Cons')
qed



section \<open>The merged list\<close>

text \<open>What the list says of one identifier.\<close>

fun find_package :: "nat \<Rightarrow> c1pkg_package list \<Rightarrow> string \<Rightarrow> (c1pkg_package \<times> nat) option" where
  "find_package i [] k = None"
| "find_package i (p # ps) k = (if pkg_id p = k then Some (p, i) else find_package (i + 1) ps k)"

definition find_installed :: "c1pkg_installed list \<Rightarrow> string \<Rightarrow> c1pkg_installed option" where
  "find_installed xs k = find (\<lambda>x. inst_id x = k) xs"

definition download_entry ::
  "nat \<Rightarrow> c1pkg_package list \<Rightarrow> c1pkg_installed list \<Rightarrow> string \<Rightarrow> c1pkg_download_item" where
  "download_entry i ps xs k =
     (case find_package i ps k of
        Some (p, j) \<Rightarrow> add_repository_item p j (find_installed xs k)
      | None \<Rightarrow> add_removed_item (the (find_installed xs k)))"

definition listed_ids :: "c1pkg_package list \<Rightarrow> c1pkg_installed list \<Rightarrow> string set" where
  "listed_ids ps xs = pkg_id ` set ps \<union> inst_id ` set xs"

lemma sorted_list_least:
  assumes "finite A" and "\<forall>y \<in> A. x < (y :: 'a :: linorder)"
  shows "sorted_list_of_set (insert x A) = x # sorted_list_of_set A"
proof -
  have "x \<notin> A" using assms(2) by blast
  then have "sorted_list_of_set (insert x A) = insort x (sorted_list_of_set A)"
    using assms(1) by simp
  also have "\<dots> = x # sorted_list_of_set A"
    using assms by (intro insort_is_Cons) auto
  finally show ?thesis .
qed

lemma listed_finite [simp]: "finite (listed_ids ps xs)"
  by (simp add: listed_ids_def)

lemma find_installed_None: "inst_id x = k \<Longrightarrow> \<forall>y \<in> set xs. inst_id x < inst_id y \<Longrightarrow> find_installed xs k = None"
  by (auto simp: find_installed_def find_None_iff)

lemma entry_skip_package:
  "pkg_id p \<noteq> k \<Longrightarrow> download_entry i (p # ps) xs k = download_entry (i + 1) ps xs k"
  by (simp add: download_entry_def)

lemma entry_skip_installed:
  "inst_id x \<noteq> k \<Longrightarrow> download_entry i ps (x # xs) k = download_entry i ps xs k"
  by (simp add: download_entry_def find_installed_def split: option.split)

lemma find_package_None: "\<forall>p \<in> set ps. k < pkg_id p \<Longrightarrow> find_package i ps k = None"
  by (induction i ps k rule: find_package.induct) auto

lemma find_installed_least: "\<forall>x \<in> set xs. k < inst_id x \<Longrightarrow> find_installed xs k = None"
  by (auto simp: find_installed_def find_None_iff)

abbreviation merged :: "nat \<Rightarrow> c1pkg_package list \<Rightarrow> c1pkg_installed list \<Rightarrow> c1pkg_download_item list" where
  "merged i ps xs \<equiv> map (download_entry i ps xs) (sorted_list_of_set (listed_ids ps xs))"

lemma merged_package:
  assumes least: "\<forall>k \<in> listed_ids ps xs. pkg_id p < k"
  shows "merged i (p # ps) xs = add_repository_item p i None # merged (i + 1) ps xs"
proof -
  have ids: "listed_ids (p # ps) xs = insert (pkg_id p) (listed_ids ps xs)"
    by (auto simp: listed_ids_def)
  have "find_installed xs (pkg_id p) = None"
    using assms by (intro find_installed_least) (simp add: listed_ids_def)
  then have "download_entry i (p # ps) xs (pkg_id p) = add_repository_item p i None"
    by (simp add: download_entry_def)
  moreover have "download_entry i (p # ps) xs k = download_entry (i + 1) ps xs k" if "k \<in> listed_ids ps xs" for k
    using assms that by (intro entry_skip_package) auto
  ultimately show ?thesis
    unfolding ids sorted_list_least [OF listed_finite least] by simp
qed

lemma merged_installed:
  assumes least: "\<forall>k \<in> listed_ids ps xs. inst_id x < k"
  shows "merged i ps (x # xs) = add_removed_item x # merged i ps xs"
proof -
  have ids: "listed_ids ps (x # xs) = insert (inst_id x) (listed_ids ps xs)"
    by (auto simp: listed_ids_def)
  have "find_package i ps (inst_id x) = None"
    using assms by (intro find_package_None) (simp add: listed_ids_def)
  then have "download_entry i ps (x # xs) (inst_id x) = add_removed_item x"
    by (simp add: download_entry_def find_installed_def)
  moreover have "download_entry i ps (x # xs) k = download_entry i ps xs k" if "k \<in> listed_ids ps xs" for k
    using assms that by (intro entry_skip_installed) auto
  ultimately show ?thesis
    unfolding ids sorted_list_least [OF listed_finite least] by simp
qed

lemma merged_both:
  assumes least: "\<forall>k \<in> listed_ids ps xs. pkg_id p < k" and "inst_id x = pkg_id p"
  shows "merged i (p # ps) (x # xs) = add_repository_item p i (Some x) # merged (i + 1) ps xs"
proof -
  have ids: "listed_ids (p # ps) (x # xs) = insert (pkg_id p) (listed_ids ps xs)"
    using assms(2) by (auto simp: listed_ids_def)
  have "download_entry i (p # ps) (x # xs) (pkg_id p) = add_repository_item p i (Some x)"
    using assms(2) by (simp add: download_entry_def find_installed_def)
  moreover have "download_entry i (p # ps) (x # xs) k = download_entry (i + 1) ps xs k"
    if "k \<in> listed_ids ps xs" for k
  proof -
    have "pkg_id p \<noteq> k" "inst_id x \<noteq> k" using assms that by auto
    then show ?thesis by (simp add: entry_skip_package entry_skip_installed)
  qed
  ultimately show ?thesis
    unfolding ids sorted_list_least [OF listed_finite least] by simp
qed

lemma download_loop_merged:
  assumes "sorted_wrt (<) (map pkg_id ps)" and "sorted_wrt (<) (map inst_id xs)"
    and "count + length ps + length xs \<le> C1PKG_MAX_DOWNLOAD_ITEMS"
  shows "download_loop count i ps xs = Some (merged i ps xs)"
  using assms
proof (induction count i ps xs rule: download_loop.induct)
  case (1 count i ps xs)
  consider "ps = []" "xs = []" | x ys where "ps = []" "xs = x # ys" | p qs where "ps = p # qs" "xs = []"
    | p qs x ys where "ps = p # qs" "xs = x # ys"
    by (cases ps; cases xs) auto
  then show ?case
  proof cases
    case 1
    then show ?thesis by (simp add: download_loop.simps listed_ids_def)
  next
    case 2
    then have "merged i ps xs = add_removed_item x # merged i ps ys"
      unfolding 2(2) using 1(7) 2 by (intro merged_installed) (simp add: listed_ids_def)
    with 2 1(1,6,7,8) show ?thesis by (subst download_loop.simps) auto
  next
    case 3
    then have "merged i ps xs = add_repository_item p i None # merged (i + 1) qs xs"
      unfolding 3(1) using 1(6) 3 by (intro merged_package) (simp add: listed_ids_def)
    with 3 1(2,6,7,8) show ?thesis by (subst download_loop.simps) auto
  next
    case 4
    let ?o = "strcmp (pkg_id p) (inst_id x)"
    have room: "count < C1PKG_MAX_DOWNLOAD_ITEMS" using 1(8) 4 by simp
    consider "?o < 0" "pkg_id p < inst_id x" | "?o > 0" "inst_id x < pkg_id p" | "?o = 0" "inst_id x = pkg_id p"
      by (metis linorder_cases strcmp_neg strcmp_pos strcmp_zero)
    then show ?thesis
    proof cases
      case a: 1
      then have "merged i ps xs = add_repository_item p i None # merged (i + 1) qs xs"
        unfolding 4(1) using 1(6,7) 4 by (intro merged_package) (auto simp: listed_ids_def)
      with a 4 room 1(3,6,7,8) show ?thesis by (subst download_loop.simps) (auto simp: Let_def)
    next
      case a: 2
      then have "merged i ps xs = add_removed_item x # merged i ps ys"
        unfolding 4(2) using 1(6,7) 4 by (intro merged_installed) (auto simp: listed_ids_def)
      with a 4 room 1(4,6,7,8) show ?thesis by (subst download_loop.simps) (auto simp: Let_def)
    next
      case a: 3
      then have "merged i ps xs = add_repository_item p i (Some x) # merged (i + 1) qs ys"
        unfolding 4 using 1(6,7) 4 by (intro merged_both) (auto simp: listed_ids_def)
      with a 4 room 1(5,6,7,8) show ?thesis by (subst download_loop.simps) (auto simp: Let_def)
    qed
  qed
qed

text \<open>C20. The list shows every package once, in order. For a repository index and an installed list that
  are strictly sorted by identifier and within their capacities, building never runs out of room and
  gives one entry for each identifier of either, in ascending order: the repository's package with its
  index and the status of the installed version, or the removed application.\<close>

theorem download_list_exact:
  assumes "sorted_wrt (<) (map pkg_id (packages index))" and "sorted_wrt (<) (map inst_id installed)"
    and "length (packages index) \<le> C1PKG_MAX_PACKAGES" and "length installed \<le> C1PKG_MAX_PACKAGES"
  shows "c1pkg_download_list_build index installed =
    Some (map (download_entry 0 (packages index) installed)
           (sorted_list_of_set (listed_ids (packages index) installed)))"
  unfolding c1pkg_download_list_build_def using assms
  by (intro download_loop_merged) (simp_all add: C1PKG_MAX_DOWNLOAD_ITEMS_def)

definition demo_index :: c1pkg_index where
  "demo_index = \<lparr> index_sequence = 3, packages =
     [\<lparr> pkg_id = ''book'', pkg_version = ''1.2.0'', pkg_name = ''Book'', pkg_author = [], pkg_archive = ''b.tar'',
        pkg_entry = ''book'', pkg_sha256 = [], pkg_size = 9 \<rparr>] \<rparr>"

theorem download_list_exact_witness:
  "c1pkg_download_list_build demo_index [\<lparr> inst_id = ''art'', inst_version = ''1.0'' \<rparr>] =
    Some (map (download_entry 0 (packages demo_index) [\<lparr> inst_id = ''art'', inst_version = ''1.0'' \<rparr>])
           (sorted_list_of_set (listed_ids (packages demo_index) [\<lparr> inst_id = ''art'', inst_version = ''1.0'' \<rparr>])))"
  by (rule download_list_exact) (simp_all add: demo_index_def C1PKG_MAX_PACKAGES_def)

end
