(* ===== verification/Utf8Text.thy ===== *)
theory Utf8Text
  imports Codec
begin

text \<open>
  The text that the lock screen may show: \<open>c1_preferences_valid_text\<close> of
  \<open>src/C1ancher/src/ui/preferences.c\<close>. The code decodes UTF-8 byte by byte and rejects overlong,
  surrogate, control and invisible code points; the lemmas say that what it accepts are exactly the
  encodings of sequences of printable code points.
\<close>

definition C1_LOCK_TEXT_BYTES :: nat where "C1_LOCK_TEXT_BYTES = 193"

section \<open>The validator\<close>

text \<open>A continuation byte: \<open>(c & 0xc0) == 0x80\<close>.\<close>

definition is_continuation :: "char \<Rightarrow> bool" where
  "is_continuation c \<longleftrightarrow> byte c div 64 = 2"

text \<open>Number of continuation bytes, least code point and payload bits of a first byte.\<close>

definition sequence_head :: "nat \<Rightarrow> (nat \<times> nat \<times> nat) option" where
  "sequence_head ch =
     (if 0xc2 \<le> ch \<and> ch \<le> 0xdf then Some (1, 0x80, ch mod 32)
      else if 0xe0 \<le> ch \<and> ch \<le> 0xef then Some (2, 0x800, ch mod 16)
      else if 0xf0 \<le> ch \<and> ch \<le> 0xf4 then Some (3, 0x10000, ch mod 8)
      else None)"

definition forbidden :: "nat \<Rightarrow> bool" where
  "forbidden ch \<longleftrightarrow> ch > 0x10ffff \<or> 0xd800 \<le> ch \<and> ch \<le> 0xdfff \<or> 0x80 \<le> ch \<and> ch \<le> 0x9f \<or>
     0x200b \<le> ch \<and> ch \<le> 0x200f \<or> 0x2028 \<le> ch \<and> ch \<le> 0x202e \<or> 0x2060 \<le> ch \<and> ch \<le> 0x206f \<or>
     ch = 0xfeff"

text \<open>One turn of the loop: the code point and what is left, or rejection.\<close>

fun text_step :: "string \<Rightarrow> (nat \<times> string) option" where
  "text_step [] = None"
| "text_step (c # s) =
     (if byte c < 0x80 then (if byte c < 0x20 \<or> byte c = 0x7f then None else Some (byte c, s))
      else case sequence_head (byte c) of
             None \<Rightarrow> None
           | Some (n, minimum, bits) \<Rightarrow>
               if length s < n then None
               else if \<not> list_all is_continuation (take n s) then None
               else let ch = foldl (\<lambda>a d. a * 64 + byte d mod 64) bits (take n s) in
                    if ch < minimum \<or> forbidden ch then None else Some (ch, drop n s))"

lemma text_step_shorter: "text_step s = Some (ch, r) \<Longrightarrow> length r < length s"
  by (cases s) (auto simp: Let_def split: if_splits option.splits)

function text_loop :: "string \<Rightarrow> bool" where
  "text_loop s =
     (if s = [] then True
      else case text_step s of None \<Rightarrow> False | Some (ch, r) \<Rightarrow> text_loop r)"
  by pat_completeness auto
termination
  by (relation "measure length") (auto dest: text_step_shorter)

declare text_loop.simps [simp del]

definition c1_preferences_valid_text :: "string \<Rightarrow> bool" where
  "c1_preferences_valid_text text \<longleftrightarrow>
     text \<noteq> [] \<and> length text < C1_LOCK_TEXT_BYTES \<and> text_loop text"

section \<open>Code points\<close>

definition utf8_encode :: "nat \<Rightarrow> string" where
  "utf8_encode cp =
     (if cp < 0x80 then [char_of cp]
      else if cp < 0x800 then [char_of (0xc0 + cp div 64), char_of (0x80 + cp mod 64)]
      else if cp < 0x10000
      then [char_of (0xe0 + cp div 4096), char_of (0x80 + cp div 64 mod 64), char_of (0x80 + cp mod 64)]
      else [char_of (0xf0 + cp div 262144), char_of (0x80 + cp div 4096 mod 64),
            char_of (0x80 + cp div 64 mod 64), char_of (0x80 + cp mod 64)])"

text \<open>Code points a text may hold: no controls, surrogates, zero-width and formatting characters.\<close>

definition printable :: "nat \<Rightarrow> bool" where
  "printable cp \<longleftrightarrow> 0x20 \<le> cp \<and> cp \<le> 0x10ffff \<and>
     cp \<notin> {0x7f..0x9f} \<union> {0xd800..0xdfff} \<union> {0x200b..0x200f} \<union> {0x2028..0x202e} \<union> {0x2060..0x206f} \<union> {0xfeff}"

lemma printable_iff: "printable cp \<longleftrightarrow> (if cp < 0x80 then 0x20 \<le> cp \<and> cp \<noteq> 0x7f else \<not> forbidden cp)"
  by (auto simp: printable_def forbidden_def)

lemma continuation_byte: "is_continuation c \<Longrightarrow> byte c = 128 + byte c mod 64"
  using div_mult_mod_eq [of "byte c" 64] by (simp add: is_continuation_def)

lemma continuation_char [simp]: "x < 64 \<Longrightarrow> is_continuation (char_of (128 + x :: nat))"
  by (simp add: is_continuation_def)

lemma char_of_byte_eq: "byte c = n \<Longrightarrow> char_of n = c"
  by (metis char_of_char)

lemma head_bits:
  "x < 32 \<Longrightarrow> (192 + x) mod 32 = (x :: nat)" "x < 16 \<Longrightarrow> (224 + x) mod 16 = (x :: nat)"
  "x < 8 \<Longrightarrow> (240 + x) mod 8 = (x :: nat)" "(128 + x) mod 64 = (x mod 64 :: nat)"
  using mod_mult_self1 [of x 6 32] mod_mult_self1 [of x 14 16] mod_mult_self1 [of x 30 8]
    mod_mult_self1 [of x 2 64] by (simp_all add: add.commute)

lemma head_byte:
  "192 \<le> n \<Longrightarrow> n \<le> 223 \<Longrightarrow> 192 + n mod 32 = (n :: nat)" "224 \<le> n \<Longrightarrow> n \<le> 239 \<Longrightarrow> 224 + n mod 16 = (n :: nat)"
  "240 \<le> n \<Longrightarrow> n \<le> 247 \<Longrightarrow> 240 + n mod 8 = (n :: nat)"
  using head_bits(1) [of "n - 192"] head_bits(2) [of "n - 224"] head_bits(3) [of "n - 240"] by auto

lemma sextet: "c < 64 \<Longrightarrow> (a * 64 + c) div 64 = (a :: nat)" "c < 64 \<Longrightarrow> (a * 64 + c) mod 64 = (c :: nat)"
  by simp_all

lemma two_sextets: "x < 32 \<Longrightarrow> y < 64 \<Longrightarrow> x * 64 + y < (0x800 :: nat)"
  by simp

lemma three_sextets: "x < 16 \<Longrightarrow> y < 64 \<Longrightarrow> z < 64 \<Longrightarrow> (x * 64 + y) * 64 + z < (0x10000 :: nat)"
  by simp

lemma sextets:
  "n div 64 * 64 + n mod 64 = (n :: nat)" "n div 4096 * 64 + n div 64 mod 64 = (n div 64 :: nat)"
  "n div 262144 * 64 + n div 4096 mod 64 = (n div 4096 :: nat)"
proof -
  show "n div 64 * 64 + n mod 64 = n" by simp
  have "n div 4096 = n div 64 div 64" "n div 262144 = n div 4096 div 64" by (simp_all flip: div_mult2_eq)
  then show "n div 4096 * 64 + n div 64 mod 64 = n div 64"
    "n div 262144 * 64 + n div 4096 mod 64 = n div 4096" by simp_all
qed

text \<open>The bytes of one code point above ASCII, as both UTF-8 decoders of the program take them apart.\<close>

definition sequence_value :: "string \<Rightarrow> nat \<Rightarrow> nat \<Rightarrow> nat" where
  "sequence_value s n bits = foldl (\<lambda>a d. a * 64 + byte d mod 64) bits (take n s)"

lemma sequence_encode:
  assumes "0x80 \<le> cp" and "cp \<le> 0x10ffff"
  shows "case utf8_encode cp @ r of [] \<Rightarrow> False | c # s \<Rightarrow> 0x80 \<le> byte c \<and>
     (case sequence_head (byte c) of None \<Rightarrow> False | Some (n, m, b) \<Rightarrow>
        n \<le> length s \<and> list_all is_continuation (take n s) \<and> sequence_value s n b = cp \<and> m \<le> cp \<and> drop n s = r)"
proof -
  consider "cp < 0x800" | "0x800 \<le> cp" "cp < 0x10000" | "0x10000 \<le> cp"
    by linarith
  then show ?thesis
  proof cases
    case 1
    let ?x = "cp div 64"
    have x: "2 \<le> ?x" "?x < 32" using 1 assms by auto
    with 1 assms show ?thesis
      by (simp add: utf8_encode_def sequence_head_def sequence_value_def head_bits)
  next
    case 2
    let ?x = "cp div 4096"
    have x: "?x < 16" using 2 by auto
    have m: "(224 + ?x) mod 16 = ?x" using x by (simp add: head_bits)
    have "(?x * 64 + cp div 64 mod 64) * 64 + cp mod 64 = cp" by (simp only: sextets)
    with 2 x m show ?thesis
      by (simp add: utf8_encode_def sequence_head_def sequence_value_def numeral_2_eq_2 head_bits)
  next
    case 3
    let ?x = "cp div 262144"
    have x: "?x < 5" using assms by auto
    have m: "(240 + ?x) mod 8 = ?x" using x by (simp add: head_bits)
    have "((?x * 64 + cp div 4096 mod 64) * 64 + cp div 64 mod 64) * 64 + cp mod 64 = cp"
      by (simp only: sextets)
    with 3 x m show ?thesis
      by (simp add: utf8_encode_def sequence_head_def sequence_value_def numeral_3_eq_3 head_bits)
  qed
qed

lemma encode_sequence:
  assumes h: "sequence_head (byte c) = Some (n, m, b)" and len: "n \<le> length t"
    and cont: "list_all is_continuation (take n t)" and least: "m \<le> sequence_value t n b"
  shows "c # t = utf8_encode (sequence_value t n b) @ drop n t" and "0x80 \<le> sequence_value t n b"
proof -
  define cp where "cp = foldl (\<lambda>a d. a * 64 + byte d mod 64) b (take n t)"
  have val: "sequence_value t n b = cp" by (simp add: cp_def sequence_value_def)
  note cp = cp_def
  have min: "m \<le> cp" using least by (simp add: val)
  have split: "take n t @ drop n t = t" by simp
  from h consider "n = 1" "m = 0x80" "b = byte c mod 32" "192 \<le> byte c" "byte c \<le> 223"
    | "n = 2" "m = 0x800" "b = byte c mod 16" "224 \<le> byte c" "byte c \<le> 239"
    | "n = 3" "m = 0x10000" "b = byte c mod 8" "240 \<le> byte c" "byte c \<le> 244"
    by (auto simp: sequence_head_def split: if_splits)
  then have "take n t = tl (utf8_encode cp) \<and> hd (utf8_encode cp) = c \<and> 0x80 \<le> cp"
  proof cases
    case 1
    with len obtain d where d: "take n t = [d]" by (cases t) auto
    have v: "cp = byte c mod 32 * 64 + byte d mod 64" using cp d 1 by (simp only: foldl.simps)
    have "cp div 64 = byte c mod 32" "cp mod 64 = byte d mod 64"
      unfolding v by (rule sextet, simp)+
    moreover have "byte c mod 32 < 32" "byte d mod 64 < 64" by simp_all
    then have "cp < 0x800" unfolding v by (rule two_sextets)
    moreover have "192 + byte c mod 32 = byte c" using 1 by (intro head_byte) auto
    moreover have "128 + byte d mod 64 = byte d" using continuation_byte [of d] cont d by simp
    ultimately have "utf8_encode cp = [c, d]"
      using 1 min by (simp add: utf8_encode_def)
    with d 1 min show ?thesis by simp
  next
    case 2
    with len obtain d e where d: "take n t = [d, e]" by (cases t; cases "tl t") auto
    have v: "cp = (byte c mod 16 * 64 + byte d mod 64) * 64 + byte e mod 64"
      using cp d 2 by (simp only: foldl.simps)
    have q: "cp div 64 = byte c mod 16 * 64 + byte d mod 64" "cp mod 64 = byte e mod 64"
      unfolding v by (rule sextet, simp)+
    moreover have "cp div 64 div 64 = byte c mod 16" "cp div 64 mod 64 = byte d mod 64"
      unfolding q by (rule sextet, simp)+
    then have "cp div 4096 = byte c mod 16" "cp div 64 mod 64 = byte d mod 64"
      by (simp_all flip: div_mult2_eq)
    moreover have "byte c mod 16 < 16" "byte d mod 64 < 64" "byte e mod 64 < 64" by simp_all
    then have "cp < 0x10000" unfolding v by (rule three_sextets)
    moreover have "224 + byte c mod 16 = byte c" using 2 by (intro head_byte) auto
    moreover have "128 + byte d mod 64 = byte d" "128 + byte e mod 64 = byte e"
      using continuation_byte cont d by simp_all
    ultimately have "utf8_encode cp = [c, d, e]"
      using 2 min by (simp add: utf8_encode_def)
    with d 2 min show ?thesis by simp
  next
    case 3
    with len obtain d e f where d: "take n t = [d, e, f]"
      by (cases t; cases "tl t"; cases "tl (tl t)") auto
    have v: "cp = ((byte c mod 8 * 64 + byte d mod 64) * 64 + byte e mod 64) * 64 + byte f mod 64"
      using cp d 3 by (simp only: foldl.simps)
    have p: "cp div 64 = (byte c mod 8 * 64 + byte d mod 64) * 64 + byte e mod 64" "cp mod 64 = byte f mod 64"
      unfolding v by (rule sextet, simp)+
    have q: "cp div 64 div 64 = byte c mod 8 * 64 + byte d mod 64" "cp div 64 mod 64 = byte e mod 64"
      unfolding p by (rule sextet, simp)+
    have "cp div 64 div 64 div 64 = byte c mod 8" "cp div 64 div 64 mod 64 = byte d mod 64"
      unfolding q by (rule sextet, simp)+
    then have r: "cp div 262144 = byte c mod 8" "cp div 4096 mod 64 = byte d mod 64"
      by (simp_all flip: div_mult2_eq)
    have bytes: "240 + byte c mod 8 = byte c" "128 + byte d mod 64 = byte d"
      "128 + byte e mod 64 = byte e" "128 + byte f mod 64 = byte f"
      using 3(4,5) continuation_byte cont d by (simp_all add: head_byte)
    have "\<not> cp < 0x80" "\<not> cp < 0x800" "\<not> cp < 0x10000" using 3(2) min by simp_all
    then have "utf8_encode cp = [c, d, e, f]"
      unfolding utf8_encode_def r q(2) p(2) by (simp only: bytes if_False char_of_char)
    with d 3 min show ?thesis by simp
  qed
  moreover have "utf8_encode cp \<noteq> []" by (simp add: utf8_encode_def)
  ultimately have "c # take n t = utf8_encode cp" and low: "0x80 \<le> cp"
    by (metis list.collapse)+
  then show "c # t = utf8_encode (sequence_value t n b) @ drop n t" "0x80 \<le> sequence_value t n b"
    unfolding val using split by (metis append_Cons)+
qed

lemma encode_step:
  assumes "printable cp"
  shows "text_step (utf8_encode cp @ r) = Some (cp, r)"
proof (cases "cp < 0x80")
  case True
  with assms show ?thesis by (simp add: utf8_encode_def printable_iff)
next
  case False
  with assms have "0x80 \<le> cp" "cp \<le> 0x10ffff" "\<not> forbidden cp"
    by (auto simp: printable_iff forbidden_def)
  with sequence_encode [of cp r] show ?thesis
    by (auto simp: Let_def sequence_value_def split: list.splits option.splits)
qed

lemma step_encode:
  assumes "text_step s = Some (cp, r)"
  shows "printable cp \<and> s = utf8_encode cp @ r"
proof -
  obtain c t where s: "s = c # t" using assms by (cases s) auto
  show ?thesis
  proof (cases "byte c < 0x80")
    case True
    with assms s show ?thesis
      by (auto simp: printable_iff utf8_encode_def split: if_splits)
  next
    case False
    with assms s obtain n m b where h: "sequence_head (byte c) = Some (n, m, b)"
      and len: "n \<le> length t" and cont: "list_all is_continuation (take n t)"
      and cp: "cp = sequence_value t n b" and least: "m \<le> cp" and ok: "\<not> forbidden cp" and r: "r = drop n t"
      by (auto simp: Let_def sequence_value_def split: if_splits option.splits)
    from encode_sequence [OF h len cont least [unfolded cp]] ok s r cp show ?thesis
      by (simp add: printable_iff)
  qed
qed

interpretation code_point: codec text_step "\<lambda>(cp, r). utf8_encode cp @ r" "\<lambda>(cp, r). printable cp"
  by unfold_locales (auto simp: encode_step dest: step_encode)

section \<open>Texts\<close>

definition utf8_text :: "string \<Rightarrow> bool" where
  "utf8_text s \<longleftrightarrow> (\<exists>cps. list_all printable cps \<and> s = concat (map utf8_encode cps))"

lemma encode_not_Nil [simp]: "utf8_encode cp \<noteq> []"
  by (simp add: utf8_encode_def)

lemma utf8_text_Nil [simp]: "utf8_text []"
  unfolding utf8_text_def by (rule exI [of _ "[]"]) simp

lemma utf8_text_encode: "printable cp \<Longrightarrow> utf8_text s \<Longrightarrow> utf8_text (utf8_encode cp @ s)"
proof -
  assume "printable cp" and "utf8_text s"
  then obtain cps where "list_all printable cps" "s = concat (map utf8_encode cps)"
    by (auto simp: utf8_text_def)
  with \<open>printable cp\<close> show ?thesis
    unfolding utf8_text_def by (intro exI [of _ "cp # cps"]) simp
qed

lemma utf8_text_append: "utf8_text s \<Longrightarrow> utf8_text t \<Longrightarrow> utf8_text (s @ t)"
proof -
  assume "utf8_text s" and "utf8_text t"
  then obtain cps dps where "list_all printable cps" "s = concat (map utf8_encode cps)"
    "list_all printable dps" "t = concat (map utf8_encode dps)"
    by (auto simp: utf8_text_def)
  then show ?thesis
    unfolding utf8_text_def by (intro exI [of _ "cps @ dps"]) simp
qed

lemma text_loop_iff: "text_loop s \<longleftrightarrow> utf8_text s"
proof
  show "text_loop s \<Longrightarrow> utf8_text s"
  proof (induction s rule: text_loop.induct)
    case (1 s)
    show ?case
    proof (cases "s = []")
      case False
      with "1.prems" obtain cp r where step: "text_step s = Some (cp, r)" and "text_loop r"
        by (subst (asm) text_loop.simps) (auto split: option.splits)
      then have "utf8_text r" using 1(1) False by blast
      with step_encode [OF step] show ?thesis by (auto intro: utf8_text_encode)
    qed simp
  qed
  have "list_all printable cps \<Longrightarrow> text_loop (concat (map utf8_encode cps))" for cps
  proof (induction cps)
    case Nil
    then show ?case by (simp add: text_loop.simps [of "[]"])
  next
    case (Cons cp cps)
    then show ?case
      by (subst text_loop.simps) (simp add: encode_step)
  qed
  then show "utf8_text s \<Longrightarrow> text_loop s" by (auto simp: utf8_text_def)
qed

lemma valid_text_iff:
  "c1_preferences_valid_text s \<longleftrightarrow> s \<noteq> [] \<and> length s < C1_LOCK_TEXT_BYTES \<and> utf8_text s"
  by (simp add: c1_preferences_valid_text_def text_loop_iff)

text \<open>A code point starts at its first byte and nowhere else, so a text may be cut before any byte that
  is not a continuation byte.\<close>

lemma encode_shape:
  assumes "printable cp"
  shows "\<not> is_continuation (hd (utf8_encode cp)) \<and> list_all is_continuation (tl (utf8_encode cp))"
proof -
  have "cp < 0x110000" using assms by (auto simp: printable_iff forbidden_def split: if_splits)
  then have "cp div 64 < 32 \<or> \<not> cp < 0x800" "cp div 4096 < 16 \<or> \<not> cp < 0x10000" "cp div 262144 < 8" by auto
  then show ?thesis
    by (auto simp: utf8_encode_def is_continuation_def)
qed

definition boundary :: "string \<Rightarrow> nat \<Rightarrow> bool" where
  "boundary s k \<longleftrightarrow> k \<le> length s \<and> (k < length s \<longrightarrow> \<not> is_continuation (s ! k))"

lemma utf8_cut:
  assumes "utf8_text s" and "boundary s k"
  shows "utf8_text (take k s) \<and> utf8_text (drop k s)"
proof -
  have "list_all printable cps \<Longrightarrow> boundary (concat (map utf8_encode cps)) k \<Longrightarrow>
      utf8_text (take k (concat (map utf8_encode cps))) \<and> utf8_text (drop k (concat (map utf8_encode cps)))" for cps
  proof (induction cps arbitrary: k)
    case (Cons cp cps)
    let ?e = "utf8_encode cp" and ?r = "concat (map utf8_encode cps)"
    have r: "utf8_text ?r" using Cons.prems(1) by (auto simp: utf8_text_def)
    show ?case
    proof (cases "k < length ?e")
      case True
      have "k = 0"
      proof (rule ccontr)
        assume "k \<noteq> 0"
        then obtain j where j: "k = Suc j" by (cases k) auto
        with True have "(?e @ ?r) ! k = tl ?e ! j" "j < length (tl ?e)" by (simp_all add: nth_append nth_tl)
        moreover have "list_all is_continuation (tl ?e)" using Cons.prems(1) encode_shape by simp
        ultimately have "is_continuation ((?e @ ?r) ! k)" by (simp add: list_all_length)
        with Cons.prems(2) True show False by (simp add: boundary_def)
      qed
      with r Cons.prems(1) show ?thesis by (simp add: utf8_text_encode)
    next
      case False
      then have "boundary ?r (k - length ?e)" using Cons.prems(2) by (auto simp: boundary_def nth_append)
      with Cons have "utf8_text (take (k - length ?e) ?r)" "utf8_text (drop (k - length ?e) ?r)" by auto
      with False Cons.prems(1) show ?thesis by (simp add: utf8_text_encode)
    qed
  qed simp
  with assms show ?thesis by (auto simp: utf8_text_def)
qed

lemma boundary_ends [simp]: "boundary s (length s)" 
  by (simp add: boundary_def)

lemma boundary_zero: "utf8_text s \<Longrightarrow> boundary s 0"
proof -
  assume "utf8_text s"
  then obtain cps where "list_all printable cps" "s = concat (map utf8_encode cps)" by (auto simp: utf8_text_def)
  then show ?thesis
    using encode_shape by (cases cps) (auto simp: boundary_def nth_append hd_conv_nth)
qed

text \<open>C23. The lock text validator accepts exactly the texts of one to 192 bytes that are the UTF-8
  encoding of a sequence of printable code points: every code point in its shortest form, none a
  surrogate, a control or an invisible formatting character, none above U+10FFFF.\<close>

theorem valid_text_exact:
  "c1_preferences_valid_text s \<longleftrightarrow>
     0 < length s \<and> length s \<le> 192 \<and>
     (\<exists>cps. list_all printable cps \<and> s = concat (map utf8_encode cps))"
  by (auto simp: valid_text_iff utf8_text_def C1_LOCK_TEXT_BYTES_def)

end
