(* ===== verification/PkgText.thy ===== *)
theory PkgText
  imports Utf8Text
begin

unbundle bit_operations_syntax

text \<open>
  Labels and text of the package tool (\<open>src/C1ancher/src/pkg/text.c\<close>): the UTF-8 decoder, the label policy,
  the width of a text and its drawing into the one bit per pixel frame. The glyph table of
  \<open>pkg/font_generated.h\<close> is modelled by its ranges; the generated widths and bitmaps are arguments.
\<close>

definition C1PKG_LABEL_MAX_BYTES :: nat where "C1PKG_LABEL_MAX_BYTES = 40"
definition C1PKG_TEXT_HEIGHT :: nat where "C1PKG_TEXT_HEIGHT = 16"
definition C1PKG_TEXT_FRAME_WIDTH :: int where "C1PKG_TEXT_FRAME_WIDTH = 296"
definition C1PKG_TEXT_FRAME_HEIGHT :: int where "C1PKG_TEXT_FRAME_HEIGHT = 152"

section \<open>Decoding\<close>

text \<open>\<open>decode\<close>: the next code point and what follows it; nothing at the end and at malformed input, which the
  callers treat alike.\<close>

definition surrogate :: "nat \<Rightarrow> bool" where
  "surrogate cp \<longleftrightarrow> 0xd800 \<le> cp \<and> cp \<le> 0xdfff"

fun decode :: "string \<Rightarrow> (nat \<times> string) option" where
  "decode [] = None"
| "decode (c # s) =
     (if byte c < 0x80 then Some (byte c, s)
      else case sequence_head (byte c) of
             None \<Rightarrow> None
           | Some (n, minimum, bits) \<Rightarrow>
               if length s < n \<or> \<not> list_all is_continuation (take n s) then None
               else let cp = sequence_value s n bits in
                    if cp < minimum \<or> cp > 0x10ffff \<or> surrogate cp then None else Some (cp, drop n s))"

definition forbidden_ranges :: "(nat \<times> nat) list" where
  "forbidden_ranges =
    [(0x0000, 0x001f), (0x007f, 0x009f), (0x00ad, 0x00ad), (0x034f, 0x034f), (0x0600, 0x0605), (0x061c, 0x061c),
     (0x06dd, 0x06dd), (0x070f, 0x070f), (0x0890, 0x0891), (0x08e2, 0x08e2), (0x115f, 0x1160), (0x17b4, 0x17b5),
     (0x180b, 0x180f), (0x200b, 0x200f), (0x2028, 0x202e), (0x2060, 0x206f), (0x3164, 0x3164), (0xfe00, 0xfe0f),
     (0xfeff, 0xfeff), (0xffa0, 0xffa0), (0xfff9, 0xfffd), (0x110bd, 0x110bd), (0x110cd, 0x110cd),
     (0x13430, 0x1345f), (0x1bca0, 0x1bca3), (0x1d173, 0x1d17a), (0xe0000, 0xe0fff)]"

definition forbidden_label :: "nat \<Rightarrow> bool" where
  "forbidden_label cp \<longleftrightarrow> (0xfdd0 \<le> cp \<and> cp \<le> 0xfdef) \<or> cp mod 65536 \<ge> 0xfffe \<or>
     list_ex (\<lambda>(lo, hi). lo \<le> cp \<and> cp \<le> hi) forbidden_ranges"

definition whitespace :: "nat \<Rightarrow> bool" where
  "whitespace cp \<longleftrightarrow> cp = 0x20 \<or> cp = 0x85 \<or> cp = 0xa0 \<or> cp = 0x1680 \<or> (0x2000 \<le> cp \<and> cp \<le> 0x200a) \<or>
     cp = 0x2028 \<or> cp = 0x2029 \<or> cp = 0x202f \<or> cp = 0x205f \<or> cp = 0x3000"

lemma decode_shorter: "decode s = Some (cp, r) \<Longrightarrow> length r < length s"
  by (cases s) (auto simp: Let_def split: if_splits option.splits)

text \<open>The loop of \<open>c1pkg_valid_label\<close>: the last code point, or rejection.\<close>

function label_loop :: "bool \<Rightarrow> nat \<Rightarrow> string \<Rightarrow> nat option" where
  "label_loop first cp p =
     (if p = [] then Some cp
      else case decode p of
             None \<Rightarrow> None
           | Some (cp, r) \<Rightarrow>
               if forbidden_label cp \<or> first \<and> whitespace cp then None else label_loop False cp r)"
  by pat_completeness auto
termination
  by (relation "measure (\<lambda>(first, cp, p). length p)") (auto dest: decode_shorter)

declare label_loop.simps [simp del]

definition c1pkg_valid_label :: "string \<Rightarrow> bool" where
  "c1pkg_valid_label label \<longleftrightarrow>
     0 < length label \<and> length label \<le> C1PKG_LABEL_MAX_BYTES \<and>
     (case label_loop True 0 label of None \<Rightarrow> False | Some cp \<Rightarrow> \<not> whitespace cp)"

section \<open>The labels that are accepted\<close>

definition scalar :: "nat \<Rightarrow> bool" where
  "scalar cp \<longleftrightarrow> cp \<le> 0x10ffff \<and> \<not> surrogate cp"

lemma decode_encode: "scalar cp \<Longrightarrow> decode (utf8_encode cp @ r) = Some (cp, r)"
proof (cases "cp < 0x80")
  case True
  then show ?thesis by (simp add: utf8_encode_def)
next
  case False
  assume "scalar cp"
  then have "cp \<le> 0x10ffff" "\<not> surrogate cp" by (simp_all add: scalar_def)
  with False sequence_encode [of cp r] show ?thesis
    by (auto simp: Let_def split: list.splits option.splits)
qed

lemma decode_sound:
  assumes "decode s = Some (cp, r)"
  shows "scalar cp \<and> s = utf8_encode cp @ r"
proof -
  obtain c t where s: "s = c # t" using assms by (cases s) auto
  show ?thesis
  proof (cases "byte c < 0x80")
    case True
    with assms s show ?thesis by (auto simp: scalar_def surrogate_def utf8_encode_def)
  next
    case False
    with assms s obtain n m b where h: "sequence_head (byte c) = Some (n, m, b)"
      and len: "n \<le> length t" and cont: "list_all is_continuation (take n t)"
      and cp: "cp = sequence_value t n b" and least: "m \<le> cp" and ok: "scalar cp" and r: "r = drop n t"
      by (auto simp: Let_def scalar_def split: if_splits option.splits)
    from encode_sequence [OF h len cont least [unfolded cp]] ok s r cp show ?thesis by simp
  qed
qed

interpretation code_scalar: codec decode "\<lambda>(cp, r). utf8_encode cp @ r" "\<lambda>(cp, r). scalar cp"
  by unfold_locales (auto simp: decode_encode dest: decode_sound)

definition label_char :: "nat \<Rightarrow> bool" where
  "label_char cp \<longleftrightarrow> scalar cp \<and> \<not> forbidden_label cp"

abbreviation utf8 :: "nat list \<Rightarrow> string" where
  "utf8 cps \<equiv> concat (map utf8_encode cps)"

lemma label_loop_sound:
  "label_loop first cp s = Some z \<Longrightarrow>
   \<exists>cps. s = utf8 cps \<and> list_all label_char cps \<and> (first \<and> cps \<noteq> [] \<longrightarrow> \<not> whitespace (hd cps)) \<and>
         z = last (cp # cps)"
proof (induction first cp s rule: label_loop.induct)
  case (1 first cp s)
  show ?case
  proof (cases "s = []")
    case True
    with "1.prems" show ?thesis by (intro exI [of _ "[]"]) (simp add: label_loop.simps)
  next
    case False
    with "1.prems" obtain c r where d: "decode s = Some (c, r)" and ok: "\<not> (forbidden_label c \<or> first \<and> whitespace c)"
      and rest: "label_loop False c r = Some z"
      by (auto simp: label_loop.simps [of first cp s] split: option.splits if_splits)
    from "1.IH" [OF False d refl ok rest] obtain cps where
      "r = utf8 cps" "list_all label_char cps" "z = last (c # cps)" by auto
    moreover have "label_char c" "s = utf8_encode c @ r" using decode_sound [OF d] ok by (auto simp: label_char_def)
    ultimately show ?thesis using ok by (intro exI [of _ "c # cps"]) auto
  qed
qed

lemma label_loop_complete:
  "list_all label_char cps \<Longrightarrow> (first \<and> cps \<noteq> [] \<longrightarrow> \<not> whitespace (hd cps)) \<Longrightarrow>
   label_loop first cp (utf8 cps) = Some (last (cp # cps))"
proof (induction cps arbitrary: first cp)
  case Nil
  then show ?case by (simp add: label_loop.simps)
next
  case (Cons c cps)
  then have "decode (utf8_encode c @ utf8 cps) = Some (c, utf8 cps)" "\<not> (forbidden_label c \<or> first \<and> whitespace c)"
    "label_loop False c (utf8 cps) = Some (last (c # cps))"
    by (auto simp: label_char_def decode_encode)
  then show ?case by (subst label_loop.simps) simp
qed

lemma valid_label_iff:
  "c1pkg_valid_label s \<longleftrightarrow>
     length s \<le> 40 \<and> (\<exists>cps. s = utf8 cps \<and> cps \<noteq> [] \<and> list_all label_char cps \<and>
        \<not> whitespace (hd cps) \<and> \<not> whitespace (last cps))"
proof
  assume "c1pkg_valid_label s"
  then obtain z where "label_loop True 0 s = Some z" "\<not> whitespace z" "s \<noteq> []" "length s \<le> 40"
    by (auto simp: c1pkg_valid_label_def C1PKG_LABEL_MAX_BYTES_def split: option.splits)
  with label_loop_sound [of True 0 s z] show "length s \<le> 40 \<and> (\<exists>cps. s = utf8 cps \<and> cps \<noteq> [] \<and> list_all label_char cps \<and>
        \<not> whitespace (hd cps) \<and> \<not> whitespace (last cps))"
    by (auto split: if_splits)
next
  assume "length s \<le> 40 \<and> (\<exists>cps. s = utf8 cps \<and> cps \<noteq> [] \<and> list_all label_char cps \<and>
        \<not> whitespace (hd cps) \<and> \<not> whitespace (last cps))"
  then obtain cps where c: "length s \<le> 40" "s = utf8 cps" "cps \<noteq> []" "list_all label_char cps"
    "\<not> whitespace (hd cps)" "\<not> whitespace (last cps)" by blast
  then have "s \<noteq> []" by (cases cps) auto
  with c label_loop_complete [of cps True 0] show "c1pkg_valid_label s"
    by (simp add: c1pkg_valid_label_def C1PKG_LABEL_MAX_BYTES_def)
qed


section \<open>Drawing\<close>

text \<open>The range table of the font; the last glyph is the replacement U+FFFD.\<close>

definition c1pkg_font_ranges :: "(nat \<times> nat \<times> nat) list" where
  "c1pkg_font_ranges =
    [(0x0020, 0x007e, 0), (0x00a0, 0x024f, 95), (0x2000, 0x206f, 527), (0x2190, 0x21ff, 639),
     (0x2500, 0x25ff, 751), (0x2e80, 0x312f, 1007), (0x31a0, 0x31bf, 1695), (0x3400, 0x4dbf, 1727),
     (0x4e00, 0x9fff, 8319), (0xf900, 0xfaff, 29311), (0xff00, 0xffef, 29823), (0xfffd, 0xfffd, 30063)]"

definition font_glyphs :: nat where "font_glyphs = 30064"

definition glyph :: "nat \<Rightarrow> nat" where
  "glyph cp =
     (case find (\<lambda>(lo, hi, offset). lo \<le> cp \<and> cp \<le> hi) c1pkg_font_ranges of
        Some (lo, hi, offset) \<Rightarrow> offset + cp - lo
      | None \<Rightarrow> font_glyphs - 1)"

text \<open>The generated tables: the advance of a glyph, and its rows of up to 16 pixels.\<close>

record font =
  font_widths :: "nat \<Rightarrow> int"
  font_rows :: "nat \<Rightarrow> nat \<Rightarrow> 16 word"

function width_loop :: "font \<Rightarrow> int \<Rightarrow> string \<Rightarrow> int" where
  "width_loop f width p =
     (case decode p of
        None \<Rightarrow> width
      | Some (cp, r) \<Rightarrow>
          if forbidden_label cp then width
          else let advance = font_widths f (glyph cp) in
               if width > INT_MAX - advance then INT_MAX else width_loop f (width + advance) r)"
  by pat_completeness auto
termination
  by (relation "measure (\<lambda>(f, w, p). length p)") (auto dest: decode_shorter)

declare width_loop.simps [simp del]

definition c1pkg_text_width :: "font \<Rightarrow> string \<Rightarrow> int" where
  "c1pkg_text_width f label = width_loop f 0 label"

text \<open>One pixel of ink: 0x80 shifted by the row in the page, at the byte of the page and column.\<close>

definition put_ink :: "bool \<Rightarrow> int \<Rightarrow> int \<Rightarrow> 8 word list \<Rightarrow> 8 word list" where
  "put_ink black px py frame =
     (let offset = nat (py div 8) * nat C1PKG_TEXT_FRAME_WIDTH + nat px;
          mask = drop_bit (nat (py mod 8)) 0x80
      in frame[offset := if black then frame ! offset OR mask else frame ! offset AND NOT mask])"

definition draw_column ::
  "font \<Rightarrow> bool \<Rightarrow> nat \<Rightarrow> int \<Rightarrow> int \<Rightarrow> nat \<Rightarrow> nat \<Rightarrow> 8 word list \<Rightarrow> 8 word list" where
  "draw_column f black index left py row col frame =
     (let px = left + int col in
      if px \<ge> 0 \<and> px < C1PKG_TEXT_FRAME_WIDTH \<and> font_rows f index row AND drop_bit col 0x8000 \<noteq> 0
      then put_ink black px py frame else frame)"

definition draw_row ::
  "font \<Rightarrow> bool \<Rightarrow> nat \<Rightarrow> int \<Rightarrow> int \<Rightarrow> nat \<Rightarrow> 8 word list \<Rightarrow> 8 word list" where
  "draw_row f black index left y row frame =
     (let py = y + int row in
      if py < 0 \<or> py \<ge> C1PKG_TEXT_FRAME_HEIGHT then frame
      else fold (draw_column f black index left py row) [0..<nat (font_widths f index)] frame)"

definition draw_glyph :: "font \<Rightarrow> bool \<Rightarrow> nat \<Rightarrow> int \<Rightarrow> int \<Rightarrow> 8 word list \<Rightarrow> 8 word list" where
  "draw_glyph f black index left y frame = fold (draw_row f black index left y) [0..<C1PKG_TEXT_HEIGHT] frame"

function draw_loop ::
  "font \<Rightarrow> bool \<Rightarrow> int \<Rightarrow> int \<Rightarrow> int \<Rightarrow> int \<Rightarrow> string \<Rightarrow> 8 word list \<Rightarrow> 8 word list" where
  "draw_loop f black x y max_width used p frame =
     (case decode p of
        None \<Rightarrow> frame
      | Some (cp, r) \<Rightarrow>
          if forbidden_label cp then frame
          else let index = glyph cp; advance = font_widths f index; left = x + used in
               if advance > max_width - used \<or> left \<ge> C1PKG_TEXT_FRAME_WIDTH then frame
               else draw_loop f black x y max_width (used + advance) r (draw_glyph f black index left y frame))"
  by pat_completeness auto
termination
  by (relation "measure (\<lambda>(f, b, x, y, m, u, p, fr). length p)") (auto dest: decode_shorter)

declare draw_loop.simps [simp del]

definition c1pkg_text :: "font \<Rightarrow> 8 word list \<Rightarrow> int \<Rightarrow> int \<Rightarrow> string \<Rightarrow> int \<Rightarrow> bool \<Rightarrow> 8 word list" where
  "c1pkg_text f frame x y label max_width black =
     (if max_width \<le> 0 \<or> x \<ge> C1PKG_TEXT_FRAME_WIDTH \<or> y \<ge> C1PKG_TEXT_FRAME_HEIGHT \<or>
         y \<le> - int C1PKG_TEXT_HEIGHT then frame
      else draw_loop f black x y max_width 0 label frame)"

section \<open>What is drawn\<close>

lemma glyph_bound: "glyph cp < font_glyphs"
proof (cases "find (\<lambda>(lo, hi, offset). lo \<le> cp \<and> cp \<le> hi) c1pkg_font_ranges")
  case None
  then show ?thesis by (simp add: glyph_def font_glyphs_def)
next
  case (Some r)
  obtain lo hi offset where r: "r = (lo, hi, offset)" by (cases r)
  with Some have "(lo, hi, offset) \<in> set c1pkg_font_ranges" and range: "lo \<le> cp" "cp \<le> hi"
    by (auto simp: find_Some_iff in_set_conv_nth)
  then have "offset + hi < font_glyphs + lo"
    by (auto simp: c1pkg_font_ranges_def font_glyphs_def)
  with range have "offset + cp - lo < font_glyphs" by linarith
  with Some r show ?thesis by (simp add: glyph_def)
qed

text \<open>The colour of a pixel of the frame.\<close>

definition pixel :: "8 word list \<Rightarrow> int \<Rightarrow> int \<Rightarrow> bool" where
  "pixel frame px py = bit (frame ! (nat (py div 8) * 296 + nat px)) (7 - nat (py mod 8))"

abbreviation on_screen :: "int \<Rightarrow> int \<Rightarrow> bool" where
  "on_screen px py \<equiv> 0 \<le> px \<and> px < 296 \<and> 0 \<le> py \<and> py < 152"

lemma mask_bit:
  assumes "k < 8"
  shows "bit (drop_bit k (0x80 :: 8 word)) n \<longleftrightarrow> n = 7 - k"
proof -
  have top: "(0x80 :: 8 word) = push_bit 7 1" by simp
  have "bit (drop_bit k (0x80 :: 8 word)) n \<longleftrightarrow> bit (push_bit 7 (1 :: 8 word)) (k + n)"
    unfolding bit_drop_bit_eq top by simp
  also have "\<dots> \<longleftrightarrow> k + n = 7"
    unfolding bit_push_bit_iff bit_1_iff by auto
  finally show ?thesis using assms by linarith
qed

text \<open>Two pixels of the screen share a bit of the frame only when they are the same.\<close>

lemma offset_less: "on_screen px py \<Longrightarrow> nat (py div 8) * 296 + nat px < 5624"
proof -
  assume s: "on_screen px py"
  then have "py div 8 \<le> 18" "0 \<le> py div 8" by auto
  with s show ?thesis by linarith
qed

lemma cell_inject: "a * 296 + x = b * 296 + y \<Longrightarrow> x < 296 \<Longrightarrow> y < 296 \<Longrightarrow> a = b \<and> x = (y :: nat)"
proof -
  assume e: "a * 296 + x = b * 296 + y" and l: "x < 296" "y < 296"
  have "(a * 296 + x) div 296 = a" "(b * 296 + y) div 296 = b" using l by simp_all
  with e show ?thesis by simp
qed

lemma int_split: "0 \<le> p \<Longrightarrow> 0 \<le> q \<Longrightarrow> nat (p div 8) = nat (q div 8) \<Longrightarrow> nat (p mod 8) = nat (q mod 8) \<Longrightarrow> p = q"
proof -
  assume "0 \<le> p" "0 \<le> q" "nat (p div 8) = nat (q div 8)" "nat (p mod 8) = nat (q mod 8)"
  moreover have "0 \<le> p div 8" "0 \<le> q div 8" "0 \<le> p mod 8" "0 \<le> q mod 8"
    using \<open>0 \<le> p\<close> \<open>0 \<le> q\<close> by (simp_all add: pos_imp_zdiv_nonneg_iff)
  ultimately have "p div 8 = q div 8" "p mod 8 = q mod 8" by (simp_all only: nat_eq_iff2 int_nat_eq if_True)
  then show ?thesis by (metis div_mult_mod_eq)
qed

lemma offset_inject:
  assumes "on_screen px py" and "on_screen qx qy"
  shows "nat (py div 8) * 296 + nat px = nat (qy div 8) * 296 + nat qx \<and> nat (py mod 8) = nat (qy mod 8) \<longleftrightarrow>
     px = qx \<and> py = qy"
proof
  assume e: "nat (py div 8) * 296 + nat px = nat (qy div 8) * 296 + nat qx \<and> nat (py mod 8) = nat (qy mod 8)"
  have "nat px < 296" "nat qx < 296" using assms by auto
  with cell_inject [OF conjunct1 [OF e]] have "nat (py div 8) = nat (qy div 8)" "nat px = nat qx" by blast+
  moreover from this(1) have "py = qy" using assms e by (intro int_split) simp_all
  ultimately show "px = qx \<and> py = qy" using assms by (auto dest: eq_nat_nat_iff [THEN iffD1, rotated 2])
qed simp

lemma ink_bit:
  "n < 8 \<Longrightarrow> bit (if black then (w :: 8 word) OR m else w AND NOT m) n = (if bit m n then black else bit w n)"
  by (auto simp: bit_simps)

lemma put_ink_length [simp]: "length (put_ink black px py frame) = length frame"
  by (simp add: put_ink_def Let_def)

lemma put_ink_pixel:
  assumes "length frame = 5624" and "on_screen px py" and "on_screen qx qy"
  shows "pixel (put_ink black px py frame) qx qy = (if px = qx \<and> py = qy then black else pixel frame qx qy)"
proof -
  let ?o = "nat (py div 8) * 296 + nat px" and ?q = "nat (qy div 8) * 296 + nat qx"
  have k: "nat (py mod 8) < 8" "nat (qy mod 8) < 8" by auto
  have o: "?o < length frame" using offset_less [OF assms(2)] assms(1) by simp
  have m: "bit (drop_bit (nat (py mod 8)) (0x80 :: 8 word)) (7 - nat (qy mod 8)) \<longleftrightarrow> nat (py mod 8) = nat (qy mod 8)"
    unfolding mask_bit [OF k(1)] using k by linarith
  have at: "put_ink black px py frame ! ?q =
      (if ?o = ?q then if black then frame ! ?q OR drop_bit (nat (py mod 8)) 0x80
                       else frame ! ?q AND NOT (drop_bit (nat (py mod 8)) 0x80) else frame ! ?q)"
  proof (cases "?o = ?q")
    case True
    with o show ?thesis unfolding put_ink_def Let_def C1PKG_TEXT_FRAME_WIDTH_def nat_numeral True
      by (simp only: nth_list_update_eq if_True refl)
  next
    case False
    then show ?thesis unfolding put_ink_def Let_def C1PKG_TEXT_FRAME_WIDTH_def nat_numeral
      by (simp only: nth_list_update_neq if_False not_False_eq_True)
  qed
  show ?thesis
  proof (cases "?o = ?q")
    case True
    then have same: "nat (py mod 8) = nat (qy mod 8) \<longleftrightarrow> px = qx \<and> py = qy" using offset_inject [OF assms(2,3)] by blast
    have "7 - nat (qy mod 8) < 8" by simp
    from ink_bit [OF this, of black "frame ! ?q" "drop_bit (nat (py mod 8)) 0x80"] True
    show ?thesis unfolding pixel_def at m same by (simp only: if_True simp_thms)
  next
    case False
    then have "\<not> (px = qx \<and> py = qy)" using offset_inject [OF assms(2,3)] by blast
    then show ?thesis unfolding pixel_def at using False by (simp only: if_False)
  qed
qed

text \<open>A drawing step with the colour \<open>black\<close> changes exactly the pixels of \<open>ink\<close>.\<close>

definition paints :: "bool \<Rightarrow> (int \<Rightarrow> int \<Rightarrow> bool) \<Rightarrow> (8 word list \<Rightarrow> 8 word list) \<Rightarrow> bool" where
  "paints black ink g \<longleftrightarrow> (\<forall>frame. length frame = 5624 \<longrightarrow> length (g frame) = 5624 \<and>
     (\<forall>px py. on_screen px py \<longrightarrow>
        pixel (g frame) px py = (if ink px py then black else pixel frame px py)))"

lemma paints_nothing: "(\<And>px py. on_screen px py \<Longrightarrow> \<not> ink px py) \<Longrightarrow> paints black ink (\<lambda>frame. frame)"
  by (simp add: paints_def)

lemma paints_weaken:
  "paints black ink g \<Longrightarrow> (\<And>px py. on_screen px py \<Longrightarrow> ink px py \<longleftrightarrow> ink' px py) \<Longrightarrow> paints black ink' g"
  by (simp add: paints_def)

lemma paints_both:
  "paints black ink g \<Longrightarrow> paints black ink' h \<Longrightarrow> paints black (\<lambda>px py. ink px py \<or> ink' px py) (\<lambda>frame. h (g frame))"
  by (simp add: paints_def)

lemma paints_fold:
  "(\<And>x. x \<in> set xs \<Longrightarrow> paints black (ink x) (g x)) \<Longrightarrow>
   paints black (\<lambda>px py. \<exists>x \<in> set xs. ink x px py) (fold g xs)"
proof (induction xs)
  case Nil
  then show ?case by (simp add: paints_def)
next
  case (Cons x xs)
  then have "paints black (\<lambda>px py. ink x px py \<or> (\<exists>x \<in> set xs. ink x px py)) (\<lambda>frame. fold g xs (g x frame))"
    by (intro paints_both) auto
  then show ?case by (simp add: paints_def comp_def)
qed

text \<open>The ink of a glyph at a column and a row of its cell.\<close>

definition glyph_ink :: "font \<Rightarrow> nat \<Rightarrow> int \<Rightarrow> int \<Rightarrow> bool" where
  "glyph_ink f i column row \<longleftrightarrow> 0 \<le> column \<and> column < font_widths f i \<and> 0 \<le> row \<and> row < 16 \<and>
     bit (font_rows f i (nat row)) (15 - nat column)"

lemma row_mask: "col < 16 \<Longrightarrow> (v :: 16 word) AND drop_bit col 0x8000 \<noteq> 0 \<longleftrightarrow> bit v (15 - col)"
proof -
  assume c: "col < 16"
  have top: "(0x8000 :: 16 word) = push_bit 15 1" by simp
  have b: "bit (drop_bit col (0x8000 :: 16 word)) n \<longleftrightarrow> n = 15 - col" for n
    unfolding bit_drop_bit_eq top comp_def bit_push_bit_iff bit_1_iff using c by auto
  show ?thesis
  proof
    assume "bit v (15 - col)"
    then have "bit (v AND drop_bit col 0x8000) (15 - col)" unfolding bit_and_iff b by simp
    then show "v AND drop_bit col 0x8000 \<noteq> 0" by auto
  next
    assume "v AND drop_bit col 0x8000 \<noteq> 0"
    then obtain n where "bit (v AND drop_bit col 0x8000) n" by (metis bit_eqI bit_0_eq bot_apply bot_bool_def)
    then show "bit v (15 - col)" unfolding bit_and_iff b by (elim conjE) simp
  qed
qed

lemma draw_column_paints:
  assumes "0 \<le> py" "py < 152" "col < 16"
  shows "paints black (\<lambda>qx qy. qy = py \<and> qx = left + int col \<and> bit (font_rows f i row) (15 - col))
    (draw_column f black i left py row col)"
  using assms put_ink_pixel
  by (auto simp: paints_def draw_column_def Let_def row_mask C1PKG_TEXT_FRAME_WIDTH_def)

lemma draw_row_paints:
  assumes "0 \<le> font_widths f i" "font_widths f i \<le> 16" "row < 16"
  shows "paints black (\<lambda>qx qy. qy = y + int row \<and> glyph_ink f i (qx - left) (int row)) (draw_row f black i left y row)"
proof (cases "y + int row < 0 \<or> y + int row \<ge> 152")
  case True
  then have "draw_row f black i left y row = (\<lambda>frame. frame)"
    by (auto simp: draw_row_def Let_def C1PKG_TEXT_FRAME_HEIGHT_def)
  with True show ?thesis by (auto intro: paints_nothing)
next
  case False
  have "paints black (\<lambda>qx qy. \<exists>col \<in> set [0..<nat (font_widths f i)].
      qy = y + int row \<and> qx = left + int col \<and> bit (font_rows f i row) (15 - col))
    (fold (draw_column f black i left (y + int row) row) [0..<nat (font_widths f i)])"
    using False assms by (intro paints_fold draw_column_paints) auto
  then have "paints black (\<lambda>qx qy. qy = y + int row \<and> glyph_ink f i (qx - left) (int row))
    (fold (draw_column f black i left (y + int row) row) [0..<nat (font_widths f i)])"
  proof (rule paints_weaken)
    fix px py
    have "(\<exists>col \<in> set [0..<nat (font_widths f i)]. px = left + int col \<and> bit (font_rows f i row) (15 - col)) \<longleftrightarrow>
        glyph_ink f i (px - left) (int row)"
    proof
      assume "glyph_ink f i (px - left) (int row)"
      then show "\<exists>col \<in> set [0..<nat (font_widths f i)]. px = left + int col \<and> bit (font_rows f i row) (15 - col)"
        by (intro bexI [of _ "nat (px - left)"]) (auto simp: glyph_ink_def)
    qed (use assms in \<open>auto simp: glyph_ink_def\<close>)
    then show "(\<exists>col \<in> set [0..<nat (font_widths f i)]. py = y + int row \<and> px = left + int col \<and>
          bit (font_rows f i row) (15 - col)) \<longleftrightarrow> py = y + int row \<and> glyph_ink f i (px - left) (int row)"
      by auto
  qed
  moreover have "draw_row f black i left y row =
      fold (draw_column f black i left (y + int row) row) [0..<nat (font_widths f i)]"
    using False by (auto simp: draw_row_def Let_def C1PKG_TEXT_FRAME_HEIGHT_def)
  ultimately show ?thesis by simp
qed

lemma draw_glyph_paints:
  assumes "0 \<le> font_widths f i" "font_widths f i \<le> 16"
  shows "paints black (\<lambda>qx qy. glyph_ink f i (qx - left) (qy - y)) (draw_glyph f black i left y)"
proof -
  have "paints black (\<lambda>qx qy. \<exists>row \<in> set [0..<C1PKG_TEXT_HEIGHT]. qy = y + int row \<and> glyph_ink f i (qx - left) (int row))
      (fold (draw_row f black i left y) [0..<C1PKG_TEXT_HEIGHT])"
    using assms by (intro paints_fold draw_row_paints) (auto simp: C1PKG_TEXT_HEIGHT_def)
  then have "paints black (\<lambda>qx qy. glyph_ink f i (qx - left) (qy - y)) (fold (draw_row f black i left y) [0..<C1PKG_TEXT_HEIGHT])"
  proof (rule paints_weaken)
    fix px py
    show "(\<exists>row \<in> set [0..<C1PKG_TEXT_HEIGHT]. py = y + int row \<and> glyph_ink f i (px - left) (int row)) \<longleftrightarrow>
        glyph_ink f i (px - left) (py - y)"
    proof
      assume "glyph_ink f i (px - left) (py - y)"
      then show "\<exists>row \<in> set [0..<C1PKG_TEXT_HEIGHT]. py = y + int row \<and> glyph_ink f i (px - left) (int row)"
        by (intro bexI [of _ "nat (py - y)"]) (auto simp: glyph_ink_def C1PKG_TEXT_HEIGHT_def)
    qed auto
  qed
  then show ?thesis by (simp add: draw_glyph_def [abs_def])
qed

text \<open>What a reader sees: the glyphs of the text up to the first code point that may not be shown, as many as fit
  the budget, each next to the one before.\<close>

function visible :: "string \<Rightarrow> nat list" where
  "visible p =
     (case decode p of
        None \<Rightarrow> []
      | Some (cp, r) \<Rightarrow> if forbidden_label cp then [] else glyph cp # visible r)"
  by pat_completeness auto
termination
  by (relation "measure length") (auto dest: decode_shorter)

declare visible.simps [simp del]

fun placed :: "font \<Rightarrow> int \<Rightarrow> int \<Rightarrow> nat list \<Rightarrow> (int \<times> nat) list" where
  "placed f x budget [] = []"
| "placed f x budget (i # is) =
     (if font_widths f i > budget then []
      else (x, i) # placed f (x + font_widths f i) (budget - font_widths f i) is)"

definition label_ink :: "font \<Rightarrow> int \<Rightarrow> int \<Rightarrow> (int \<times> nat) list \<Rightarrow> bool" where
  "label_ink f column row gs \<longleftrightarrow> (\<exists>(left, i) \<in> set gs. glyph_ink f i (column - left) row)"

lemma label_ink_simps [simp]:
  "\<not> label_ink f column row []"
  "label_ink f column row ((left, i) # gs) \<longleftrightarrow> glyph_ink f i (column - left) row \<or> label_ink f column row gs"
  by (auto simp: label_ink_def)

definition font_ok :: "font \<Rightarrow> bool" where
  "font_ok f \<longleftrightarrow> (\<forall>i. font_widths f i = 8 \<or> font_widths f i = 16)"

lemma font_ok_bounds: "font_ok f \<Longrightarrow> 0 < font_widths f i \<and> font_widths f i \<le> 16"
  by (auto simp: font_ok_def dest: spec [of _ i])

lemma placed_right: "font_ok f \<Longrightarrow> (left, i) \<in> set (placed f x budget is) \<Longrightarrow> x \<le> left"
proof (induction "is" arbitrary: x budget)
  case (Cons j "is")
  then show ?case using font_ok_bounds [of f j] by (fastforce split: if_splits)
qed simp

lemma label_ink_right:
  "font_ok f \<Longrightarrow> label_ink f column row (placed f x budget is) \<Longrightarrow> x \<le> column \<and> 0 \<le> row \<and> row < 16"
  by (fastforce simp: label_ink_def glyph_ink_def dest: placed_right)

lemma draw_loop_paints:
  assumes "font_ok f"
  shows "paints black (\<lambda>px py. label_ink f px (py - y) (placed f (x + used) (max_width - used) (visible p)))
    (draw_loop f black x y max_width used p)"
proof (induction p arbitrary: used rule: length_induct)
  case (1 p)
  show ?case
  proof (cases "decode p")
    case None
    then have "draw_loop f black x y max_width used p = (\<lambda>frame. frame)"
      by (intro ext) (simp add: draw_loop.simps [of _ _ _ _ _ _ p])
    with None show ?thesis by (simp add: visible.simps [of p] paints_nothing)
  next
    case (Some d)
    obtain cp r where d: "d = (cp, r)" by (cases d)
    show ?thesis
    proof (cases "forbidden_label cp")
      case True
      with Some d have "draw_loop f black x y max_width used p = (\<lambda>frame. frame)"
        by (intro ext) (simp add: draw_loop.simps [of _ _ _ _ _ _ p])
      with True Some d show ?thesis by (simp add: visible.simps [of p] paints_nothing)
    next
      case False
      let ?i = "glyph cp"
      let ?w = "font_widths f ?i"
      have vis: "visible p = ?i # visible r" using Some d False by (simp add: visible.simps [of p])
      show ?thesis
      proof (cases "?w > max_width - used \<or> x + used \<ge> 296")
        case True
        then have "draw_loop f black x y max_width used p = (\<lambda>frame. frame)"
          using Some d False by (auto simp: draw_loop.simps [of _ _ _ _ _ _ p] Let_def C1PKG_TEXT_FRAME_WIDTH_def)
        moreover have "\<not> label_ink f px (py - y) (placed f (x + used) (max_width - used) (visible p))"
          if "on_screen px py" for px py
          using that True label_ink_right [OF assms, of px "py - y" "x + used" "max_width - used" "visible p"] vis
          by auto
        ultimately show ?thesis by (auto intro: paints_nothing)
      next
        case False
        have "length r < length p" using Some d decode_shorter by blast
        with 1 have "paints black (\<lambda>px py. label_ink f px (py - y)
            (placed f (x + (used + ?w)) (max_width - (used + ?w)) (visible r)))
          (draw_loop f black x y max_width (used + ?w) r)" by blast
        moreover have "paints black (\<lambda>px py. glyph_ink f ?i (px - (x + used)) (py - y))
            (draw_glyph f black ?i (x + used) y)"
          using font_ok_bounds [OF assms, of ?i] by (intro draw_glyph_paints) auto
        ultimately have "paints black (\<lambda>px py. glyph_ink f ?i (px - (x + used)) (py - y) \<or>
            label_ink f px (py - y) (placed f (x + (used + ?w)) (max_width - (used + ?w)) (visible r)))
          (\<lambda>frame. draw_loop f black x y max_width (used + ?w) r (draw_glyph f black ?i (x + used) y frame))"
          by (intro paints_both)
        moreover have "draw_loop f black x y max_width used p =
            (\<lambda>frame. draw_loop f black x y max_width (used + ?w) r (draw_glyph f black ?i (x + used) y frame))"
          using False \<open>\<not> forbidden_label cp\<close> Some d
          by (intro ext) (simp add: draw_loop.simps [of _ _ _ _ _ _ p] Let_def C1PKG_TEXT_FRAME_WIDTH_def)
        ultimately show ?thesis using False vis by (simp add: algebra_simps)
      qed
    qed
  qed
qed

lemma text_paints:
  assumes "font_ok f"
  shows "paints black (\<lambda>px py. label_ink f px (py - y) (placed f x max_width (visible label)))
    (\<lambda>frame. c1pkg_text f frame x y label max_width black)"
proof (cases "max_width \<le> 0 \<or> x \<ge> 296 \<or> y \<ge> 152 \<or> y \<le> - 16")
  case True
  then have "(\<lambda>frame. c1pkg_text f frame x y label max_width black) = (\<lambda>frame. frame)"
    by (auto simp: c1pkg_text_def C1PKG_TEXT_FRAME_WIDTH_def C1PKG_TEXT_FRAME_HEIGHT_def C1PKG_TEXT_HEIGHT_def)
  moreover have "\<not> label_ink f px (py - y) (placed f x max_width (visible label))" if "on_screen px py" for px py
  proof (cases "max_width \<le> 0")
    case True
    then have "placed f x max_width (visible label) = []"
      using font_ok_bounds [OF assms] by (cases "visible label") (auto simp: not_le intro: le_less_trans)
    then show ?thesis by simp
  next
    case False
    with True that label_ink_right [OF assms, of px "py - y" x max_width "visible label"] show ?thesis by auto
  qed
  ultimately show ?thesis by (auto intro: paints_nothing)
next
  case False
  then have "(\<lambda>frame. c1pkg_text f frame x y label max_width black) = draw_loop f black x y max_width 0 label"
    by (auto simp: c1pkg_text_def C1PKG_TEXT_FRAME_WIDTH_def C1PKG_TEXT_FRAME_HEIGHT_def C1PKG_TEXT_HEIGHT_def)
  with draw_loop_paints [OF assms, of black y x 0 max_width label] show ?thesis by simp
qed

lemma width_sum:
  assumes "font_ok f" and "width_loop f width p < INT_MAX"
  shows "width_loop f width p = width + sum_list (map (font_widths f) (visible p))"
  using assms(2)
proof (induction p arbitrary: width rule: length_induct)
  case (1 p)
  show ?case
  proof (cases "decode p")
    case None
    then show ?thesis by (simp add: width_loop.simps [of f width p] visible.simps [of p])
  next
    case (Some d)
    obtain cp r where d: "d = (cp, r)" by (cases d)
    show ?thesis
    proof (cases "forbidden_label cp")
      case True
      with Some d show ?thesis by (simp add: width_loop.simps [of f width p] visible.simps [of p])
    next
      case False
      let ?w = "font_widths f (glyph cp)"
      have step: "width_loop f width p = width_loop f (width + ?w) r"
        using 1(2) Some d False by (simp add: width_loop.simps [of f width p] Let_def split: if_splits)
      have "length r < length p" using Some d decode_shorter by blast
      with 1 step have "width_loop f (width + ?w) r = width + ?w + sum_list (map (font_widths f) (visible r))"
        by simp
      with step Some d False show ?thesis by (simp add: visible.simps [of p])
    qed
  qed
qed

lemma placed_all:
  "font_ok f \<Longrightarrow> sum_list (map (font_widths f) is) \<le> budget \<Longrightarrow> map snd (placed f x budget is) = is"
proof (induction "is" arbitrary: x budget)
  case (Cons i "is")
  have "0 \<le> sum_list (map (font_widths f) is)"
    using font_ok_bounds [OF Cons.prems(1)] by (intro sum_list_nonneg) (auto intro: less_imp_le)
  with Cons show ?case by auto
qed simp


definition demo_font :: font where
  "demo_font = \<lparr> font_widths = (\<lambda>i. 8), font_rows = (\<lambda>i row. 0xff00) \<rparr>"


end
