(* ===== verification/PkgIndex.thy ===== *)
theory PkgIndex
  imports PkgModel PkgText UpdateState
begin

text \<open>
  The signed package index (\<open>src/C1ancher/src/pkg/repo.c\<close>, parser part) and the syntax of identifiers, versions
  and paths that it and the package store rest on (\<open>src/C1ancher/src/pkg/util.c\<close>): the parser accepts exactly
  the canonical texts of well-formed indexes.
\<close>

definition C1PKG_INDEX_MAX :: nat where "C1PKG_INDEX_MAX = 256 * 1024"
definition C1PKG_PACKAGE_MAX :: nat where "C1PKG_PACKAGE_MAX = 32 * 1024 * 1024"
definition C1PKG_LINE_MAX :: nat where "C1PKG_LINE_MAX = 1024"
definition C1PKG_ID_MAX :: nat where "C1PKG_ID_MAX = 32"
definition C1PKG_VERSION_MAX :: nat where "C1PKG_VERSION_MAX = 48"
definition C1PKG_ENTRY_MAX :: nat where "C1PKG_ENTRY_MAX = 192"
definition C1PKG_INDEX_HEADER :: string where "C1PKG_INDEX_HEADER = ''C1PKG-INDEX 1''"

lemmas pkg_limits = C1PKG_INDEX_MAX_def C1PKG_PACKAGE_MAX_def C1PKG_LINE_MAX_def C1PKG_ID_MAX_def
  C1PKG_VERSION_MAX_def C1PKG_ENTRY_MAX_def C1PKG_MAX_PACKAGES_def

section \<open>Names and paths\<close>

definition pkg_token_char :: "bool \<Rightarrow> char \<Rightarrow> bool" where
  "pkg_token_char version c \<longleftrightarrow>
     is_lower c \<or> is_upper c \<or> is_digit c \<or> c = CHR ''.'' \<or> c = CHR ''_'' \<or> c = CHR ''-'' \<or>
     (version \<and> c = CHR ''+'')"

definition pkg_safe_token :: "string \<Rightarrow> nat \<Rightarrow> bool \<Rightarrow> bool" where
  "pkg_safe_token token maximum version \<longleftrightarrow>
     \<not> (length token = 0 \<or> length token > maximum \<or> hd token = CHR ''.'' \<or> last token = CHR ''.'') \<and>
     list_all (\<lambda>i. \<not> (\<not> pkg_token_char version (token ! i) \<or>
                      (token ! i = CHR ''.'' \<and> i + 1 < length token \<and> token ! (i + 1) = CHR ''.'')))
       [0..<length token]"

definition c1pkg_safe_id :: "string \<Rightarrow> bool" where
  "c1pkg_safe_id token = pkg_safe_token token C1PKG_ID_MAX False"

definition c1pkg_safe_version :: "string \<Rightarrow> bool" where
  "c1pkg_safe_version token = pkg_safe_token token C1PKG_VERSION_MAX True"

text \<open>\<open>c1pkg_safe_relpath\<close>: the bytes since the last slash are the component being read.\<close>

definition bad_component :: "string \<Rightarrow> bool" where
  "bad_component component \<longleftrightarrow> component = [] \<or> component = ''.'' \<or> component = ''..''"

definition bad_path_byte :: "char \<Rightarrow> bool" where
  "bad_path_byte c \<longleftrightarrow> byte c < 0x21 \<or> byte c > 0x7e \<or> c = CHR 0x5C \<or> c = CHR '':'' \<or> c = CHR ''*'' \<or>
     c = CHR ''?'' \<or> c = CHR ''[''"

fun relpath_loop :: "string \<Rightarrow> string \<Rightarrow> bool" where
  "relpath_loop component [] \<longleftrightarrow> \<not> bad_component component"
| "relpath_loop component (c # cursor) \<longleftrightarrow>
     (if c = CHR ''/'' then \<not> bad_component component \<and> relpath_loop [] cursor
      else \<not> bad_path_byte c \<and> relpath_loop (component @ [c]) cursor)"

definition c1pkg_safe_relpath :: "string \<Rightarrow> bool" where
  "c1pkg_safe_relpath path \<longleftrightarrow>
     \<not> (length path = 0 \<or> length path > C1PKG_ENTRY_MAX \<or> hd path = CHR ''/'' \<or> last path = CHR ''/'') \<and>
     relpath_loop [] path"

section \<open>Records\<close>

definition pkg_parse_u64 :: "string \<Rightarrow> nat option" where
  "pkg_parse_u64 digits =
     (if digits = [] \<or> (hd digits = CHR ''0'' \<and> tl digits \<noteq> []) then None else parse_digits 0 digits)"

definition valid_name :: "string \<Rightarrow> bool" where
  "valid_name name = c1pkg_valid_label name"

definition pkg_valid_sha256 :: "string \<Rightarrow> bool" where
  "pkg_valid_sha256 dig \<longleftrightarrow> length dig = 64 \<and> list_all is_lower_hex dig"

definition parse_package_line :: "string \<Rightarrow> nat \<Rightarrow> string + c1pkg_package" where
  "parse_package_line line format =
     (let f = split_on tab line in
      if length f > 9 then Inl ''too many package fields''
      else if length f \<noteq> (if format = 2 then 9 else 8) \<or>
              (format = 2 \<and> \<not> valid_name (f ! 8)) \<or>
              f ! 0 \<noteq> ''P'' \<or> \<not> c1pkg_safe_id (f ! 1) \<or>
              \<not> c1pkg_safe_version (f ! 2) \<or> \<not> valid_name (f ! 3) \<or>
              \<not> c1pkg_safe_relpath (f ! 4) \<or> \<not> pkg_valid_sha256 (f ! 5) \<or>
              pkg_parse_u64 (f ! 6) = None \<or> the (pkg_parse_u64 (f ! 6)) = 0 \<or>
              the (pkg_parse_u64 (f ! 6)) > C1PKG_PACKAGE_MAX \<or> \<not> c1pkg_safe_relpath (f ! 7)
      then Inl ''invalid package record''
      else Inr \<lparr> pkg_id = f ! 1, pkg_version = f ! 2, pkg_name = f ! 3,
                 pkg_author = (if format = 2 then f ! 8 else ''Unknown''),
                 pkg_archive = f ! 4, pkg_entry = f ! 7, pkg_sha256 = f ! 5,
                 pkg_size = the (pkg_parse_u64 (f ! 6)) \<rparr>)"

section \<open>The index\<close>

text \<open>One line: its number, the format and the sequence read before, the packages so far.\<close>

definition index_line ::
  "nat \<Rightarrow> nat \<Rightarrow> nat \<Rightarrow> c1pkg_package list \<Rightarrow> string \<Rightarrow> string + nat \<times> nat \<times> c1pkg_package list" where
  "index_line line_number format sequence pkgs line =
     (if line_number = 1 then
        if line = ''C1PKG-INDEX 2'' then Inr (2, sequence, pkgs)
        else if line \<noteq> C1PKG_INDEX_HEADER then Inl ''unsupported index header''
        else Inr (format, sequence, pkgs)
      else if line_number = 2 then
        if take 2 line \<noteq> [CHR ''S'', tab] \<or> pkg_parse_u64 (drop 2 line) = None \<or>
           pkg_parse_u64 (drop 2 line) = Some 0
        then Inl ''invalid repository sequence''
        else Inr (format, the (pkg_parse_u64 (drop 2 line)), pkgs)
      else if length pkgs \<ge> C1PKG_MAX_PACKAGES \<or> line = []
      then Inl ''empty or excessive package record''
      else case parse_package_line line format of
             Inl e \<Rightarrow> Inl e
           | Inr package \<Rightarrow>
               if length pkgs > 0 \<and> strcmp (pkg_id (last pkgs)) (pkg_id package) \<ge> 0
               then Inl ''package IDs must be unique and sorted''
               else Inr (format, sequence, pkgs @ [package]))"

function index_loop ::
  "nat \<Rightarrow> nat \<Rightarrow> nat \<Rightarrow> c1pkg_package list \<Rightarrow> string \<Rightarrow> string + nat \<times> nat \<times> c1pkg_package list" where
  "index_loop line_number format sequence pkgs data =
     (if data = [] then Inr (line_number, sequence, pkgs)
      else
        let line = takeWhile (\<lambda>c. c \<noteq> nl) data;
            rest = dropWhile (\<lambda>c. c \<noteq> nl) data in
        if list_ex (\<lambda>c. byte c = 0 \<or> byte c = 13) line then Inl ''index contains forbidden bytes''
        else if length line > C1PKG_LINE_MAX then Inl ''index line is too long''
        else case index_line (line_number + 1) format sequence pkgs line of
               Inl e \<Rightarrow> Inl e
             | Inr (format, sequence, pkgs) \<Rightarrow>
                 index_loop (line_number + 1) format sequence pkgs (tl rest))"
  by pat_completeness auto
termination
  by (relation "measure (\<lambda>(n, f, s, p, data). length data)") (auto simp: length_tl_dropWhile)

declare index_loop.simps [simp del]

definition parse_index_data :: "string \<Rightarrow> string + c1pkg_index" where
  "parse_index_data data =
     (if length data > C1PKG_INDEX_MAX then Inl ''invalid index size or out of memory''
      else if length data = 0 \<or> last data \<noteq> nl then Inl ''index must end with LF''
      else case index_loop 0 1 0 [] data of
             Inl e \<Rightarrow> Inl e
           | Inr (line_number, sequence, pkgs) \<Rightarrow>
               if line_number < 2 \<or> sequence = 0 then Inl ''missing repository sequence''
               else Inr \<lparr> index_sequence = sequence, packages = pkgs \<rparr>)"

definition c1pkg_repo_parse :: "string \<Rightarrow> string + c1pkg_index" where
  "c1pkg_repo_parse data = parse_index_data data"

definition c1pkg_repo_find :: "c1pkg_index \<Rightarrow> string \<Rightarrow> c1pkg_package option" where
  "c1pkg_repo_find index ident = find (\<lambda>p. pkg_id p = ident) (packages index)"

section \<open>The text of an index\<close>

definition package_line :: "nat \<Rightarrow> c1pkg_package \<Rightarrow> string" where
  "package_line format p = join_with tab
     ([''P'', pkg_id p, pkg_version p, pkg_name p, pkg_archive p, pkg_sha256 p, dec (pkg_size p), pkg_entry p] @
      (if format = 2 then [pkg_author p] else []))"

definition package_ok :: "nat \<Rightarrow> c1pkg_package \<Rightarrow> bool" where
  "package_ok format p \<longleftrightarrow> c1pkg_safe_id (pkg_id p) \<and> c1pkg_safe_version (pkg_version p) \<and>
     c1pkg_valid_label (pkg_name p) \<and> c1pkg_safe_relpath (pkg_archive p) \<and> pkg_valid_sha256 (pkg_sha256 p) \<and>
     0 < pkg_size p \<and> pkg_size p \<le> C1PKG_PACKAGE_MAX \<and> c1pkg_safe_relpath (pkg_entry p) \<and>
     (if format = 2 then c1pkg_valid_label (pkg_author p) else pkg_author p = ''Unknown'')"

definition index_text :: "nat \<Rightarrow> c1pkg_index \<Rightarrow> string" where
  "index_text format i = unlines
     ((if format = 2 then ''C1PKG-INDEX 2'' else ''C1PKG-INDEX 1'') #
      (CHR ''S'' # tab # dec (index_sequence i)) # map (package_line format) (packages i))"

definition index_ok :: "nat \<Rightarrow> c1pkg_index \<Rightarrow> bool" where
  "index_ok format i \<longleftrightarrow> (format = 1 \<or> format = 2) \<and>
     0 < index_sequence i \<and> index_sequence i \<le> UINT64_MAX \<and> length (packages i) \<le> C1PKG_MAX_PACKAGES \<and>
     list_all (package_ok format) (packages i) \<and> sorted_wrt (<) (map pkg_id (packages i))"

section \<open>Fields are free of separators\<close>

lemma pkg_u64_iff: "pkg_parse_u64 t = Some v \<longleftrightarrow> canonical_number t \<and> num_value t = v \<and> v \<le> UINT64_MAX"
proof -
  have "pkg_parse_u64 t = parse_u64 t False" by (simp add: pkg_parse_u64_def parse_u64_def split: option.split)
  then show ?thesis using parse_u64_canonical [of t False v] by simp
qed

interpretation index_number: codec pkg_parse_u64 dec "\<lambda>n. n \<le> UINT64_MAX"
  by unfold_locales (auto simp: pkg_u64_iff canonical_dec dec_num_value)

lemma pkg_token_plain: "pkg_safe_token t m v \<Longrightarrow> list_all plain_byte t"
  by (auto simp: pkg_safe_token_def pkg_token_char_def list_all_length plain_byte_def char_class_defs)

lemma relpath_loop_plain: "relpath_loop part t \<Longrightarrow> list_all plain_byte t"
  by (induction part t rule: relpath_loop.induct) (auto simp: bad_path_byte_def plain_byte_def split: if_splits)

lemma safe_plain:
  "c1pkg_safe_id t \<Longrightarrow> list_all plain_byte t" "c1pkg_safe_version t \<Longrightarrow> list_all plain_byte t"
  "c1pkg_safe_relpath t \<Longrightarrow> list_all plain_byte t" "pkg_valid_sha256 t \<Longrightarrow> list_all plain_byte t"
  using pkg_token_plain relpath_loop_plain digest_plain
  by (auto simp: c1pkg_safe_id_def c1pkg_safe_version_def c1pkg_safe_relpath_def pkg_valid_sha256_def valid_digest_def)

text \<open>A byte that a line of the index may hold inside a field.\<close>

definition field_byte :: "char \<Rightarrow> bool" where
  "field_byte c \<longleftrightarrow> byte c \<ge> 0x20"

lemma plain_field: "list_all plain_byte t \<Longrightarrow> list_all field_byte t"
  by (auto simp: list_all_iff plain_byte_def field_byte_def)

lemma label_char_bytes: "label_char cp \<Longrightarrow> list_all field_byte (utf8_encode cp)"
proof -
  assume l: "label_char cp"
  then have "cp \<ge> 0x20" "cp \<le> 0x10ffff"
    by (auto simp: label_char_def forbidden_label_def forbidden_ranges_def scalar_def)
  then show ?thesis
    by (auto simp: utf8_encode_def field_byte_def)
qed

lemma label_field: "c1pkg_valid_label t \<Longrightarrow> list_all field_byte t"
proof -
  assume "c1pkg_valid_label t"
  then obtain cps where "t = utf8 cps" "list_all label_char cps" by (auto simp: valid_label_iff)
  then show ?thesis using label_char_bytes by (fastforce simp: list_all_iff)
qed

lemma field_clean:
  "list_all field_byte t \<Longrightarrow> tab \<notin> set t \<and> nl \<notin> set t \<and> \<not> list_ex (\<lambda>c. byte c = 0 \<or> byte c = 13) t"
  by (auto simp: list_all_iff list_ex_iff field_byte_def)

lemma package_fields:
  assumes "package_ok f p"
  shows "\<forall>x \<in> {pkg_id p, pkg_version p, pkg_name p, pkg_archive p, pkg_sha256 p, dec (pkg_size p), pkg_entry p,
       pkg_author p}. list_all field_byte x"
  using assms safe_plain [THEN plain_field] label_field dec_plain [THEN plain_field]
  by (auto simp: package_ok_def field_byte_def split: if_splits)

section \<open>Package lines\<close>

lemma split_list_8:
  "length fs = 8 \<longleftrightarrow> (\<exists>a b c d e f g h. fs = [a, b, c, d, e, f, g, h])"
  "length fs = 9 \<longleftrightarrow> (\<exists>a b c d e f g h i. fs = [a, b, c, d, e, f, g, h, i])"
  by (auto simp: length_Suc_conv numeral_eq_Suc)

lemma parse_package_line_sound:
  assumes "parse_package_line line f = Inr p" and "f = 1 \<or> f = 2"
  shows "package_ok f p \<and> line = package_line f p"
proof -
  define fs where "fs = split_on tab line"
  have line: "line = join_with tab fs" by (simp add: fs_def)
  from assms have len: "length fs = (if f = 2 then 9 else 8)"
    by (simp add: parse_package_line_def Let_def fs_def split: if_splits)
  obtain n where n: "pkg_parse_u64 (fs ! 6) = Some n"
    using assms(1) by (auto simp: parse_package_line_def Let_def fs_def split: if_splits)
  then have "fs ! 6 = dec n" by (simp add: index_number.parse_iff)
  with assms len n line show ?thesis
    unfolding parse_package_line_def Let_def fs_def [symmetric]
    by (cases "f = 2") (auto simp: split_list_8 package_ok_def package_line_def valid_name_def split: if_splits)
qed

lemma parse_package_line_complete:
  assumes "package_ok f p" and "f = 1 \<or> f = 2"
  shows "parse_package_line (package_line f p) f = Inr p"
proof -
  let ?fs = "[''P'', pkg_id p, pkg_version p, pkg_name p, pkg_archive p, pkg_sha256 p, dec (pkg_size p), pkg_entry p] @
      (if f = 2 then [pkg_author p] else [])"
  have "\<forall>x \<in> set ?fs. tab \<notin> set x"
    using package_fields [OF assms(1)] field_clean by (auto split: if_splits)
  then have split: "split_on tab (package_line f p) = ?fs"
    unfolding package_line_def by (intro split_on_join) simp_all
  have "pkg_size p \<le> UINT64_MAX" using assms(1) by (simp add: package_ok_def pkg_limits UINT64_MAX_value)
  then have "pkg_parse_u64 (dec (pkg_size p)) = Some (pkg_size p)" by (simp add: index_number.parse_iff)
  with assms split show ?thesis
    by (cases p) (auto simp: parse_package_line_def package_ok_def valid_name_def)
qed

lemma join_length: "length (join_with c fs) = sum_list (map length fs) + (length fs - 1)"
  by (induction c fs rule: join_with.induct) auto

lemma package_line_clean:
  assumes "package_ok f p"
  shows "list_all (\<lambda>c. field_byte c \<or> c = tab) (package_line f p) \<and> length (package_line f p) \<le> C1PKG_LINE_MAX \<and>
     package_line f p \<noteq> []"
proof -
  have join: "list_all (\<lambda>c. field_byte c \<or> c = tab) (join_with tab fs)" if "\<forall>x \<in> set fs. list_all field_byte x" for fs
    using that by (induction tab fs rule: join_with.induct) (auto simp: list_all_iff)
  have "length (dec (pkg_size p)) \<le> 8"
    using assms length_dec [of "pkg_size p" 8] by (simp add: package_ok_def pkg_limits)
  moreover have "length (pkg_id p) \<le> 32" "length (pkg_version p) \<le> 48" "length (pkg_name p) \<le> 40"
    "length (pkg_archive p) \<le> 192" "length (pkg_sha256 p) = 64" "length (pkg_entry p) \<le> 192"
    "length (pkg_author p) \<le> 40"
    using assms by (auto simp: package_ok_def c1pkg_safe_id_def c1pkg_safe_version_def pkg_safe_token_def
        c1pkg_safe_relpath_def c1pkg_valid_label_def C1PKG_LABEL_MAX_BYTES_def pkg_valid_sha256_def pkg_limits
        split: if_splits)
  ultimately have "length (package_line f p) \<le> C1PKG_LINE_MAX"
    by (auto simp: package_line_def join_length pkg_limits)
  moreover have "list_all (\<lambda>c. field_byte c \<or> c = tab) (package_line f p)"
    unfolding package_line_def using package_fields [OF assms]
    by (intro join) (auto simp: field_byte_def)
  moreover have "package_line f p \<noteq> []" by (simp add: package_line_def)
  ultimately show ?thesis by blast
qed

section \<open>The parser on lines\<close>

definition index_line_ok :: "string \<Rightarrow> bool" where
  "index_line_ok l \<longleftrightarrow> nl \<notin> set l \<and> \<not> list_ex (\<lambda>c. byte c = 0 \<or> byte c = 13) l \<and> length l \<le> C1PKG_LINE_MAX"

fun index_fold ::
  "nat \<Rightarrow> nat \<Rightarrow> nat \<Rightarrow> c1pkg_package list \<Rightarrow> string list \<Rightarrow> string + nat \<times> nat \<times> c1pkg_package list" where
  "index_fold n f s ps [] = Inr (n, s, ps)"
| "index_fold n f s ps (l # ls) =
     (case index_line (n + 1) f s ps l of
        Inl e \<Rightarrow> Inl e
      | Inr (f, s, ps) \<Rightarrow> index_fold (n + 1) f s ps ls)"

lemma fold_step:
  "index_fold n f s ps (l # ls) = Inr r \<longleftrightarrow>
     (\<exists>f' s' ps'. index_line (n + 1) f s ps l = Inr (f', s', ps') \<and> index_fold (n + 1) f' s' ps' ls = Inr r)"
  by (auto split: sum.splits)

lemma index_loop_sound:
  "index_loop n f s ps data = Inr r \<Longrightarrow> data = [] \<or> last data = nl \<Longrightarrow>
   \<exists>ls. data = unlines ls \<and> list_all index_line_ok ls \<and> index_fold n f s ps ls = Inr r"
proof (induction data arbitrary: n f s ps rule: length_induct)
  case (1 data)
  define line where "line = takeWhile (\<lambda>c. c \<noteq> nl) data"
  define rest where "rest = dropWhile (\<lambda>c. c \<noteq> nl) data"
  show ?case
  proof (cases "data = []")
    case True
    with "1.prems" show ?thesis by (intro exI [of _ "[]"]) (simp add: index_loop.simps [of n f s ps "[]"])
  next
    case False
    with "1.prems" obtain f1 s1 p1 where ok: "\<not> list_ex (\<lambda>c. byte c = 0 \<or> byte c = 13) line"
        "length line \<le> C1PKG_LINE_MAX" and step: "index_line (n + 1) f s ps line = Inr (f1, s1, p1)"
        and rec: "index_loop (n + 1) f1 s1 p1 (tl rest) = Inr r"
      by (auto simp: index_loop.simps [of n f s ps data] Let_def line_def rest_def not_less
          split: if_splits sum.splits)
    have "nl \<in> set data" using False "1.prems"(2) last_in_set by force
    then have ne: "rest \<noteq> []" by (auto simp: rest_def dropWhile_eq_Nil_conv)
    have "hd rest = nl" using ne hd_dropWhile [of "\<lambda>c. c \<noteq> nl" data] by (auto simp: rest_def)
    with ne have split: "nl # tl rest = rest" by (cases rest) auto
    have data: "data = line @ nl # tl rest" unfolding split by (simp add: line_def rest_def)
    have "length (tl rest) < length data" by (subst data) simp
    moreover have "tl rest = [] \<or> last (tl rest) = nl"
      using "1.prems"(2) False data by (metis last_ConsR last_appendR list.simps(3))
    ultimately obtain ls where ls: "tl rest = unlines ls" "list_all index_line_ok ls"
        "index_fold (n + 1) f1 s1 p1 ls = Inr r"
      using "1.IH" rec by blast
    have "index_line_ok line"
      using ok by (auto simp: index_line_ok_def line_def dest: set_takeWhileD)
    with ls step data show ?thesis by (intro exI [of _ "line # ls"]) simp
  qed
qed

lemma index_loop_complete:
  "list_all index_line_ok ls \<Longrightarrow> index_fold n f s ps ls = Inr r \<Longrightarrow> index_loop n f s ps (unlines ls) = Inr r"
proof (induction ls arbitrary: n f s ps)
  case Nil
  then show ?case by (simp add: index_loop.simps)
next
  case (Cons l ls)
  from Cons.prems have l: "nl \<notin> set l" "\<not> list_ex (\<lambda>c. byte c = 0 \<or> byte c = 13) l" "length l \<le> C1PKG_LINE_MAX"
    by (simp_all add: index_line_ok_def)
  from Cons.prems obtain f1 s1 p1 where "index_line (n + 1) f s ps l = Inr (f1, s1, p1)"
      "index_fold (n + 1) f1 s1 p1 ls = Inr r"
    by (auto split: sum.splits)
  with Cons l show ?case
    by (simp add: index_loop.simps [of n f s ps "l @ nl # unlines ls"] Let_def takeWhile_line dropWhile_line)
qed

lemma index_fold_packages:
  assumes "n \<ge> 2" and "f = 1 \<or> f = 2" and "sorted_wrt (<) (map pkg_id ps)" and "length ps \<le> C1PKG_MAX_PACKAGES"
  shows "index_fold n f s ps ls = Inr r \<longleftrightarrow>
    (\<exists>qs. ls = map (package_line f) qs \<and> list_all (package_ok f) qs \<and> sorted_wrt (<) (map pkg_id (ps @ qs)) \<and>
       length (ps @ qs) \<le> C1PKG_MAX_PACKAGES \<and> r = (n + length qs, s, ps @ qs))"
  using assms
proof (induction ls arbitrary: n ps)
  case Nil
  then show ?case by auto
next
  case (Cons l ls)
  have bound: "(if ps = [] then True else pkg_id (last ps) < pkg_id q) \<longleftrightarrow> (\<forall>p \<in> set ps. pkg_id p < pkg_id q)" for q
  proof (cases "ps = []")
    case False
    then obtain us u where ps: "ps = us @ [u]" using rev_exhaust by blast
    with Cons.prems(3) show ?thesis by (auto simp: sorted_wrt_append intro: less_trans)
  qed simp
  have line: "index_line (n + 1) f s ps l = Inr (f', s', ps') \<longleftrightarrow>
      (\<exists>q. l = package_line f q \<and> package_ok f q \<and> sorted_wrt (<) (map pkg_id (ps @ [q])) \<and>
         length ps < C1PKG_MAX_PACKAGES \<and> f' = f \<and> s' = s \<and> ps' = ps @ [q])" for f' s' ps'
  proof
    assume "index_line (n + 1) f s ps l = Inr (f', s', ps')"
    then obtain q where q: "parse_package_line l f = Inr q" "length ps < C1PKG_MAX_PACKAGES"
        "ps \<noteq> [] \<longrightarrow> pkg_id (last ps) < pkg_id q" "f' = f" "s' = s" "ps' = ps @ [q]"
      using Cons.prems(1) by (auto simp: index_line_def not_le split: if_splits sum.splits)
    with parse_package_line_sound [OF q(1) Cons.prems(2)] bound [of q] Cons.prems(3)
    show "\<exists>q. l = package_line f q \<and> package_ok f q \<and> sorted_wrt (<) (map pkg_id (ps @ [q])) \<and>
         length ps < C1PKG_MAX_PACKAGES \<and> f' = f \<and> s' = s \<and> ps' = ps @ [q]"
      by (intro exI [of _ q]) (auto simp: sorted_wrt_append split: if_splits)
  next
    assume "\<exists>q. l = package_line f q \<and> package_ok f q \<and> sorted_wrt (<) (map pkg_id (ps @ [q])) \<and>
         length ps < C1PKG_MAX_PACKAGES \<and> f' = f \<and> s' = s \<and> ps' = ps @ [q]"
    then obtain q where q: "l = package_line f q" "package_ok f q" "sorted_wrt (<) (map pkg_id (ps @ [q]))"
        "length ps < C1PKG_MAX_PACKAGES" "f' = f" "s' = s" "ps' = ps @ [q]" by blast
    with parse_package_line_complete [OF q(2) Cons.prems(2)] package_line_clean [OF q(2)] bound [of q] Cons.prems(1)
    show "index_line (n + 1) f s ps l = Inr (f', s', ps')"
      by (auto simp: index_line_def not_le sorted_wrt_append split: if_splits)
  qed
  have "index_fold n f s ps (l # ls) = Inr r \<longleftrightarrow>
      (\<exists>q. l = package_line f q \<and> package_ok f q \<and> sorted_wrt (<) (map pkg_id (ps @ [q])) \<and>
         length ps < C1PKG_MAX_PACKAGES \<and> index_fold (n + 1) f s (ps @ [q]) ls = Inr r)"
  proof
    assume "index_fold n f s ps (l # ls) = Inr r"
    then obtain f' s' ps' where "index_line (n + 1) f s ps l = Inr (f', s', ps')"
      "index_fold (n + 1) f' s' ps' ls = Inr r" unfolding fold_step by blast
    with line [of f' s' ps'] show "\<exists>q. l = package_line f q \<and> package_ok f q \<and>
        sorted_wrt (<) (map pkg_id (ps @ [q])) \<and> length ps < C1PKG_MAX_PACKAGES \<and>
        index_fold (n + 1) f s (ps @ [q]) ls = Inr r" by blast
  next
    assume "\<exists>q. l = package_line f q \<and> package_ok f q \<and> sorted_wrt (<) (map pkg_id (ps @ [q])) \<and>
        length ps < C1PKG_MAX_PACKAGES \<and> index_fold (n + 1) f s (ps @ [q]) ls = Inr r"
    then obtain q where "l = package_line f q" "package_ok f q" "sorted_wrt (<) (map pkg_id (ps @ [q]))"
        "length ps < C1PKG_MAX_PACKAGES" and rest: "index_fold (n + 1) f s (ps @ [q]) ls = Inr r" by blast
    with line [of f s "ps @ [q]"] have "index_line (n + 1) f s ps l = Inr (f, s, ps @ [q])" by blast
    with rest show "index_fold n f s ps (l # ls) = Inr r" unfolding fold_step by blast
  qed
  note unfolded = this
  show ?case
  proof
    assume "index_fold n f s ps (l # ls) = Inr r"
    then obtain q where q: "l = package_line f q" "package_ok f q" "sorted_wrt (<) (map pkg_id (ps @ [q]))"
        "length ps < C1PKG_MAX_PACKAGES" and rest: "index_fold (n + 1) f s (ps @ [q]) ls = Inr r"
      unfolding unfolded by blast
    have "n + 1 \<ge> 2" "length (ps @ [q]) \<le> C1PKG_MAX_PACKAGES" using Cons.prems(1) q(4) by simp_all
    from Cons.IH [OF this(1) Cons.prems(2) q(3) this(2)] rest obtain qs where
      "ls = map (package_line f) qs" "list_all (package_ok f) qs" "sorted_wrt (<) (map pkg_id ((ps @ [q]) @ qs))"
      "length ((ps @ [q]) @ qs) \<le> C1PKG_MAX_PACKAGES" "r = (n + 1 + length qs, s, (ps @ [q]) @ qs)" by blast
    with q show "\<exists>qs. l # ls = map (package_line f) qs \<and> list_all (package_ok f) qs \<and>
        sorted_wrt (<) (map pkg_id (ps @ qs)) \<and>
        length (ps @ qs) \<le> C1PKG_MAX_PACKAGES \<and> r = (n + length qs, s, ps @ qs)"
      by (intro exI [of _ "q # qs"]) simp
  next
    assume "\<exists>qs. l # ls = map (package_line f) qs \<and> list_all (package_ok f) qs \<and>
        sorted_wrt (<) (map pkg_id (ps @ qs)) \<and>
        length (ps @ qs) \<le> C1PKG_MAX_PACKAGES \<and> r = (n + length qs, s, ps @ qs)"
    then obtain q qs where all: "l = package_line f q" "ls = map (package_line f) qs" "package_ok f q"
      "list_all (package_ok f) qs" "sorted_wrt (<) (map pkg_id ((ps @ [q]) @ qs))"
      "length ((ps @ [q]) @ qs) \<le> C1PKG_MAX_PACKAGES" "r = (n + 1 + length qs, s, (ps @ [q]) @ qs)"
      by (auto simp: Cons_eq_map_conv)
    have "n + 1 \<ge> 2" "length (ps @ [q]) \<le> C1PKG_MAX_PACKAGES" using Cons.prems(1) all(6) by simp_all
    moreover have sorted: "sorted_wrt (<) (map pkg_id (ps @ [q]))"
      using all(5) unfolding map_append sorted_wrt_append by blast
    ultimately have "index_fold (n + 1) f s (ps @ [q]) ls = Inr r"
      using Cons.IH [of "n + 1" "ps @ [q]"] Cons.prems(2) all by blast
    moreover have "length ps < C1PKG_MAX_PACKAGES" using all(6) by simp
    ultimately show "index_fold n f s ps (l # ls) = Inr r"
      unfolding unfolded using all sorted by blast
  qed
qed

section \<open>The format is canonical\<close>

lemma fold_length: "index_fold k f s ps ls = Inr (n, s', ps') \<Longrightarrow> n = k + length ls"
proof (induction ls arbitrary: k f s ps)
  case (Cons l ls)
  then obtain f1 s1 p1 where "index_fold (k + 1) f1 s1 p1 ls = Inr (n, s', ps')" unfolding fold_step by blast
  from Cons.IH [OF this] show ?case by simp
qed simp

lemma header_lines:
  assumes "index_fold 0 1 0 [] ls = Inr (n, s, ps)" and "n \<ge> 2"
  shows "\<exists>f ks. (f = 1 \<or> f = 2) \<and> ls = (if f = 2 then ''C1PKG-INDEX 2'' else ''C1PKG-INDEX 1'') #
      (CHR ''S'' # tab # dec s) # ks \<and> 0 < s \<and> s \<le> UINT64_MAX \<and> index_fold 2 f s [] ks = Inr (n, s, ps)"
proof -
  have "length ls \<ge> 2" using fold_length [OF assms(1)] assms(2) by simp
  then obtain a b ks where ls: "ls = a # b # ks" by (cases ls; cases "tl ls") auto
  from assms(1) obtain f' s' ps' where a: "index_line (0 + 1) 1 0 [] a = Inr (f', s', ps')"
    and rest: "index_fold (0 + 1) f' s' ps' (b # ks) = Inr (n, s, ps)" unfolding ls fold_step by blast
  define f where "f = (if a = ''C1PKG-INDEX 2'' then 2 else 1 :: nat)"
  from a have f: "f = 1 \<or> f = 2" "a = (if f = 2 then ''C1PKG-INDEX 2'' else ''C1PKG-INDEX 1'')"
    "f' = f" "s' = 0" "ps' = []"
    by (auto simp: index_line_def C1PKG_INDEX_HEADER_def f_def split: if_splits)
  from rest obtain f'' s'' ps'' where b: "index_line (0 + 1 + 1) f 0 [] b = Inr (f'', s'', ps'')"
    and third: "index_fold (0 + 1 + 1) f'' s'' ps'' ks = Inr (n, s, ps)" unfolding f(3-5) fold_step by blast
  from b obtain v where v: "take 2 b = [CHR ''S'', tab]" "pkg_parse_u64 (drop 2 b) = Some v" "v \<noteq> 0"
    and eq: "f'' = f" "s'' = v" "ps'' = []"
    by (auto simp: index_line_def split: if_splits)
  from third have ks: "index_fold 2 f v [] ks = Inr (n, s, ps)" unfolding eq by (simp only: one_add_one add_0)
  have "b = take 2 b @ drop 2 b" by simp
  with v have "b = CHR ''S'' # tab # dec v" "v \<le> UINT64_MAX" by (auto simp: index_number.parse_iff)
  moreover have "s = v" using ks index_fold_packages [of 2 f "[]" v ks "(n, s, ps)"] f by auto
  ultimately show ?thesis using f v ks ls by blast
qed

lemma text_length:
  assumes "index_ok f i"
  shows "length (index_text f i) \<le> C1PKG_INDEX_MAX"
proof -
  have "length (unlines (map (package_line f) ps)) \<le> 1025 * length ps" if "list_all (package_ok f) ps" for ps
    using that package_line_clean by (induction ps) (fastforce simp: pkg_limits)+
  from this [of "packages i"] have "length (unlines (map (package_line f) (packages i))) \<le> 1025 * 128"
    using assms by (auto simp: index_ok_def pkg_limits)
  moreover have "length (dec (index_sequence i)) \<le> 20"
    using assms length_dec [of "index_sequence i" 20] by (simp add: index_ok_def UINT64_MAX_value)
  ultimately show ?thesis by (cases "f = 2") (simp_all add: index_text_def pkg_limits)
qed

lemma unlines_last: "ls \<noteq> [] \<Longrightarrow> unlines ls \<noteq> [] \<and> last (unlines ls) = nl"
  by (induction ls rule: rev_induct) simp_all

lemma index_sound:
  assumes "parse_index_data data = Inr i"
  shows "\<exists>f. index_ok f i \<and> data = index_text f i"
proof -
  from assms have "data \<noteq> []" "last data = nl"
    by (auto simp: parse_index_data_def split: if_splits)
  moreover from assms obtain n s ps where loop: "index_loop 0 1 0 [] data = Inr (n, s, ps)" and n: "n \<ge> 2"
    and i: "i = \<lparr> index_sequence = s, packages = ps \<rparr>"
    by (auto simp: parse_index_data_def split: if_splits sum.splits)
  ultimately obtain ls where ls: "data = unlines ls" and fold: "index_fold 0 1 0 [] ls = Inr (n, s, ps)"
    using index_loop_sound by blast
  from header_lines [OF fold n] obtain f ks where f: "f = 1 \<or> f = 2"
    "ls = (if f = 2 then ''C1PKG-INDEX 2'' else ''C1PKG-INDEX 1'') # (CHR ''S'' # tab # dec s) # ks"
    "0 < s" "s \<le> UINT64_MAX" and ks: "index_fold 2 f s [] ks = Inr (n, s, ps)" by blast
  from ks f(1) have "ks = map (package_line f) ps" "list_all (package_ok f) ps" "sorted_wrt (<) (map pkg_id ps)"
    "length ps \<le> C1PKG_MAX_PACKAGES"
    by (auto simp: index_fold_packages pkg_limits)
  with f i ls show ?thesis by (intro exI [of _ f]) (auto simp: index_ok_def index_text_def)
qed

lemma index_complete:
  assumes "index_ok f i"
  shows "parse_index_data (index_text f i) = Inr i"
proof -
  let ?ls = "(if f = 2 then ''C1PKG-INDEX 2'' else ''C1PKG-INDEX 1'') #
      (CHR ''S'' # tab # dec (index_sequence i)) # map (package_line f) (packages i)"
  have f: "f = 1 \<or> f = 2" and ok: "list_all (package_ok f) (packages i)" and s: "0 < index_sequence i" "index_sequence i \<le> UINT64_MAX"
    using assms by (simp_all add: index_ok_def)
  have "index_line_ok (package_line f p)" if "package_ok f p" for p
    using package_line_clean [OF that] by (auto simp: index_line_ok_def list_all_iff list_ex_iff field_byte_def)
  then have "list_all index_line_ok (map (package_line f) (packages i))" using ok by (simp add: list_all_iff)
  moreover have "index_line_ok (CHR ''S'' # tab # dec (index_sequence i))"
    using field_clean [OF plain_field [OF dec_plain]] length_dec [of "index_sequence i" 20] s
    by (simp add: index_line_ok_def pkg_limits UINT64_MAX_value)
  moreover have "index_line_ok (if f = 2 then ''C1PKG-INDEX 2'' else ''C1PKG-INDEX 1'')"
    by (simp add: index_line_ok_def pkg_limits)
  ultimately have clean: "list_all index_line_ok ?ls" by simp
  have "index_fold 2 f (index_sequence i) [] (map (package_line f) (packages i)) =
      Inr (2 + length (packages i), index_sequence i, packages i)"
    using assms by (subst index_fold_packages) (auto simp: index_ok_def pkg_limits)
  moreover have "pkg_parse_u64 (dec (index_sequence i)) = Some (index_sequence i)"
    using s by (simp add: index_number.parse_iff)
  ultimately have "index_fold 0 1 0 [] ?ls = Inr (2 + length (packages i), index_sequence i, packages i)"
    using f s by (auto simp: index_line_def C1PKG_INDEX_HEADER_def numeral_2_eq_2)
  from index_loop_complete [OF clean this]
  have "index_loop 0 1 0 [] (index_text f i) = Inr (2 + length (packages i), index_sequence i, packages i)"
    by (simp add: index_text_def)
  then show ?thesis
    using text_length [OF assms] unlines_last [of ?ls] s
    by (simp add: parse_index_data_def index_text_def)
qed

text \<open>C34. The index parser accepts exactly the canonical texts of well-formed indexes: a header of one of the two
  formats, a nonzero sequence number, at most 128 packages in strictly ascending order of their
  identifiers (so no identifier twice), each with a safe identifier, version and relative paths, valid
  labels, a lower-case SHA-256 digest and a size between 1 and 32 MiB. For each such index and format
  there is one text, byte for byte, and it is read back as that index.\<close>

theorem package_index_canonical:
  "c1pkg_repo_parse data = Inr i \<longleftrightarrow> (\<exists>format. index_ok format i \<and> data = index_text format i)"
  using index_sound index_complete by (auto simp: c1pkg_repo_parse_def)

end
