(* ===== verification/PkgArchive.thy ===== *)
theory PkgArchive
  imports PkgIndex
begin

text \<open>
  The checks of a package archive before it is unpacked and of its manifest (\<open>src/C1ancher/src/pkg/store.c\<close>):
  the listing of names, the listing of types and sizes, the package manifest. The lemmas say that no
  member of an accepted archive can leave the directory it is unpacked in.
\<close>

definition C1PKG_FILE_MAX :: nat where "C1PKG_FILE_MAX = 16 * 1024 * 1024"
definition C1PKG_UNPACKED_MAX :: nat where "C1PKG_UNPACKED_MAX = 64 * 1024 * 1024"

section \<open>The listing of names\<close>

text \<open>Leading \<open>./\<close> are skipped; one trailing slash marks a directory.\<close>

fun strip_dots :: "string \<Rightarrow> string" where
  "strip_dots (a # b # s) = (if a = CHR ''.'' \<and> b = CHR ''/'' then strip_dots s else a # b # s)"
| "strip_dots s = s"

definition member_name :: "string \<Rightarrow> string" where
  "member_name line =
     (let name = strip_dots line in if name \<noteq> [] \<and> last name = CHR ''/'' then butlast name else name)"

definition member_ok :: "string \<Rightarrow> bool" where
  "member_ok name \<longleftrightarrow>
     \<not> (\<not> c1pkg_safe_relpath name \<or>
        name = ''payload/.c1pkg-mode'' \<or> take 20 name = ''payload/.c1pkg-mode/'' \<or>
        name = ''payload/.c1pkg-entry'' \<or> take 21 name = ''payload/.c1pkg-entry/'' \<or>
        (name \<noteq> ''manifest.v1'' \<and> name \<noteq> ''payload'' \<and> take 8 name \<noteq> ''payload/''))"

function names_loop :: "string \<Rightarrow> string + unit" where
  "names_loop data =
     (if data = [] then Inr ()
      else
        let line = takeWhile (\<lambda>c. c \<noteq> nl) data;
            rest = dropWhile (\<lambda>c. c \<noteq> nl) data in
        if list_ex (\<lambda>c. byte c = 0 \<or> byte c = 13) line then Inl ''tar listing contains forbidden bytes''
        else if \<not> member_ok (member_name line) then Inl (''unsafe archive path: '' @ member_name line)
        else names_loop (tl rest))"
  by pat_completeness auto
termination
  by (relation "measure length") (auto simp: length_tl_dropWhile)

declare names_loop.simps [simp del]

definition validate_tar_names :: "string \<Rightarrow> string + unit" where
  "validate_tar_names data =
     (if length data > C1PKG_INDEX_MAX then Inl ''invalid or oversized file''
      else if data = [] then Inl [] else names_loop data)"

section \<open>The listing of types and sizes\<close>

definition parse_tar_size :: "string \<Rightarrow> nat option" where
  "parse_tar_size digits = (if digits = [] then None else parse_digits 0 digits)"

text \<open>The number in the third column of a line; the line ends at its first zero byte, as in C.\<close>

definition skip_column :: "string \<Rightarrow> string" where
  "skip_column cursor = dropWhile (\<lambda>c. c = CHR '' '') (dropWhile (\<lambda>c. c \<noteq> CHR '' '') cursor)"

definition declared_size :: "string \<Rightarrow> nat option" where
  "declared_size line =
     (let cline = takeWhile (\<lambda>c. byte c \<noteq> 0) line;
          column = skip_column (skip_column cline); rest = dropWhile is_digit column in
      if rest \<noteq> [] \<and> hd rest \<noteq> CHR '' '' then None else parse_tar_size (takeWhile is_digit column))"

function types_loop :: "nat \<Rightarrow> string \<Rightarrow> string + nat" where
  "types_loop declared data =
     (if data = [] then Inr declared
      else
        let line = takeWhile (\<lambda>c. c \<noteq> nl) data;
            rest = dropWhile (\<lambda>c. c \<noteq> nl) data in
        if line = [] \<or> (hd line \<noteq> CHR ''-'' \<and> hd line \<noteq> CHR ''d'')
        then Inl ''archive contains links or special files''
        else case declared_size line of
               None \<Rightarrow> Inl ''archive declared size exceeds limit or is unparseable''
             | Some bytes \<Rightarrow>
                 if bytes > C1PKG_FILE_MAX \<or> declared > C1PKG_UNPACKED_MAX - bytes
                 then Inl ''archive declared size exceeds limit or is unparseable''
                 else types_loop (declared + bytes) (tl rest))"
  by pat_completeness auto
termination
  by (relation "measure (\<lambda>(declared, data). length data)") (auto simp: length_tl_dropWhile)

declare types_loop.simps [simp del]

definition validate_verbose_types :: "string \<Rightarrow> string + unit" where
  "validate_verbose_types data =
     (if length data > C1PKG_INDEX_MAX then Inl ''invalid or oversized file''
      else if data = [] then Inl []
      else case types_loop 0 data of Inl e \<Rightarrow> Inl e | Inr declared \<Rightarrow> Inr ())"

section \<open>The package manifest\<close>

definition manifest_modes :: "string list" where
  "manifest_modes = [[], ''terminal'', ''direct'']"

definition expected_manifest :: "c1pkg_package \<Rightarrow> nat \<Rightarrow> string" where
  "expected_manifest p i =
     ''C1PKG-PACKAGE '' @ (if i = 0 then ''1'' else ''2'') @ [nl] @
     ''id'' @ [tab] @ pkg_id p @ [nl] @ ''version'' @ [tab] @ pkg_version p @ [nl] @
     ''entry'' @ [tab] @ pkg_entry p @ [nl] @
     (if i = 0 then [] else ''mode'' @ [tab]) @ manifest_modes ! i @ (if i = 0 then [] else [nl])"

text \<open>The launch mode that the manifest gives, empty for the first format.\<close>

definition validate_manifest :: "string \<Rightarrow> c1pkg_package \<Rightarrow> string + string" where
  "validate_manifest data p =
     (if length data > 512 then Inl ''invalid or oversized file''
      else case find (\<lambda>i. length (expected_manifest p i) < 512 \<and> data = expected_manifest p i) [0..<3] of
             Some i \<Rightarrow> Inr (manifest_modes ! i)
           | None \<Rightarrow> Inl ''package manifest does not match signed index or mode contract'')"

section \<open>Where a name leads\<close>

text \<open>The directory or file that the operating system reaches from \<open>dir\<close> by a path: empty components and dots
  stay, double dots go up, a leading slash starts at the root.\<close>

fun walk :: "string list \<Rightarrow> string list \<Rightarrow> string list" where
  "walk dir [] = dir"
| "walk dir (c # cs) =
     (if c = [] \<or> c = ''.'' then walk dir cs
      else if c = ''..'' then walk (butlast dir) cs
      else walk (dir @ [c]) cs)"

definition resolve :: "string list \<Rightarrow> string \<Rightarrow> string list" where
  "resolve dir path = walk (if path \<noteq> [] \<and> hd path = CHR ''/'' then [] else dir) (split_on (CHR ''/'') path)"

lemma walk_append: "walk dir (cs @ ds) = walk (walk dir cs) ds"
  by (induction dir cs rule: walk.induct) auto

lemma walk_good: "list_all (\<lambda>c. \<not> bad_component c) cs \<Longrightarrow> walk dir cs = dir @ cs"
  by (induction cs arbitrary: dir) (auto simp: bad_component_def)

lemma relpath_components:
  "relpath_loop part t \<Longrightarrow> CHR ''/'' \<notin> set part \<Longrightarrow>
   list_all (\<lambda>c. \<not> bad_component c) (split_on (CHR ''/'') (part @ t))"
proof (induction part t rule: relpath_loop.induct)
  case (1 part)
  then show ?case by (simp add: split_on_no_sep)
next
  case (2 part c t)
  then show ?case by (auto simp: split_on_append split: if_splits)
qed

lemma safe_components:
  "c1pkg_safe_relpath name \<Longrightarrow> list_all (\<lambda>c. \<not> bad_component c) (split_on (CHR ''/'') name)"
  using relpath_components [of "[]" name] by (simp add: c1pkg_safe_relpath_def)

lemma split_on_snoc: "split_on c (s @ [c]) = split_on c s @ [[]]"
proof (induction s)
  case (Cons x s)
  obtain f fs where "split_on c s = f # fs" by (cases "split_on c s") auto
  with Cons show ?case by auto
qed simp

lemma resolve_strip:
  "strip_dots line \<noteq> [] \<Longrightarrow> hd (strip_dots line) \<noteq> CHR ''/'' \<Longrightarrow> resolve dir line = resolve dir (strip_dots line)"
proof (induction line rule: strip_dots.induct)
  case (1 a b s)
  show ?case
  proof (cases "a = CHR ''.'' \<and> b = CHR ''/''")
    case True
    with 1 have s: "resolve dir s = resolve dir (strip_dots s)" by simp
    have "\<not> (s \<noteq> [] \<and> hd s = CHR ''/'')"
    proof
      assume h: "s \<noteq> [] \<and> hd s = CHR ''/''"
      then obtain t where "s = CHR ''/'' # t" by (cases s) auto
      then have "strip_dots s = s" by (cases t) simp_all
      with h 1(3) True show False by simp
    qed
    then have "resolve dir (a # b # s) = resolve dir s" using True by (auto simp: resolve_def)
    with s True show ?thesis by simp
  next
    case False
    then have "strip_dots (a # b # s) = a # b # s" by auto
    then show ?thesis by (simp only:)
  qed
qed simp_all

lemma member_resolves:
  assumes "member_ok (member_name line)"
  shows "resolve dir line = dir @ split_on (CHR ''/'') (member_name line)"
proof -
  let ?n = "strip_dots line" and ?m = "member_name line"
  have safe: "c1pkg_safe_relpath ?m" using assms by (simp add: member_ok_def)
  then have m: "?m \<noteq> []" "hd ?m \<noteq> CHR ''/''" by (auto simp: c1pkg_safe_relpath_def)
  consider "?n = ?m" | "?n = ?m @ ''/''"
    by (cases "?n \<noteq> [] \<and> last ?n = CHR ''/''") (auto simp: member_name_def Let_def dest: append_butlast_last_id)
  then have "?n \<noteq> [] \<and> hd ?n \<noteq> CHR ''/'' \<and> resolve dir ?n = dir @ split_on (CHR ''/'') ?m"
  proof cases
    case 1
    with m show ?thesis by (simp add: resolve_def walk_good [OF safe_components [OF safe]])
  next
    case 2
    have "walk dir (split_on (CHR ''/'') ?n) = dir @ split_on (CHR ''/'') ?m"
      unfolding 2 split_on_snoc walk_append by (simp add: walk_good [OF safe_components [OF safe]])
    with m 2 show ?thesis by (simp add: resolve_def)
  qed
  then show ?thesis using resolve_strip by simp
qed

lemma split_start: "take (Suc (length f)) m = f @ [c] \<Longrightarrow> c \<notin> set f \<Longrightarrow> hd (split_on c m) = f"
proof -
  assume "take (Suc (length f)) m = f @ [c]" "c \<notin> set f"
  moreover from this(1) have "m = f @ c # drop (Suc (length f)) m"
    by (metis append_Cons append_Nil append_assoc append_take_drop_id)
  ultimately show ?thesis by (metis split_on_append list.sel(1))
qed

lemma member_shape:
  assumes "member_ok m"
  shows "split_on (CHR ''/'') m = [''manifest.v1''] \<or> hd (split_on (CHR ''/'') m) = ''payload''"
    and "take 2 (split_on (CHR ''/'') m) \<notin> {[''payload'', ''.c1pkg-mode''], [''payload'', ''.c1pkg-entry'']}"
proof -
  let ?ps = "split_on (CHR ''/'') m"
  have "m = ''manifest.v1'' \<or> m = ''payload'' \<or> take 8 m = ''payload/''"
    using assms unfolding member_ok_def by blast
  moreover have "hd ?ps = ''payload''" if "take 8 m = ''payload/''"
  proof -
    have "Suc (length ''payload'') = 8" by simp
    from split_start [of "''payload''" m "CHR ''/''", unfolded this] that show ?thesis by simp
  qed
  moreover have "?ps = [''manifest.v1'']" if "m = ''manifest.v1''" using that by simp
  moreover have "?ps = [''payload'']" if "m = ''payload''" using that by simp
  ultimately show "?ps = [''manifest.v1''] \<or> hd ?ps = ''payload''" by auto
  show "take 2 ?ps \<notin> {[''payload'', ''.c1pkg-mode''], [''payload'', ''.c1pkg-entry'']}"
  proof
    assume t: "take 2 ?ps \<in> {[''payload'', ''.c1pkg-mode''], [''payload'', ''.c1pkg-entry'']}"
    define rest where "rest = drop 2 ?ps"
    from t obtain e where t2: "take 2 ?ps = [''payload'', e]" and e: "e = ''.c1pkg-mode'' \<or> e = ''.c1pkg-entry''"
      by blast
    have ps: "?ps = ''payload'' # e # rest"
      using append_take_drop_id [of 2 ?ps] unfolding t2 rest_def by simp
    have "m = join_with (CHR ''/'') ?ps" by simp
    also have "\<dots> = ''payload/'' @ e @ (if rest = [] then [] else CHR ''/'' # join_with (CHR ''/'') rest)"
      unfolding ps by (cases rest) simp_all
    finally have m: "m = ''payload/'' @ e \<or> (\<exists>r. m = ''payload/'' @ e @ CHR ''/'' # r)" by (auto split: if_splits)
    have "m \<noteq> ''payload/.c1pkg-mode''" "take 20 m \<noteq> ''payload/.c1pkg-mode/''"
      "m \<noteq> ''payload/.c1pkg-entry''" "take 21 m \<noteq> ''payload/.c1pkg-entry/''"
      using assms unfolding member_ok_def by blast+
    with m e show False by (elim disjE exE) simp_all
  qed
qed

section \<open>Accepted archives\<close>

text \<open>The lines of a listing; what follows the last newline is a line unless it is empty.\<close>

function listing :: "string \<Rightarrow> string list" where
  "listing data = (if data = [] then []
     else takeWhile (\<lambda>c. c \<noteq> nl) data # listing (tl (dropWhile (\<lambda>c. c \<noteq> nl) data)))"
  by pat_completeness auto
termination
  by (relation "measure length") (auto simp: length_tl_dropWhile)

declare listing.simps [simp del]

lemma listing_Nil [simp]: "listing [] = []"
  by (simp add: listing.simps)

lemma names_accepted: "names_loop data = Inr () \<Longrightarrow> line \<in> set (listing data) \<Longrightarrow> member_ok (member_name line)"
proof (induction data rule: listing.induct)
  case (1 data)
  then show ?case
    by (cases "data = []")
      (auto simp: names_loop.simps [of data] listing.simps [of data] Let_def split: if_splits)
qed

lemma types_accepted:
  "types_loop n data = Inr m \<Longrightarrow> n \<le> C1PKG_UNPACKED_MAX \<Longrightarrow>
   list_all (\<lambda>l. l \<noteq> [] \<and> (hd l = CHR ''-'' \<or> hd l = CHR ''d'') \<and>
      (\<exists>k \<le> C1PKG_FILE_MAX. declared_size l = Some k)) (listing data) \<and>
   m = n + sum_list (map (the \<circ> declared_size) (listing data)) \<and> m \<le> C1PKG_UNPACKED_MAX"
proof (induction data arbitrary: n rule: listing.induct)
  case (1 data)
  show ?case
  proof (cases "data = []")
    case True
    with 1 show ?thesis by (simp add: types_loop.simps listing.simps)
  next
    case False
    let ?l = "takeWhile (\<lambda>c. c \<noteq> nl) data" and ?r = "tl (dropWhile (\<lambda>c. c \<noteq> nl) data)"
    from False "1.prems" obtain k where k: "declared_size ?l = Some k" "k \<le> C1PKG_FILE_MAX"
      "n \<le> C1PKG_UNPACKED_MAX - k" and l: "?l \<noteq> []" "hd ?l = CHR ''-'' \<or> hd ?l = CHR ''d''"
      and rest: "types_loop (n + k) ?r = Inr m"
      by (auto simp: types_loop.simps [of n data] Let_def not_less split: if_splits option.splits)
    have "C1PKG_FILE_MAX \<le> C1PKG_UNPACKED_MAX" by (simp add: C1PKG_FILE_MAX_def C1PKG_UNPACKED_MAX_def)
    with k have "n + k \<le> C1PKG_UNPACKED_MAX" by linarith
    from "1.IH" [OF False rest this] k l False show ?thesis by (simp add: listing.simps [of data] Ball_set)
  qed
qed

lemma manifest_mode_known: "validate_manifest data p = Inr mode \<Longrightarrow> mode \<in> {[], ''terminal'', ''direct''}"
  by (auto simp: validate_manifest_def find_Some_iff manifest_modes_def nth_Cons' split: option.splits if_splits)

text \<open>C35. An archive whose listings are accepted stays inside the directory it is unpacked in and within its
  budget. However a member is written, with leading \<open>./\<close> or a trailing slash, the operating system
  reaches from any directory a path strictly below that directory: the package manifest or something in
  \<open>payload\<close>, and nothing of the two metadata files that the store writes itself. The verbose listing names
  only regular files and directories, none larger than 16 MiB, 64 MiB together.\<close>

theorem archive_members_contained:
  assumes "validate_tar_names names = Inr ()" and "line \<in> set (listing names)"
    and "validate_verbose_types verbose = Inr ()"
  shows "(\<exists>ps. resolve dir line = dir @ ps \<and> ps \<noteq> [] \<and> (ps = [''manifest.v1''] \<or> hd ps = ''payload'') \<and>
        take 2 ps \<notin> {[''payload'', ''.c1pkg-mode''], [''payload'', ''.c1pkg-entry'']} \<and>
        ''..'' \<notin> set ps) \<and>
    (\<forall>l \<in> set (listing verbose). hd l \<in> {CHR ''-'', CHR ''d''} \<and> the (declared_size l) \<le> 16 * 1024 * 1024) \<and>
    sum_list (map (the \<circ> declared_size) (listing verbose)) \<le> 64 * 1024 * 1024"
proof -
  let ?ps = "split_on (CHR ''/'') (member_name line)"
  have ok: "member_ok (member_name line)"
    using assms(1,2) names_accepted by (auto simp: validate_tar_names_def split: if_splits)
  then have "''..'' \<notin> set ?ps"
    using safe_components [of "member_name line"] by (auto simp: member_ok_def list_all_iff bad_component_def)
  with member_resolves [OF ok, of dir] member_shape [OF ok] have
    "\<exists>ps. resolve dir line = dir @ ps \<and> ps \<noteq> [] \<and> (ps = [''manifest.v1''] \<or> hd ps = ''payload'') \<and>
        take 2 ps \<notin> {[''payload'', ''.c1pkg-mode''], [''payload'', ''.c1pkg-entry'']} \<and> ''..'' \<notin> set ps"
    by (intro exI [of _ ?ps]) auto
  moreover obtain m where "types_loop 0 verbose = Inr m"
    using assms(3) by (auto simp: validate_verbose_types_def split: if_splits sum.splits)
  from types_accepted [OF this] have
    "(\<forall>l \<in> set (listing verbose). hd l \<in> {CHR ''-'', CHR ''d''} \<and> the (declared_size l) \<le> 16 * 1024 * 1024)"
    "sum_list (map (the \<circ> declared_size) (listing verbose)) \<le> 64 * 1024 * 1024"
    by (auto simp: list_all_iff C1PKG_FILE_MAX_def C1PKG_UNPACKED_MAX_def)
  ultimately show ?thesis by blast
qed

theorem archive_members_contained_witness:
  "resolve [''stage'', ''extract''] ''./payload/bin/'' = [''stage'', ''extract'', ''payload'', ''bin''] \<and>
   (\<exists>ps. resolve [''stage'', ''extract''] ''./payload/bin/'' = [''stage'', ''extract''] @ ps \<and> ps \<noteq> [] \<and>
      (ps = [''manifest.v1''] \<or> hd ps = ''payload'') \<and>
      take 2 ps \<notin> {[''payload'', ''.c1pkg-mode''], [''payload'', ''.c1pkg-entry'']} \<and> ''..'' \<notin> set ps)"
proof -
  have "validate_tar_names (unlines [''manifest.v1'', ''./payload/bin/'']) = Inr ()"
    "''./payload/bin/'' \<in> set (listing (unlines [''manifest.v1'', ''./payload/bin/'']))"
    by (simp_all add: validate_tar_names_def names_loop.simps listing.simps member_ok_def member_name_def
        c1pkg_safe_relpath_def bad_component_def bad_path_byte_def C1PKG_ENTRY_MAX_def C1PKG_INDEX_MAX_def)
  moreover have "validate_verbose_types (unlines [''-rwxr-xr-x root/root 12 bin'']) = Inr ()"
    by (simp add: validate_verbose_types_def types_loop.simps declared_size_def skip_column_def parse_tar_size_def
        is_digit_byte UINT64_MAX_value C1PKG_FILE_MAX_def C1PKG_UNPACKED_MAX_def C1PKG_INDEX_MAX_def less_char_def)
  ultimately show ?thesis
    using archive_members_contained [of _ "''./payload/bin/''" _ "[''stage'', ''extract'']"]
    by (auto simp: resolve_def)
qed

end
