(* ===== verification/PkgStore.thy ===== *)
theory PkgStore
  imports PkgArchive StateStore
begin

text \<open>
  The package store of \<open>src/C1ancher/src/pkg/store.c\<close>, with the file helpers of \<open>util.c\<close> it uses. An application is a
  directory with its versions below \<open>versions\<close> and the links \<open>current\<close> and \<open>previous\<close>. A change of the links is
  first written to a redo journal; \<open>recover_transaction\<close>, which runs under the store lock before every other
  operation, finishes or drops it. The lemmas follow a change through the states of the journal, under every
  fault, and show that an undisturbed recovery always brings the store to rest.
\<close>

definition C1PKG_PATH_MAX :: nat where "C1PKG_PATH_MAX = 4096"
definition C1PKG_STATE_ROOT :: string where "C1PKG_STATE_ROOT = ''/usr/data/c1/pkg''"
definition C1PKG_APPS_ROOT :: string where "C1PKG_APPS_ROOT = ''/storage/c1/apps''"
definition TRANSACTION_PATH :: string where "TRANSACTION_PATH = C1PKG_STATE_ROOT @ ''/transaction''"
definition TRANSACTION_TEMP :: string where "TRANSACTION_TEMP = C1PKG_STATE_ROOT @ ''/transaction.tmp''"

section \<open>Paths and files\<close>

definition c1pkg_join :: "string \<Rightarrow> string \<Rightarrow> string option" where
  "c1pkg_join left right =
     (let out = left @ (if left \<noteq> [] \<and> last left = CHR ''/'' then [] else ''/'') @ right
      in if length out < C1PKG_PATH_MAX then Some out else None)"

definition mkdir_prefixes :: "string \<Rightarrow> string list" where
  "mkdir_prefixes path = map (\<lambda>i. take i path) (filter (\<lambda>i. path ! i = CHR ''/'') [1..<length path])"

definition make_or_keep :: "string \<Rightarrow> nat \<Rightarrow> unit act" where
  "make_or_keep path mode =
     bind_act (errno_of (sys_mkdir path mode)) (\<lambda>r. require (r = Inr () \<or> r = Inl EEXIST))"

fun make_all :: "string list \<Rightarrow> nat \<Rightarrow> unit act" where
  "make_all [] mode = ret ()"
| "make_all (p # ps) mode = then_act (make_or_keep p mode) (make_all ps mode)"

definition c1pkg_mkdir_p :: "string \<Rightarrow> nat \<Rightarrow> unit act" where
  "c1pkg_mkdir_p path mode =
     then_act (require (length path < C1PKG_PATH_MAX))
     (then_act (make_all (mkdir_prefixes path) mode)
     (then_act (make_or_keep path mode)
     (ok (sys_chmod path mode))))"

text \<open>\<open>open\<close> with \<open>O_WRONLY | O_CREAT | O_TRUNC | O_NOFOLLOW\<close>.\<close>

definition sys_open_write :: "string \<Rightarrow> nat \<Rightarrow> unit sys" where
  "sys_open_write p mode = faulty (\<lambda>k w. w)
     (\<lambda>w. case file_at w p of
            None \<Rightarrow>
              if \<not> is_dir w (parent_directory p) then (Inl ENOENT, w)
              else (Inr (), put_file p (written (euid w) mode []) w)
          | Some i \<Rightarrow>
              if st_kind i = S_IFDIR \<or> st_kind i = S_IFLNK then (Inl EOTHER, w)
              else (Inr (), put_file p (i\<lparr> st_data := [] \<rparr>) w))"

definition c1pkg_write_file :: "string \<Rightarrow> string \<Rightarrow> nat \<Rightarrow> unit act" where
  "c1pkg_write_file path data mode =
     then_act (ok (sys_open_write path mode))
     (then_act (on_failure (ok (sys_write path data)) (ignore sys_touch))
     (closing (ok sys_touch)))"

definition c1pkg_sync_directory :: "string \<Rightarrow> unit act" where
  "c1pkg_sync_directory path =
     bind_act (ok (sys_lstat path)) (\<lambda>information.
     then_act (require (st_kind information = S_IFDIR))
     (then_act (ok (sys_open_read path))
     (closing (ok sys_touch))))"

definition trusted_directory :: "string \<Rightarrow> inode act" where
  "trusted_directory path =
     bind_act (ok (sys_lstat path)) (\<lambda>info.
     bind_act (asks euid) (\<lambda>user.
     then_act (require (st_kind info = S_IFDIR \<and> st_uid info = user \<and> st_mode info AND 18 = 0))
     (ret info)))"

section \<open>The pointers\<close>

text \<open>A target that fills the buffer is refused without an error number of its own; \<open>stale\<close> is the one that
  the calls before have left.\<close>

definition read_link_value :: "errno \<Rightarrow> string \<Rightarrow> string sys" where
  "read_link_value stale path w =
     (case sys_readlink path w of
        (Inl e, w') \<Rightarrow> (Inl e, w')
      | (Inr t, w') \<Rightarrow> if length t \<ge> C1PKG_PATH_MAX - 1 then (Inl stale, w') else (Inr t, w'))"

definition version_target :: "string \<Rightarrow> string option" where
  "version_target target =
     (if take 9 target \<noteq> ''versions/'' \<or> \<not> c1pkg_safe_version (drop 9 target) then None
      else Some (drop 9 target))"

definition pointer_version :: "errno \<Rightarrow> string \<Rightarrow> string \<Rightarrow> string act" where
  "pointer_version stale app name =
     bind_act (lift (c1pkg_join app name)) (\<lambda>path.
     bind_act (errno_of (read_link_value stale path)) (\<lambda>r.
       case r of
         Inl e \<Rightarrow> if e \<noteq> ENOENT then stop else ret []
       | Inr target \<Rightarrow> lift (version_target target)))"

definition remove_if_present :: "string \<Rightarrow> unit act" where
  "remove_if_present path =
     bind_act (errno_of (sys_unlink path)) (\<lambda>r. require (r = Inr () \<or> r = Inl ENOENT))"

definition write_pointer :: "string \<Rightarrow> string \<Rightarrow> string \<Rightarrow> unit act" where
  "write_pointer app name version =
     bind_act (lift (c1pkg_join app name)) (\<lambda>path.
     bind_act (lift (c1pkg_join app ''.pointer.tmp'')) (\<lambda>temp.
     then_act (ignore (sys_unlink temp))
     (then_act
       (on_failure
         (if version = [] then remove_if_present path
          else then_act (ok (sys_symlink (take 63 (''versions/'' @ version)) temp)) (ok (sys_rename temp path)))
         (ignore (sys_unlink temp)))
     (c1pkg_sync_directory app))))"

section \<open>The journal\<close>

text \<open>The structure as it lies in memory and in the file: arrays of fixed length, four bytes of padding before the
  64-bit numbers and after the last one, little endian.\<close>

record store_transaction =
  tx_magic :: string
  tx_id :: string
  tx_version :: string
  tx_old_current :: string
  tx_old_previous :: string
  tx_device :: nat
  tx_inode :: nat
  tx_installing :: nat

definition nul :: char where "nul = CHR 0x00"

fun le_bytes :: "nat \<Rightarrow> nat \<Rightarrow> string" where
  "le_bytes 0 x = []"
| "le_bytes (Suc n) x = char_of (x mod 256) # le_bytes n (x div 256)"

fun le_value :: "string \<Rightarrow> nat" where
  "le_value [] = 0"
| "le_value (c # s) = byte c + 256 * le_value s"

definition padded :: "nat \<Rightarrow> string \<Rightarrow> string" where
  "padded n s = s @ replicate (n - length s) nul"

definition wal_image :: "store_transaction \<Rightarrow> string" where
  "wal_image tx =
     tx_magic tx @ tx_id tx @ tx_version tx @ tx_old_current tx @ tx_old_previous tx @ replicate 4 nul @
     le_bytes 8 (tx_device tx) @ le_bytes 8 (tx_inode tx) @ le_bytes 4 (tx_installing tx) @ replicate 4 nul"

definition wal_record :: "string \<Rightarrow> store_transaction" where
  "wal_record s = \<lparr> tx_magic = take 16 s, tx_id = take 33 (drop 16 s), tx_version = take 49 (drop 49 s),
     tx_old_current = take 49 (drop 98 s), tx_old_previous = take 49 (drop 147 s),
     tx_device = le_value (take 8 (drop 200 s)), tx_inode = le_value (take 8 (drop 208 s)),
     tx_installing = le_value (take 4 (drop 216 s)) \<rparr>"

definition c_field :: "string \<Rightarrow> string" where
  "c_field s = takeWhile (\<lambda>c. c \<noteq> nul) s"

definition version_field :: "string \<Rightarrow> bool" where
  "version_field s \<longleftrightarrow> nul \<in> set s \<and> (c_field s = [] \<or> c1pkg_safe_version (c_field s))"

definition wal_ok :: "store_transaction \<Rightarrow> bool" where
  "wal_ok tx \<longleftrightarrow>
     take 12 (tx_magic tx) = ''C1PKG-WAL-1'' @ [nul] \<and>
     nul \<in> set (tx_id tx) \<and> c1pkg_safe_id (c_field (tx_id tx)) \<and>
     nul \<in> set (tx_version tx) \<and> c1pkg_safe_version (c_field (tx_version tx)) \<and>
     version_field (tx_old_current tx) \<and> version_field (tx_old_previous tx) \<and> tx_installing tx \<le> 1"

definition finish_transaction :: "unit act" where
  "finish_transaction =
     then_act (remove_if_present TRANSACTION_PATH) (c1pkg_sync_directory C1PKG_STATE_ROOT)"

text \<open>The payload has not reached its place: no pointer was changed.\<close>

definition drop_transaction :: "store_transaction \<Rightarrow> string \<Rightarrow> unit act" where
  "drop_transaction tx app =
     then_act (require (tx_installing tx \<noteq> 0))
     (bind_act (pointer_version ENOENT app ''current'') (\<lambda>current.
      bind_act (pointer_version ENOENT app ''previous'') (\<lambda>previous.
      then_act (require (current = c_field (tx_old_current tx) \<and> previous = c_field (tx_old_previous tx)))
      finish_transaction)))"

definition redo_transaction :: "store_transaction \<Rightarrow> string \<Rightarrow> string \<Rightarrow> string \<Rightarrow> inode \<Rightarrow> unit act" where
  "redo_transaction tx app versions target info =
     bind_act (asks euid) (\<lambda>user.
     then_act (require (st_kind info = S_IFDIR \<and> st_uid info = user \<and> st_mode info AND 18 = 0 \<and>
                        tx_device tx = 0 \<and> st_ino info mod 2 ^ 64 = tx_inode tx))
     (then_act (if tx_installing tx \<noteq> 0 then ok (sys_chmod target 365) else ret ())
     (then_act (c1pkg_sync_directory target)
     (then_act (c1pkg_sync_directory versions)
     (then_act (c1pkg_sync_directory app)
     (then_act (c1pkg_sync_directory C1PKG_APPS_ROOT)
     (then_act (write_pointer app ''previous'' (c_field (tx_old_current tx)))
     (then_act (write_pointer app ''current'' (c_field (tx_version tx)))
     finish_transaction))))))))"

definition resume_transaction :: "store_transaction \<Rightarrow> unit act" where
  "resume_transaction tx =
     then_act (require (wal_ok tx))
     (bind_act (lift (c1pkg_join C1PKG_APPS_ROOT (c_field (tx_id tx)))) (\<lambda>app.
      then_act (trusted_directory app)
      (bind_act (lift (c1pkg_join app ''versions'')) (\<lambda>versions.
       then_act (trusted_directory versions)
       (bind_act (lift (c1pkg_join versions (c_field (tx_version tx)))) (\<lambda>target.
        bind_act (errno_of (sys_lstat target)) (\<lambda>r.
          case r of
            Inl e \<Rightarrow> if e = ENOENT then drop_transaction tx app else stop
          | Inr info \<Rightarrow> redo_transaction tx app versions target info)))))))"

text \<open>The journal file is closed, and the result of that ignored, before its content is looked at.\<close>

definition read_transaction :: "inode \<Rightarrow> string act" where
  "read_transaction info =
     closing_quietly
      (then_act (ok sys_touch)
      (bind_act (asks euid) (\<lambda>user.
       then_act (require (st_kind info = S_IFREG \<and> st_nlink info = 1 \<and> st_uid info = user \<and>
                          st_mode info AND 511 = 384 \<and> length (st_data info) = 224))
       (then_act (ok sys_touch) (ret (st_data info))))))"

definition recover_transaction :: "unit act" where
  "recover_transaction =
     bind_act (errno_of (sys_open_read TRANSACTION_PATH)) (\<lambda>r.
       case r of
         Inl e \<Rightarrow> if e = ENOENT then ret () else stop
       | Inr info \<Rightarrow> bind_act (read_transaction info) (\<lambda>data. resume_transaction (wal_record data)))"

text \<open>What follows the last slash.\<close>

definition base_id :: "string \<Rightarrow> string option" where
  "base_id app =
     (if CHR ''/'' \<in> set app then Some (rev (takeWhile (\<lambda>c. c \<noteq> CHR ''/'') (rev app))) else None)"

definition new_transaction :: "string \<Rightarrow> string \<Rightarrow> string \<Rightarrow> string \<Rightarrow> nat \<Rightarrow> bool \<Rightarrow> store_transaction" where
  "new_transaction ident version current previous ino installing =
     \<lparr> tx_magic = padded 16 ''C1PKG-WAL-1'', tx_id = padded 33 ident, tx_version = padded 49 version,
       tx_old_current = padded 49 current, tx_old_previous = padded 49 previous, tx_device = 0,
       tx_inode = ino mod 2 ^ 64, tx_installing = (if installing then 1 else 0) \<rparr>"

definition persist_transaction :: "store_transaction \<Rightarrow> unit act" where
  "persist_transaction tx =
     then_act (ignore (sys_unlink TRANSACTION_TEMP))
     (then_act (c1pkg_write_file TRANSACTION_TEMP (wal_image tx) 384)
     (then_act (ok (sys_rename TRANSACTION_TEMP TRANSACTION_PATH))
     (c1pkg_sync_directory C1PKG_STATE_ROOT)))"

definition begin_transaction :: "string \<Rightarrow> string \<Rightarrow> string \<Rightarrow> bool \<Rightarrow> unit act" where
  "begin_transaction app version payload installing =
     bind_act (errno_of (sys_lstat TRANSACTION_PATH)) (\<lambda>r.
     then_act (require (r = Inl ENOENT))
     (bind_act (lift (base_id app)) (\<lambda>ident.
      then_act (require (c1pkg_safe_id ident \<and> c1pkg_safe_version version))
      (then_act (trusted_directory app)
      (bind_act (trusted_directory payload) (\<lambda>info.
       bind_act (pointer_version ENOENT app ''current'') (\<lambda>current.
       bind_act (pointer_version ENOENT app ''previous'') (\<lambda>previous.
         persist_transaction (new_transaction ident version current previous (st_ino info) installing)))))))))"

section \<open>Changing the current version\<close>

definition pkg_switch_current :: "string \<Rightarrow> string \<Rightarrow> unit act" where
  "pkg_switch_current app version =
     bind_act (lift (c1pkg_join app ''versions'')) (\<lambda>versions.
     bind_act (lift (c1pkg_join versions version)) (\<lambda>target.
     then_act (begin_transaction app version target False)
     recover_transaction))"

text \<open>The end of an installation, after the payload was verified and sealed.\<close>

definition commit_package :: "string \<Rightarrow> string \<Rightarrow> string \<Rightarrow> string \<Rightarrow> string \<Rightarrow> unit act" where
  "commit_package app versions destination version payload =
     then_act (c1pkg_mkdir_p versions 493)
     (then_act (c1pkg_sync_directory payload)
     (then_act (c1pkg_sync_directory versions)
     (then_act (c1pkg_sync_directory app)
     (then_act (c1pkg_sync_directory C1PKG_APPS_ROOT)
     (then_act (begin_transaction app version payload True)
     (then_act (ok (sys_rename payload destination))
     recover_transaction))))))"

text \<open>A rollback switches to the version that \<open>previous\<close> designates; the store lock is held.\<close>

definition rollback_version :: "string \<Rightarrow> unit act" where
  "rollback_version ident =
     bind_act (lift (c1pkg_join C1PKG_APPS_ROOT ident)) (\<lambda>app.
     bind_act (lift (c1pkg_join app ''previous'')) (\<lambda>previous.
     bind_act (ok (read_link_value EOTHER previous)) (\<lambda>target.
     bind_act (lift (version_target target)) (\<lambda>version.
       pkg_switch_current app version))))"

section \<open>Undisturbed runs\<close>

text \<open>Without faults, \<open>m\<close> succeeds from every world with \<open>P\<close> and leaves \<open>Q\<close>.\<close>

definition runs :: "(world \<Rightarrow> bool) \<Rightarrow> 'a act \<Rightarrow> ('a \<Rightarrow> world \<Rightarrow> bool) \<Rightarrow> bool" where
  "runs P m Q \<longleftrightarrow>
     (\<forall>w. P w \<longrightarrow> faults w = [] \<longrightarrow> (\<exists>x w'. m w = (Some x, w') \<and> faults w' = [] \<and> Q x w'))"

lemma runs_bind: "runs P m R \<Longrightarrow> (\<And>x. runs (R x) (k x) Q) \<Longrightarrow> runs P (bind_act m k) Q"
  unfolding runs_def bind_act_def by (metis (no_types, lifting) option.simps(5) split_conv)

lemma runs_then: "runs P m (\<lambda>_. R) \<Longrightarrow> runs R k Q \<Longrightarrow> runs P (then_act m k) Q"
  unfolding then_act_def by (rule runs_bind)

lemma runs_pre: "runs P m Q \<Longrightarrow> (\<And>w. P' w \<Longrightarrow> P w) \<Longrightarrow> runs P' m Q"
  unfolding runs_def by blast

lemma runs_post: "runs P m Q \<Longrightarrow> (\<And>x w. Q x w \<Longrightarrow> Q' x w) \<Longrightarrow> runs P m Q'"
  unfolding runs_def by blast

lemma runs_ret: "runs (Q x) (ret x) Q"
  by (auto simp: runs_def ret_def)

lemma runs_require: "runs (\<lambda>w. b \<and> P w) (require b) (\<lambda>_. P)"
  by (auto simp: runs_def require_def)

lemma runs_asks: "runs P (asks f) (\<lambda>x w. P w \<and> x = f w)"
  by (auto simp: runs_def asks_def)

lemma runs_ok:
  assumes "\<And>w. P w \<Longrightarrow> \<exists>x w'. call w = (Inr x, w') \<and> faults w' = faults w \<and> Q x w'"
  shows "runs P (ok (faulty part call)) Q"
  using assms unfolding runs_def ok_def faulty_def by fastforce

lemma runs_errno_of:
  assumes "\<And>w. P w \<Longrightarrow> \<exists>r w'. call w = (r, w') \<and> faults w' = faults w \<and> Q r w'"
  shows "runs P (errno_of (faulty part call)) Q"
  using assms unfolding runs_def errno_of_def faulty_def by fastforce

lemma runs_ignore:
  assumes "\<And>w. P w \<Longrightarrow> \<exists>r w'. call w = (r, w') \<and> faults w' = faults w \<and> Q w'"
  shows "runs P (ignore (faulty part call)) (\<lambda>_. Q)"
  using assms unfolding runs_def ignore_def faulty_def by fastforce

lemma runs_on_failure: "runs P m Q \<Longrightarrow> runs P (on_failure m c) Q"
  unfolding runs_def on_failure_def by fastforce

lemma runs_touch: "runs P (ok sys_touch) (\<lambda>_. P)"
  unfolding sys_touch_def by (rule runs_ok) auto

lemma runs_closing: "runs P m Q \<Longrightarrow> runs P (closing m) Q"
  unfolding runs_def closing_def sys_touch_def faulty_def by fastforce

lemma runs_closing_quietly: "runs P m Q \<Longrightarrow> runs P (closing_quietly m) Q"
  unfolding runs_def closing_quietly_def sys_touch_def faulty_def by fastforce

lemma runs_lift: "runs (\<lambda>w. r = Some x \<and> Q x w) (lift r) Q"
  by (auto simp: runs_def lift_def)

lemma runs_lstat:
  "(\<And>w. P w \<Longrightarrow> file_at w p \<noteq> None) \<Longrightarrow> runs P (ok (sys_lstat p)) (\<lambda>i w. P w \<and> file_at w p = Some i)"
  unfolding sys_lstat_def by (rule runs_ok) fastforce

lemma runs_open_read:
  "(\<And>w. P w \<Longrightarrow> \<exists>i. file_at w p = Some i \<and> st_kind i \<noteq> S_IFLNK) \<Longrightarrow>
   runs P (ok (sys_open_read p)) (\<lambda>i w. P w \<and> file_at w p = Some i)"
  unfolding sys_open_read_def by (rule runs_ok) fastforce

lemma runs_probe_call:
  "runs P (errno_of (sys_lstat p)) (\<lambda>r w. P w \<and> r = (case file_at w p of None \<Rightarrow> Inl ENOENT | Some i \<Rightarrow> Inr i))"
  unfolding sys_lstat_def by (rule runs_errno_of) auto

lemma runs_case_errno:
  "(\<And>e. runs (P (Inl e)) (j e) Q) \<Longrightarrow> (\<And>x. runs (P (Inr x)) (k x) Q) \<Longrightarrow>
   runs (P r) (case r of Inl e \<Rightarrow> j e | Inr x \<Rightarrow> k x) Q"
  by (cases r) auto

lemma is_dir_iff: "is_dir w p \<longleftrightarrow> (\<exists>i. file_at w p = Some i \<and> st_kind i = S_IFDIR)"
  by (auto simp: is_dir_def split: option.split)

lemma runs_require_pre: "(\<And>w. P w \<Longrightarrow> b) \<Longrightarrow> runs P (require b) (\<lambda>_. P)"
  by (auto simp: runs_def require_def)

lemma runs_sync_directory:
  assumes "\<And>w. P w \<Longrightarrow> is_dir w p"
  shows "runs P (c1pkg_sync_directory p) (\<lambda>_. P)"
  unfolding c1pkg_sync_directory_def
proof (rule runs_bind [OF runs_lstat])
  show "file_at w p \<noteq> None" if "P w" for w using assms [OF that] by (auto simp: is_dir_iff)
  fix i
  let ?P = "\<lambda>w. P w \<and> file_at w p = Some i"
  have dir: "?P w \<Longrightarrow> st_kind i = S_IFDIR" for w using assms [of w] by (auto simp: is_dir_iff)
  have opened: "runs ?P (ok (sys_open_read p)) (\<lambda>_. P)"
    by (rule runs_post [OF runs_open_read]) (use dir in auto)
  show "runs ?P (then_act (require (st_kind i = S_IFDIR))
       (then_act (ok (sys_open_read p)) (closing (ok sys_touch)))) (\<lambda>_. P)"
    by (rule runs_then [OF runs_require_pre [OF dir]], assumption)
      (rule runs_then [OF opened runs_closing [OF runs_touch]])
qed

definition trusted_at :: "world \<Rightarrow> string \<Rightarrow> bool" where
  "trusted_at w p \<longleftrightarrow> (\<exists>i. file_at w p = Some i \<and> st_kind i = S_IFDIR \<and> st_uid i = euid w \<and> st_mode i AND 18 = 0)"

lemma trusted_is_dir: "trusted_at w p \<Longrightarrow> is_dir w p"
  by (auto simp: trusted_at_def is_dir_def)

lemma runs_trusted_directory:
  assumes "\<And>w. P w \<Longrightarrow> trusted_at w p"
  shows "runs P (trusted_directory p) (\<lambda>i w. P w \<and> file_at w p = Some i)"
  unfolding trusted_directory_def
proof (rule runs_bind [OF runs_lstat])
  show "file_at w p \<noteq> None" if "P w" for w using assms [OF that] by (auto simp: trusted_at_def)
  fix i
  let ?P = "\<lambda>w. P w \<and> file_at w p = Some i"
  show "runs ?P (bind_act (asks euid) (\<lambda>user.
      then_act (require (st_kind i = S_IFDIR \<and> st_uid i = user \<and> st_mode i AND 18 = 0)) (ret i)))
      (\<lambda>i w. P w \<and> file_at w p = Some i)"
    by (rule runs_bind [OF runs_asks], rule runs_then [OF runs_require_pre])
      (use assms in \<open>force simp: trusted_at_def\<close>, rule runs_pre [OF runs_ret], blast)
qed

lemma stable_at: "\<not> S p \<Longrightarrow> stable S (\<lambda>w. F (file_at w p) (euid w))"
  by (simp add: stable_def touches_def same_process_def)

definition no_dir :: "world \<Rightarrow> string \<Rightarrow> bool" where
  "no_dir w p \<longleftrightarrow> (\<forall>i. file_at w p = Some i \<longrightarrow> st_kind i \<noteq> S_IFDIR)"

lemma runs_unlink_ignored:
  assumes "stable (\<lambda>q. q = p) P"
  shows "runs (\<lambda>w. P w \<and> no_dir w p) (ignore (sys_unlink p)) (\<lambda>_ w. P w \<and> file_at w p = None)"
  unfolding sys_unlink_def
proof (rule runs_ignore)
  fix w assume w: "P w \<and> no_dir w p"
  have "P (del_file p w)"
    using assms w touches_del [of "\<lambda>q. q = p" p w] unfolding stable_def by blast
  with w show "\<exists>r w'. (case file_at w p of None \<Rightarrow> (Inl ENOENT, w)
      | Some i \<Rightarrow> if st_kind i = S_IFDIR then (Inl EOTHER, w) else (Inr (), del_file p w)) = (r, w') \<and>
      faults w' = faults w \<and> P w' \<and> file_at w' p = None"
    by (auto simp: no_dir_def split: option.split)
qed

lemma runs_remove_if_present:
  assumes "stable (\<lambda>q. q = p) P"
  shows "runs (\<lambda>w. P w \<and> no_dir w p) (remove_if_present p) (\<lambda>_ w. P w \<and> file_at w p = None)"
  unfolding remove_if_present_def sys_unlink_def
proof (rule runs_bind [OF runs_errno_of])
  fix w assume w: "P w \<and> no_dir w p"
  have "P (del_file p w)"
    using assms w touches_del [of "\<lambda>q. q = p" p w] unfolding stable_def by blast
  with w show "\<exists>r w'. (case file_at w p of None \<Rightarrow> (Inl ENOENT, w)
      | Some i \<Rightarrow> if st_kind i = S_IFDIR then (Inl EOTHER, w) else (Inr (), del_file p w)) = (r, w') \<and>
      faults w' = faults w \<and> (r = Inr () \<or> r = Inl ENOENT) \<and> P w' \<and> file_at w' p = None"
    by (auto simp: no_dir_def split: option.split)
qed (rule runs_require)

lemma runs_symlink:
  assumes "stable (\<lambda>q. q = p) P" and "\<And>w. P w \<Longrightarrow> is_dir w (parent_directory p)"
  shows "runs (\<lambda>w. P w \<and> file_at w p = None) (ok (sys_symlink t p))
    (\<lambda>_ w. P w \<and> (\<exists>i. file_at w p = Some i \<and> st_kind i = S_IFLNK \<and> st_data i = t))"
  unfolding sys_symlink_def
proof (rule runs_ok)
  fix w assume w: "P w \<and> file_at w p = None"
  let ?i = "\<lparr> st_kind = S_IFLNK, st_mode = 511, st_uid = euid w, st_nlink = 1, st_data = t, st_ino = 0 \<rparr>"
  have "P (put_file p ?i w)"
    using assms(1) w touches_put [of "\<lambda>q. q = p" p w ?i] unfolding stable_def by blast
  with w assms(2) [of w] show "\<exists>x w'. (if file_at w p \<noteq> None then (Inl EEXIST, w)
      else if \<not> is_dir w (parent_directory p) then (Inl ENOENT, w) else (Inr (), put_file p ?i w)) = (Inr x, w') \<and>
      faults w' = faults w \<and> P w' \<and> (\<exists>i. file_at w' p = Some i \<and> st_kind i = S_IFLNK \<and> st_data i = t)"
    by auto
qed

lemma runs_rename:
  assumes "stable (\<lambda>q. under s q \<or> under d q) P" and apart: "\<not> under s d" "\<not> under d s"
    and "\<And>w. P w \<Longrightarrow> is_dir w (parent_directory d)"
    and "\<And>w. R w \<Longrightarrow> \<exists>i. file_at w s = Some i \<and> F i \<and> replaceable w i d"
  shows "runs (\<lambda>w. P w \<and> R w) (ok (sys_rename s d))
    (\<lambda>_ w. P w \<and> (\<exists>i. file_at w d = Some i \<and> F i) \<and> file_at w s = None)"
  unfolding sys_rename_def
proof (rule runs_ok)
  fix w assume w: "P w \<and> R w"
  then obtain i where i: "file_at w s = Some i" "F i" "replaceable w i d" using assms(5) by blast
  have "touches (\<lambda>q. under s q \<or> under d q) w (move_file s d w)"
    using apart by (auto simp: touches_def same_process_def file_at_move)
  with assms(1) w have "P (move_file s d w)" unfolding stable_def by blast
  moreover have "file_at (move_file s d w) d = Some i" "file_at (move_file s d w) s = None"
    using apart i by (simp_all add: file_at_move)
  moreover have "s \<noteq> d" using apart(1) by auto
  ultimately show "\<exists>x w'. (case file_at w s of None \<Rightarrow> (Inl ENOENT, w)
     | Some i \<Rightarrow> if s = d then (Inr (), w)
       else if under s d \<or> under d s \<or> \<not> is_dir w (parent_directory d) then (Inl EOTHER, w)
       else if replaceable w i d then (Inr (), move_file s d w) else (Inl EOTHER, w)) = (Inr x, w') \<and>
     faults w' = faults w \<and> P w' \<and> (\<exists>i. file_at w' d = Some i \<and> F i) \<and> file_at w' s = None"
    using i apart assms(4) [of w] w by auto
qed

section \<open>Paths of an application\<close>

definition pkg_app :: "string \<Rightarrow> string" where "pkg_app ident = C1PKG_APPS_ROOT @ ''/'' @ ident"

definition pkg_link :: "string \<Rightarrow> string \<Rightarrow> string" where "pkg_link ident name = pkg_app ident @ ''/'' @ name"

abbreviation pkg_versions :: "string \<Rightarrow> string" where "pkg_versions ident \<equiv> pkg_link ident ''versions''"

definition pkg_place :: "string \<Rightarrow> string \<Rightarrow> string" where
  "pkg_place ident v = pkg_versions ident @ ''/'' @ v"

lemma safe_token_facts: "pkg_safe_token s n b \<Longrightarrow> s \<noteq> [] \<and> length s \<le> n \<and> CHR ''/'' \<notin> set s \<and> nul \<notin> set s \<and> last s \<noteq> CHR ''/''"
proof -
  assume a: "pkg_safe_token s n b"
  have plain: "pkg_token_char b c" if "c \<in> set s" for c
    using a that by (auto simp: pkg_safe_token_def list_all_iff in_set_conv_nth)
  have "\<not> pkg_token_char b (CHR ''/'')" "\<not> pkg_token_char b nul"
    by (simp_all add: pkg_token_char_def is_lower_def is_upper_def is_digit_def less_eq_char_def nul_def)
  with plain have "CHR ''/'' \<notin> set s" "nul \<notin> set s" by blast+
  moreover have "s \<noteq> []" "length s \<le> n" using a by (auto simp: pkg_safe_token_def)
  ultimately show ?thesis using last_in_set [of s] by metis
qed

lemmas pkg_paths = pkg_app_def pkg_link_def pkg_place_def C1PKG_APPS_ROOT_def C1PKG_STATE_ROOT_def
  TRANSACTION_PATH_def TRANSACTION_TEMP_def

lemma parent_slash: "CHR ''/'' \<notin> set n \<Longrightarrow> d \<noteq> [] \<Longrightarrow> parent_directory (d @ ''/'' @ n) = d"
  by (simp add: parent_directory_def dropWhile_append)

lemma parents:
  "CHR ''/'' \<notin> set ident \<Longrightarrow> parent_directory (pkg_app ident) = C1PKG_APPS_ROOT"
  "CHR ''/'' \<notin> set name \<Longrightarrow> parent_directory (pkg_link ident name) = pkg_app ident"
  "CHR ''/'' \<notin> set v \<Longrightarrow> parent_directory (pkg_place ident v) = pkg_versions ident"
  "parent_directory TRANSACTION_PATH = C1PKG_STATE_ROOT" "parent_directory TRANSACTION_TEMP = C1PKG_STATE_ROOT"
  using parent_slash [of ident C1PKG_APPS_ROOT] parent_slash [of name "pkg_app ident"]
    parent_slash [of v "pkg_versions ident"] parent_slash [of "''transaction''" C1PKG_STATE_ROOT]
    parent_slash [of "''transaction.tmp''" C1PKG_STATE_ROOT]
  by (simp_all add: pkg_paths)

lemma joins:
  assumes "c1pkg_safe_id ident"
  shows "c1pkg_join C1PKG_APPS_ROOT ident = Some (pkg_app ident)"
    "length name \<le> 1000 \<Longrightarrow> c1pkg_join (pkg_app ident) name = Some (pkg_link ident name)"
    "c1pkg_safe_version v \<Longrightarrow> c1pkg_join (pkg_versions ident) v = Some (pkg_place ident v)"
  using safe_token_facts [of ident C1PKG_ID_MAX False] safe_token_facts [of v C1PKG_VERSION_MAX True] assms
  by (auto simp: c1pkg_join_def pkg_paths C1PKG_PATH_MAX_def c1pkg_safe_id_def c1pkg_safe_version_def
      C1PKG_ID_MAX_def C1PKG_VERSION_MAX_def Let_def)

section \<open>Steps under faults\<close>

lemma hoare_rename:
  assumes P: "stable (\<lambda>q. under s q \<or> under d q) P" and "s \<noteq> d"
  shows "hoare (\<lambda>w. P w \<and> (\<exists>i. file_at w s = Some i \<and> F i) \<and> R (file_at w d)) (ok (sys_rename s d))
    (\<lambda>_ w. P w \<and> (\<exists>i. file_at w d = Some i \<and> F i)) (\<lambda>w. P w \<and> R (file_at w d))"
  unfolding hoare_def
proof (intro allI impI)
  fix w r w' assume w: "P w \<and> (\<exists>i. file_at w s = Some i \<and> F i) \<and> R (file_at w d)"
    and run: "ok (sys_rename s d) w = (r, w')"
  have "framed (\<lambda>q. under s q \<or> under d q) (ok (sys_rename s d))" by (intro frames) simp_all
  from framedD [OF this run] P w have P': "P w'" unfolding stable_def by blast
  show "case r of None \<Rightarrow> P w' \<and> R (file_at w' d) | Some x \<Rightarrow> P w' \<and> (\<exists>i. file_at w' d = Some i \<and> F i)"
  proof (cases r)
    case None
    with run obtain e where "sys_rename s d w = (Inl e, w')"
      by (auto simp: ok_def split: prod.splits sum.splits)
    from sys_rename_failure [OF this] w P' None show ?thesis by (simp add: same_files_at)
  next
    case (Some x)
    with run have "sys_rename s d w = (Inr (), w')" by (simp add: ok_Some)
    from sys_rename_success [OF this assms(2)] w P' Some show ?thesis by auto
  qed
qed

lemma framed_remove_if_present [frames]: "S p \<Longrightarrow> framed S (remove_if_present p)"
  unfolding remove_if_present_def by (intro frames)

lemma hoare_remove_if_present:
  assumes P: "stable (\<lambda>q. q = p) P"
  shows "hoare (\<lambda>w. P w \<and> R (file_at w p) (euid w)) (remove_if_present p) (\<lambda>_ w. P w \<and> file_at w p = None)
    (\<lambda>w. P w \<and> R (file_at w p) (euid w))"
  unfolding hoare_def
proof (intro allI impI)
  fix w r w' assume w: "P w \<and> R (file_at w p) (euid w)" and run: "remove_if_present p w = (r, w')"
  have "framed (\<lambda>q. q = p) (remove_if_present p)" by (intro frames) simp
  note frame = framedD [OF this run]
  with P w have P': "P w'" unfolding stable_def by blast
  from frame have user: "euid w' = euid w" by (simp add: touches_def same_process_def)
  obtain s v where s: "sys_unlink p w = (s, v)" by (cases "sys_unlink p w")
  with run have "w' = v" "r = (if s = Inr () \<or> s = Inl ENOENT then Some () else None)"
    by (auto simp: remove_if_present_def act_defs split: if_splits)
  with sys_unlink_result [OF s] P' user w
  show "case r of None \<Rightarrow> P w' \<and> R (file_at w' p) (euid w') | Some x \<Rightarrow> P w' \<and> file_at w' p = None"
    by (auto simp: same_files_at split: if_splits)
qed

lemma framed_pkg_sync [frames]: "framed S (c1pkg_sync_directory p)"
  unfolding c1pkg_sync_directory_def by (intro frames)

lemma framed_trusted_directory [frames]: "framed S (trusted_directory p)"
  unfolding trusted_directory_def by (intro frames)

section \<open>One pointer\<close>

definition points :: "world \<Rightarrow> string \<Rightarrow> string \<Rightarrow> bool" where
  "points w path x \<longleftrightarrow>
     (if x = [] then file_at w path = None
      else \<exists>i. file_at w path = Some i \<and> st_kind i = S_IFLNK \<and> st_data i = ''versions/'' @ x)"

text \<open>What replacing a pointer may touch.\<close>

abbreviation pointer_temp :: "string \<Rightarrow> string" where "pointer_temp ident \<equiv> pkg_link ident ''.pointer.tmp''"

definition slot :: "string \<Rightarrow> string \<Rightarrow> string \<Rightarrow> bool" where
  "slot ident name q \<longleftrightarrow> under (pointer_temp ident) q \<or> under (pkg_link ident name) q"

lemma bind_lift [simp]: "bind_act (lift (Some x)) k = k x" for k :: "'a \<Rightarrow> 'b act"
  by (simp add: bind_act_def lift_def fun_eq_iff)

definition pointer_name :: "string \<Rightarrow> bool" where
  "pointer_name name \<longleftrightarrow> name = ''current'' \<or> name = ''previous''"

lemma slot_apart:
  assumes "pointer_name name"
  shows "\<not> under (pointer_temp ident) (pkg_link ident name)" "\<not> under (pkg_link ident name) (pointer_temp ident)"
    "pkg_link ident name \<noteq> pointer_temp ident"
  using assms by (auto simp: pointer_name_def under_def pkg_link_def)

lemma short_target: "v \<noteq> [] \<Longrightarrow> c1pkg_safe_version v \<Longrightarrow> take 63 (''versions/'' @ v) = ''versions/'' @ v"
  using safe_token_facts [of v C1PKG_VERSION_MAX True]
  by (simp add: c1pkg_safe_version_def C1PKG_VERSION_MAX_def)

lemma write_pointer_hoare:
  assumes ident: "c1pkg_safe_id ident" and name: "pointer_name name"
    and v: "v = [] \<or> c1pkg_safe_version v" and P: "stable (slot ident name) P"
  shows "hoare (\<lambda>w. P w \<and> points w (pkg_link ident name) old) (write_pointer (pkg_app ident) name v)
    (\<lambda>_ w. P w \<and> points w (pkg_link ident name) v)
    (\<lambda>w. P w \<and> (points w (pkg_link ident name) old \<or> points w (pkg_link ident name) v))"
proof -
  let ?L = "pkg_link ident name" and ?T = "pointer_temp ident"
  let ?old = "\<lambda>w. P w \<and> points w ?L old" and ?new = "\<lambda>w. P w \<and> points w ?L v"
  let ?link = "\<lambda>i :: inode. st_kind i = S_IFLNK \<and> st_data i = ''versions/'' @ v"
  note apart = slot_apart [OF name, of ident]
  have joined: "c1pkg_join (pkg_app ident) name = Some ?L" "c1pkg_join (pkg_app ident) ''.pointer.tmp'' = Some ?T"
    using name joins(2) [OF ident] by (auto simp: pointer_name_def)
  have points: "stable (\<lambda>q. q = ?T) (\<lambda>w. points w ?L x)" for x
    unfolding points_def using apart(3) by (intro stable_points) simp
  have tmp: "stable (\<lambda>q. q = ?T) P" by (rule stable_subset [OF P]) (simp add: slot_def)
  have old: "stable (\<lambda>q. q = ?T) ?old" by (rule stable_conj [OF tmp points])
  have clean: "framed (\<lambda>q. q = ?T) (ignore (sys_unlink ?T))" by (intro frames) simp
  have first: "hoare ?old (ignore (sys_unlink ?T)) (\<lambda>_. ?old) ?old" by (rule hoare_keep [OF clean old])
  have "hoare ?old (if v = [] then remove_if_present ?L
      else then_act (ok (sys_symlink (take 63 (''versions/'' @ v)) ?T)) (ok (sys_rename ?T ?L)))
      (\<lambda>_. ?new) ?old"
  proof (cases "v = []")
    case True
    have "stable (\<lambda>q. q = ?L) P" by (rule stable_subset [OF P]) (simp add: slot_def)
    from hoare_remove_if_present [OF this, of "\<lambda>f u. (if old = [] then f = None else \<exists>i. f = Some i \<and> st_kind i = S_IFLNK \<and> st_data i = ''versions/'' @ old)"]
    show ?thesis using True by (simp add: points_def [of _ ?L])
  next
    case False
    with v have "c1pkg_safe_version v" by blast
    note target = short_target [OF False this]
    have "hoare ?old (ok (sys_symlink (''versions/'' @ v) ?T))
        (\<lambda>_ w. ?old w \<and> (\<exists>i. file_at w ?T = Some i \<and> ?link i)) ?old"
      by (rule hoare_stable [OF _ old, of "ok (sys_symlink (''versions/'' @ v) ?T)"
            "\<lambda>_ w. \<exists>i. file_at w ?T = Some i \<and> ?link i"])
        (auto intro!: frames simp: ok_Some dest!: sys_symlink_success)
    moreover have "hoare (\<lambda>w. P w \<and> (\<exists>i. file_at w ?T = Some i \<and> ?link i) \<and> points w ?L old)
        (ok (sys_rename ?T ?L)) (\<lambda>_. ?new) ?old"
    proof -
      have "stable (\<lambda>q. under ?T q \<or> under ?L q) P" using P unfolding slot_def .
      from hoare_rename [OF this, of ?link "\<lambda>f. (if old = [] then f = None else \<exists>i. f = Some i \<and> st_kind i = S_IFLNK \<and> st_data i = ''versions/'' @ old)"]
      show ?thesis using False apart(3) by (simp add: points_def [of _ ?L])
    qed
    ultimately show ?thesis using False
      unfolding target by (simp add: conj_ac) (rule hoare_then)
  qed
  then have second: "hoare ?old (on_failure (if v = [] then remove_if_present ?L
      else then_act (ok (sys_symlink (take 63 (''versions/'' @ v)) ?T)) (ok (sys_rename ?T ?L)))
      (ignore (sys_unlink ?T))) (\<lambda>_. ?new) ?old"
    by (rule hoare_on_failure [OF _ clean old])
  have new: "stable (\<lambda>q. False) ?new"
    by (rule stable_subset [OF stable_conj [OF tmp points]]) simp
  have third: "hoare ?new (c1pkg_sync_directory (pkg_app ident)) (\<lambda>_. ?new) ?new"
    by (rule hoare_keep [OF framed_pkg_sync new])
  let ?either = "\<lambda>w. P w \<and> (points w ?L old \<or> points w ?L v)"
  note widen = hoare_weaken [where E' = ?either]
  have "hoare ?new (c1pkg_sync_directory (pkg_app ident)) (\<lambda>_. ?new) ?either"
    by (rule widen [OF third]) auto
  note rest = hoare_then [OF widen [OF second] this]
  show ?thesis
    unfolding write_pointer_def joined bind_lift
    by (rule hoare_then [OF widen [OF first] rest]) auto
qed

lemma points_no_dir: "points w p x \<Longrightarrow> no_dir w p"
  by (auto simp: points_def no_dir_def split: if_splits)

lemma write_pointer_runs:
  assumes ident: "c1pkg_safe_id ident" and name: "pointer_name name"
    and v: "v = [] \<or> c1pkg_safe_version v" and P: "stable (slot ident name) P"
    and app: "\<And>w. P w \<Longrightarrow> is_dir w (pkg_app ident)"
  shows "runs (\<lambda>w. P w \<and> points w (pkg_link ident name) old \<and> no_dir w (pointer_temp ident))
    (write_pointer (pkg_app ident) name v)
    (\<lambda>_ w. P w \<and> points w (pkg_link ident name) v \<and> no_dir w (pointer_temp ident))"
proof -
  let ?L = "pkg_link ident name" and ?T = "pointer_temp ident"
  let ?old = "\<lambda>w. P w \<and> points w ?L old"
  let ?new = "\<lambda>w. P w \<and> points w ?L v \<and> no_dir w ?T"
  let ?link = "\<lambda>i :: inode. st_kind i = S_IFLNK \<and> st_data i = ''versions/'' @ v"
  note apart = slot_apart [OF name, of ident]
  have joined: "c1pkg_join (pkg_app ident) name = Some ?L" "c1pkg_join (pkg_app ident) ''.pointer.tmp'' = Some ?T"
    using name joins(2) [OF ident] by (auto simp: pointer_name_def)
  have parent: "parent_directory ?L = pkg_app ident" "parent_directory ?T = pkg_app ident"
    using name parents(2) by (auto simp: pointer_name_def)
  have tmp: "stable (\<lambda>q. q = ?T) P" and link: "stable (\<lambda>q. q = ?L) P"
    by (rule stable_subset [OF P], simp add: slot_def)+
  have points: "stable (\<lambda>q. q = ?T) (\<lambda>w. points w ?L x)" for x
    unfolding points_def using apart(3) by (intro stable_points) simp
  note old = stable_conj [OF tmp points [of old]]
  have first: "runs (\<lambda>w. ?old w \<and> no_dir w ?T) (ignore (sys_unlink ?T)) (\<lambda>_ w. ?old w \<and> file_at w ?T = None)"
    by (rule runs_unlink_ignored [OF old])
  have "runs (\<lambda>w. ?old w \<and> file_at w ?T = None) (if v = [] then remove_if_present ?L
      else then_act (ok (sys_symlink (take 63 (''versions/'' @ v)) ?T)) (ok (sys_rename ?T ?L))) (\<lambda>_. ?new)"
  proof (cases "v = []")
    case True
    have "stable (\<lambda>q. q = ?L) (\<lambda>w. file_at w ?T = None)" using apart(3) by (intro stable_points) simp
    note removed = runs_remove_if_present [OF stable_conj [OF link this]]
    have "runs (\<lambda>w. ?old w \<and> file_at w ?T = None) (remove_if_present ?L) (\<lambda>_. ?new)"
      by (rule runs_pre [OF runs_post [OF removed]])
        (use True points_no_dir in \<open>auto simp: points_def [of _ ?L "[]"] no_dir_def [of _ ?T]\<close>)
    with True show ?thesis by simp
  next
    case False
    with v have "c1pkg_safe_version v" by blast
    note target = short_target [OF False this]
    have linked: "runs (\<lambda>w. ?old w \<and> file_at w ?T = None) (ok (sys_symlink (''versions/'' @ v) ?T))
        (\<lambda>_ w. ?old w \<and> (\<exists>i. file_at w ?T = Some i \<and> ?link i))"
      by (rule runs_symlink [OF old]) (use app parent in auto)
    have moved: "runs (\<lambda>w. P w \<and> (points w ?L old \<and> (\<exists>i. file_at w ?T = Some i \<and> ?link i)))
        (ok (sys_rename ?T ?L)) (\<lambda>_ w. P w \<and> (\<exists>i. file_at w ?L = Some i \<and> ?link i) \<and> file_at w ?T = None)"
    proof (rule runs_rename)
      show "stable (\<lambda>q. under ?T q \<or> under ?L q) P" using P unfolding slot_def .
      show "\<exists>i. file_at w ?T = Some i \<and> ?link i \<and> replaceable w i ?L"
        if "points w ?L old \<and> (\<exists>i. file_at w ?T = Some i \<and> ?link i)" for w
        using that points_no_dir [of w ?L old] by (auto simp: replaceable_def no_dir_def split: option.split)
    qed (use apart app parent in auto)
    have "runs (\<lambda>w. ?old w \<and> file_at w ?T = None)
      (then_act (ok (sys_symlink (''versions/'' @ v) ?T)) (ok (sys_rename ?T ?L))) (\<lambda>_. ?new)"
      by (rule runs_post [OF runs_then [OF runs_post [OF linked] moved]])
        (use False in \<open>auto simp: points_def [of _ ?L v] no_dir_def [of _ ?T]\<close>)
    with False show ?thesis unfolding target by simp
  qed
  then have second: "runs (\<lambda>w. ?old w \<and> file_at w ?T = None) (on_failure (if v = [] then remove_if_present ?L
      else then_act (ok (sys_symlink (take 63 (''versions/'' @ v)) ?T)) (ok (sys_rename ?T ?L)))
      (ignore (sys_unlink ?T))) (\<lambda>_. ?new)"
    by (rule runs_on_failure)
  have third: "runs ?new (c1pkg_sync_directory (pkg_app ident)) (\<lambda>_. ?new)"
    by (rule runs_sync_directory) (use app in blast)
  show ?thesis
    unfolding write_pointer_def joined bind_lift
    by (rule runs_pre [OF runs_then [OF first runs_then [OF second third]]]) auto
qed

end
