(* ===== verification/PkgRecovery.thy ===== *)
theory PkgRecovery
  imports PkgStore
begin

text \<open>
  The life of a change of the package store (\<open>src/C1ancher/src/pkg/store.c\<close>): waiting in the journal, its payload in
  place, its pointers switched, the journal gone. Each step of recovery moves along these states or stays,
  under every fault, and an undisturbed recovery always reaches the end.
\<close>

section \<open>No directory appears at a name\<close>

definition spares :: "string \<Rightarrow> (world \<Rightarrow> 'x \<times> world) \<Rightarrow> bool" where
  "spares p m \<longleftrightarrow> (\<forall>w. no_dir w p \<longrightarrow> no_dir (snd (m w)) p)"

named_theorems sparing \<open>actions that make no directory at a name\<close>

lemma spares_bind [sparing]: "spares p m \<Longrightarrow> (\<And>x. spares p (k x)) \<Longrightarrow> spares p (bind_act m k)"
  unfolding spares_def bind_act_def by (auto split: prod.split option.split)

lemma spares_then [sparing]: "spares p m \<Longrightarrow> spares p k \<Longrightarrow> spares p (then_act m k)"
  unfolding then_act_def by (rule spares_bind)

lemma spares_wrapped [sparing]:
  "spares p m \<Longrightarrow> spares p (ok m)" "spares p m \<Longrightarrow> spares p (errno_of m)" "spares p m \<Longrightarrow> spares p (ignore m)"
  unfolding spares_def ok_def errno_of_def ignore_def by (auto split: prod.split sum.split)

lemma spares_on_failure [sparing]: "spares p m \<Longrightarrow> spares p c \<Longrightarrow> spares p (on_failure m c)"
  unfolding spares_def on_failure_def by (auto split: prod.split option.split)

lemma spares_if [sparing]: "spares p m \<Longrightarrow> spares p k \<Longrightarrow> spares p (if b then m else k)"
  by simp

lemma spares_simple [sparing]: "spares p (require b)" "spares p (lift r)"
  by (simp_all add: spares_def require_def lift_def)

lemma spares_framed: "framed (\<lambda>q. False) m \<Longrightarrow> spares p m"
  unfolding spares_def framed_def no_dir_def by (metis touches_files)

lemma spares_unlink [sparing]: "spares p (sys_unlink q)"
  unfolding spares_def sys_unlink_def faulty_def no_dir_def
  by (auto split: list.split outcome.split option.split)

lemma spares_symlink [sparing]: "spares p (sys_symlink t q)"
  unfolding spares_def sys_symlink_def faulty_def no_dir_def
  by (auto split: list.split outcome.split option.split)

lemma spares_rename:
  assumes "\<not> under s d" "\<not> under d s" "\<not> under d p"
  shows "spares p (sys_rename s d)"
  unfolding spares_def sys_rename_def faulty_def no_dir_def
  using assms by (auto simp: file_at_move split: list.split outcome.split option.split if_splits)

lemma spares_remove [sparing]: "spares p (remove_if_present q)"
  unfolding remove_if_present_def by (intro sparing)

lemma write_pointer_spares:
  assumes "c1pkg_safe_id ident" and name: "pointer_name name"
  shows "spares (pointer_temp ident) (write_pointer (pkg_app ident) name v)"
proof -
  have "c1pkg_join (pkg_app ident) name = Some (pkg_link ident name)"
    "c1pkg_join (pkg_app ident) ''.pointer.tmp'' = Some (pointer_temp ident)"
    using name joins(2) [OF assms(1)] by (auto simp: pointer_name_def)
  then show ?thesis
    unfolding write_pointer_def
    by (simp only: bind_lift) (intro sparing spares_rename slot_apart [OF name] spares_framed [OF framed_pkg_sync])
qed

lemma hoare_spares: "spares p m \<Longrightarrow> hoare (\<lambda>w. no_dir w p) m (\<lambda>_ w. no_dir w p) (\<lambda>w. no_dir w p)"
  unfolding hoare_def spares_def by (auto split: option.split)

lemma hoare_conj:
  "hoare P m Q E \<Longrightarrow> hoare P' m Q' E' \<Longrightarrow>
   hoare (\<lambda>w. P w \<and> P' w) m (\<lambda>x w. Q x w \<and> Q' x w) (\<lambda>w. E w \<and> E' w)"
  unfolding hoare_def by (auto split: option.split)

section \<open>The image of the journal\<close>

lemma length_le_bytes [simp]: "length (le_bytes n x) = n"
  by (induction n arbitrary: x) auto

lemma le_value_bytes [simp]: "le_value (le_bytes n x) = x mod 256 ^ n"
proof (induction n arbitrary: x)
  case (Suc n)
  have "x mod 256 + 256 * (x div 256 mod 256 ^ n) = x mod (256 * 256 ^ n)"
    by (simp add: mod_mult2_eq)
  with Suc show ?case by simp
qed simp

lemma length_padded: "length s \<le> n \<Longrightarrow> length (padded n s) = n"
  by (simp add: padded_def)

lemma c_field_padded: "nul \<notin> set s \<Longrightarrow> c_field (padded n s) = s"
proof -
  assume "nul \<notin> set s"
  then have "takeWhile (\<lambda>c. c \<noteq> nl) [] = []" "takeWhile (\<lambda>c. c \<noteq> nul) s = s" "\<forall>c \<in> set s. c \<noteq> nul"
    by (auto simp: takeWhile_eq_all_conv)
  then show ?thesis by (simp add: c_field_def padded_def takeWhile_append takeWhile_replicate)
qed

lemma nul_padded: "length s < n \<Longrightarrow> nul \<in> set (padded n s)"
  by (simp add: padded_def)

text \<open>Reading back what was written gives the record.\<close>

lemma wal_record_image:
  assumes "length (tx_magic tx) = 16" "length (tx_id tx) = 33" "length (tx_version tx) = 49"
    "length (tx_old_current tx) = 49" "length (tx_old_previous tx) = 49"
    "tx_device tx < 2 ^ 64" "tx_inode tx < 2 ^ 64" "tx_installing tx < 2 ^ 32"
  shows "wal_record (wal_image tx) = tx \<and> length (wal_image tx) = 224"
  using assms by (cases tx) (simp add: wal_record_def wal_image_def)


section \<open>A change and the states it goes through\<close>

text \<open>A change of an application: the version to make current, the pointers before it, the number of the payload
  directory, and whether the payload still has to be moved to its place.\<close>

record change =
  ch_id :: string
  ch_version :: string
  ch_current :: string
  ch_previous :: string
  ch_ino :: nat
  ch_install :: bool

definition change_ok :: "change \<Rightarrow> bool" where
  "change_ok ch \<longleftrightarrow> c1pkg_safe_id (ch_id ch) \<and> c1pkg_safe_version (ch_version ch) \<and>
     (ch_current ch = [] \<or> c1pkg_safe_version (ch_current ch)) \<and>
     (ch_previous ch = [] \<or> c1pkg_safe_version (ch_previous ch))"

definition change_record :: "change \<Rightarrow> store_transaction" where
  "change_record ch = new_transaction (ch_id ch) (ch_version ch) (ch_current ch) (ch_previous ch) (ch_ino ch) (ch_install ch)"

lemma safe_version_facts: "c1pkg_safe_version v \<Longrightarrow> v \<noteq> [] \<and> length v \<le> 48 \<and> CHR ''/'' \<notin> set v \<and> nul \<notin> set v"
  using safe_token_facts [of v C1PKG_VERSION_MAX True] by (simp add: c1pkg_safe_version_def C1PKG_VERSION_MAX_def)

lemma safe_id_facts: "c1pkg_safe_id v \<Longrightarrow> v \<noteq> [] \<and> length v \<le> 32 \<and> CHR ''/'' \<notin> set v \<and> nul \<notin> set v"
  using safe_token_facts [of v C1PKG_ID_MAX False] by (simp add: c1pkg_safe_id_def C1PKG_ID_MAX_def)

lemma change_fields:
  assumes "change_ok ch"
  shows "c_field (tx_id (change_record ch)) = ch_id ch" "c_field (tx_version (change_record ch)) = ch_version ch"
    "c_field (tx_old_current (change_record ch)) = ch_current ch"
    "c_field (tx_old_previous (change_record ch)) = ch_previous ch"
    "tx_device (change_record ch) = 0" "tx_inode (change_record ch) = ch_ino ch mod 2 ^ 64"
    "tx_installing (change_record ch) = (if ch_install ch then 1 else 0)" "wal_ok (change_record ch)"
    "wal_record (wal_image (change_record ch)) = change_record ch" "length (wal_image (change_record ch)) = 224"
proof -
  let ?old = "\<lambda>s. s = [] \<or> c1pkg_safe_version s"
  have v: "c1pkg_safe_id (ch_id ch)" "c1pkg_safe_version (ch_version ch)" "?old (ch_current ch)" "?old (ch_previous ch)"
    using assms by (simp_all add: change_ok_def)
  have len: "length (ch_id ch) \<le> 32" "nul \<notin> set (ch_id ch)" "length (ch_version ch) \<le> 48" "nul \<notin> set (ch_version ch)"
    "length (ch_current ch) \<le> 48" "nul \<notin> set (ch_current ch)" "length (ch_previous ch) \<le> 48" "nul \<notin> set (ch_previous ch)"
    using v safe_id_facts safe_version_facts by force+
  note [simp] = change_record_def new_transaction_def
  show "c_field (tx_id (change_record ch)) = ch_id ch" "c_field (tx_version (change_record ch)) = ch_version ch"
    "c_field (tx_old_current (change_record ch)) = ch_current ch"
    "c_field (tx_old_previous (change_record ch)) = ch_previous ch"
    "tx_device (change_record ch) = 0" "tx_inode (change_record ch) = ch_ino ch mod 2 ^ 64"
    "tx_installing (change_record ch) = (if ch_install ch then 1 else 0)"
    using len by (simp_all add: c_field_padded)
  have "take 12 (padded 16 ''C1PKG-WAL-1'') = ''C1PKG-WAL-1'' @ [nul]" by (simp add: padded_def)
  then show "wal_ok (change_record ch)"
    using v len by (simp add: wal_ok_def version_field_def c_field_padded nul_padded)
  have "ch_ino ch mod 2 ^ 64 < (2 :: nat) ^ 64" by simp
  then have "wal_record (wal_image (change_record ch)) = change_record ch \<and> length (wal_image (change_record ch)) = 224"
    using len by (intro wal_record_image) (simp_all add: length_padded del: mod_less_divisor)
  then show "wal_record (wal_image (change_record ch)) = change_record ch" "length (wal_image (change_record ch)) = 224"
    by blast+
qed

definition ch_place :: "change \<Rightarrow> string" where "ch_place ch = pkg_place (ch_id ch) (ch_version ch)"

definition standing :: "change \<Rightarrow> world \<Rightarrow> bool" where
  "standing ch w \<longleftrightarrow> is_dir w C1PKG_STATE_ROOT \<and> is_dir w C1PKG_APPS_ROOT \<and>
     trusted_at w (pkg_app (ch_id ch)) \<and> trusted_at w (pkg_versions (ch_id ch))"

definition journal :: "change \<Rightarrow> world \<Rightarrow> bool" where
  "journal ch w \<longleftrightarrow> file_at w TRANSACTION_PATH = Some (written (euid w) 384 (wal_image (change_record ch)))"

definition no_journal :: "world \<Rightarrow> bool" where
  "no_journal w \<longleftrightarrow> file_at w TRANSACTION_PATH = None"

definition payload_inode :: "change \<Rightarrow> nat \<Rightarrow> inode \<Rightarrow> bool" where
  "payload_inode ch user i \<longleftrightarrow> st_kind i = S_IFDIR \<and> st_uid i = user \<and> st_mode i AND 18 = 0 \<and>
     st_ino i mod 2 ^ 64 = ch_ino ch mod 2 ^ 64"

definition in_place :: "change \<Rightarrow> world \<Rightarrow> bool" where
  "in_place ch w \<longleftrightarrow> (\<exists>i. file_at w (ch_place ch) = Some i \<and> payload_inode ch (euid w) i)"

abbreviation link_of :: "change \<Rightarrow> string \<Rightarrow> string" where "link_of ch name \<equiv> pkg_link (ch_id ch) name"

definition waiting :: "change \<Rightarrow> world \<Rightarrow> bool" where
  "waiting ch w \<longleftrightarrow> standing ch w \<and> journal ch w \<and> file_at w (ch_place ch) = None \<and>
     points w (link_of ch ''current'') (ch_current ch) \<and> points w (link_of ch ''previous'') (ch_previous ch) \<and>
     no_dir w (pointer_temp (ch_id ch)) \<and> ch_install ch"

definition moved :: "change \<Rightarrow> string \<Rightarrow> string \<Rightarrow> world \<Rightarrow> bool" where
  "moved ch current previous w \<longleftrightarrow> standing ch w \<and> journal ch w \<and> in_place ch w \<and>
     points w (link_of ch ''current'') current \<and> points w (link_of ch ''previous'') previous \<and>
     no_dir w (pointer_temp (ch_id ch))"

definition at_rest :: "change \<Rightarrow> string \<Rightarrow> string \<Rightarrow> world \<Rightarrow> bool" where
  "at_rest ch current previous w \<longleftrightarrow> standing ch w \<and> no_journal w \<and>
     points w (link_of ch ''current'') current \<and> points w (link_of ch ''previous'') previous \<and>
     no_dir w (pointer_temp (ch_id ch))"

definition dropped :: "change \<Rightarrow> world \<Rightarrow> bool" where
  "dropped ch w \<longleftrightarrow> at_rest ch (ch_current ch) (ch_previous ch) w"

definition completed :: "change \<Rightarrow> world \<Rightarrow> bool" where
  "completed ch w \<longleftrightarrow> at_rest ch (ch_version ch) (ch_current ch) w \<and> in_place ch w"

definition progress :: "change \<Rightarrow> world \<Rightarrow> bool" where
  "progress ch w \<longleftrightarrow>
     moved ch (ch_current ch) (ch_previous ch) w \<or> moved ch (ch_current ch) (ch_current ch) w \<or>
     moved ch (ch_version ch) (ch_current ch) w"

section \<open>Paths apart\<close>

lemma prefix_self_append: "prefix (a @ b) a \<longleftrightarrow> b = []"
  by (auto simp: prefix_def)

lemma slot_misses:
  assumes "pointer_name name"
  shows "\<not> slot ident name C1PKG_STATE_ROOT" "\<not> slot ident name C1PKG_APPS_ROOT"
    "\<not> slot ident name (pkg_app ident)" "\<not> slot ident name (pkg_versions ident)"
    "\<not> slot ident name (pkg_place ident v)" "\<not> slot ident name TRANSACTION_PATH"
    "name = ''current'' \<Longrightarrow> \<not> slot ident name (pkg_link ident ''previous'')"
    "name = ''previous'' \<Longrightarrow> \<not> slot ident name (pkg_link ident ''current'')"
  using assms by (auto simp: pointer_name_def slot_def under_def pkg_paths prefix_def)

lemma journal_misses:
  "TRANSACTION_PATH \<noteq> C1PKG_STATE_ROOT" "TRANSACTION_PATH \<noteq> C1PKG_APPS_ROOT"
  "TRANSACTION_PATH \<noteq> pkg_app ident" "TRANSACTION_PATH \<noteq> pkg_link ident name" "TRANSACTION_PATH \<noteq> pkg_place ident v"
  by (simp_all add: pkg_paths)

lemma place_misses:
  "pkg_place ident v \<noteq> C1PKG_STATE_ROOT" "pkg_place ident v \<noteq> C1PKG_APPS_ROOT"
  "pkg_place ident v \<noteq> pkg_app ident" "v \<noteq> [] \<Longrightarrow> pkg_place ident v \<noteq> pkg_versions ident"
  "pkg_place ident v \<noteq> pkg_link ident ''current''" "pkg_place ident v \<noteq> pkg_link ident ''previous''"
  "pkg_place ident v \<noteq> pointer_temp ident"
  by (simp_all add: pkg_paths)

section \<open>Stability of the parts\<close>

lemma stable_standing:
  assumes "\<not> S C1PKG_STATE_ROOT" "\<not> S C1PKG_APPS_ROOT" "\<not> S (pkg_app (ch_id ch))" "\<not> S (pkg_versions (ch_id ch))"
  shows "stable S (standing ch)"
  using assms by (simp add: stable_def touches_def same_process_def standing_def is_dir_def trusted_at_def)

lemma stable_parts:
  "\<not> S TRANSACTION_PATH \<Longrightarrow> stable S (journal ch)" "\<not> S TRANSACTION_PATH \<Longrightarrow> stable S no_journal"
  "\<not> S (ch_place ch) \<Longrightarrow> stable S (in_place ch)" "\<not> S p \<Longrightarrow> stable S (\<lambda>w. points w p x)"
  "\<not> S p \<Longrightarrow> stable S (\<lambda>w. no_dir w p)" "\<not> S p \<Longrightarrow> stable S (\<lambda>w. file_at w p = f)" "stable S (\<lambda>w. b)"
  by (simp_all add: stable_def touches_def same_process_def journal_def no_journal_def in_place_def
      payload_inode_def points_def no_dir_def)

lemmas stables = stable_conj stable_standing stable_parts

lemma stable_disj: "stable S P \<Longrightarrow> stable S Q \<Longrightarrow> stable S (\<lambda>w. P w \<or> Q w)"
  by (auto simp: stable_def)

lemma stable_states:
  "stable (\<lambda>q. False) (waiting ch)" "stable (\<lambda>q. False) (moved ch c p)" "stable (\<lambda>q. False) (at_rest ch c p)"
  "stable (\<lambda>q. False) (progress ch)" "stable (\<lambda>q. False) (completed ch)" "stable (\<lambda>q. False) (dropped ch)"
proof -
  show moved: "stable (\<lambda>q. False) (moved ch c p)" and rest: "stable (\<lambda>q. False) (at_rest ch c p)" for c p
    unfolding moved_def at_rest_def by (intro stables; simp)+
  show "stable (\<lambda>q. False) (waiting ch)" unfolding waiting_def by (intro stables; simp)
  show "stable (\<lambda>q. False) (progress ch)" unfolding progress_def by (intro stable_disj moved)
  show "stable (\<lambda>q. False) (completed ch)" unfolding completed_def by (intro stables rest; simp)
  show "stable (\<lambda>q. False) (dropped ch)" unfolding dropped_def by (rule rest)
qed

section \<open>Recovery under faults\<close>

lemma hoare_finish:
  assumes P: "stable (\<lambda>q. q = TRANSACTION_PATH) P" and J: "\<And>w. J w \<longleftrightarrow> R (file_at w TRANSACTION_PATH) (euid w)"
  shows "hoare (\<lambda>w. P w \<and> J w) finish_transaction (\<lambda>_ w. P w \<and> no_journal w)
    (\<lambda>w. P w \<and> (J w \<or> no_journal w))"
proof -
  have quiet: "stable (\<lambda>q. False) (\<lambda>w. P w \<and> no_journal w)"
    by (intro stable_conj stable_subset [OF P] stable_parts) auto
  have "hoare (\<lambda>w. P w \<and> J w) (remove_if_present TRANSACTION_PATH) (\<lambda>_ w. P w \<and> no_journal w)
      (\<lambda>w. P w \<and> (J w \<or> no_journal w))"
    by (rule hoare_weaken [OF hoare_remove_if_present [OF P, of R]]) (auto simp: J no_journal_def)
  moreover have "hoare (\<lambda>w. P w \<and> no_journal w) (c1pkg_sync_directory C1PKG_STATE_ROOT) (\<lambda>_ w. P w \<and> no_journal w)
      (\<lambda>w. P w \<and> (J w \<or> no_journal w))"
    by (rule hoare_weaken [OF hoare_keep [OF framed_pkg_sync quiet]]) auto
  ultimately show ?thesis unfolding finish_transaction_def by (rule hoare_then)
qed

lemma journal_finish:
  assumes "stable (\<lambda>q. q = TRANSACTION_PATH) P"
  shows "hoare (\<lambda>w. P w \<and> journal ch w) finish_transaction (\<lambda>_ w. P w \<and> no_journal w)
    (\<lambda>w. P w \<and> (journal ch w \<or> no_journal w))"
  by (rule hoare_finish [where R = "\<lambda>f user. f = Some (written user 384 (wal_image (change_record ch)))",
        OF assms journal_def])

lemma stable_at_journal:
  "stable (\<lambda>q. q = TRANSACTION_PATH) (standing ch)" "stable (\<lambda>q. q = TRANSACTION_PATH) (in_place ch)"
  "stable (\<lambda>q. q = TRANSACTION_PATH) (\<lambda>w. points w (pkg_link i n) x)"
  "stable (\<lambda>q. q = TRANSACTION_PATH) (\<lambda>w. no_dir w (pkg_link i n))"
  "stable (\<lambda>q. q = TRANSACTION_PATH) (\<lambda>w. file_at w (ch_place ch) = f)"
  using journal_misses by (auto intro!: stables simp: ch_place_def dest: sym)

lemma hoare_read: "framed (\<lambda>q. False) m \<Longrightarrow> stable (\<lambda>q. False) P \<Longrightarrow> hoare P m (\<lambda>_. P) P"
  by (rule hoare_keep)

lemma framed_read_link [frames]: "framed S (read_link_value e p)"
  using framed_reads(2) [of S p] unfolding framed_def read_link_value_def
  by (auto split: prod.split sum.split) (metis snd_conv)+

lemma framed_pointer_version [frames]: "framed S (pointer_version e a n)"
  unfolding pointer_version_def by (intro frames framed_lift)

lemma hoare_drop:
  shows "hoare (waiting ch) (drop_transaction (change_record ch) (pkg_app (ch_id ch))) (\<lambda>_. dropped ch)
    (\<lambda>w. waiting ch w \<or> dropped ch w)"
proof -
  let ?P = "\<lambda>w. standing ch w \<and> file_at w (ch_place ch) = None \<and>
     points w (link_of ch ''current'') (ch_current ch) \<and> points w (link_of ch ''previous'') (ch_previous ch) \<and>
     no_dir w (pointer_temp (ch_id ch)) \<and> ch_install ch"
  let ?E = "\<lambda>w. waiting ch w \<or> dropped ch w"
  have "stable (\<lambda>q. q = TRANSACTION_PATH) ?P"
    by (intro stable_conj stable_at_journal stable_parts(7))
  from journal_finish [OF this]
  have finish: "hoare (waiting ch) finish_transaction (\<lambda>_. dropped ch) ?E"
    by (rule hoare_weaken) (auto simp: waiting_def dropped_def at_rest_def)
  have read: "hoare (waiting ch) m (\<lambda>_. waiting ch) ?E" if "framed (\<lambda>q. False) m" for m :: "'b act"
    by (rule hoare_weaken [OF hoare_read [OF that stable_states(1)]]) auto
  show ?thesis
    unfolding drop_transaction_def
    by (rule hoare_then [OF read [OF framed_require]], rule hoare_bind [OF read [OF framed_pointer_version]],
        rule hoare_bind [OF read [OF framed_pointer_version]], rule hoare_then [OF read [OF framed_require] finish])
qed

lemma hoare_cases: "hoare P m Q E \<Longrightarrow> hoare P' m Q E \<Longrightarrow> hoare (\<lambda>w. P w \<or> P' w) m Q E"
  unfolding hoare_def by blast

lemma hoare_pure: "(b \<Longrightarrow> hoare P m Q E) \<Longrightarrow> hoare (\<lambda>w. P w \<and> b) m Q E"
  unfolding hoare_def by blast

lemma hoare_pre: "hoare P m Q E \<Longrightarrow> (\<And>w. P' w \<Longrightarrow> P w) \<Longrightarrow> hoare P' m Q E"
  unfolding hoare_def by blast

text \<open>Switching one of the two pointers of a moved change.\<close>

lemma hoare_switch_previous:
  assumes ok: "change_ok ch"
  shows "hoare (moved ch c p) (write_pointer (pkg_app (ch_id ch)) ''previous'' (ch_current ch))
    (\<lambda>_. moved ch c (ch_current ch)) (\<lambda>w. moved ch c p w \<or> moved ch c (ch_current ch) w)"
proof -
  let ?id = "ch_id ch"
  have ident: "c1pkg_safe_id ?id" and v: "ch_current ch = [] \<or> c1pkg_safe_version (ch_current ch)"
    using ok by (simp_all add: change_ok_def)
  have name: "pointer_name ''previous''" by (simp add: pointer_name_def)
  let ?P = "\<lambda>w. standing ch w \<and> journal ch w \<and> in_place ch w \<and> points w (link_of ch ''current'') c"
  have "stable (slot ?id ''previous'') ?P"
    using slot_misses [OF name, of ?id] by (intro stables) (simp_all add: ch_place_def)
  from hoare_conj [OF write_pointer_hoare [OF ident name v this, of p] hoare_spares [OF write_pointer_spares [OF ident name]]]
  show ?thesis by (rule hoare_weaken) (auto simp: moved_def)
qed

lemma hoare_switch_current:
  assumes ok: "change_ok ch"
  shows "hoare (moved ch c p) (write_pointer (pkg_app (ch_id ch)) ''current'' (ch_version ch))
    (\<lambda>_. moved ch (ch_version ch) p) (\<lambda>w. moved ch c p w \<or> moved ch (ch_version ch) p w)"
proof -
  let ?id = "ch_id ch"
  have ident: "c1pkg_safe_id ?id" and v: "ch_version ch = [] \<or> c1pkg_safe_version (ch_version ch)"
    using ok by (simp_all add: change_ok_def)
  have name: "pointer_name ''current''" by (simp add: pointer_name_def)
  let ?P = "\<lambda>w. standing ch w \<and> journal ch w \<and> in_place ch w \<and> points w (link_of ch ''previous'') p"
  have "stable (slot ?id ''current'') ?P"
    using slot_misses [OF name, of ?id] by (intro stables) (simp_all add: ch_place_def)
  from hoare_conj [OF write_pointer_hoare [OF ident name v this, of c] hoare_spares [OF write_pointer_spares [OF ident name]]]
  show ?thesis by (rule hoare_weaken) (auto simp: moved_def)
qed

lemma hoare_finish_moved:
  "hoare (moved ch (ch_version ch) (ch_current ch)) finish_transaction (\<lambda>_. completed ch)
    (\<lambda>w. moved ch (ch_version ch) (ch_current ch) w \<or> completed ch w)"
proof -
  let ?P = "\<lambda>w. standing ch w \<and> in_place ch w \<and>
     points w (link_of ch ''current'') (ch_version ch) \<and> points w (link_of ch ''previous'') (ch_current ch) \<and>
     no_dir w (pointer_temp (ch_id ch))"
  have "stable (\<lambda>q. q = TRANSACTION_PATH) ?P" by (rule stable_conj stable_at_journal)+
  from journal_finish [OF this] show ?thesis
    by (rule hoare_weaken) (auto simp: moved_def completed_def at_rest_def)
qed

lemma stableD: "stable S P \<Longrightarrow> touches S w w' \<Longrightarrow> P w \<Longrightarrow> P w'"
  by (simp add: stable_def)

lemma chmod_result:
  assumes "ok (sys_chmod p m) w = (r, w')" and "file_at w p = Some i"
  shows "file_at w' p = Some i \<or> file_at w' p = Some (i\<lparr> st_mode := m \<rparr>)"
  using assms unfolding ok_def sys_chmod_def faulty_def
  by (auto split: list.splits outcome.splits)

text \<open>Sealing the payload keeps it the payload.\<close>

lemma place_apart:
  assumes "change_ok ch"
  shows "C1PKG_STATE_ROOT \<noteq> ch_place ch" "C1PKG_APPS_ROOT \<noteq> ch_place ch" "pkg_app (ch_id ch) \<noteq> ch_place ch"
    "pkg_versions (ch_id ch) \<noteq> ch_place ch" "link_of ch ''current'' \<noteq> ch_place ch"
    "link_of ch ''previous'' \<noteq> ch_place ch" "pointer_temp (ch_id ch) \<noteq> ch_place ch" "TRANSACTION_PATH \<noteq> ch_place ch"
proof -
  have "ch_version ch \<noteq> []" using assms safe_version_facts by (simp add: change_ok_def)
  note m = place_misses(1-3,5-7) [of "ch_id ch" "ch_version ch"] place_misses(4) [OF this, of "ch_id ch"]
    journal_misses(5) [of "ch_id ch" "ch_version ch"]
  show "C1PKG_STATE_ROOT \<noteq> ch_place ch" "C1PKG_APPS_ROOT \<noteq> ch_place ch" "pkg_app (ch_id ch) \<noteq> ch_place ch"
    "pkg_versions (ch_id ch) \<noteq> ch_place ch" "link_of ch ''current'' \<noteq> ch_place ch"
    "link_of ch ''previous'' \<noteq> ch_place ch" "pointer_temp (ch_id ch) \<noteq> ch_place ch" "TRANSACTION_PATH \<noteq> ch_place ch"
    unfolding ch_place_def by (rule m | rule not_sym, rule m)+
qed

lemma hoare_seal:
  assumes "change_ok ch"
  shows "hoare (moved ch c p) (ok (sys_chmod (ch_place ch) 365)) (\<lambda>_. moved ch c p) (moved ch c p)"
  unfolding hoare_def
proof (intro allI impI)
  fix w r w' assume w: "moved ch c p w" and run: "ok (sys_chmod (ch_place ch) 365) w = (r, w')"
  let ?P = "\<lambda>w. standing ch w \<and> journal ch w \<and> points w (link_of ch ''current'') c \<and>
     points w (link_of ch ''previous'') p \<and> no_dir w (pointer_temp (ch_id ch))"
  have "framed (\<lambda>q. q = ch_place ch) (ok (sys_chmod (ch_place ch) 365))" by (intro frames) simp
  note frame = framedD [OF this run]
  have "stable (\<lambda>q. q = ch_place ch) ?P"
    by (intro stable_conj stable_standing stable_parts(1,4,5) place_apart [OF assms])
  moreover have "?P w" using w by (simp add: moved_def)
  ultimately have P: "?P w'" using stableD [OF _ frame, of ?P] by blast
  obtain i where i: "file_at w (ch_place ch) = Some i" "payload_inode ch (euid w) i"
    using w by (auto simp: moved_def in_place_def)
  have "euid w' = euid w" using frame by (simp add: touches_def same_process_def)
  with chmod_result [OF run i(1)] i(2) have "in_place ch w'"
    by (auto simp: in_place_def payload_inode_def)
  with P have "moved ch c p w'" by (simp add: moved_def)
  then show "case r of None \<Rightarrow> moved ch c p w' | Some x \<Rightarrow> moved ch c p w'"
    by (cases r) simp_all
qed

definition unfinished :: "change \<Rightarrow> world \<Rightarrow> bool" where
  "unfinished ch w \<longleftrightarrow> progress ch w \<or> completed ch w"

lemma hoare_moved:
  "hoare P m (\<lambda>_. R) (\<lambda>w. P w \<or> R w) \<Longrightarrow> (\<And>w. P w \<Longrightarrow> E w) \<Longrightarrow> (\<And>w. R w \<Longrightarrow> E w) \<Longrightarrow> hoare P m (\<lambda>_. R) E"
  by (erule hoare_weaken) auto

lemma redo_hoare:
  assumes ok: "change_ok ch"
  shows "hoare (progress ch) (redo_transaction (change_record ch) (pkg_app (ch_id ch)) (pkg_versions (ch_id ch))
      (ch_place ch) info) (\<lambda>_. completed ch) (unfinished ch)"
proof -
  let ?c = "ch_current ch" and ?v = "ch_version ch" and ?p = "ch_previous ch" and ?E = "unfinished ch"
  have E: "progress ch w \<Longrightarrow> ?E w" for w by (simp add: unfinished_def)
  have read: "hoare (progress ch) m (\<lambda>_. progress ch) ?E" if "framed (\<lambda>q. False) m" for m :: "'b act"
    by (rule hoare_weaken [OF hoare_read [OF that stable_states(4)] _ _ E])
  have seal: "hoare (progress ch) (if b then ok (sys_chmod (ch_place ch) 365) else ret ()) (\<lambda>_. progress ch) ?E" for b
  proof -
    have "hoare (progress ch) (ok (sys_chmod (ch_place ch) 365)) (\<lambda>_. progress ch) ?E"
      unfolding progress_def
      by (intro hoare_cases hoare_weaken [OF hoare_seal [OF ok]]) (auto simp: unfinished_def progress_def)
    then show ?thesis using read [OF framed_ret, of "()"] by (cases b) simp_all
  qed
  let ?mid = "\<lambda>w. moved ch ?c ?c w \<or> moved ch ?v ?c w"
  have previous: "hoare (progress ch) (write_pointer (pkg_app (ch_id ch)) ''previous'' ?c) (\<lambda>_. ?mid) ?E"
    unfolding progress_def
    by (intro hoare_cases hoare_weaken [OF hoare_switch_previous [OF ok]]) (auto simp: unfinished_def progress_def)
  have current: "hoare ?mid (write_pointer (pkg_app (ch_id ch)) ''current'' ?v) (\<lambda>_. moved ch ?v ?c) ?E"
    by (intro hoare_cases hoare_weaken [OF hoare_switch_current [OF ok]]) (auto simp: unfinished_def progress_def)
  have finish: "hoare (moved ch ?v ?c) finish_transaction (\<lambda>_. completed ch) ?E"
    by (rule hoare_weaken [OF hoare_finish_moved]) (auto simp: unfinished_def progress_def)
  note steps = read [OF framed_pkg_sync]
  show ?thesis
    unfolding redo_transaction_def change_fields(2,3) [OF ok]
    by (rule hoare_bind [OF read [OF framed_asks]], rule hoare_then [OF read [OF framed_require]],
        rule hoare_then [OF seal], rule hoare_then [OF steps], rule hoare_then [OF steps],
        rule hoare_then [OF steps], rule hoare_then [OF steps], rule hoare_then [OF previous],
        rule hoare_then [OF current finish])
qed

text \<open>Every state that recovery can find after a begun change, and what it leaves.\<close>

definition settled :: "change \<Rightarrow> world \<Rightarrow> bool" where
  "settled ch w \<longleftrightarrow> dropped ch w \<or> completed ch w"

definition begun :: "change \<Rightarrow> world \<Rightarrow> bool" where
  "begun ch w \<longleftrightarrow> waiting ch w \<or> progress ch w"

lemma begun_journal: "begun ch w \<Longrightarrow> journal ch w"
  by (auto simp: begun_def waiting_def progress_def moved_def)

lemma hoare_lstat_errno:
  assumes "stable (\<lambda>q. False) P"
  shows "hoare P (errno_of (sys_lstat p))
    (\<lambda>r w. P w \<and> (case r of Inl e \<Rightarrow> e = ENOENT \<longrightarrow> file_at w p = None | Inr i \<Rightarrow> file_at w p = Some i)) E"
  unfolding hoare_def
proof (intro allI impI)
  fix w r w' assume w: "P w" and run: "errno_of (sys_lstat p) w = (r, w')"
  have "framed (\<lambda>q. False) (errno_of (sys_lstat p))" by (intro frames)
  from framedD [OF this run] have same: "same_files w w'" by (simp add: touches_none)
  from stable_same_files [OF assms same w] have P: "P w'" .
  obtain s where s: "r = Some s" "sys_lstat p w = (s, w')"
    using run by (auto simp: errno_of_def split: prod.splits)
  have "case s of Inl e \<Rightarrow> e = ENOENT \<longrightarrow> file_at w' p = None | Inr i \<Rightarrow> file_at w' p = Some i"
    using s(2) same_files_at [OF same, of p] unfolding sys_lstat_def faulty_def
    by (auto split: list.splits outcome.splits option.splits)
  with P s(1) show "case r of None \<Rightarrow> E w' | Some r \<Rightarrow>
      P w' \<and> (case r of Inl e \<Rightarrow> e = ENOENT \<longrightarrow> file_at w' p = None | Inr i \<Rightarrow> file_at w' p = Some i)"
    by simp
qed

text \<open>How resuming proceeds from any state \<open>B\<close> in which the journal has been read.\<close>

lemma resume_rule:
  assumes ok: "change_ok ch" and stable: "stable (\<lambda>q. False) B" and E: "\<And>w. B w \<Longrightarrow> E w"
    and dropping: "hoare (\<lambda>w. B w \<and> file_at w (ch_place ch) = None)
      (drop_transaction (change_record ch) (pkg_app (ch_id ch))) (\<lambda>_. Q) E"
    and redoing: "\<And>i. hoare (\<lambda>w. B w \<and> file_at w (ch_place ch) = Some i)
      (redo_transaction (change_record ch) (pkg_app (ch_id ch)) (pkg_versions (ch_id ch)) (ch_place ch) i) (\<lambda>_. Q) E"
  shows "hoare B (resume_transaction (change_record ch)) (\<lambda>_. Q) E"
proof -
  have ident: "c1pkg_safe_id (ch_id ch)" and version: "c1pkg_safe_version (ch_version ch)"
    using ok by (simp_all add: change_ok_def)
  have "c1pkg_join (pkg_app (ch_id ch)) ''versions'' = Some (pkg_versions (ch_id ch))"
    by (rule joins(2) [OF ident]) simp
  note joined = joins(1) [OF ident] this joins(3) [OF ident version]
  have read: "hoare B m (\<lambda>_. B) E" if "framed (\<lambda>q. False) m" for m :: "'b act"
    by (rule hoare_weaken [OF hoare_read [OF that stable]]) (auto intro: E)
  let ?k = "\<lambda>r. case r of Inl e \<Rightarrow> if e = ENOENT then drop_transaction (change_record ch) (pkg_app (ch_id ch)) else stop
     | Inr info \<Rightarrow> redo_transaction (change_record ch) (pkg_app (ch_id ch)) (pkg_versions (ch_id ch)) (ch_place ch) info"
  have "hoare (\<lambda>w. B w \<and> (case r of Inl e \<Rightarrow> e = ENOENT \<longrightarrow> file_at w (ch_place ch) = None
     | Inr i \<Rightarrow> file_at w (ch_place ch) = Some i)) (?k r) (\<lambda>_. Q) E" for r
  proof (cases r)
    case (Inr i)
    with redoing [of i] show ?thesis by simp
  next
    case (Inl e)
    with dropping E show ?thesis by (cases "e = ENOENT") (auto simp: hoare_def stop_def)
  qed
  note decide = hoare_bind [OF hoare_lstat_errno [OF stable] this]
  show ?thesis
    unfolding resume_transaction_def change_fields(1,2) [OF ok] joined bind_lift
    unfolding ch_place_def [symmetric]
    by (rule hoare_then [OF read [OF framed_require]], rule hoare_then [OF read [OF framed_trusted_directory]],
        rule hoare_then [OF read [OF framed_trusted_directory]], rule decide)
qed

lemma stable_begun: "stable (\<lambda>q. False) (begun ch)" "stable (\<lambda>q. False) (unfinished ch)" "stable (\<lambda>q. False) (settled ch)"
  unfolding begun_def unfinished_def settled_def by (intro stable_disj stable_states)+

lemma resume_hoare:
  assumes ok: "change_ok ch"
  shows "hoare (begun ch) (resume_transaction (change_record ch)) (\<lambda>_. settled ch) (\<lambda>w. begun ch w \<or> settled ch w)"
proof (rule resume_rule [OF ok stable_begun(1)])
  show "hoare (\<lambda>w. begun ch w \<and> file_at w (ch_place ch) = None)
      (drop_transaction (change_record ch) (pkg_app (ch_id ch))) (\<lambda>_. settled ch) (\<lambda>w. begun ch w \<or> settled ch w)"
    by (rule hoare_weaken [OF hoare_drop]) (auto simp: begun_def settled_def progress_def moved_def in_place_def)
  show "hoare (\<lambda>w. begun ch w \<and> file_at w (ch_place ch) = Some i)
      (redo_transaction (change_record ch) (pkg_app (ch_id ch)) (pkg_versions (ch_id ch)) (ch_place ch) i)
      (\<lambda>_. settled ch) (\<lambda>w. begun ch w \<or> settled ch w)" for i
    by (rule hoare_weaken [OF redo_hoare [OF ok]]) (auto simp: begun_def settled_def waiting_def unfinished_def)
qed simp

lemma resume_redo:
  assumes ok: "change_ok ch"
  shows "hoare (progress ch) (resume_transaction (change_record ch)) (\<lambda>_. completed ch) (unfinished ch)"
proof (rule resume_rule [OF ok stable_states(4)])
  show "hoare (\<lambda>w. progress ch w \<and> file_at w (ch_place ch) = None)
      (drop_transaction (change_record ch) (pkg_app (ch_id ch))) (\<lambda>_. completed ch) (unfinished ch)"
    by (auto simp: hoare_def progress_def moved_def in_place_def)
  show "hoare (\<lambda>w. progress ch w \<and> file_at w (ch_place ch) = Some i)
      (redo_transaction (change_record ch) (pkg_app (ch_id ch)) (pkg_versions (ch_id ch)) (ch_place ch) i)
      (\<lambda>_. completed ch) (unfinished ch)" for i
    by (rule hoare_pre [OF redo_hoare [OF ok]]) blast
qed (simp add: unfinished_def)

lemma hoare_open_errno:
  assumes "stable (\<lambda>q. False) P"
  shows "hoare P (errno_of (sys_open_read p))
    (\<lambda>r w. P w \<and> (case r of Inl e \<Rightarrow> e = ENOENT \<longrightarrow> file_at w p = None | Inr i \<Rightarrow> file_at w p = Some i)) E"
  unfolding hoare_def
proof (intro allI impI)
  fix w r w' assume w: "P w" and run: "errno_of (sys_open_read p) w = (r, w')"
  have "framed (\<lambda>q. False) (errno_of (sys_open_read p))" by (intro frames)
  from framedD [OF this run] have same: "same_files w w'" by (simp add: touches_none)
  from stable_same_files [OF assms same w] have P: "P w'" .
  obtain s where s: "r = Some s" "sys_open_read p w = (s, w')"
    using run by (auto simp: errno_of_def split: prod.splits)
  have "case s of Inl e \<Rightarrow> e = ENOENT \<longrightarrow> file_at w' p = None | Inr i \<Rightarrow> file_at w' p = Some i"
    using s(2) same_files_at [OF same, of p] unfolding sys_open_read_def faulty_def
    by (auto split: list.splits outcome.splits option.splits if_splits)
  with P s(1) show "case r of None \<Rightarrow> E w' | Some r \<Rightarrow>
      P w' \<and> (case r of Inl e \<Rightarrow> e = ENOENT \<longrightarrow> file_at w' p = None | Inr i \<Rightarrow> file_at w' p = Some i)"
    by simp
qed

lemma framed_read_transaction [frames]: "framed S (read_transaction info)"
  unfolding read_transaction_def by (intro frames)

lemma read_transaction_data: "read_transaction info w = (Some d, w') \<Longrightarrow> d = st_data info"
  unfolding read_transaction_def by (drule closing_quietly_Some) (auto simp: act_Some)

definition found :: "change \<Rightarrow> world \<Rightarrow> bool" where
  "found ch w \<longleftrightarrow> begun ch w \<or> settled ch w"

lemma stable_found: "stable (\<lambda>q. False) (found ch)"
  unfolding found_def by (intro stable_disj stable_begun)

lemma settled_no_journal: "settled ch w \<Longrightarrow> no_journal w"
  by (auto simp: settled_def dropped_def completed_def at_rest_def)

text \<open>Recovery from any state \<open>F\<close>, given what resuming does from the states \<open>B\<close> with a journal.\<close>

lemma recover_rule:
  assumes ok: "change_ok ch" and F: "stable (\<lambda>q. False) F" and B: "stable (\<lambda>q. False) B"
    and gone: "\<And>w. F w \<Longrightarrow> no_journal w \<Longrightarrow> Q w"
    and there: "\<And>w. F w \<Longrightarrow> \<not> no_journal w \<Longrightarrow> B w" and journal: "\<And>w. B w \<Longrightarrow> journal ch w"
    and E: "\<And>w. F w \<Longrightarrow> E w" "\<And>w. B w \<Longrightarrow> E w"
    and resume: "hoare B (resume_transaction (change_record ch)) (\<lambda>_. Q) E"
  shows "hoare F recover_transaction (\<lambda>_. Q) E"
proof -
  let ?R = "\<lambda>r w. F w \<and> (case r of Inl e \<Rightarrow> e = ENOENT \<longrightarrow> file_at w TRANSACTION_PATH = None
     | Inr i \<Rightarrow> file_at w TRANSACTION_PATH = Some i)"
  have image: "B w \<and> st_data i = wal_image (change_record ch)"
    if "F w" "file_at w TRANSACTION_PATH = Some i" for w i
    using there [OF that(1)] journal that(2) by (auto simp: no_journal_def journal_def written_def)
  have replay: "hoare (?R (Inr i)) (bind_act (read_transaction i) (\<lambda>d. resume_transaction (wal_record d)))
      (\<lambda>_. Q) E" for i
  proof (cases "st_data i = wal_image (change_record ch)")
    case True
    have "hoare B (read_transaction i) (\<lambda>d w. B w \<and> d = wal_image (change_record ch)) B"
      by (rule hoare_stable [OF framed_read_transaction B]) (use True read_transaction_data in auto)
    then have read: "hoare (?R (Inr i)) (read_transaction i) (\<lambda>d w. B w \<and> d = wal_image (change_record ch)) E"
      by (rule hoare_weaken) (use image E in auto)
    have "hoare (\<lambda>w. B w \<and> d = wal_image (change_record ch)) (resume_transaction (wal_record d)) (\<lambda>_. Q) E" for d
      by (rule hoare_pure) (use resume change_fields(9) [OF ok] in simp)
    from hoare_bind [OF read this] show ?thesis .
  next
    case False
    then show ?thesis using image by (auto simp: hoare_def)
  qed
  have "hoare (?R r) (case r of Inl e \<Rightarrow> if e = ENOENT then ret () else stop
     | Inr i \<Rightarrow> bind_act (read_transaction i) (\<lambda>d. resume_transaction (wal_record d))) (\<lambda>_. Q) E" for r
  proof (cases r)
    case (Inl e)
    then show ?thesis using gone E by (auto simp: hoare_def ret_def stop_def no_journal_def)
  next
    case (Inr i)
    with replay [of i] show ?thesis by simp
  qed
  from hoare_bind [OF hoare_open_errno [OF F] this] show ?thesis
    unfolding recover_transaction_def .
qed

lemma recover_hoare:
  assumes ok: "change_ok ch"
  shows "hoare (found ch) recover_transaction (\<lambda>_. settled ch) (found ch)"
proof (rule recover_rule [OF ok stable_found stable_begun(1)])
  show "hoare (begun ch) (resume_transaction (change_record ch)) (\<lambda>_. settled ch) (found ch)"
    by (rule hoare_weaken [OF resume_hoare [OF ok]]) (auto simp: found_def)
qed (use begun_journal settled_no_journal in \<open>auto simp: found_def journal_def no_journal_def\<close>)

lemma recover_redo:
  assumes ok: "change_ok ch"
  shows "hoare (unfinished ch) recover_transaction (\<lambda>_. completed ch) (unfinished ch)"
  by (rule recover_rule [OF ok stable_begun(2) stable_states(4) _ _ _ _ _ resume_redo [OF ok]])
    (auto simp: unfinished_def progress_def moved_def journal_def no_journal_def completed_def at_rest_def)

text \<open>Without a journal recovery changes nothing, whatever faults it meets.\<close>

lemma recover_idle:
  assumes "no_journal w" and "recover_transaction w = (r, w')"
  shows "same_files w w'"
proof -
  have "hoare (same_files w) (errno_of (sys_open_read TRANSACTION_PATH)) (\<lambda>r v. same_files w v \<and>
      (case r of Inl e \<Rightarrow> e = ENOENT \<longrightarrow> file_at v TRANSACTION_PATH = None
       | Inr i \<Rightarrow> file_at v TRANSACTION_PATH = Some i)) (same_files w)"
    by (rule hoare_open_errno) (auto simp: stable_def touches_none intro: same_files_trans)
  moreover have "hoare (\<lambda>v. same_files w v \<and> (case r of Inl e \<Rightarrow> e = ENOENT \<longrightarrow> file_at v TRANSACTION_PATH = None
       | Inr i \<Rightarrow> file_at v TRANSACTION_PATH = Some i))
      (case r of Inl e \<Rightarrow> if e = ENOENT then ret () else stop
       | Inr i \<Rightarrow> bind_act (read_transaction i) (\<lambda>d. resume_transaction (wal_record d)))
      (\<lambda>_. same_files w) (same_files w)" for r
    using assms(1) by (cases r) (auto simp: hoare_def ret_def stop_def no_journal_def same_files_at)
  ultimately have "hoare (same_files w) recover_transaction (\<lambda>_. same_files w) (same_files w)"
    unfolding recover_transaction_def by (rule hoare_bind)
  from hoareD [OF this same_files_refl assms(2)] show ?thesis by (cases r) auto
qed

section \<open>Undisturbed recovery\<close>

lemma runs_hoare: "hoare P m Q E \<Longrightarrow> runs P m (\<lambda>_ _. True) \<Longrightarrow> runs P m Q"
  unfolding hoare_def runs_def by (metis option.simps(5))

lemma runs_cases: "runs P m Q \<Longrightarrow> runs P' m Q \<Longrightarrow> runs (\<lambda>w. P w \<or> P' w) m Q"
  unfolding runs_def by blast

lemma points_read:
  assumes "faults w = []" and "points w p x" and "x = [] \<or> c1pkg_safe_version x"
  shows "read_link_value e p w = (if x = [] then Inl ENOENT else Inr (''versions/'' @ x), w)"
  using assms safe_version_facts [of x]
  by (auto simp: read_link_value_def sys_readlink_def faulty_def points_def C1PKG_PATH_MAX_def split: if_splits)

lemma runs_pointer_version:
  assumes "c1pkg_safe_id ident" "pointer_name name" "x = [] \<or> c1pkg_safe_version x"
    and "\<And>w. P w \<Longrightarrow> points w (pkg_link ident name) x"
  shows "runs P (pointer_version e (pkg_app ident) name) (\<lambda>y w. P w \<and> y = x)"
proof -
  have "c1pkg_join (pkg_app ident) name = Some (pkg_link ident name)"
    using assms(2) joins(2) [OF assms(1)] by (auto simp: pointer_name_def)
  moreover have "version_target (''versions/'' @ x) = Some x" if "x \<noteq> []"
    using that assms(3) by (simp add: version_target_def)
  ultimately show ?thesis
    using points_read [OF _ assms(4) assms(3)]
    unfolding runs_def pointer_version_def by (auto simp: bind_act_def errno_of_def lift_def ret_def)
qed

lemma runs_finish:
  assumes P: "stable (\<lambda>q. q = TRANSACTION_PATH) P"
    and "\<And>w. P w \<Longrightarrow> is_dir w C1PKG_STATE_ROOT"
  shows "runs (\<lambda>w. P w \<and> journal ch w) finish_transaction (\<lambda>_ _. True)"
  unfolding finish_transaction_def
proof (rule runs_then)
  show "runs (\<lambda>w. P w \<and> journal ch w) (remove_if_present TRANSACTION_PATH) (\<lambda>_. P)"
    by (rule runs_pre [OF runs_post [OF runs_remove_if_present [OF P]]])
      (auto simp: journal_def no_dir_def written_def)
  show "runs P (c1pkg_sync_directory C1PKG_STATE_ROOT) (\<lambda>_ _. True)"
    by (rule runs_post [OF runs_sync_directory [OF assms(2)]]) auto
qed

lemma runs_read_only:
  assumes "framed (\<lambda>q. False) m" and "stable (\<lambda>q. False) P" and "runs P m (\<lambda>_ _. True)"
  shows "runs P m (\<lambda>_. P)"
  by (rule runs_hoare [OF hoare_read [OF assms(1,2)] assms(3)])

lemma standing_dirs:
  assumes "standing ch w"
  shows "is_dir w C1PKG_STATE_ROOT" "is_dir w C1PKG_APPS_ROOT" "is_dir w (pkg_app (ch_id ch))" "is_dir w (pkg_versions (ch_id ch))"
  using assms trusted_is_dir by (auto simp: standing_def)

lemma runs_drop:
  assumes ok: "change_ok ch"
  shows "runs (waiting ch) (drop_transaction (change_record ch) (pkg_app (ch_id ch))) (\<lambda>_. dropped ch)"
proof (rule runs_hoare [OF hoare_drop])
  have ident: "c1pkg_safe_id (ch_id ch)" and c: "ch_current ch = [] \<or> c1pkg_safe_version (ch_current ch)"
    and p: "ch_previous ch = [] \<or> c1pkg_safe_version (ch_previous ch)"
    using ok by (simp_all add: change_ok_def)
  have names: "pointer_name ''current''" "pointer_name ''previous''" by (simp_all add: pointer_name_def)
  let ?P = "\<lambda>w. standing ch w"
  have finish: "runs (\<lambda>w. ?P w \<and> journal ch w) finish_transaction (\<lambda>_ _. True)"
    by (rule runs_finish [OF stable_at_journal(1) standing_dirs(1)])
  have pv: "runs (waiting ch) (pointer_version ENOENT (pkg_app (ch_id ch)) ''current'') (\<lambda>y w. waiting ch w \<and> y = ch_current ch)"
    by (rule runs_pointer_version [OF ident names(1) c]) (simp add: waiting_def)
  have pv2: "runs (waiting ch) (pointer_version ENOENT (pkg_app (ch_id ch)) ''previous'') (\<lambda>y w. waiting ch w \<and> y = ch_previous ch)"
    by (rule runs_pointer_version [OF ident names(2) p]) (simp add: waiting_def)
  have last_step: "runs (\<lambda>w. waiting ch w \<and> x = ch_current ch \<and> y = ch_previous ch)
     (then_act (require (x = ch_current ch \<and> y = ch_previous ch)) finish_transaction) (\<lambda>_ _. True)" for x y
    by (rule runs_then [OF runs_require_pre runs_pre [OF finish]]) (auto simp: waiting_def)
  have second: "runs (\<lambda>w. waiting ch w \<and> x = ch_current ch)
     (bind_act (pointer_version ENOENT (pkg_app (ch_id ch)) ''previous'') (\<lambda>y.
        then_act (require (x = ch_current ch \<and> y = ch_previous ch)) finish_transaction)) (\<lambda>_ _. True)" for x
  proof (cases "x = ch_current ch")
    case True
    then show ?thesis by (intro runs_bind [OF runs_pre [OF pv2]] runs_pre [OF last_step]) auto
  next
    case False
    then show ?thesis by (simp add: runs_def)
  qed
  show "runs (waiting ch) (drop_transaction (change_record ch) (pkg_app (ch_id ch))) (\<lambda>_ _. True)"
    unfolding drop_transaction_def change_fields(3,4,7) [OF ok]
    by (rule runs_then [OF runs_require_pre runs_bind [OF pv second]]) (simp add: waiting_def)
qed

lemma runs_switch_previous:
  assumes ok: "change_ok ch"
  shows "runs (moved ch c p) (write_pointer (pkg_app (ch_id ch)) ''previous'' (ch_current ch))
    (\<lambda>_. moved ch c (ch_current ch))"
proof (rule runs_hoare [OF hoare_switch_previous [OF ok]])
  let ?id = "ch_id ch"
  have ident: "c1pkg_safe_id ?id" and v: "ch_current ch = [] \<or> c1pkg_safe_version (ch_current ch)"
    using ok by (simp_all add: change_ok_def)
  have name: "pointer_name ''previous''" by (simp add: pointer_name_def)
  have "stable (slot ?id ''previous'') (standing ch)"
    using slot_misses [OF name, of ?id] by (intro stables) simp_all
  from write_pointer_runs [OF ident name v this standing_dirs(3), of p]
  show "runs (moved ch c p) (write_pointer (pkg_app ?id) ''previous'' (ch_current ch)) (\<lambda>_ _. True)"
    by (rule runs_pre [OF runs_post]) (auto simp: moved_def)
qed

lemma runs_switch_current:
  assumes ok: "change_ok ch"
  shows "runs (moved ch c p) (write_pointer (pkg_app (ch_id ch)) ''current'' (ch_version ch))
    (\<lambda>_. moved ch (ch_version ch) p)"
proof (rule runs_hoare [OF hoare_switch_current [OF ok]])
  let ?id = "ch_id ch"
  have ident: "c1pkg_safe_id ?id" and v: "ch_version ch = [] \<or> c1pkg_safe_version (ch_version ch)"
    using ok by (simp_all add: change_ok_def)
  have name: "pointer_name ''current''" by (simp add: pointer_name_def)
  have "stable (slot ?id ''current'') (standing ch)"
    using slot_misses [OF name, of ?id] by (intro stables) simp_all
  from write_pointer_runs [OF ident name v this standing_dirs(3), of c]
  show "runs (moved ch c p) (write_pointer (pkg_app ?id) ''current'' (ch_version ch)) (\<lambda>_ _. True)"
    by (rule runs_pre [OF runs_post]) (auto simp: moved_def)
qed

lemma runs_seal:
  assumes "change_ok ch"
  shows "runs (moved ch c p) (ok (sys_chmod (ch_place ch) 365)) (\<lambda>_. moved ch c p)"
proof (rule runs_hoare [OF hoare_seal [OF assms]])
  show "runs (moved ch c p) (ok (sys_chmod (ch_place ch) 365)) (\<lambda>_ _. True)"
    unfolding sys_chmod_def by (rule runs_ok) (auto simp: moved_def in_place_def)
qed

lemma runs_redo:
  assumes ok: "change_ok ch"
  shows "runs (\<lambda>w. moved ch c p w \<and> file_at w (ch_place ch) = Some info)
    (redo_transaction (change_record ch) (pkg_app (ch_id ch)) (pkg_versions (ch_id ch)) (ch_place ch) info) (\<lambda>_ _. True)"
proof -
  let ?c = "ch_current ch" and ?v = "ch_version ch" and ?id = "ch_id ch"
  have trusted: "moved ch c p w \<Longrightarrow> file_at w (ch_place ch) = Some info \<Longrightarrow> payload_inode ch (euid w) info" for w
    by (auto simp: moved_def in_place_def)
  have dirs: "is_dir w (ch_place ch)" "is_dir w (pkg_versions ?id)" "is_dir w (pkg_app ?id)" "is_dir w C1PKG_APPS_ROOT"
    if "moved ch c p w" for w
    using that standing_dirs [of ch w] by (auto simp: moved_def in_place_def payload_inode_def is_dir_iff)
  have seal: "runs (moved ch c p) (if b then ok (sys_chmod (ch_place ch) 365) else ret ()) (\<lambda>_. moved ch c p)" for b
    using runs_seal [OF ok, of c p] runs_ret [of "\<lambda>_. moved ch c p" "()"] by (cases b) simp_all
  have "stable (\<lambda>q. q = TRANSACTION_PATH) (standing ch)" by (rule stable_at_journal)
  from runs_finish [OF this standing_dirs(1)]
  have finish: "runs (moved ch ?v ?c) finish_transaction (\<lambda>_ _. True)"
    by (rule runs_pre) (auto simp: moved_def)
  note syncs = dirs [THEN runs_sync_directory [where P = "moved ch c p"]]
  show ?thesis
    unfolding redo_transaction_def change_fields(2,3,5,6) [OF ok]
    by (rule runs_bind [OF runs_asks], rule runs_then [OF runs_require_pre])
       (use trusted in \<open>force simp: payload_inode_def\<close>,
        rule runs_pre [OF runs_then [OF seal
          runs_then [OF syncs(1) runs_then [OF syncs(2) runs_then [OF syncs(3) runs_then [OF syncs(4)
          runs_then [OF runs_switch_previous [OF ok] runs_then [OF runs_switch_current [OF ok] finish]]]]]]]],
        blast+)
qed

lemma runs_weak: "runs P m Q \<Longrightarrow> runs P m (\<lambda>_ _. True)"
  by (rule runs_post) auto

lemma runs_false: "(\<And>w. \<not> P w) \<Longrightarrow> runs P m Q"
  by (simp add: runs_def)

lemma runs_ex: "(\<And>i. runs (\<lambda>w. P w \<and> F w i) m Q) \<Longrightarrow> (\<And>w. P w \<Longrightarrow> \<exists>i. F w i) \<Longrightarrow> runs P m Q"
  unfolding runs_def by blast

lemma standing_begun: "begun ch w \<Longrightarrow> standing ch w"
  by (auto simp: begun_def waiting_def progress_def moved_def)

lemma runs_redo_progress:
  assumes ok: "change_ok ch"
  shows "runs (\<lambda>w. progress ch w \<and> file_at w (ch_place ch) = Some i)
    (redo_transaction (change_record ch) (pkg_app (ch_id ch)) (pkg_versions (ch_id ch)) (ch_place ch) i) (\<lambda>_ _. True)"
proof -
  note redo = runs_redo [OF ok]
  show ?thesis
    unfolding progress_def
    by (rule runs_pre [OF runs_cases [OF redo [of "ch_current ch" "ch_previous ch" i]
          runs_cases [OF redo [of "ch_current ch" "ch_current ch" i] redo [of "ch_version ch" "ch_current ch" i]]]])
      blast
qed

lemma runs_resume:
  assumes ok: "change_ok ch"
  shows "runs (begun ch) (resume_transaction (change_record ch)) (\<lambda>_ _. True)"
proof -
  have ident: "c1pkg_safe_id (ch_id ch)" and version: "c1pkg_safe_version (ch_version ch)"
    using ok by (simp_all add: change_ok_def)
  have "c1pkg_join (pkg_app (ch_id ch)) ''versions'' = Some (pkg_versions (ch_id ch))"
    by (rule joins(2) [OF ident]) simp
  note joined = joins(1) [OF ident] this joins(3) [OF ident version]
  have trusted: "runs (begun ch) (trusted_directory p) (\<lambda>_. begun ch)"
    if "p = pkg_app (ch_id ch) \<or> p = pkg_versions (ch_id ch)" for p
    by (rule runs_post [OF runs_trusted_directory]) (use that standing_begun in \<open>auto simp: standing_def\<close>)
  let ?k = "\<lambda>r. case r of Inl e \<Rightarrow> if e = ENOENT then drop_transaction (change_record ch) (pkg_app (ch_id ch)) else stop
     | Inr info \<Rightarrow> redo_transaction (change_record ch) (pkg_app (ch_id ch)) (pkg_versions (ch_id ch)) (ch_place ch) info"
  let ?R = "\<lambda>r w. begun ch w \<and> r = (case file_at w (ch_place ch) of None \<Rightarrow> Inl ENOENT | Some i \<Rightarrow> Inr i)"
  have "runs (?R r) (?k r) (\<lambda>_ _. True)" for r
  proof (cases r)
    case (Inl e)
    have "runs (?R (Inl ENOENT)) (drop_transaction (change_record ch) (pkg_app (ch_id ch))) (\<lambda>_ _. True)"
      by (rule runs_pre [OF runs_weak [OF runs_drop [OF ok]]])
        (auto simp: begun_def progress_def moved_def in_place_def)
    with Inl show ?thesis by (cases "e = ENOENT") (auto intro!: runs_false split: option.splits)
  next
    case (Inr i)
    have "runs (?R (Inr i)) (redo_transaction (change_record ch) (pkg_app (ch_id ch)) (pkg_versions (ch_id ch))
        (ch_place ch) i) (\<lambda>_ _. True)"
      by (rule runs_pre [OF runs_redo_progress [OF ok]])
        (auto simp: begun_def waiting_def split: option.splits)
    with Inr show ?thesis by simp
  qed
  note decide = runs_bind [OF runs_probe_call this]
  show ?thesis
    unfolding resume_transaction_def change_fields(1,2) [OF ok] joined bind_lift
    unfolding ch_place_def [symmetric]
    by (rule runs_then [OF runs_require_pre], rule change_fields(8) [OF ok],
        rule runs_then [OF trusted], simp, rule runs_then [OF trusted], simp, rule decide)
qed

lemma runs_open_errno:
  assumes "\<And>w i. P w \<Longrightarrow> file_at w p = Some i \<Longrightarrow> st_kind i \<noteq> S_IFLNK"
  shows "runs P (errno_of (sys_open_read p)) (\<lambda>r w. P w \<and> r = (case file_at w p of None \<Rightarrow> Inl ENOENT | Some i \<Rightarrow> Inr i))"
  unfolding sys_open_read_def using assms by (intro runs_errno_of) (auto split: option.split)

lemma runs_read_transaction:
  assumes "\<And>w. P w \<Longrightarrow> st_kind info = S_IFREG \<and> st_nlink info = 1 \<and> st_uid info = euid w \<and>
      st_mode info AND 511 = 384 \<and> length (st_data info) = 224"
  shows "runs P (read_transaction info) (\<lambda>d w. P w \<and> d = st_data info)"
  unfolding read_transaction_def
  by (rule runs_closing_quietly, rule runs_then [OF runs_touch], rule runs_bind [OF runs_asks],
      rule runs_then [OF runs_require_pre], use assms in force,
      rule runs_then [OF runs_touch], rule runs_pre [OF runs_ret], blast)

lemma runs_recover:
  assumes ok: "change_ok ch"
  shows "runs (found ch) recover_transaction (\<lambda>_. settled ch)"
proof (rule runs_hoare [OF recover_hoare [OF ok]])
  have begun: "runs (begun ch) recover_transaction (\<lambda>_ _. True)"
  proof -
    let ?f = "\<lambda>u. written u 384 (wal_image (change_record ch))"
    let ?R = "\<lambda>r w. begun ch w \<and> r = (case file_at w TRANSACTION_PATH of None \<Rightarrow> Inl ENOENT | Some i \<Rightarrow> Inr i)"
    have opened: "runs (begun ch) (errno_of (sys_open_read TRANSACTION_PATH)) ?R"
      by (rule runs_open_errno) (auto dest!: begun_journal simp: journal_def written_def)
    have step: "runs (?R r) (case r of Inl e \<Rightarrow> if e = ENOENT then ret () else stop
      | Inr i \<Rightarrow> bind_act (read_transaction i) (\<lambda>d. resume_transaction (wal_record d))) (\<lambda>_ _. True)" for r
    proof (cases r)
      case (Inl e)
      then show ?thesis by (auto intro!: runs_false dest!: begun_journal simp: journal_def)
    next
      case (Inr i)
      have read: "runs (?R (Inr i)) (read_transaction i) (\<lambda>d w. ?R (Inr i) w \<and> d = st_data i)"
        by (rule runs_read_transaction)
          (auto dest!: begun_journal simp: journal_def written_def change_fields(10) [OF ok])
      have "runs (\<lambda>w. ?R (Inr i) w \<and> d = st_data i) (resume_transaction (wal_record d)) (\<lambda>_ _. True)" for d
      proof (cases "d = wal_image (change_record ch)")
        case True
        have "runs (\<lambda>w. ?R (Inr i) w \<and> d = st_data i) (resume_transaction (change_record ch)) (\<lambda>_ _. True)"
          by (rule runs_pre [OF runs_resume [OF ok]]) blast
        then show ?thesis using change_fields(9) [OF ok] True by simp
      next
        case False
        then show ?thesis by (auto intro!: runs_false dest!: begun_journal simp: journal_def written_def)
      qed
      from runs_bind [OF read this] Inr show ?thesis by simp
    qed
    from runs_bind [OF opened step] show ?thesis unfolding recover_transaction_def .
  qed
  have "runs (settled ch) recover_transaction (\<lambda>_ _. True)"
    unfolding recover_transaction_def sys_open_read_def
  proof (rule runs_bind [OF runs_errno_of])
    show "\<exists>r w'. (case file_at w TRANSACTION_PATH of None \<Rightarrow> Inl ENOENT
        | Some i \<Rightarrow> if st_kind i = S_IFLNK then Inl EOTHER else Inr i, w) = (r, w') \<and> faults w' = faults w \<and> r = Inl ENOENT"
      if "settled ch w" for w
      using settled_no_journal [OF that] by (simp add: no_journal_def)
  qed (auto simp: runs_def ret_def)
  with begun show "runs (found ch) recover_transaction (\<lambda>_ _. True)"
    unfolding found_def by (intro runs_cases)
qed

end
