(* ===== verification/PkgCommit.thy ===== *)
theory PkgCommit
  imports PkgRecovery
begin

text \<open>
  The operations that begin a change of the package store (\<open>src/C1ancher/src/pkg/store.c\<close>): writing the journal,
  switching to a version that is in place, rolling back, and the commit of an installation. The properties say that
  whatever faults these and any later recoveries meet, one undisturbed recovery ends in the old or the new state.
\<close>

section \<open>Writing the journal\<close>

definition payload_at :: "change \<Rightarrow> string \<Rightarrow> world \<Rightarrow> bool" where
  "payload_at ch q w \<longleftrightarrow> (\<exists>i. file_at w q = Some i \<and> payload_inode ch (euid w) i)"

text \<open>A file left by an attempt to write the journal before.\<close>

definition temp_ok :: "world \<Rightarrow> bool" where
  "temp_ok w \<longleftrightarrow> (\<forall>i. file_at w TRANSACTION_TEMP = Some i \<longrightarrow> (\<exists>d. i = written (euid w) 384 d))"

definition still :: "change \<Rightarrow> string \<Rightarrow> world \<Rightarrow> bool" where
  "still ch payload w \<longleftrightarrow> standing ch w \<and>
     points w (link_of ch ''current'') (ch_current ch) \<and> points w (link_of ch ''previous'') (ch_previous ch) \<and>
     no_dir w (pointer_temp (ch_id ch)) \<and> payload_at ch payload w \<and>
     (if ch_install ch then file_at w (ch_place ch) = None else payload = ch_place ch)"

definition prepared_change :: "change \<Rightarrow> string \<Rightarrow> world \<Rightarrow> bool" where
  "prepared_change ch payload w \<longleftrightarrow> still ch payload w \<and> no_journal w \<and> temp_ok w"

definition launched :: "change \<Rightarrow> string \<Rightarrow> world \<Rightarrow> bool" where
  "launched ch payload w \<longleftrightarrow> still ch payload w \<and> journal ch w"

lemma prepared_found: "prepared_change ch payload w \<Longrightarrow> found ch w"
  by (auto simp: prepared_change_def still_def found_def settled_def dropped_def at_rest_def)

lemma launched_found: "launched ch payload w \<Longrightarrow> found ch w"
  by (auto simp: launched_def still_def found_def begun_def waiting_def progress_def moved_def in_place_def
      payload_at_def split: if_splits)

definition clear_of_journal :: "string \<Rightarrow> bool" where
  "clear_of_journal q \<longleftrightarrow> \<not> under TRANSACTION_PATH q \<and> \<not> under TRANSACTION_TEMP q"

lemma clear_paths:
  "clear_of_journal C1PKG_STATE_ROOT" "clear_of_journal C1PKG_APPS_ROOT" "clear_of_journal (pkg_app i)"
  "clear_of_journal (pkg_link i n)" "clear_of_journal (pkg_place i v)"
  by (auto simp: clear_of_journal_def under_def pkg_paths prefix_def)

lemma stable_still:
  assumes "clear_of_journal payload"
  shows "stable (\<lambda>q. under TRANSACTION_TEMP q \<or> under TRANSACTION_PATH q) (still ch payload)"
proof -
  let ?S = "\<lambda>q. under TRANSACTION_TEMP q \<or> under TRANSACTION_PATH q"
  have "stable ?S (payload_at ch payload)"
    using assms by (simp add: stable_def touches_def same_process_def payload_at_def clear_of_journal_def)
  moreover have "stable ?S (\<lambda>w. if ch_install ch then file_at w (ch_place ch) = None else payload = ch_place ch)"
    using clear_paths(5) [of "ch_id ch" "ch_version ch"]
    by (simp add: stable_def touches_def ch_place_def clear_of_journal_def)
  ultimately show ?thesis
    unfolding still_def using clear_paths
    by (intro stable_conj stable_standing stable_parts(4,5)) (auto simp: clear_of_journal_def)
qed

lemma journal_temp_apart:
  "\<not> under TRANSACTION_TEMP TRANSACTION_PATH" "\<not> under TRANSACTION_PATH TRANSACTION_TEMP"
  "TRANSACTION_TEMP \<noteq> TRANSACTION_PATH"
  by (simp_all add: pkg_paths under_def)

lemma sys_open_write_result:
  assumes "sys_open_write p m w = (r, w')"
  shows "same_process w w' \<and> (\<forall>q. q \<noteq> p \<longrightarrow> file_at w' q = file_at w q) \<and>
    (case r of Inl e \<Rightarrow> file_at w' p = file_at w p
     | Inr x \<Rightarrow> file_at w' p = Some (case file_at w p of None \<Rightarrow> written (euid w) m [] | Some i \<Rightarrow> i\<lparr> st_data := [] \<rparr>))"
  using assms unfolding sys_open_write_def faulty_def
  by (auto simp: same_process_def split: list.splits outcome.splits option.splits if_splits)

lemma sys_write_result:
  assumes "sys_write p d w = (r, w')" and "file_at w p = Some i"
  shows "same_process w w' \<and> (\<forall>q. q \<noteq> p \<longrightarrow> file_at w' q = file_at w q) \<and>
    (case r of Inl e \<Rightarrow> \<exists>k. file_at w' p = Some (i\<lparr> st_data := st_data i @ k \<rparr>)
     | Inr x \<Rightarrow> file_at w' p = Some (i\<lparr> st_data := st_data i @ d \<rparr>))"
proof -
  have "\<exists>k. file_at w p = Some (i\<lparr> st_data := st_data i @ k \<rparr>)" using assms(2) by (intro exI [of _ "[]"]) simp
  with assms show ?thesis unfolding sys_write_def faulty_def append_data_def
    by (auto simp: same_process_def split: list.splits outcome.splits)
qed

text \<open>The temporary file holds the image when writing it succeeds; nothing else changes.\<close>

lemma write_temp_hoare:
  assumes P: "stable (\<lambda>q. q = TRANSACTION_TEMP) P"
  shows "hoare (\<lambda>w. P w \<and> temp_ok w) (c1pkg_write_file TRANSACTION_TEMP d 384)
    (\<lambda>_ w. P w \<and> file_at w TRANSACTION_TEMP = Some (written (euid w) 384 d)) P"
proof -
  let ?T = "TRANSACTION_TEMP"
  let ?At = "\<lambda>d w. P w \<and> file_at w ?T = Some (written (euid w) 384 d)"
  have keep: "P w'" if "P w" "same_process w w'" "\<forall>q. q \<noteq> ?T \<longrightarrow> file_at w' q = file_at w q" for w w'
    using that P unfolding stable_def touches_def by blast
  have opened: "hoare (\<lambda>w. P w \<and> temp_ok w) (ok (sys_open_write ?T 384)) (\<lambda>_. ?At []) P"
    unfolding hoare_def
  proof (intro allI impI)
    fix w r w' assume w: "P w \<and> temp_ok w" and run: "ok (sys_open_write ?T 384) w = (r, w')"
    obtain s where s: "sys_open_write ?T 384 w = (s, w')" "r = (case s of Inl e \<Rightarrow> None | Inr x \<Rightarrow> Some x)"
      using run by (auto simp: ok_def split: prod.splits sum.splits)
    note res = sys_open_write_result [OF s(1)]
    have "P w'" using keep w res by blast
    moreover have "euid w' = euid w" using res by (simp add: same_process_def)
    ultimately show "case r of None \<Rightarrow> P w' | Some x \<Rightarrow> ?At [] w'"
      using w res s(2) by (cases "file_at w ?T") (auto simp: temp_ok_def written_def split: sum.splits)
  qed
  have wrote: "hoare (?At []) (on_failure (ok (sys_write ?T d)) (ignore sys_touch)) (\<lambda>_. ?At d) P"
    unfolding hoare_def
  proof (intro allI impI)
    fix w r w' assume w: "?At [] w" and run: "on_failure (ok (sys_write ?T d)) (ignore sys_touch) w = (r, w')"
    obtain s v where s: "sys_write ?T d w = (s, v)" by (cases "sys_write ?T d w")
    note res = sys_write_result [OF s conjunct2 [OF w]]
    have v: "P v" using keep w res by blast
    show "case r of None \<Rightarrow> P w' | Some x \<Rightarrow> ?At d w'"
    proof (cases s)
      case (Inl e)
      with run s have "r = None" "w' = snd (sys_touch v)" by (auto simp: on_failure_def ok_def ignore_def)
      moreover have "touches (\<lambda>q. q = ?T) v (snd (sys_touch v))" using framed_reads(4) by (simp add: framed_def)
      ultimately show ?thesis using v P unfolding stable_def by auto
    next
      case (Inr x)
      with run s have "r = Some x" "w' = v" by (auto simp: on_failure_def ok_def)
      with res Inr v w show ?thesis by (auto simp: written_def same_process_def)
    qed
  qed
  have At: "stable (\<lambda>q. False) (?At d)"
    by (intro stable_conj stable_subset [OF P]) (auto simp: stable_def touches_def same_process_def)
  have "framed (\<lambda>q. False) (closing (ok sys_touch))" by (intro frames)
  from hoare_keep [OF this At] have closed: "hoare (?At d) (closing (ok sys_touch)) (\<lambda>_. ?At d) P"
    by (rule hoare_weaken) auto
  show ?thesis
    unfolding c1pkg_write_file_def by (rule hoare_then [OF opened hoare_then [OF wrote closed]])
qed

definition recorded :: "store_transaction \<Rightarrow> world \<Rightarrow> bool" where
  "recorded tx w \<longleftrightarrow> file_at w TRANSACTION_PATH = Some (written (euid w) 384 (wal_image tx))"

lemma hoare_user: "(\<And>u. hoare (\<lambda>w. P w \<and> euid w = u) m Q E) \<Longrightarrow> hoare P m Q E"
  unfolding hoare_def by blast

lemma persist_hoare:
  assumes P: "stable (\<lambda>q. under TRANSACTION_TEMP q \<or> under TRANSACTION_PATH q) P"
  shows "hoare (\<lambda>w. P w \<and> no_journal w \<and> temp_ok w) (persist_transaction tx) (\<lambda>_ w. P w \<and> recorded tx w)
    (\<lambda>w. P w \<and> (no_journal w \<or> recorded tx w))"
proof -
  let ?T = "TRANSACTION_TEMP" and ?J = "TRANSACTION_PATH"
  let ?E = "\<lambda>w. P w \<and> (no_journal w \<or> recorded tx w)"
  let ?idle = "\<lambda>w. P w \<and> no_journal w"
  have temp: "stable (\<lambda>q. q = ?T) ?idle"
    using journal_temp_apart(3) by (intro stable_conj stable_subset [OF P] stable_parts(2)) auto
  have first: "hoare (\<lambda>w. ?idle w \<and> temp_ok w) (ignore (sys_unlink ?T)) (\<lambda>_ w. ?idle w \<and> temp_ok w) ?E"
    unfolding hoare_def
  proof (intro allI impI)
    fix w r w' assume w: "?idle w \<and> temp_ok w" and run: "ignore (sys_unlink ?T) w = (r, w')"
    obtain s where s: "sys_unlink ?T w = (s, w')" "r = Some ()"
      using run by (cases "sys_unlink ?T w") (auto simp: ignore_def)
    have frame: "touches (\<lambda>q. q = ?T) w w'" using framedD [OF framed_sys(6) s(1)] by simp
    have "?idle w'" using stableD [OF temp frame] w by blast
    moreover have "temp_ok w'"
      using sys_unlink_result [OF s(1)] w by (auto simp: temp_ok_def same_files_def same_process_def)
    ultimately show "case r of None \<Rightarrow> ?E w' | Some x \<Rightarrow> ?idle w' \<and> temp_ok w'" using s(2) by simp
  qed
  have second: "hoare (\<lambda>w. ?idle w \<and> temp_ok w) (c1pkg_write_file ?T (wal_image tx) 384)
      (\<lambda>_ w. ?idle w \<and> file_at w ?T = Some (written (euid w) 384 (wal_image tx))) ?E"
    by (rule hoare_weaken [OF write_temp_hoare [OF temp]]) auto
  have third: "hoare (\<lambda>w. ?idle w \<and> file_at w ?T = Some (written (euid w) 384 (wal_image tx)))
      (ok (sys_rename ?T ?J)) (\<lambda>_ w. P w \<and> recorded tx w) ?E"
  proof (rule hoare_user)
    fix u
    have "stable (\<lambda>q. under ?T q \<or> under ?J q) (\<lambda>w. P w \<and> euid w = u)"
      by (intro stable_conj P) (auto simp: stable_def touches_def same_process_def)
    from hoare_rename [OF this, of "\<lambda>i. i = written u 384 (wal_image tx)" "\<lambda>f. f = None"]
    show "hoare (\<lambda>w. (?idle w \<and> file_at w ?T = Some (written (euid w) 384 (wal_image tx))) \<and> euid w = u)
       (ok (sys_rename ?T ?J)) (\<lambda>_ w. P w \<and> recorded tx w) ?E"
      by (rule hoare_weaken) (use journal_temp_apart in \<open>auto simp: no_journal_def recorded_def\<close>)
  qed
  have quiet: "stable (\<lambda>q. False) (\<lambda>w. P w \<and> recorded tx w)"
    by (intro stable_conj stable_subset [OF P]) (auto simp: stable_def touches_def same_process_def recorded_def)
  have fourth: "hoare (\<lambda>w. P w \<and> recorded tx w) (c1pkg_sync_directory C1PKG_STATE_ROOT)
      (\<lambda>_ w. P w \<and> recorded tx w) ?E"
    by (rule hoare_weaken [OF hoare_keep [OF framed_pkg_sync quiet]]) auto
  show ?thesis
    unfolding persist_transaction_def
    by (rule hoare_pre [OF hoare_then [OF first hoare_then [OF second hoare_then [OF third fourth]]]]) auto
qed

lemma hoare_reads_pointer:
  assumes P: "stable (\<lambda>q. False) P" and "c1pkg_safe_id ident" "pointer_name name" "x = [] \<or> c1pkg_safe_version x"
    and at: "\<And>w. P w \<Longrightarrow> points w (pkg_link ident name) x"
  shows "hoare P (pointer_version e (pkg_app ident) name) (\<lambda>y w. P w \<and> y = x) P"
proof (rule hoare_stable [OF framed_pointer_version P])
  fix w y w' assume w: "P w" and run: "pointer_version e (pkg_app ident) name w = (Some y, w')"
  have joined: "c1pkg_join (pkg_app ident) name = Some (pkg_link ident name)"
    using assms(3) joins(2) [OF assms(2)] by (auto simp: pointer_name_def)
  obtain r v where r: "sys_readlink (pkg_link ident name) w = (r, v)"
    by (cases "sys_readlink (pkg_link ident name) w")
  note pts = at [OF w]
  show "y = x"
  proof (cases r)
    case (Inl err)
    with run joined r have "err = ENOENT" "y = []"
      by (auto simp: pointer_version_def read_link_value_def errno_of_def bind_act_def ret_def stop_def split: if_splits)
    with r Inl have "file_at w (pkg_link ident name) = None"
      unfolding sys_readlink_def faulty_def by (auto split: list.splits outcome.splits option.splits if_splits)
    with pts \<open>y = []\<close> show ?thesis by (auto simp: points_def split: if_splits)
  next
    case (Inr t)
    with sys_readlink_success r pts have t: "x \<noteq> []" "t = ''versions/'' @ x"
      by (fastforce simp: points_def split: if_splits)+
    with assms(4) have x: "c1pkg_safe_version x" by blast
    with safe_version_facts [OF x] t have "length t < C1PKG_PATH_MAX - 1" by (simp add: C1PKG_PATH_MAX_def)
    moreover have "version_target t = Some x" using t x by (simp add: version_target_def)
    ultimately show ?thesis using run joined r Inr
      by (auto simp: pointer_version_def read_link_value_def errno_of_def bind_act_def lift_def)
  qed
qed

lemma trusted_directory_success:
  "trusted_directory p w = (Some i, w') \<Longrightarrow> file_at w p = Some i"
  by (auto simp: trusted_directory_def act_Some dest!: sys_lstat_success)

lemma base_id_app: "CHR ''/'' \<notin> set ident \<Longrightarrow> base_id (pkg_app ident) = Some ident"
proof -
  assume "CHR ''/'' \<notin> set ident"
  then have "takeWhile (\<lambda>c. c \<noteq> CHR ''/'') (rev ident @ CHR ''/'' # r) = rev ident" for r
    by (subst takeWhile_append2) auto
  then show ?thesis by (simp add: base_id_def pkg_app_def)
qed

theorem begin_hoare:
  assumes ok: "change_ok ch" and payload: "clear_of_journal payload"
  shows "hoare (prepared_change ch payload)
    (begin_transaction (pkg_app (ch_id ch)) (ch_version ch) payload (ch_install ch))
    (\<lambda>_. launched ch payload) (found ch)"
proof -
  let ?P = "prepared_change ch payload"
  have parts: "c1pkg_safe_id (ch_id ch)" "ch_current ch = [] \<or> c1pkg_safe_version (ch_current ch)"
    "ch_previous ch = [] \<or> c1pkg_safe_version (ch_previous ch)"
    using ok by (simp_all add: change_ok_def)
  have names: "pointer_name ''current''" "pointer_name ''previous''" by (simp_all add: pointer_name_def)
  have stable: "stable (\<lambda>q. False) ?P"
    unfolding prepared_change_def
    by (intro stable_conj stable_subset [OF stable_still [OF payload]] stable_parts(2))
      (auto simp: stable_def touches_def same_process_def temp_ok_def)
  have read: "hoare ?P m (\<lambda>_. ?P) (found ch)" if "framed (\<lambda>q. False) m" for m :: "'b act"
    by (rule hoare_weaken [OF hoare_read [OF that stable]]) (auto intro: prepared_found)
  have current: "hoare ?P (pointer_version ENOENT (pkg_app (ch_id ch)) ''current'')
      (\<lambda>y w. ?P w \<and> y = ch_current ch) (found ch)"
    by (rule hoare_weaken [OF hoare_reads_pointer [OF stable parts(1) names(1) parts(2)]])
      (auto simp: prepared_change_def still_def intro: prepared_found)
  have previous: "hoare ?P (pointer_version ENOENT (pkg_app (ch_id ch)) ''previous'')
      (\<lambda>y w. ?P w \<and> y = ch_previous ch) (found ch)"
    by (rule hoare_weaken [OF hoare_reads_pointer [OF stable parts(1) names(2) parts(3)]])
      (auto simp: prepared_change_def still_def intro: prepared_found)
  have info: "hoare ?P (trusted_directory payload) (\<lambda>i w. ?P w \<and> st_ino i mod 2 ^ 64 = ch_ino ch mod 2 ^ 64) (found ch)"
  proof (rule hoare_weaken [OF hoare_stable [OF framed_trusted_directory stable]])
    show "st_ino i mod 2 ^ 64 = ch_ino ch mod 2 ^ 64" if "?P w" "trusted_directory payload w = (Some i, w')" for w i w'
      using that trusted_directory_success [OF that(2)]
      by (auto simp: prepared_change_def still_def payload_at_def payload_inode_def)
  qed (auto intro: prepared_found)
  have persist: "hoare ?P (persist_transaction (change_record ch)) (\<lambda>_. launched ch payload) (found ch)"
  proof (rule hoare_weaken [OF persist_hoare [OF stable_still [OF payload, of ch], of "change_record ch"]])
    show "launched ch payload w" if "still ch payload w \<and> recorded (change_record ch) w" for w
      using that by (simp add: launched_def recorded_def journal_def)
    show "found ch w" if "still ch payload w \<and> (no_journal w \<or> recorded (change_record ch) w)" for w
    proof -
      have "launched ch payload w \<or> (still ch payload w \<and> no_journal w)"
        using that by (auto simp: launched_def recorded_def journal_def)
      then show ?thesis
        using launched_found by (auto simp: still_def found_def settled_def dropped_def at_rest_def)
    qed
  qed (auto simp: prepared_change_def)
  have recording: "new_transaction (ch_id ch) (ch_version ch) (ch_current ch) (ch_previous ch) n (ch_install ch) = change_record ch"
    if "n mod 2 ^ 64 = ch_ino ch mod 2 ^ 64" for n
    using that by (simp add: new_transaction_def change_record_def)
  let ?tail = "\<lambda>i c p. persist_transaction (new_transaction (ch_id ch) (ch_version ch) c p (st_ino i) (ch_install ch))"
  have tail: "hoare (\<lambda>w. (?P w \<and> st_ino i mod 2 ^ 64 = ch_ino ch mod 2 ^ 64) \<and> c = ch_current ch \<and> p = ch_previous ch)
      (?tail i c p) (\<lambda>_. launched ch payload) (found ch)" for i c p
    using persist recording [of "st_ino i"] by (auto simp: hoare_def)
  have pointers: "hoare (\<lambda>w. ?P w \<and> st_ino i mod 2 ^ 64 = ch_ino ch mod 2 ^ 64)
      (bind_act (pointer_version ENOENT (pkg_app (ch_id ch)) ''current'') (\<lambda>c.
       bind_act (pointer_version ENOENT (pkg_app (ch_id ch)) ''previous'') (\<lambda>p. ?tail i c p)))
      (\<lambda>_. launched ch payload) (found ch)" for i
  proof (rule hoare_pure, rule hoare_bind [OF current], rule hoare_pure, rule hoare_bind [OF previous])
    show "hoare (\<lambda>w. ?P w \<and> p = ch_previous ch) (?tail i c p) (\<lambda>_. launched ch payload) (found ch)"
      if "st_ino i mod 2 ^ 64 = ch_ino ch mod 2 ^ 64" "c = ch_current ch" for c p
      by (rule hoare_pre [OF tail]) (use that in auto)
  qed
  have lookup: "framed (\<lambda>q. False) (errno_of (sys_lstat TRANSACTION_PATH))" by (intro frames)
  have slashfree: "CHR ''/'' \<notin> set (ch_id ch)" using safe_id_facts [OF parts(1)] by blast
  show ?thesis
    unfolding begin_transaction_def base_id_app [OF slashfree] bind_lift
    by (rule hoare_bind [OF read [OF lookup]], rule hoare_then [OF read [OF framed_require]],
        rule hoare_then [OF read [OF framed_require]], rule hoare_then [OF read [OF framed_trusted_directory]],
        rule hoare_bind [OF info pointers])
qed

section \<open>Switching to a version that is in place\<close>

lemma launched_progress: "launched ch (ch_place ch) w \<Longrightarrow> \<not> ch_install ch \<Longrightarrow> progress ch w"
  by (auto simp: launched_def still_def progress_def moved_def in_place_def payload_at_def)

lemma unfinished_found: "unfinished ch w \<Longrightarrow> found ch w"
  by (auto simp: unfinished_def found_def begun_def settled_def)

lemma clear_place: "clear_of_journal (ch_place ch)"
  unfolding ch_place_def by (rule clear_paths)

lemma pkg_switch_hoare:
  assumes ok: "change_ok ch" and kept: "\<not> ch_install ch"
  shows "hoare (prepared_change ch (ch_place ch)) (pkg_switch_current (pkg_app (ch_id ch)) (ch_version ch))
    (\<lambda>_. completed ch) (found ch)"
proof -
  have ident: "c1pkg_safe_id (ch_id ch)" and version: "c1pkg_safe_version (ch_version ch)"
    using ok by (simp_all add: change_ok_def)
  have joined: "c1pkg_join (pkg_app (ch_id ch)) ''versions'' = Some (pkg_versions (ch_id ch))"
    by (rule joins(2) [OF ident]) simp
  have started: "hoare (prepared_change ch (ch_place ch))
      (begin_transaction (pkg_app (ch_id ch)) (ch_version ch) (ch_place ch) False) (\<lambda>_. unfinished ch) (found ch)"
    using kept by (intro hoare_weaken [OF begin_hoare [OF ok clear_place, of ch, simplified kept simp_thms]])
      (auto simp: launched_progress unfinished_def)
  have finished: "hoare (unfinished ch) recover_transaction (\<lambda>_. completed ch) (found ch)"
    by (rule hoare_weaken [OF recover_redo [OF ok]]) (auto intro: unfinished_found)
  show ?thesis
    unfolding pkg_switch_current_def joined bind_lift joins(3) [OF ident version]
    unfolding ch_place_def [symmetric]
    by (rule hoare_then [OF started finished])
qed

lemma rollback_hoare:
  assumes ok: "change_ok ch" and kept: "\<not> ch_install ch" and older: "ch_version ch = ch_previous ch"
  shows "hoare (prepared_change ch (ch_place ch)) (rollback_version (ch_id ch)) (\<lambda>_. completed ch) (found ch)"
proof -
  let ?P = "prepared_change ch (ch_place ch)" and ?L = "link_of ch ''previous''"
  have ident: "c1pkg_safe_id (ch_id ch)" and version: "c1pkg_safe_version (ch_previous ch)"
    using ok older by (simp_all add: change_ok_def)
  have joined: "c1pkg_join (pkg_app (ch_id ch)) ''previous'' = Some ?L"
    by (rule joins(2) [OF ident]) simp
  have stable: "stable (\<lambda>q. False) ?P"
    unfolding prepared_change_def
    by (intro stable_conj stable_subset [OF stable_still [OF clear_place]] stable_parts(2))
      (auto simp: stable_def touches_def same_process_def temp_ok_def)
  have read: "hoare ?P (ok (read_link_value EOTHER ?L)) (\<lambda>t w. ?P w \<and> t = ''versions/'' @ ch_previous ch) (found ch)"
  proof (rule hoare_weaken [OF hoare_stable [OF framed_ok [OF framed_read_link] stable]])
    fix w t w' assume w: "?P w" and run: "ok (read_link_value EOTHER ?L) w = (Some t, w')"
    then have "sys_readlink ?L w = (Inr t, w')"
      by (auto simp: ok_Some read_link_value_def split: prod.splits sum.splits if_splits)
    with sys_readlink_success w safe_version_facts [OF version]
    show "t = ''versions/'' @ ch_previous ch"
      by (fastforce simp: prepared_change_def still_def points_def)
  qed (auto intro: prepared_found)
  have target: "version_target (''versions/'' @ ch_previous ch) = Some (ch_version ch)"
    using version older by (simp add: version_target_def)
  have switch: "hoare (\<lambda>w. ?P w \<and> t = ''versions/'' @ ch_previous ch)
      (bind_act (lift (version_target t)) (pkg_switch_current (pkg_app (ch_id ch)))) (\<lambda>_. completed ch) (found ch)" for t
    using pkg_switch_hoare [OF ok kept] target by (auto simp: hoare_def)
  show ?thesis
    unfolding rollback_version_def joins(1) [OF ident] bind_lift joined
    by (rule hoare_bind [OF read switch])
qed

section \<open>Recovering as often as it takes\<close>

text \<open>Recoveries that each meet faults, one after another.\<close>

fun recoveries :: "outcome list list \<Rightarrow> world \<Rightarrow> world" where
  "recoveries [] w = w"
| "recoveries (f # fs) w = recoveries fs (snd (recover_transaction (w\<lparr> faults := f \<rparr>)))"

lemma hoare_next:
  assumes "hoare F m (\<lambda>_. Q) F" and "\<And>w. Q w \<Longrightarrow> F w" and "F w"
  shows "F (snd (m w))"
  using hoareD [OF assms(1,3), of "fst (m w)" "snd (m w)"] assms(2) by (auto split: option.splits)

lemma faults_found [simp]: "found ch (w\<lparr> faults := f \<rparr>) = found ch w"
  "completed ch (w\<lparr> faults := f \<rparr>) = completed ch w" "no_journal (w\<lparr> faults := f \<rparr>) = no_journal w"
proof -
  have same: "same_files w (w\<lparr> faults := f \<rparr>)" "same_files (w\<lparr> faults := f \<rparr>) w"
    by (simp_all add: same_files_def same_process_def)
  show "found ch (w\<lparr> faults := f \<rparr>) = found ch w"
    using same stable_same_files [OF stable_found] by blast
  show "completed ch (w\<lparr> faults := f \<rparr>) = completed ch w"
    using same stable_same_files [OF stable_states(5)] by blast
  show "no_journal (w\<lparr> faults := f \<rparr>) = no_journal w" by (simp add: no_journal_def)
qed

lemma settled_found: "settled ch w \<Longrightarrow> found ch w"
  by (simp add: found_def)

lemma recoveries_found: "change_ok ch \<Longrightarrow> found ch w \<Longrightarrow> found ch (recoveries fs w)"
proof (induction fs arbitrary: w)
  case (Cons f fs)
  have "found ch (snd (recover_transaction (w\<lparr> faults := f \<rparr>)))"
    by (rule hoare_next [OF recover_hoare [OF Cons.prems(1)]]) (use Cons.prems(2) in \<open>simp_all add: settled_found\<close>)
  with Cons show ?case by simp
qed simp

lemma recoveries_idle: "no_journal w \<Longrightarrow> same_files w (recoveries fs w)"
proof (induction fs arbitrary: w)
  case (Cons f fs)
  obtain r v where v: "recover_transaction (w\<lparr> faults := f \<rparr>) = (r, v)" by (cases "recover_transaction (w\<lparr> faults := f \<rparr>)")
  have "same_files (w\<lparr> faults := f \<rparr>) v" by (rule recover_idle [OF _ v]) (use Cons.prems in simp)
  then have same: "same_files w v" by (simp add: same_files_def same_process_def)
  with Cons.prems have "no_journal v" by (simp add: no_journal_def same_files_at)
  from same_files_trans [OF same Cons.IH [OF this]] v show ?case by simp
qed simp

lemma calm_found [simp]: "found ch (calm w) = found ch w" "completed ch (calm w) = completed ch w"
  "no_journal (calm w) = no_journal w"
  by (simp_all add: calm_def)

lemma completed_no_journal: "completed ch w \<Longrightarrow> no_journal w"
  by (simp add: completed_def at_rest_def)

text \<open>After any recoveries with faults, an undisturbed one brings the store to rest.\<close>

lemma recovery_settles:
  assumes ok: "change_ok ch" and w: "found ch w"
  shows "\<exists>w'. recover_transaction (calm (recoveries fs w)) = (Some (), w') \<and> settled ch w' \<and>
    (completed ch w \<longrightarrow> completed ch w')"
proof -
  have "found ch (calm (recoveries fs w))" using recoveries_found [OF ok w] by simp
  then obtain w' where w': "recover_transaction (calm (recoveries fs w)) = (Some (), w')" "settled ch w'"
    using runs_recover [OF ok] unfolding runs_def by (metis calm_simps(1) old.unit.exhaust)
  have "completed ch w'" if c: "completed ch w"
  proof -
    have "same_files w (recoveries fs w)" by (rule recoveries_idle [OF completed_no_journal [OF c]])
    from stable_same_files [OF stable_states(5) this c] have c: "completed ch (calm (recoveries fs w))" by simp
    from recover_idle [OF completed_no_journal [OF this] w'(1)]
    show ?thesis using stable_same_files [OF stable_states(5) _ c] by blast
  qed
  with w' show ?thesis by blast
qed

section \<open>Making the directories of an application\<close>

definition pkg_payload :: "nat \<Rightarrow> string" where
  "pkg_payload process = ''/storage/c1/pkg/staging/install.'' @ dec process @ ''/extract/payload''"

definition room :: "world \<Rightarrow> string \<Rightarrow> bool" where
  "room w p \<longleftrightarrow> file_at w p = None \<or> trusted_at w p"

text \<open>The store before the commit of an installation: nothing is logged, the payload is staged, the version is
  not there, and the directories of the application are trusted where they exist.\<close>

definition staged :: "change \<Rightarrow> string \<Rightarrow> world \<Rightarrow> bool" where
  "staged ch payload w \<longleftrightarrow> is_dir w C1PKG_STATE_ROOT \<and> is_dir w C1PKG_APPS_ROOT \<and>
     is_dir w ''/storage'' \<and> is_dir w ''/storage/c1'' \<and>
     room w (pkg_app (ch_id ch)) \<and> room w (pkg_versions (ch_id ch)) \<and>
     points w (link_of ch ''current'') (ch_current ch) \<and> points w (link_of ch ''previous'') (ch_previous ch) \<and>
     no_dir w (pointer_temp (ch_id ch)) \<and> payload_at ch payload w \<and> file_at w (ch_place ch) = None \<and>
     no_journal w \<and> temp_ok w"

definition resting :: "change \<Rightarrow> world \<Rightarrow> bool" where
  "resting ch w \<longleftrightarrow> no_journal w \<and> points w (link_of ch ''current'') (ch_current ch) \<and>
     points w (link_of ch ''previous'') (ch_previous ch)"

lemma staged_prepared:
  "staged ch payload w \<Longrightarrow> trusted_at w (pkg_app (ch_id ch)) \<Longrightarrow> trusted_at w (pkg_versions (ch_id ch)) \<Longrightarrow>
   ch_install ch \<Longrightarrow> prepared_change ch payload w"
  by (simp add: staged_def prepared_change_def still_def standing_def)

lemma make_or_keep_result:
  assumes "make_or_keep p m w = (r, w')"
  shows "same_process w w' \<and> (\<forall>q. q \<noteq> p \<or> file_at w p \<noteq> None \<longrightarrow> file_at w' q = file_at w q) \<and>
    (file_at w p = None \<longrightarrow> file_at w' p = None \<or>
      (\<exists>i. file_at w' p = Some i \<and> st_kind i = S_IFDIR \<and> st_mode i = m \<and> st_uid i = euid w)) \<and>
    (r = Some () \<longrightarrow> file_at w' p \<noteq> None)"
proof -
  obtain s where s: "sys_mkdir p m w = (s, w')" "r = (if s = Inr () \<or> s = Inl EEXIST then Some () else None)"
    using assms by (auto simp: make_or_keep_def bind_act_def errno_of_def require_def split: prod.splits if_splits)
  show ?thesis
  proof (cases s)
    case (Inl e)
    with sys_mkdir_failure [of p m w e w'] s show ?thesis by (auto simp: same_files_def split: if_splits)
  next
    case (Inr x)
    with sys_mkdir_success [of p m w w'] s show ?thesis by auto
  qed
qed

definition harmless :: "change \<Rightarrow> string \<Rightarrow> string \<Rightarrow> bool" where
  "harmless ch payload p \<longleftrightarrow> p \<noteq> TRANSACTION_PATH \<and> p \<noteq> TRANSACTION_TEMP \<and> p \<noteq> ch_place ch \<and> p \<noteq> payload \<and>
     p \<noteq> link_of ch ''current'' \<and> p \<noteq> link_of ch ''previous'' \<and> p \<noteq> pointer_temp (ch_id ch)"

lemma room_made:
  assumes "room w q" and "make_or_keep p 493 w = (r, w')"
  shows "room w' q"
  using assms(1) make_or_keep_result [OF assms(2)]
  by (cases "q = p \<and> file_at w p = None") (auto simp: room_def trusted_at_def same_process_def)

lemma staged_made:
  assumes "staged ch payload w" and "harmless ch payload p" and "make_or_keep p 493 w = (r, w')"
  shows "staged ch payload w'"
proof -
  note res = make_or_keep_result [OF assms(3)]
  have other: "file_at w' q = file_at w q" if "q \<noteq> p \<or> file_at w q \<noteq> None" for q
    using res that by (cases "q = p") auto
  have user: "euid w' = euid w" using res by (simp add: same_process_def)
  have dirs: "is_dir w q \<Longrightarrow> is_dir w' q" for q
    using other [of q] by (cases "q = p") (auto simp: is_dir_iff)
  have same: "file_at w' q = file_at w q"
    if "q \<in> {TRANSACTION_PATH, TRANSACTION_TEMP, ch_place ch, payload, link_of ch ''current'', link_of ch ''previous'',
      pointer_temp (ch_id ch)}" for q
    using other that assms(2) by (auto simp: harmless_def)
  have "no_journal w' = no_journal w" "temp_ok w' = temp_ok w" "payload_at ch payload w' = payload_at ch payload w"
    "points w' (link_of ch ''current'') (ch_current ch) = points w (link_of ch ''current'') (ch_current ch)"
    "points w' (link_of ch ''previous'') (ch_previous ch) = points w (link_of ch ''previous'') (ch_previous ch)"
    "no_dir w' (pointer_temp (ch_id ch)) = no_dir w (pointer_temp (ch_id ch))"
    "file_at w' (ch_place ch) = file_at w (ch_place ch)"
    by (simp_all add: no_journal_def temp_ok_def payload_at_def points_def no_dir_def same user)
  then show ?thesis using assms(1) dirs room_made [OF _ assms(3)] by (simp add: staged_def)
qed

lemma make_all_hoare:
  "list_all (harmless ch payload) ps \<Longrightarrow>
   hoare (staged ch payload) (make_all ps 493)
     (\<lambda>_ w. staged ch payload w \<and> list_all (\<lambda>p. file_at w p \<noteq> None) ps) (staged ch payload)"
proof (induction ps)
  case Nil
  then show ?case by (auto simp: hoare_def ret_def)
next
  case (Cons p ps)
  have one: "hoare (staged ch payload) (make_or_keep p 493)
      (\<lambda>_ w. staged ch payload w \<and> file_at w p \<noteq> None) (staged ch payload)"
    unfolding hoare_def
  proof (intro allI impI)
    fix w r w' assume w: "staged ch payload w" and run: "make_or_keep p 493 w = (r, w')"
    have "harmless ch payload p" using Cons.prems by simp
    from staged_made [OF w this run] make_or_keep_result [OF run]
    show "case r of None \<Rightarrow> staged ch payload w' | Some x \<Rightarrow> staged ch payload w' \<and> file_at w' p \<noteq> None"
      by (cases r) auto
  qed
  have grow: "hoare (\<lambda>w. file_at w p \<noteq> None) (make_all qs 493) (\<lambda>_ w. file_at w p \<noteq> None) (\<lambda>_. True)" for qs
  proof (induction qs)
    case (Cons q qs)
    have "hoare (\<lambda>w. file_at w p \<noteq> None) (make_or_keep q 493) (\<lambda>_ w. file_at w p \<noteq> None) (\<lambda>_. True)"
      unfolding hoare_def
    proof (intro allI impI)
      fix w r w' assume w: "file_at w p \<noteq> None" and run: "make_or_keep q 493 w = (r, w')"
      from make_or_keep_result [OF run] w
      show "case r of None \<Rightarrow> True | Some x \<Rightarrow> file_at w' p \<noteq> None" by (cases r; cases "p = q") auto
    qed
    from hoare_then [OF this Cons] show ?case by simp
  qed (auto simp: hoare_def ret_def)
  have rest: "hoare (\<lambda>w. staged ch payload w \<and> file_at w p \<noteq> None) (make_all ps 493)
      (\<lambda>_ w. staged ch payload w \<and> list_all (\<lambda>p. file_at w p \<noteq> None) (p # ps)) (staged ch payload)"
    by (rule hoare_weaken [OF hoare_conj [OF Cons.IH grow]]) (use Cons.prems in auto)
  show ?case unfolding make_all.simps by (rule hoare_then [OF one rest])
qed

lemma mkdir_prefixes_slash:
  assumes "CHR ''/'' \<notin> set n" and "p \<noteq> []"
  shows "mkdir_prefixes (p @ ''/'' @ n) = mkdir_prefixes p @ [p]"
proof -
  let ?s = "p @ CHR ''/'' # n" and ?l = "length p"
  have split: "[1..<length ?s] = [1..<?l] @ ?l # [Suc ?l..<length ?s]"
    using assms(2) upt_add_eq_append [of 1 ?l "Suc (length n)"] upt_conv_Cons [of ?l "length ?s"]
    by (simp add: Suc_le_eq)
  have "filter (\<lambda>i. ?s ! i = CHR ''/'') [Suc ?l..<length ?s] = []"
  proof (rule filter_False, rule ballI)
    fix i assume i: "i \<in> set [Suc ?l..<length ?s]"
    then have "?s ! i = n ! (i - Suc ?l)" "i - Suc ?l < length n" by (auto simp: nth_append nth_Cons')
    then show "?s ! i \<noteq> CHR ''/''" using assms(1) nth_mem by metis
  qed
  moreover have "filter (\<lambda>i. ?s ! i = CHR ''/'') [1..<?l] = filter (\<lambda>i. p ! i = CHR ''/'') [1..<?l]"
    by (rule filter_cong) (auto simp: nth_append)
  moreover have "map (\<lambda>i. take i ?s) (filter (\<lambda>i. p ! i = CHR ''/'') [1..<?l]) =
      map (\<lambda>i. take i p) (filter (\<lambda>i. p ! i = CHR ''/'') [1..<?l])"
    by (rule map_cong) auto
  ultimately show ?thesis unfolding mkdir_prefixes_def append_Cons append_Nil split by simp
qed

lemma versions_prefixes:
  assumes "CHR ''/'' \<notin> set ident"
  shows "mkdir_prefixes (pkg_versions ident) = [''/storage'', ''/storage/c1'', C1PKG_APPS_ROOT, pkg_app ident]"
proof -
  have "mkdir_prefixes (pkg_versions ident) = mkdir_prefixes (pkg_app ident) @ [pkg_app ident]"
    unfolding pkg_link_def by (rule mkdir_prefixes_slash) (simp_all add: pkg_app_def)
  also have "mkdir_prefixes (pkg_app ident) = mkdir_prefixes C1PKG_APPS_ROOT @ [C1PKG_APPS_ROOT]"
    unfolding pkg_app_def by (rule mkdir_prefixes_slash [OF assms]) (simp add: C1PKG_APPS_ROOT_def)
  also have "mkdir_prefixes C1PKG_APPS_ROOT = [''/storage'', ''/storage/c1'']"
    by (simp add: mkdir_prefixes_def C1PKG_APPS_ROOT_def upt_rec)
  finally show ?thesis by simp
qed

lemma payload_paths: "clear_of_journal (pkg_payload n)" "CHR ''/'' \<notin> set ident \<Longrightarrow> pkg_payload n \<noteq> pkg_app ident"
  "pkg_payload n \<noteq> C1PKG_APPS_ROOT" "pkg_payload n \<noteq> ''/storage''" "pkg_payload n \<noteq> ''/storage/c1''"
  "pkg_payload n \<noteq> pkg_link ident name" "pkg_payload n \<noteq> pkg_place ident v"
  by (auto simp: clear_of_journal_def under_def pkg_payload_def pkg_paths prefix_def)

lemma versions_harmless:
  assumes ok: "change_ok ch"
  shows "list_all (harmless ch (pkg_payload n))
    [''/storage'', ''/storage/c1'', C1PKG_APPS_ROOT, pkg_app (ch_id ch), pkg_versions (ch_id ch)]"
proof -
  have "CHR ''/'' \<notin> set (ch_id ch)" "ch_id ch \<noteq> []" "ch_version ch \<noteq> []"
    using ok safe_id_facts safe_version_facts by (auto simp: change_ok_def)
  then show ?thesis
    using payload_paths(2-6) [THEN not_sym]
    by (auto simp: harmless_def ch_place_def pkg_paths)
qed

lemma chmod_keeps_trusted:
  assumes w: "staged ch payload w" "trusted_at w (pkg_app (ch_id ch))" "trusted_at w (pkg_versions (ch_id ch))"
    and h: "harmless ch payload (pkg_versions (ch_id ch))"
    and run: "ok (sys_chmod (pkg_versions (ch_id ch)) 493) w = (r, w')"
  shows "staged ch payload w' \<and> trusted_at w' (pkg_app (ch_id ch)) \<and> trusted_at w' (pkg_versions (ch_id ch))"
proof -
  let ?V = "pkg_versions (ch_id ch)"
  have "framed (\<lambda>q. q = ?V) (ok (sys_chmod ?V 493))" by (intro frames) simp
  note frame = framedD [OF this run]
  have user: "euid w' = euid w" using frame by (simp add: touches_def same_process_def)
  have same: "file_at w' q = file_at w q" if "q \<noteq> ?V" for q using frame that by (simp add: touches_def)
  obtain i where i: "file_at w ?V = Some i" "st_kind i = S_IFDIR" "st_uid i = euid w" "st_mode i AND 18 = 0"
    using w(3) by (auto simp: trusted_at_def)
  from chmod_result [OF run i(1)] i user have V: "trusted_at w' ?V" by (auto simp: trusted_at_def)
  have apart: "pkg_app (ch_id ch) \<noteq> ?V" "C1PKG_STATE_ROOT \<noteq> ?V" "C1PKG_APPS_ROOT \<noteq> ?V"
    "''/storage'' \<noteq> ?V" "''/storage/c1'' \<noteq> ?V" by (simp_all add: pkg_paths)
  then have A: "trusted_at w' (pkg_app (ch_id ch))" using w(2) by (simp add: trusted_at_def same user)
  have same': "file_at w' q = file_at w q"
    if "q \<in> {TRANSACTION_PATH, TRANSACTION_TEMP, ch_place ch, payload, link_of ch ''current'', link_of ch ''previous'',
      pointer_temp (ch_id ch), C1PKG_STATE_ROOT, C1PKG_APPS_ROOT, ''/storage'', ''/storage/c1''}" for q
    using same that h apart by (auto simp: harmless_def)
  have "no_journal w' = no_journal w" "temp_ok w' = temp_ok w" "payload_at ch payload w' = payload_at ch payload w"
    "points w' (link_of ch ''current'') (ch_current ch) = points w (link_of ch ''current'') (ch_current ch)"
    "points w' (link_of ch ''previous'') (ch_previous ch) = points w (link_of ch ''previous'') (ch_previous ch)"
    "no_dir w' (pointer_temp (ch_id ch)) = no_dir w (pointer_temp (ch_id ch))"
    "file_at w' (ch_place ch) = file_at w (ch_place ch)"
    "is_dir w' C1PKG_STATE_ROOT = is_dir w C1PKG_STATE_ROOT" "is_dir w' C1PKG_APPS_ROOT = is_dir w C1PKG_APPS_ROOT"
    "is_dir w' ''/storage'' = is_dir w ''/storage''" "is_dir w' ''/storage/c1'' = is_dir w ''/storage/c1''"
    by (simp_all add: no_journal_def temp_ok_def payload_at_def points_def no_dir_def is_dir_iff same' user)
  with w A V show ?thesis by (simp add: staged_def room_def)
qed

lemma mkdir_hoare:
  assumes ok: "change_ok ch" and inst: "ch_install ch"
  shows "hoare (staged ch (pkg_payload n)) (c1pkg_mkdir_p (pkg_versions (ch_id ch)) 493)
    (\<lambda>_. prepared_change ch (pkg_payload n)) (resting ch)"
proof -
  let ?S = "staged ch (pkg_payload n)" and ?A = "pkg_app (ch_id ch)" and ?V = "pkg_versions (ch_id ch)"
  note harmless = versions_harmless [OF ok, of n]
  have rest: "?S w \<Longrightarrow> resting ch w" for w by (simp add: staged_def resting_def)
  have slashfree: "CHR ''/'' \<notin> set (ch_id ch)" using ok safe_id_facts by (simp add: change_ok_def)
  have first: "hoare ?S (require b) (\<lambda>_. ?S) (resting ch)" for b
    by (auto simp: hoare_def require_def intro: rest)
  have second: "hoare ?S (make_all (mkdir_prefixes ?V) 493) (\<lambda>_ w. ?S w \<and> file_at w ?A \<noteq> None) (resting ch)"
    unfolding versions_prefixes [OF slashfree]
    by (rule hoare_weaken [OF make_all_hoare]) (use harmless in \<open>auto intro: rest\<close>)
  have "hoare (\<lambda>w. ?S w \<and> file_at w ?A \<noteq> None) (make_or_keep ?V 493)
      (\<lambda>_ w. ?S w \<and> trusted_at w ?A \<and> trusted_at w ?V) ?S"
    unfolding hoare_def
  proof (intro allI impI)
    fix w r w' assume w: "?S w \<and> file_at w ?A \<noteq> None" and run: "make_or_keep ?V 493 w = (r, w')"
    have S: "?S w'" by (rule staged_made [OF conjunct1 [OF w] _ run]) (use harmless in simp)
    have "file_at w' ?A = file_at w ?A" using make_or_keep_result [OF run] by (simp add: pkg_paths)
    with S w have "trusted_at w' ?A" by (auto simp: staged_def room_def)
    moreover have "r = Some () \<Longrightarrow> trusted_at w' ?V"
      using make_or_keep_result [OF run] S by (auto simp: staged_def room_def)
    ultimately show "case r of None \<Rightarrow> ?S w' | Some x \<Rightarrow> ?S w' \<and> trusted_at w' ?A \<and> trusted_at w' ?V"
      using S by (cases r) auto
  qed
  then have third: "hoare (\<lambda>w. ?S w \<and> file_at w ?A \<noteq> None) (make_or_keep ?V 493)
      (\<lambda>_ w. ?S w \<and> trusted_at w ?A \<and> trusted_at w ?V) (resting ch)"
    by (rule hoare_weaken) (auto intro: rest)
  have fourth: "hoare (\<lambda>w. ?S w \<and> trusted_at w ?A \<and> trusted_at w ?V) (ok (sys_chmod ?V 493))
      (\<lambda>_. prepared_change ch (pkg_payload n)) (resting ch)"
    unfolding hoare_def
  proof (intro allI impI)
    fix w r w' assume w: "?S w \<and> trusted_at w ?A \<and> trusted_at w ?V" and run: "ok (sys_chmod ?V 493) w = (r, w')"
    have "harmless ch (pkg_payload n) ?V" using harmless by simp
    from chmod_keeps_trusted [OF _ _ _ this run] w staged_prepared [OF _ _ _ inst] rest
    show "case r of None \<Rightarrow> resting ch w' | Some x \<Rightarrow> prepared_change ch (pkg_payload n) w'" by (cases r) auto
  qed
  show ?thesis
    unfolding c1pkg_mkdir_p_def
    by (rule hoare_then [OF first hoare_then [OF second hoare_then [OF third fourth]]])
qed

lemma stable_prepared: "clear_of_journal payload \<Longrightarrow> stable (\<lambda>q. False) (prepared_change ch payload)"
  unfolding prepared_change_def
  by (intro stable_conj stable_subset [OF stable_still] stable_parts(2))
    (auto simp: stable_def touches_def same_process_def temp_ok_def)

lemma move_payload_hoare:
  assumes inst: "ch_install ch"
  shows "hoare (launched ch (pkg_payload n)) (ok (sys_rename (pkg_payload n) (ch_place ch))) (\<lambda>_. progress ch)
    (launched ch (pkg_payload n))"
proof -
  let ?s = "pkg_payload n" and ?d = "ch_place ch"
  have missed: "\<not> (under ?s q \<or> under ?d q)"
    if "q \<in> {C1PKG_STATE_ROOT, C1PKG_APPS_ROOT, pkg_app (ch_id ch), pkg_versions (ch_id ch), TRANSACTION_PATH,
      link_of ch ''current'', link_of ch ''previous'', pointer_temp (ch_id ch)}" for q
    using that by (auto simp: under_def pkg_payload_def ch_place_def pkg_paths prefix_def)
  let ?P = "\<lambda>w. standing ch w \<and> journal ch w \<and>
     points w (link_of ch ''current'') (ch_current ch) \<and> points w (link_of ch ''previous'') (ch_previous ch) \<and>
     no_dir w (pointer_temp (ch_id ch))"
  have P: "stable (\<lambda>q. under ?s q \<or> under ?d q) ?P"
    by (intro stable_conj stable_standing stable_parts(1,4,5) missed) simp_all
  have "?s \<noteq> ?d" by (simp add: pkg_payload_def ch_place_def pkg_paths)
  show ?thesis
  proof (rule hoare_user)
    fix u
    have "stable (\<lambda>q. under ?s q \<or> under ?d q) (\<lambda>w. ?P w \<and> euid w = u)"
      by (intro stable_conj [OF P]) (auto simp: stable_def touches_def same_process_def)
    note mv = hoare_rename [OF this \<open>?s \<noteq> ?d\<close>, of "payload_inode ch u" "\<lambda>f. f = None"]
    have keep: "hoare (launched ch ?s) (ok (sys_rename ?s ?d)) (\<lambda>_ _. True) (launched ch ?s)"
      unfolding hoare_def
    proof (intro allI impI)
      fix w r w' assume w: "launched ch ?s w" and run: "ok (sys_rename ?s ?d) w = (r, w')"
      have "stable (\<lambda>q. False) (launched ch ?s)"
        unfolding launched_def by (intro stable_conj stable_parts(1) stable_subset [OF stable_still [OF payload_paths(1)]]) auto
      with w run show "case r of None \<Rightarrow> launched ch ?s w' | Some x \<Rightarrow> True"
        by (auto simp: ok_def dest!: sys_rename_failure intro: stable_same_files split: prod.splits sum.splits option.split)
    qed
    show "hoare (\<lambda>w. launched ch ?s w \<and> euid w = u) (ok (sys_rename ?s ?d)) (\<lambda>_. progress ch) (launched ch ?s)"
      by (rule hoare_weaken [OF hoare_conj [OF mv keep]])
        (use inst in \<open>auto simp: launched_def still_def payload_at_def progress_def moved_def in_place_def\<close>)
  qed
qed

section \<open>Without faults\<close>

lemma runs_make_or_keep:
  assumes "\<And>w. P w \<Longrightarrow> file_at w p \<noteq> None \<or> is_dir w (parent_directory p)"
  shows "runs P (make_or_keep p m) (\<lambda>_ _. True)"
  unfolding make_or_keep_def sys_mkdir_def
proof (rule runs_bind [OF runs_errno_of])
  fix w assume "P w"
  from assms [OF this] show "\<exists>r w'. (if file_at w p \<noteq> None then (Inl EEXIST, w)
      else if \<not> is_dir w (parent_directory p) then (Inl ENOENT, w)
      else (Inr (), put_file p \<lparr> st_kind = S_IFDIR, st_mode = m, st_uid = euid w, st_nlink = 2, st_data = [],
        st_ino = fresh_ino w \<rparr> w)) = (r, w') \<and> faults w' = faults w \<and> (r = Inr () \<or> r = Inl EEXIST)"
    by auto
qed (auto simp: runs_def require_def)

lemma is_dir_file_at: "is_dir w p \<Longrightarrow> file_at w p \<noteq> None"
  by (auto simp: is_dir_iff)

lemma staged_parents:
  assumes "staged ch payload w" and "CHR ''/'' \<notin> set (ch_id ch)"
    and "p \<in> set [''/storage'', ''/storage/c1'', C1PKG_APPS_ROOT, pkg_app (ch_id ch)]"
  shows "file_at w p \<noteq> None \<or> is_dir w (parent_directory p)"
proof -
  have "parent_directory (pkg_app (ch_id ch)) = C1PKG_APPS_ROOT"
    by (rule parents(1) [OF assms(2)])
  with assms(1,3) show ?thesis using is_dir_file_at by (auto simp: staged_def)
qed

lemma runs_make_all:
  assumes "\<And>w p. staged ch payload w \<Longrightarrow> p \<in> set ps \<Longrightarrow> file_at w p \<noteq> None \<or> is_dir w (parent_directory p)"
    and "list_all (harmless ch payload) ps"
  shows "runs (staged ch payload) (make_all ps 493) (\<lambda>_ _. True)"
  using assms
proof (induction ps)
  case Nil
  then show ?case by (simp add: runs_def ret_def)
next
  case (Cons p ps)
  have "hoare (staged ch payload) (make_or_keep p 493) (\<lambda>_. staged ch payload) (\<lambda>_. True)"
    using staged_made Cons.prems(2) by (fastforce simp: hoare_def split: option.split)
  moreover have "runs (staged ch payload) (make_or_keep p 493) (\<lambda>_ _. True)"
    by (rule runs_make_or_keep) (use Cons.prems(1) in auto)
  ultimately have one: "runs (staged ch payload) (make_or_keep p 493) (\<lambda>_. staged ch payload)"
    by (rule runs_hoare)
  have "runs (staged ch payload) (make_all ps 493) (\<lambda>_ _. True)"
    by (rule Cons.IH) (use Cons.prems in auto)
  from runs_then [OF one this] show ?case by simp
qed

lemma runs_mkdir:
  assumes ok: "change_ok ch" and inst: "ch_install ch"
  shows "runs (staged ch (pkg_payload n)) (c1pkg_mkdir_p (pkg_versions (ch_id ch)) 493) (\<lambda>_. prepared_change ch (pkg_payload n))"
proof (rule runs_hoare [OF mkdir_hoare [OF ok inst]])
  let ?S = "staged ch (pkg_payload n)" and ?A = "pkg_app (ch_id ch)" and ?V = "pkg_versions (ch_id ch)"
  note harmless = versions_harmless [OF ok, of n]
  have ident: "CHR ''/'' \<notin> set (ch_id ch)" "length (ch_id ch) \<le> 32"
    using ok safe_id_facts by (auto simp: change_ok_def)
  have short: "length ?V < C1PKG_PATH_MAX"
    using ident(2) by (simp add: pkg_paths C1PKG_PATH_MAX_def)
  have parent: "parent_directory ?V = ?A" by (rule parents(2)) simp
  have parents: "runs ?S (make_all (mkdir_prefixes ?V) 493) (\<lambda>_ w. ?S w \<and> file_at w ?A \<noteq> None)"
  proof (rule runs_hoare)
    show "hoare ?S (make_all (mkdir_prefixes ?V) 493) (\<lambda>_ w. ?S w \<and> file_at w ?A \<noteq> None) ?S"
      unfolding versions_prefixes [OF ident(1)]
      by (rule hoare_weaken [OF make_all_hoare]) (use harmless in auto)
    show "runs ?S (make_all (mkdir_prefixes ?V) 493) (\<lambda>_ _. True)"
      unfolding versions_prefixes [OF ident(1)]
      by (rule runs_make_all [OF staged_parents [OF _ ident(1)]]) (use harmless in auto)
  qed
  have versions: "runs (\<lambda>w. ?S w \<and> file_at w ?A \<noteq> None) (make_or_keep ?V 493) (\<lambda>_ w. file_at w ?V \<noteq> None)"
  proof (rule runs_hoare)
    show "hoare (\<lambda>w. ?S w \<and> file_at w ?A \<noteq> None) (make_or_keep ?V 493) (\<lambda>_ w. file_at w ?V \<noteq> None) (\<lambda>_. True)"
      using make_or_keep_result by (fastforce simp: hoare_def split: option.split)
    show "runs (\<lambda>w. ?S w \<and> file_at w ?A \<noteq> None) (make_or_keep ?V 493) (\<lambda>_ _. True)"
      by (rule runs_make_or_keep) (auto simp: parent staged_def room_def dest: trusted_is_dir)
  qed
  have chmod: "runs (\<lambda>w. file_at w ?V \<noteq> None) (ok (sys_chmod ?V 493)) (\<lambda>_ _. True)"
    unfolding sys_chmod_def by (rule runs_ok) auto
  show "runs ?S (c1pkg_mkdir_p ?V 493) (\<lambda>_ _. True)"
    unfolding c1pkg_mkdir_p_def
    by (rule runs_then [OF runs_require_pre runs_then [OF parents runs_then [OF versions chmod]]]) (rule short)
qed

lemma runs_write_temp:
  assumes P: "stable (\<lambda>q. q = TRANSACTION_TEMP) P" and dir: "\<And>w. P w \<Longrightarrow> is_dir w C1PKG_STATE_ROOT"
  shows "runs (\<lambda>w. P w \<and> file_at w TRANSACTION_TEMP = None) (c1pkg_write_file TRANSACTION_TEMP d m) (\<lambda>_ _. True)"
proof -
  have opened: "runs (\<lambda>w. P w \<and> file_at w TRANSACTION_TEMP = None) (ok (sys_open_write TRANSACTION_TEMP m)) (\<lambda>_ _. True)"
    unfolding sys_open_write_def parents(5) by (rule runs_ok) (auto dest: dir)
  have "runs (\<lambda>_. True) (ok (sys_write p d)) (\<lambda>_ _. True)" for p
    unfolding sys_write_def by (rule runs_ok) (auto simp: append_data_def split: option.split)
  note wrote = runs_on_failure [OF this]
  show ?thesis
    unfolding c1pkg_write_file_def by (rule runs_then [OF opened runs_then [OF wrote runs_closing [OF runs_touch]]])
qed

lemma runs_persist:
  assumes P: "stable (\<lambda>q. under TRANSACTION_TEMP q \<or> under TRANSACTION_PATH q) P"
    and dir: "\<And>w. P w \<Longrightarrow> is_dir w C1PKG_STATE_ROOT"
  shows "runs (\<lambda>w. P w \<and> no_journal w \<and> temp_ok w) (persist_transaction tx) (\<lambda>_ _. True)"
proof -
  let ?T = "TRANSACTION_TEMP" and ?J = "TRANSACTION_PATH"
  let ?idle = "\<lambda>w. P w \<and> no_journal w"
  have temp: "stable (\<lambda>q. q = ?T) ?idle"
    using journal_temp_apart(3) by (intro stable_conj stable_subset [OF P] stable_parts(2)) auto
  have "runs (\<lambda>w. ?idle w \<and> no_dir w ?T) (ignore (sys_unlink ?T)) (\<lambda>_ w. ?idle w \<and> file_at w ?T = None)"
    by (rule runs_unlink_ignored [OF temp])
  then have first: "runs (\<lambda>w. P w \<and> no_journal w \<and> temp_ok w) (ignore (sys_unlink ?T)) (\<lambda>_ w. ?idle w \<and> file_at w ?T = None)"
    by (rule runs_pre) (auto simp: temp_ok_def no_dir_def written_def)
  have second: "runs (\<lambda>w. ?idle w \<and> file_at w ?T = None) (c1pkg_write_file ?T (wal_image tx) 384)
     (\<lambda>_ w. ?idle w \<and> file_at w ?T = Some (written (euid w) 384 (wal_image tx)))"
  proof (rule runs_hoare)
    show "runs (\<lambda>w. ?idle w \<and> file_at w ?T = None) (c1pkg_write_file ?T (wal_image tx) 384) (\<lambda>_ _. True)"
      by (rule runs_write_temp [OF temp]) (simp add: dir)
    show "hoare (\<lambda>w. ?idle w \<and> file_at w ?T = None) (c1pkg_write_file ?T (wal_image tx) 384)
     (\<lambda>_ w. ?idle w \<and> file_at w ?T = Some (written (euid w) 384 (wal_image tx))) (\<lambda>_. True)"
      by (rule hoare_weaken [OF write_temp_hoare [OF temp]]) (auto simp: temp_ok_def)
  qed
  have third: "runs (\<lambda>w. P w \<and> (no_journal w \<and> file_at w ?T \<noteq> None)) (ok (sys_rename ?T ?J)) (\<lambda>_. P)"
    by (rule runs_post [OF runs_rename [where F = "\<lambda>_. True", OF P journal_temp_apart(1,2)]])
      (use dir in \<open>auto simp: parents no_journal_def replaceable_def\<close>)
  have fourth: "runs P (c1pkg_sync_directory C1PKG_STATE_ROOT) (\<lambda>_ _. True)"
    by (rule runs_weak [OF runs_sync_directory [OF dir]])
  show ?thesis
    unfolding persist_transaction_def
    by (rule runs_then [OF first runs_then [OF second runs_pre [OF runs_then [OF third fourth]]]]) auto
qed

lemma runs_begin:
  assumes ok: "change_ok ch" and payload: "clear_of_journal payload"
  shows "runs (prepared_change ch payload)
    (begin_transaction (pkg_app (ch_id ch)) (ch_version ch) payload (ch_install ch)) (\<lambda>_. launched ch payload)"
proof (rule runs_hoare [OF begin_hoare [OF ok payload]])
  let ?P = "prepared_change ch payload"
  have parts: "c1pkg_safe_id (ch_id ch)" "ch_current ch = [] \<or> c1pkg_safe_version (ch_current ch)"
    "ch_previous ch = [] \<or> c1pkg_safe_version (ch_previous ch)" "c1pkg_safe_version (ch_version ch)"
    using ok by (simp_all add: change_ok_def)
  have names: "pointer_name ''current''" "pointer_name ''previous''" by (simp_all add: pointer_name_def)
  have slashfree: "CHR ''/'' \<notin> set (ch_id ch)" using safe_id_facts [OF parts(1)] by blast
  have look: "runs ?P (errno_of (sys_lstat TRANSACTION_PATH)) (\<lambda>r w. ?P w \<and> r = Inl ENOENT)"
    by (rule runs_post [OF runs_probe_call]) (auto simp: prepared_change_def no_journal_def)
  have app: "runs ?P (trusted_directory (pkg_app (ch_id ch))) (\<lambda>_. ?P)"
    by (rule runs_post [OF runs_trusted_directory]) (auto simp: prepared_change_def still_def standing_def)
  have info: "runs ?P (trusted_directory payload) (\<lambda>_. ?P)"
    by (rule runs_post [OF runs_trusted_directory])
      (auto simp: prepared_change_def still_def payload_at_def payload_inode_def trusted_at_def)
  have current: "runs ?P (pointer_version ENOENT (pkg_app (ch_id ch)) ''current'') (\<lambda>_. ?P)"
    by (rule runs_post [OF runs_pointer_version [OF parts(1) names(1) parts(2)]])
      (auto simp: prepared_change_def still_def)
  have previous: "runs ?P (pointer_version ENOENT (pkg_app (ch_id ch)) ''previous'') (\<lambda>_. ?P)"
    by (rule runs_post [OF runs_pointer_version [OF parts(1) names(2) parts(3)]])
      (auto simp: prepared_change_def still_def)
  have persist: "runs ?P (persist_transaction tx) (\<lambda>_ _. True)" for tx
    by (rule runs_pre [OF runs_persist [OF stable_still [OF payload, of ch]]])
      (auto simp: prepared_change_def still_def standing_def)
  let ?rest = "then_act (require (c1pkg_safe_id (ch_id ch) \<and> c1pkg_safe_version (ch_version ch)))
      (then_act (trusted_directory (pkg_app (ch_id ch)))
      (bind_act (trusted_directory payload) (\<lambda>info.
       bind_act (pointer_version ENOENT (pkg_app (ch_id ch)) ''current'') (\<lambda>current.
       bind_act (pointer_version ENOENT (pkg_app (ch_id ch)) ''previous'') (\<lambda>previous.
         persist_transaction (new_transaction (ch_id ch) (ch_version ch) current previous (st_ino info) (ch_install ch)))))))"
  have rest: "runs ?P ?rest (\<lambda>_ _. True)"
    by (rule runs_then [OF runs_require_pre runs_then [OF app runs_bind [OF info runs_bind [OF current runs_bind [OF previous persist]]]]])
      (use parts in simp)
  show "runs ?P (begin_transaction (pkg_app (ch_id ch)) (ch_version ch) payload (ch_install ch)) (\<lambda>_ _. True)"
    unfolding begin_transaction_def base_id_app [OF slashfree] bind_lift
  proof (rule runs_bind [OF look])
    fix r
    have "runs (\<lambda>w. r = Inl ENOENT \<and> ?P w) (require (r = Inl ENOENT)) (\<lambda>_. ?P)" by (rule runs_require)
    from runs_then [OF this rest]
    show "runs (\<lambda>w. ?P w \<and> r = Inl ENOENT) (then_act (require (r = Inl ENOENT)) ?rest) (\<lambda>_ _. True)"
      by (rule runs_pre) blast
  qed
qed

lemma runs_recover_unfinished:
  assumes ok: "change_ok ch"
  shows "runs (unfinished ch) recover_transaction (\<lambda>_. completed ch)"
  by (rule runs_hoare [OF recover_redo [OF ok] runs_weak [OF runs_pre [OF runs_recover [OF ok] unfinished_found]]])

lemma runs_move_payload:
  assumes inst: "ch_install ch" and ok: "change_ok ch"
  shows "runs (launched ch (pkg_payload n)) (ok (sys_rename (pkg_payload n) (ch_place ch))) (\<lambda>_. unfinished ch)"
proof -
  let ?s = "pkg_payload n" and ?d = "ch_place ch"
  have apart: "\<not> under ?s ?d" "\<not> under ?d ?s" "?s \<noteq> ?d"
    by (simp_all add: pkg_payload_def ch_place_def pkg_paths under_def)
  have "CHR ''/'' \<notin> set (ch_version ch)" using ok safe_version_facts by (auto simp: change_ok_def)
  then have parent: "parent_directory ?d = pkg_versions (ch_id ch)" unfolding ch_place_def by (rule parents(3))
  have "runs (launched ch ?s) (ok (sys_rename ?s ?d)) (\<lambda>_ _. True)"
    unfolding sys_rename_def
    by (rule runs_ok) (use apart in \<open>auto simp: launched_def still_def payload_at_def replaceable_def parent inst
      dest: standing_dirs(4)\<close>)
  from runs_hoare [OF move_payload_hoare [OF inst] this]
  show ?thesis by (rule runs_post) (simp add: unfinished_def)
qed

lemma runs_commit:
  assumes ok: "change_ok ch" and inst: "ch_install ch"
  shows "runs (staged ch (pkg_payload n))
    (commit_package (pkg_app (ch_id ch)) (pkg_versions (ch_id ch)) (ch_place ch) (ch_version ch) (pkg_payload n))
    (\<lambda>_. completed ch)"
proof -
  let ?P = "prepared_change ch (pkg_payload n)"
  have dirs: "is_dir w (pkg_payload n)" "is_dir w (pkg_versions (ch_id ch))" "is_dir w (pkg_app (ch_id ch))"
    "is_dir w C1PKG_APPS_ROOT" if "?P w" for w
    using that standing_dirs by (auto simp: prepared_change_def still_def payload_at_def payload_inode_def is_dir_iff)
  have synced: "runs ?P (c1pkg_sync_directory p) (\<lambda>_. ?P)" if "\<And>w. ?P w \<Longrightarrow> is_dir w p" for p
    by (rule runs_sync_directory [OF that])
  note logged = runs_begin [OF ok payload_paths(1), of n, unfolded eqTrueI [OF inst]]
  show ?thesis
    unfolding commit_package_def
    by (rule runs_then [OF runs_mkdir [OF ok inst] runs_then [OF synced [OF dirs(1)] runs_then [OF synced [OF dirs(2)]
          runs_then [OF synced [OF dirs(3)] runs_then [OF synced [OF dirs(4)] runs_then [OF logged
          runs_then [OF runs_move_payload [OF inst ok] runs_recover_unfinished [OF ok]]]]]]]])
qed

lemma runs_rollback:
  assumes ok: "change_ok ch" and kept: "\<not> ch_install ch" and older: "ch_version ch = ch_previous ch"
  shows "runs (prepared_change ch (ch_place ch)) (rollback_version (ch_id ch)) (\<lambda>_. completed ch)"
proof -
  let ?P = "prepared_change ch (ch_place ch)" and ?L = "link_of ch ''previous''"
  have ident: "c1pkg_safe_id (ch_id ch)" and version: "c1pkg_safe_version (ch_version ch)"
    using ok by (simp_all add: change_ok_def)
  have joined: "c1pkg_join (pkg_app (ch_id ch)) ''previous'' = Some ?L"
    "c1pkg_join (pkg_app (ch_id ch)) ''versions'' = Some (pkg_versions (ch_id ch))"
    by (rule joins(2) [OF ident]; simp)+
  have target: "version_target (''versions/'' @ ch_version ch) = Some (ch_version ch)"
    using version by (simp add: version_target_def)
  have read: "runs ?P (ok (read_link_value EOTHER ?L)) (\<lambda>t w. ?P w \<and> t = ''versions/'' @ ch_version ch)"
    unfolding runs_def
  proof (intro allI impI)
    fix w assume w: "?P w" "faults w = []"
    then have "points w ?L (ch_version ch)" by (simp add: prepared_change_def still_def older)
    from points_read [OF w(2) this disjI2 [OF version]] w safe_version_facts [OF version]
    show "\<exists>x w'. ok (read_link_value EOTHER ?L) w = (Some x, w') \<and> faults w' = [] \<and> ?P w' \<and> x = ''versions/'' @ ch_version ch"
      by (auto simp: ok_def)
  qed
  have started: "runs ?P (begin_transaction (pkg_app (ch_id ch)) (ch_version ch) (ch_place ch) False) (\<lambda>_. unfinished ch)"
    using kept by (intro runs_post [OF runs_begin [OF ok clear_place, of ch, simplified kept simp_thms]])
      (auto simp: launched_progress unfinished_def)
  have switch: "runs ?P (pkg_switch_current (pkg_app (ch_id ch)) (ch_version ch)) (\<lambda>_. completed ch)"
    unfolding pkg_switch_current_def joined bind_lift joins(3) [OF ident version]
    unfolding ch_place_def [symmetric]
    by (rule runs_then [OF started runs_recover_unfinished [OF ok]])
  have "runs (\<lambda>w. ?P w \<and> t = ''versions/'' @ ch_version ch)
      (bind_act (lift (version_target t)) (pkg_switch_current (pkg_app (ch_id ch)))) (\<lambda>_. completed ch)" for t
    using switch target by (auto simp: runs_def)
  from runs_bind [OF read this] show ?thesis
    unfolding rollback_version_def joins(1) [OF ident] bind_lift joined by simp
qed

lemma runs_succeeds: "runs P m Q \<Longrightarrow> P w \<Longrightarrow> m w = (r, w') \<Longrightarrow> faults w = [] \<Longrightarrow> r \<noteq> None"
  unfolding runs_def by fastforce

section \<open>A store with one application\<close>

text \<open>The store before the first version of an application is installed, with its payload staged.\<close>

definition example_dir :: "nat \<Rightarrow> inode" where
  "example_dir n = \<lparr> st_kind = S_IFDIR, st_mode = 493, st_uid = 0, st_nlink = 1, st_data = [], st_ino = n \<rparr>"

definition example_link :: "string \<Rightarrow> nat \<Rightarrow> inode" where
  "example_link t n = \<lparr> st_kind = S_IFLNK, st_mode = 511, st_uid = 0, st_nlink = 1, st_data = t, st_ino = n \<rparr>"

definition example_files :: "(string \<times> inode) list" where
  "example_files =
     [(C1PKG_STATE_ROOT, example_dir 2), (C1PKG_APPS_ROOT, example_dir 3), (''/storage'', example_dir 1),
      (''/storage/c1'', example_dir 4)]"

definition example_staged :: world where
  "example_staged = \<lparr> files = example_files @ [(pkg_payload 7, example_dir 5)],
     euid = 0, pid = 7, suffix = [], faults = [] \<rparr>"

definition example_install :: change where
  "example_install = \<lparr> ch_id = ''clock'', ch_version = ''1.0'', ch_current = [], ch_previous = [], ch_ino = 5,
     ch_install = True \<rparr>"

definition example_store :: world where
  "example_store = \<lparr> files = example_files @
      [(pkg_app ''clock'', example_dir 6), (pkg_versions ''clock'', example_dir 7),
       (pkg_place ''clock'' ''1.0'', example_dir 5), (pkg_place ''clock'' ''2.0'', example_dir 8),
       (pkg_link ''clock'' ''current'', example_link ''versions/2.0'' 9),
       (pkg_link ''clock'' ''previous'', example_link ''versions/1.0'' 10)],
     euid = 0, pid = 7, suffix = [], faults = [] \<rparr>"

definition example_rollback :: change where
  "example_rollback = \<lparr> ch_id = ''clock'', ch_version = ''1.0'', ch_current = ''2.0'', ch_previous = ''1.0'',
     ch_ino = 5, ch_install = False \<rparr>"

lemmas example_defs = example_staged_def example_install_def example_store_def example_rollback_def example_files_def
  example_dir_def example_link_def

lemma example_install_ok: "change_ok example_install" "ch_install example_install"
  by code_simp+

lemma example_fields:
  "ch_id example_install = ''clock''" "ch_version example_install = ''1.0''"
  "ch_place example_install = pkg_place ''clock'' ''1.0''"
  "ch_id example_rollback = ''clock''" "ch_version example_rollback = ''1.0''" "ch_previous example_rollback = ''1.0''"
  "ch_current example_rollback = ''2.0''" "ch_current example_install = []"
  by (simp_all add: example_install_def example_rollback_def ch_place_def)

lemma example_faults: "faults example_staged = []" "faults example_store = []"
  by (simp_all add: example_staged_def example_store_def)

lemma dec_7: "dec 7 = ''7''" by code_simp

lemma example_staged_ok: "staged example_install (pkg_payload 7) example_staged"
  unfolding staged_def example_defs
  by (simp add: is_dir_def room_def points_def no_dir_def payload_at_def payload_inode_def no_journal_def temp_ok_def
     file_at_def pkg_paths pkg_payload_def dec_7 ch_place_def trusted_at_def)

lemma example_rollback_ok: "change_ok example_rollback" "\<not> ch_install example_rollback"
  by code_simp+

lemma example_store_ok: "prepared_change example_rollback (ch_place example_rollback) example_store"
  unfolding prepared_change_def still_def standing_def example_defs
  by (simp add: is_dir_def room_def points_def no_dir_def payload_at_def payload_inode_def no_journal_def temp_ok_def
     file_at_def pkg_paths ch_place_def trusted_at_def)

section \<open>Properties\<close>

lemma pkg_commit_hoare:
  assumes ok: "change_ok ch" and inst: "ch_install ch"
  shows "hoare (staged ch (pkg_payload n))
    (commit_package (pkg_app (ch_id ch)) (pkg_versions (ch_id ch)) (ch_place ch) (ch_version ch) (pkg_payload n))
    (\<lambda>_. completed ch) (\<lambda>w. resting ch w \<or> found ch w)"
proof -
  let ?P = "prepared_change ch (pkg_payload n)" and ?E = "\<lambda>w. resting ch w \<or> found ch w"
  have made: "hoare (staged ch (pkg_payload n)) (c1pkg_mkdir_p (pkg_versions (ch_id ch)) 493) (\<lambda>_. ?P) ?E"
    by (rule hoare_weaken [OF mkdir_hoare [OF ok inst]]) auto
  have synced: "hoare ?P (c1pkg_sync_directory p) (\<lambda>_. ?P) ?E" for p
    by (rule hoare_weaken [OF hoare_keep [OF framed_pkg_sync stable_prepared [OF payload_paths(1)]]])
      (auto intro: prepared_found)
  have logged: "hoare ?P (begin_transaction (pkg_app (ch_id ch)) (ch_version ch) (pkg_payload n) True)
      (\<lambda>_. launched ch (pkg_payload n)) ?E"
    by (rule hoare_weaken [OF begin_hoare [OF ok payload_paths(1), unfolded eqTrueI [OF inst]]]) auto
  have moving: "hoare (launched ch (pkg_payload n)) (ok (sys_rename (pkg_payload n) (ch_place ch))) (\<lambda>_. unfinished ch) ?E"
    by (rule hoare_weaken [OF move_payload_hoare [OF inst]]) (auto simp: unfinished_def intro: launched_found)
  have finished: "hoare (unfinished ch) recover_transaction (\<lambda>_. completed ch) ?E"
    by (rule hoare_weaken [OF recover_redo [OF ok]]) (auto intro: unfinished_found)
  show ?thesis
    unfolding commit_package_def
    by (rule hoare_then [OF made hoare_then [OF synced hoare_then [OF synced hoare_then [OF synced
          hoare_then [OF synced hoare_then [OF logged hoare_then [OF moving finished]]]]]]])
qed

text \<open>A store that rests without a journal: recovery is idle, however often it runs.\<close>

lemma resting_settles:
  assumes "resting ch w"
  shows "\<exists>w'. recover_transaction (calm (recoveries fs w)) = (Some (), w') \<and> resting ch w'"
proof -
  let ?v = "calm (recoveries fs w)"
  have "no_journal w" using assms by (simp add: resting_def)
  from same_files_trans [OF recoveries_idle [OF this] calm_same]
  have same: "same_files w ?v" .
  have rest: "resting ch v" if "same_files w v" for v
  proof -
    have same: "file_at v = file_at w" using that by (auto simp: same_files_at)
    show ?thesis using assms unfolding resting_def no_journal_def points_def same .
  qed
  have "file_at ?v TRANSACTION_PATH = None" using rest [OF same] by (simp add: resting_def no_journal_def)
  then have "recover_transaction ?v = (Some (), ?v)"
    by (simp add: recover_transaction_def bind_act_def errno_of_def sys_open_read_def faulty_def ret_def)
  with rest [OF same] show ?thesis by blast
qed

lemma settled_pointers:
  assumes "settled ch w"
  shows "no_journal w \<and>
    (points w (link_of ch ''current'') (ch_current ch) \<and> points w (link_of ch ''previous'') (ch_previous ch) \<or>
     points w (link_of ch ''current'') (ch_version ch) \<and> points w (link_of ch ''previous'') (ch_current ch) \<and> in_place ch w)"
  using assms by (auto simp: settled_def dropped_def completed_def at_rest_def)

text \<open>C5. An installation always comes to rest. Whatever faults or losses of power the commit of a verified payload
  meets, and however many recoveries after it are interrupted in the same way, one undisturbed recovery succeeds
  and removes the journal. Without faults the commit reports success. Then either the commit had not reported success and the pointers are what they were, or the
  new version is current, the one before is previous, and the verified payload itself lies at its place.\<close>

theorem installation_settles:
  assumes ok: "change_ok ch" and inst: "ch_install ch" and w: "staged ch (pkg_payload n) w"
    and run: "commit_package (pkg_app (ch_id ch)) (pkg_versions (ch_id ch)) (ch_place ch) (ch_version ch)
      (pkg_payload n) w = (r, w1)"
  shows "(faults w = [] \<longrightarrow> r \<noteq> None) \<and>
    (\<exists>w2. recover_transaction (calm (recoveries fs w1)) = (Some (), w2) \<and> no_journal w2 \<and>
    (r = None \<and> points w2 (link_of ch ''current'') (ch_current ch) \<and>
       points w2 (link_of ch ''previous'') (ch_previous ch) \<or>
     points w2 (link_of ch ''current'') (ch_version ch) \<and>
       points w2 (link_of ch ''previous'') (ch_current ch) \<and> in_place ch w2))"
proof -
  have success: "faults w = [] \<longrightarrow> r \<noteq> None" using runs_succeeds [OF runs_commit [OF ok inst] w run] by blast
  note result = hoareD [OF pkg_commit_hoare [OF ok inst] w run]
  consider "r = None" "resting ch w1" | "found ch w1" "r = None \<or> completed ch w1"
    using result by (auto simp: found_def settled_def split: option.splits)
  then show ?thesis
  proof cases
    case 1
    then show ?thesis using success resting_settles [of ch w1 fs] by (auto simp: resting_def)
  next
    case 2
    from recovery_settles [OF ok 2(1), of fs] 2(2) success show ?thesis
      by (auto simp: completed_def at_rest_def dest!: settled_pointers)
  qed
qed

theorem installation_settles_witness:
  "\<exists>w. recover_transaction (calm (recoveries [[Done, Cut 0], [Fail 0]] (snd (commit_package (pkg_app ''clock'')
      (pkg_versions ''clock'') (pkg_place ''clock'' ''1.0'') ''1.0'' (pkg_payload 7) example_staged)))) = (Some (), w) \<and>
    no_journal w \<and> points w (pkg_link ''clock'' ''current'') ''1.0'' \<and> in_place example_install w"
proof -
  note settles = installation_settles [OF example_install_ok example_staged_ok surjective_pairing,
    of "[[Done, Cut 0], [Fail 0]]", unfolded example_fields]
  from conjunct2 [OF settles] mp [OF conjunct1 [OF settles] example_faults(1)] show ?thesis by blast
qed

end
