(* ===== verification/PkgStorage.thy ===== *)
theory PkgStorage
  imports PkgCommit
begin

text \<open>
  Where the packages live, \<open>src/C1ancher/src/pkg/storage_layout.c\<close>: the directories of the store on a file system
  of its own, checked before every operation. The device of a path and what \<open>statvfs\<close> answers are arguments.
  The strings of a layout are present; a null pointer among them is not modelled.
\<close>

definition C1PKG_STORAGE_RESERVE_BYTES :: nat where "C1PKG_STORAGE_RESERVE_BYTES = 4 * 1024 * 1024"

definition C1PKG_STORAGE_MOUNT :: string where "C1PKG_STORAGE_MOUNT = ''/storage''"
definition C1PKG_STORAGE_ROOT :: string where "C1PKG_STORAGE_ROOT = ''/storage/c1''"
definition C1PKG_WORK_ROOT :: string where "C1PKG_WORK_ROOT = ''/storage/c1/pkg''"
definition C1PKG_STAGING_ROOT :: string where "C1PKG_STAGING_ROOT = ''/storage/c1/pkg/staging''"
definition C1PKG_TRASH_ROOT :: string where "C1PKG_TRASH_ROOT = ''/storage/c1/pkg/trash''"

datatype c1pkg_storage_access = C1PKG_STORAGE_READ | C1PKG_STORAGE_WRITE | C1PKG_STORAGE_MAINTENANCE

record c1pkg_storage_layout =
  system_root :: string
  mount_root :: string
  storage_root :: string
  apps_root :: string
  work_root :: string
  staging_root :: string
  trash_root :: string
  layout_state_root :: string
  require_distinct_mount :: bool

definition default_layout :: c1pkg_storage_layout where
  "default_layout = \<lparr> system_root = ''/'', mount_root = C1PKG_STORAGE_MOUNT, storage_root = C1PKG_STORAGE_ROOT,
     apps_root = C1PKG_APPS_ROOT, work_root = C1PKG_WORK_ROOT, staging_root = C1PKG_STAGING_ROOT,
     trash_root = C1PKG_TRASH_ROOT, layout_state_root = C1PKG_STATE_ROOT, require_distinct_mount = True \<rparr>"

definition valid_layout :: "c1pkg_storage_layout \<Rightarrow> bool" where
  "valid_layout layout \<longleftrightarrow>
     list_all (\<lambda>s. take 1 s = ''/'') [system_root layout, mount_root layout, storage_root layout, apps_root layout,
       work_root layout, staging_root layout, trash_root layout, layout_state_root layout]"

section \<open>Checks\<close>

type_synonym device = "string \<Rightarrow> nat"

text \<open>Fragment size, block size and free blocks of the file system of a path.\<close>

type_synonym space = "string \<Rightarrow> (nat \<times> nat \<times> nat) option"

definition existing_directory :: "string \<Rightarrow> unit act" where
  "existing_directory path =
     bind_act (ok (sys_lstat path)) (\<lambda>information. require (st_kind information = S_IFDIR))"

definition validate_mount :: "device \<Rightarrow> c1pkg_storage_layout \<Rightarrow> unit act" where
  "validate_mount dev layout =
     then_act (existing_directory (mount_root layout))
     (then_act (existing_directory (system_root layout))
     (require (\<not> (require_distinct_mount layout \<and> dev (mount_root layout) = dev (system_root layout)))))"

definition storage_directories :: "c1pkg_storage_layout \<Rightarrow> (string \<times> nat) list" where
  "storage_directories layout =
     [(storage_root layout, 493), (apps_root layout, 493), (work_root layout, 448), (staging_root layout, 448),
      (trash_root layout, 448)]"

fun make_directories :: "(string \<times> nat) list \<Rightarrow> unit act" where
  "make_directories [] = ret ()"
| "make_directories ((d, mode) # ds) = then_act (c1pkg_mkdir_p d mode) (make_directories ds)"

definition ensure_storage_directories :: "c1pkg_storage_layout \<Rightarrow> unit act" where
  "ensure_storage_directories layout = make_directories (storage_directories layout)"

text \<open>For a reader a missing directory ends the check: a store that was never used is empty.\<close>

fun check_devices :: "device \<Rightarrow> nat \<Rightarrow> bool \<Rightarrow> string list \<Rightarrow> unit act" where
  "check_devices dev expected reading [] = ret ()"
| "check_devices dev expected reading (d # ds) =
     bind_act (if reading then bind_act (errno_of (sys_lstat d)) (\<lambda>r. ret (r = Inl ENOENT)) else ret False) (\<lambda>missing.
       if missing then ret ()
       else then_act (existing_directory d)
            (then_act (require (dev d = expected)) (check_devices dev expected reading ds)))"

definition validate_storage_devices :: "device \<Rightarrow> c1pkg_storage_layout \<Rightarrow> c1pkg_storage_access \<Rightarrow> unit act" where
  "validate_storage_devices dev layout access =
     check_devices dev (dev (mount_root layout)) (access = C1PKG_STORAGE_READ)
       (take (if access \<noteq> C1PKG_STORAGE_READ then 5 else 2) (map fst (storage_directories layout)))"

definition check_available_space :: "space \<Rightarrow> string \<Rightarrow> nat \<Rightarrow> bool" where
  "check_available_space query path required_bytes =
     (case query path of
        None \<Rightarrow> False
      | Some (fragment, block, free) \<Rightarrow>
          (let block_size = (if fragment \<noteq> 0 then fragment else block) in
           if block_size = 0 then False
           else let available = (if free > UINT64_MAX div block_size then UINT64_MAX else free * block_size);
                    required = (if required_bytes > UINT64_MAX - C1PKG_STORAGE_RESERVE_BYTES then UINT64_MAX
                                else required_bytes + C1PKG_STORAGE_RESERVE_BYTES)
                in \<not> available < required))"

definition probe_file :: "string \<Rightarrow> nat \<Rightarrow> string" where
  "probe_file root process = root @ ''/.write-test.'' @ dec process"

definition verify_writable :: "string \<Rightarrow> unit act" where
  "verify_writable root =
     bind_act (asks pid) (\<lambda>process.
     let file = probe_file root process in
     then_act (require (length file < C1PKG_PATH_MAX))
     (then_act (ok (sys_create file 384))
     (on_failure
        (then_act (ok (sys_write file ''1''))
        (then_act (ok sys_touch)
        (then_act (ok sys_touch)
        (ok (sys_unlink file)))))
        (then_act (ignore sys_touch) (ignore (sys_unlink file))))))"

definition c1pkg_storage_state_init_at :: "c1pkg_storage_layout \<Rightarrow> unit act" where
  "c1pkg_storage_state_init_at layout =
     then_act (require (valid_layout layout))
     (bind_act (lift (c1pkg_join (layout_state_root layout) ''cache'')) (\<lambda>cache.
      then_act (c1pkg_mkdir_p (layout_state_root layout) 448)
      (c1pkg_mkdir_p cache 448)))"

definition c1pkg_storage_prepare_at ::
  "device \<Rightarrow> space \<Rightarrow> c1pkg_storage_layout \<Rightarrow> c1pkg_storage_access \<Rightarrow> nat \<Rightarrow> unit act" where
  "c1pkg_storage_prepare_at dev query layout access required_bytes =
     then_act (require (valid_layout layout))
     (then_act (validate_mount dev layout)
     (then_act (if access \<noteq> C1PKG_STORAGE_READ then ensure_storage_directories layout else ret ())
     (then_act (validate_storage_devices dev layout access)
     (if access = C1PKG_STORAGE_WRITE
      then then_act (verify_writable (work_root layout))
                    (require (check_available_space query (work_root layout) required_bytes))
      else ret ()))))"

definition c1pkg_storage_state_init :: "unit act" where
  "c1pkg_storage_state_init = c1pkg_storage_state_init_at default_layout"

definition c1pkg_storage_prepare :: "device \<Rightarrow> space \<Rightarrow> c1pkg_storage_access \<Rightarrow> nat \<Rightarrow> unit act" where
  "c1pkg_storage_prepare dev query access required_bytes =
     c1pkg_storage_prepare_at dev query default_layout access required_bytes"

section \<open>What they touch\<close>

definition on_path :: "string \<Rightarrow> string \<Rightarrow> bool" where
  "on_path path q \<longleftrightarrow> q = path \<or> q \<in> set (mkdir_prefixes path)"

lemma framed_make_or_keep [frames]: "S p \<Longrightarrow> framed S (make_or_keep p m)"
  unfolding make_or_keep_def by (intro frames)

lemma framed_make_all [frames]: "(\<And>p. p \<in> set ps \<Longrightarrow> S p) \<Longrightarrow> framed S (make_all ps m)"
  by (induction ps) (auto intro!: frames)

lemma framed_mkdir_p [frames]: "(\<And>q. on_path p q \<Longrightarrow> S q) \<Longrightarrow> framed S (c1pkg_mkdir_p p m)"
  unfolding c1pkg_mkdir_p_def on_path_def by (intro frames) auto

lemma framed_existing_directory [frames]: "framed S (existing_directory p)"
  unfolding existing_directory_def by (intro frames)

lemma framed_make_directories [frames]:
  "(\<And>d q. d \<in> fst ` set ds \<Longrightarrow> on_path d q \<Longrightarrow> S q) \<Longrightarrow> framed S (make_directories ds)"
  by (induction ds rule: make_directories.induct) (auto intro!: frames)

lemma framed_check_devices [frames]: "framed S (check_devices dev e b ds)"
  by (induction ds) (auto intro!: frames)

lemma framed_validate_mount [frames]: "framed S (validate_mount dev layout)"
  unfolding validate_mount_def by (intro frames)

lemma framed_validate_devices [frames]: "framed S (validate_storage_devices dev layout access)"
  unfolding validate_storage_devices_def by (intro frames)

lemma verify_writable_frame:
  assumes "verify_writable root w = (r, w')"
  shows "touches (\<lambda>q. q = probe_file root (pid w)) w w'"
proof -
  let ?S = "\<lambda>q. q = probe_file root (pid w)"
  let ?m = "let file = probe_file root (pid w) in
     then_act (require (length file < C1PKG_PATH_MAX))
     (then_act (ok (sys_create file 384))
     (on_failure
        (then_act (ok (sys_write file ''1'')) (then_act (ok sys_touch) (then_act (ok sys_touch) (ok (sys_unlink file)))))
        (then_act (ignore sys_touch) (ignore (sys_unlink file)))))"
  have "framed ?S ?m" unfolding Let_def by (intro frames refl)
  moreover have "?m w = (r, w')" using assms by (simp add: verify_writable_def bind_act_def asks_def)
  ultimately show ?thesis by (rule framedD)
qed

section \<open>Success\<close>

lemma existing_success: "existing_directory p w = (Some x, w') \<Longrightarrow> is_dir w p \<and> same_files w w'"
  unfolding existing_directory_def by (auto simp: act_Some is_dir_iff dest!: sys_lstat_success)

lemma check_devices_success:
  "check_devices dev e False ds w = (Some x, w') \<Longrightarrow> same_files w w' \<and> (\<forall>d \<in> set ds. is_dir w d \<and> dev d = e)"
proof (induction ds arbitrary: w)
  case (Cons d ds)
  from Cons.prems obtain v where "existing_directory d w = (Some (), v)" "dev d = e" "check_devices dev e False ds v = (Some x, w')"
    by (auto simp: act_Some)
  note first = existing_success [OF this(1)] and rest = Cons.IH [OF this(3)] and dev = this(2)
  have same: "is_dir v q = is_dir w q" for q unfolding is_dir_def same_files_at [OF conjunct2 [OF first]] ..
  have "same_files w w'" by (rule same_files_trans [OF conjunct2 [OF first] conjunct1 [OF rest]])
  with first rest dev show ?case by (simp add: same)
qed (simp add: act_Some)

lemma verify_writable_success:
  assumes "verify_writable root w = (Some x, w')"
  shows "file_at w (probe_file root (pid w)) = None" "file_at w' (probe_file root (pid w)) = None"
proof -
  let ?f = "probe_file root (pid w)"
  let ?steps = "then_act (ok (sys_write ?f ''1'')) (then_act (ok sys_touch) (then_act (ok sys_touch) (ok (sys_unlink ?f))))"
  have "then_act (ok (sys_create ?f 384)) (on_failure ?steps (then_act (ignore sys_touch) (ignore (sys_unlink ?f)))) w = (Some x, w')"
    using assms by (simp add: verify_writable_def bind_act_def asks_def Let_def then_act_def require_def split: if_splits)
  then obtain v v1 where c: "sys_create ?f 384 w = (Inr (), v)" and u: "sys_unlink ?f v1 = (Inr (), w')"
    unfolding act_Some by auto
  show "file_at w ?f = None" using sys_create_success [OF c] by (rule conjunct1)
  show "file_at w' ?f = None" using sys_unlink_result [OF u] by simp
qed

definition storage_paths :: "c1pkg_storage_layout \<Rightarrow> nat \<Rightarrow> string \<Rightarrow> bool" where
  "storage_paths layout process q \<longleftrightarrow>
     q = probe_file (work_root layout) process \<or> (\<exists>d \<in> fst ` set (storage_directories layout). on_path d q)"

lemma prepare_frame:
  assumes "c1pkg_storage_prepare_at dev query layout access n w = (r, w')"
  shows "touches (\<lambda>q. access \<noteq> C1PKG_STORAGE_READ \<and> storage_paths layout (pid w) q) w w'"
proof -
  let ?S = "\<lambda>q. access \<noteq> C1PKG_STORAGE_READ \<and> storage_paths layout (pid w) q"
  have made: "framed ?S (if access \<noteq> C1PKG_STORAGE_READ then ensure_storage_directories layout else ret ())"
    unfolding ensure_storage_directories_def by (cases "access = C1PKG_STORAGE_READ") (auto intro!: frames simp: storage_paths_def)
  let ?T = "touches ?S w"
  have stable: "stable ?S ?T" by (auto simp: stable_def intro: touches_trans)
  have step: "hoare ?T m (\<lambda>_. ?T) ?T" if "framed ?S m" for m :: "unit act"
    by (rule hoare_keep [OF that stable])
  have probing: "hoare ?T (verify_writable (work_root layout)) (\<lambda>_. ?T) ?T" if "access = C1PKG_STORAGE_WRITE"
    unfolding hoare_def
  proof (intro allI impI)
    fix v r v' assume v: "?T v" and run: "verify_writable (work_root layout) v = (r, v')"
    have "pid v = pid w" using v by (simp add: touches_def same_process_def)
    then have "touches ?S v v'"
      by (intro touches_mono [OF verify_writable_frame [OF run]]) (simp add: storage_paths_def that)
    then have "?T v'" using v by (rule touches_trans [rotated])
    then show "case r of None \<Rightarrow> ?T v' | Some x \<Rightarrow> ?T v'" by (cases r) auto
  qed
  have last_step: "hoare ?T (if access = C1PKG_STORAGE_WRITE then then_act (verify_writable (work_root layout))
      (require (check_available_space query (work_root layout) n)) else ret ()) (\<lambda>_. ?T) ?T"
    using hoare_then [OF probing step [OF framed_require]] step [OF framed_ret] by simp
  have "hoare ?T (c1pkg_storage_prepare_at dev query layout access n) (\<lambda>_. ?T) ?T"
    unfolding c1pkg_storage_prepare_at_def
    by (rule hoare_then [OF step [OF framed_require] hoare_then [OF step [OF framed_validate_mount]
        hoare_then [OF step [OF made] hoare_then [OF step [OF framed_validate_devices] last_step]]]])
  from hoareD [OF this touches_refl assms] show ?thesis by (cases r) auto
qed

lemma prepare_success:
  assumes "c1pkg_storage_prepare_at dev query layout access n w = (Some x, w')"
  shows "is_dir w (mount_root layout) \<and> is_dir w (system_root layout) \<and>
    (require_distinct_mount layout \<longrightarrow> dev (mount_root layout) \<noteq> dev (system_root layout)) \<and>
    (access \<noteq> C1PKG_STORAGE_READ \<longrightarrow>
      (\<forall>d \<in> fst ` set (storage_directories layout). is_dir w' d \<and> dev d = dev (mount_root layout))) \<and>
    (access = C1PKG_STORAGE_WRITE \<longrightarrow> file_at w' (probe_file (work_root layout) (pid w)) = None \<and>
      check_available_space query (work_root layout) n)"
proof -
  let ?probe = "probe_file (work_root layout) (pid w)"
  let ?final = "if access = C1PKG_STORAGE_WRITE
      then then_act (verify_writable (work_root layout)) (require (check_available_space query (work_root layout) n))
      else ret ()"
  obtain v1 v2 v3 where mount: "validate_mount dev layout w = (Some (), v1)"
    and made: "(if access \<noteq> C1PKG_STORAGE_READ then ensure_storage_directories layout else ret ()) v1 = (Some (), v2)"
    and devices: "validate_storage_devices dev layout access v2 = (Some (), v3)" and final: "?final v3 = (Some x, w')"
    using assms unfolding c1pkg_storage_prepare_at_def then_act_Some require_Some by auto
  obtain u where u: "existing_directory (mount_root layout) w = (Some (), u)"
    and u': "existing_directory (system_root layout) u = (Some (), v1)"
    and distinct: "\<not> (require_distinct_mount layout \<and> dev (mount_root layout) = dev (system_root layout))"
    using mount unfolding validate_mount_def then_act_Some require_Some by auto
  note first = existing_success [OF u] and second = existing_success [OF u']
  have same: "is_dir u q = is_dir w q" for q unfolding is_dir_def same_files_at [OF conjunct2 [OF first]] ..
  have "pid v3 = pid w"
  proof -
    have "framed (\<lambda>q. True) (if access \<noteq> C1PKG_STORAGE_READ then ensure_storage_directories layout else ret ())"
      unfolding ensure_storage_directories_def by (intro frames) simp
    from framedD [OF this made] framedD [OF framed_validate_mount mount] framedD [OF framed_validate_devices devices]
    show ?thesis by (simp add: touches_def same_process_def)
  qed
  moreover have "is_dir w' d \<and> dev d = dev (mount_root layout)"
    if "access \<noteq> C1PKG_STORAGE_READ" "d \<in> fst ` set (storage_directories layout)" for d
  proof -
    have "validate_storage_devices dev layout access v2 =
        check_devices dev (dev (mount_root layout)) False (map fst (storage_directories layout)) v2"
      using that(1) by (simp add: validate_storage_devices_def storage_directories_def)
    with check_devices_success devices have "same_files v2 v3"
      "\<forall>d \<in> set (map fst (storage_directories layout)). is_dir v2 d \<and> dev d = dev (mount_root layout)"
      by force+
    with that(2) have d: "is_dir v3 d" "dev d = dev (mount_root layout)" by (auto simp: is_dir_def same_files_at)
    have "is_dir w' d"
    proof (cases "access = C1PKG_STORAGE_WRITE")
      case True
      with final have writable: "verify_writable (work_root layout) v3 = (Some (), w')"
        by (auto simp: then_act_Some require_Some)
      from verify_writable_success(1) [OF this] d(1) have "d \<noteq> probe_file (work_root layout) (pid v3)"
        by (auto simp: is_dir_def)
      with verify_writable_frame [OF writable] d(1) show ?thesis by (simp add: touches_def is_dir_def)
    next
      case False
      with final d(1) show ?thesis by (simp add: ret_def)
    qed
    with d(2) show ?thesis by blast
  qed
  moreover have "file_at w' (probe_file (work_root layout) (pid v3)) = None \<and> check_available_space query (work_root layout) n"
    if "access = C1PKG_STORAGE_WRITE"
    using final that verify_writable_success(2) by (auto simp: then_act_Some require_Some)
  ultimately show ?thesis using first second distinct same by auto
qed

lemma saturating_times:
  assumes "(unit_size :: nat) \<noteq> 0"
  shows "(if free > m div unit_size then m else free * unit_size) = min m (free * unit_size)"
proof -
  have "(free > m div unit_size) = (free * unit_size > m)"
    using less_eq_div_iff_mult_less_eq [of unit_size free m] assms by (metis leD leI neq0_conv)
  then show ?thesis by (simp add: min_def)
qed

lemma saturating_plus: "(k :: nat) \<le> m \<Longrightarrow> (if n > m - k then m else n + k) = min m (n + k)"
  by (auto simp: min_def)

lemma space_exact:
  "check_available_space query path n \<longleftrightarrow> (\<exists>fragment block free. query path = Some (fragment, block, free) \<and>
     (let unit_size = (if fragment \<noteq> 0 then fragment else block)
      in unit_size \<noteq> 0 \<and> min UINT64_MAX (n + C1PKG_STORAGE_RESERVE_BYTES) \<le> min UINT64_MAX (free * unit_size)))"
proof (cases "query path")
  case (Some answer)
  obtain fragment block free where q: "query path = Some (fragment, block, free)" using Some by (cases answer) auto
  define unit_size where "unit_size = (if fragment \<noteq> 0 then fragment else block)"
  have reserve: "C1PKG_STORAGE_RESERVE_BYTES \<le> UINT64_MAX" by (simp add: UINT64_MAX_def C1PKG_STORAGE_RESERVE_BYTES_def)
  have "check_available_space query path n \<longleftrightarrow> unit_size \<noteq> 0 \<and>
      min UINT64_MAX (n + C1PKG_STORAGE_RESERVE_BYTES) \<le> min UINT64_MAX (free * unit_size)"
  proof (cases "unit_size = 0")
    case False
    then show ?thesis
      unfolding check_available_space_def q option.case prod.case Let_def unit_size_def [symmetric]
        saturating_times [OF False] saturating_plus [OF reserve]
      by (simp only: if_False linorder_not_less simp_thms)
  next
    case True
    then show ?thesis
      unfolding check_available_space_def q option.case prod.case Let_def unit_size_def [symmetric] by simp
  qed
  with q show ?thesis by (simp add: Let_def unit_size_def)
qed (simp add: check_available_space_def)

section \<open>A mounted card\<close>

definition example_card :: world where
  "example_card = \<lparr> files = [(''/'', example_dir 1), (C1PKG_STORAGE_MOUNT, example_dir 2)],
     euid = 0, pid = 7, suffix = [], faults = [] \<rparr>"

definition example_device :: device where
  "example_device path = (if take 8 path = C1PKG_STORAGE_MOUNT then 2 else 1)"

definition example_space :: space where
  "example_space path = Some (4096, 4096, 2048)"


lemma example_room: "check_available_space example_space p 4194304 = True"
  by (simp add: check_available_space_def example_space_def UINT64_MAX_def C1PKG_STORAGE_RESERVE_BYTES_def)

lemma example_prepared:
  "fst (c1pkg_storage_prepare_at example_device example_space default_layout C1PKG_STORAGE_WRITE 4194304 example_card) = Some ()"
  unfolding c1pkg_storage_prepare_at_def example_room by code_simp



end
