(* ===== verification/AppLease.thy ===== *)
theory AppLease
  imports Boot
begin

text \<open>
  The leases of external applications, \<open>src/C1ancher/src/platform/app_lease.c\<close>: the run lock that every application
  inherits, the hardware lease, and the mode file that says whether the running application may use the terminal.
  What \<open>flock\<close> answers depends on the other processes and is an argument: the answer to each attempt on a file.
\<close>

definition C1_APP_RUN_PATH :: string where "C1_APP_RUN_PATH = ''/dev/shm/c1ancher-external-app.runlock''"
definition C1_APP_MODE_GUARD_PATH :: string where
  "C1_APP_MODE_GUARD_PATH = ''/dev/shm/c1ancher-external-app.mode-guard''"
definition C1_APP_LEASE_PATH :: string where "C1_APP_LEASE_PATH = ''/dev/shm/c1ancher-external-app.lock''"
definition C1_APP_MODE_PATH :: string where "C1_APP_MODE_PATH = ''/dev/shm/c1ancher-external-app.mode''"

section \<open>Leases\<close>

text \<open>A lock is granted, held by another process (\<open>EWOULDBLOCK\<close>, \<open>EAGAIN\<close>, or the call was interrupted), or
  fails. The attempts on a file are numbered.\<close>

datatype flock_answer = Locked | Would_block | Lock_error

type_synonym flock = "string \<Rightarrow> bool \<Rightarrow> nat \<Rightarrow> flock_answer"

definition sys_flock :: "flock_answer \<Rightarrow> unit sys" where
  "sys_flock answer = faulty (\<lambda>k w. w) (\<lambda>w. (if answer = Locked then Inr () else Inl EOTHER, w))"

definition open_lease :: "string \<Rightarrow> unit act" where
  "open_lease path =
     then_act (require (path \<noteq> []))
     (bind_act (ok (sys_open_lock path)) (\<lambda>information.
      bind_act (asks euid) (\<lambda>user.
      on_failure
        (then_act (ok sys_touch)
        (require (st_kind information = S_IFREG \<and> st_nlink information = 1 \<and> st_uid information = user \<and>
                  st_mode information AND 511 = 384)))
        (ignore sys_touch))))"

definition acquire_at :: "bool \<Rightarrow> flock \<Rightarrow> string \<Rightarrow> unit act" where
  "acquire_at exclusive locks path =
     then_act (open_lease path)
     (on_failure (ok (sys_flock (locks path exclusive 0))) (ignore sys_touch))"

definition c1_app_lease_acquire_at :: "flock \<Rightarrow> string \<Rightarrow> unit act" where
  "c1_app_lease_acquire_at locks path = acquire_at True locks path"

definition c1_app_lease_guard_acquire_at :: "flock \<Rightarrow> string \<Rightarrow> unit act" where
  "c1_app_lease_guard_acquire_at locks path = acquire_at False locks path"

definition c1_app_lease_release :: "unit act" where
  "c1_app_lease_release = ignore sys_touch"

text \<open>An unknown state counts as active.\<close>

definition c1_app_lease_active_at :: "flock \<Rightarrow> string \<Rightarrow> world \<Rightarrow> bool \<times> world" where
  "c1_app_lease_active_at locks path w =
     (case c1_app_lease_guard_acquire_at locks path w of
        (Some _, w') \<Rightarrow> (False, snd (c1_app_lease_release w'))
      | (None, w') \<Rightarrow> (True, w'))"

definition c1_app_run_acquire_at :: "flock \<Rightarrow> string \<Rightarrow> unit act" where
  "c1_app_run_acquire_at locks path = c1_app_lease_acquire_at locks path"

definition c1_app_run_active_at :: "flock \<Rightarrow> string \<Rightarrow> world \<Rightarrow> bool \<times> world" where
  "c1_app_run_active_at locks path = c1_app_lease_active_at locks path"

definition c1_app_run_active :: "flock \<Rightarrow> world \<Rightarrow> bool \<times> world" where
  "c1_app_run_active locks = c1_app_run_active_at locks C1_APP_RUN_PATH"

definition c1_app_lease_acquire :: "flock \<Rightarrow> unit act" where
  "c1_app_lease_acquire locks = c1_app_lease_acquire_at locks C1_APP_LEASE_PATH"

definition c1_app_lease_guard_acquire :: "flock \<Rightarrow> unit act" where
  "c1_app_lease_guard_acquire locks = c1_app_lease_guard_acquire_at locks C1_APP_LEASE_PATH"

definition c1_app_lease_active :: "flock \<Rightarrow> world \<Rightarrow> bool \<times> world" where
  "c1_app_lease_active locks = c1_app_lease_active_at locks C1_APP_LEASE_PATH"

section \<open>The mode file\<close>

primrec guard_attempts :: "(nat \<Rightarrow> flock_answer) \<Rightarrow> nat \<Rightarrow> nat \<Rightarrow> unit act" where
  "guard_attempts answers turn 0 = stop"
| "guard_attempts answers turn (Suc n) =
     (case answers turn of
        Locked \<Rightarrow> ok (sys_flock Locked)
      | Would_block \<Rightarrow> guard_attempts answers (turn + 1) n
      | Lock_error \<Rightarrow> stop)"

definition mode_write_guard :: "flock \<Rightarrow> unit act" where
  "mode_write_guard locks =
     then_act (open_lease C1_APP_MODE_GUARD_PATH)
     (on_failure (guard_attempts (locks C1_APP_MODE_GUARD_PATH True) 0 100) (ignore sys_touch))"

text \<open>Work under a guard whose descriptor is closed at the end, the result of that ignored.\<close>

definition guarded :: "unit act \<Rightarrow> 'a act \<Rightarrow> 'a act" where
  "guarded guard body = then_act guard (closing_quietly body)"

definition c1_app_run_acquire :: "flock \<Rightarrow> unit act" where
  "c1_app_run_acquire locks =
     guarded (then_act (mode_write_guard locks) (ignore sys_touch))
      (then_act (c1_app_run_acquire_at locks C1_APP_RUN_PATH)
      (on_failure
        (bind_act (errno_of (sys_unlink C1_APP_MODE_PATH)) (\<lambda>r. require (r = Inr () \<or> r = Inl ENOENT)))
        (ignore sys_touch)))"

definition sys_truncate :: "string \<Rightarrow> unit sys" where
  "sys_truncate p = faulty (\<lambda>k w. w)
     (\<lambda>w. (Inr (), case file_at w p of None \<Rightarrow> w | Some i \<Rightarrow> put_file p (i\<lparr> st_data := [] \<rparr>) w))"

definition c1_app_lease_write_mode :: "flock \<Rightarrow> string \<Rightarrow> unit act" where
  "c1_app_lease_write_mode locks mode =
     then_act (require (mode = ''terminal'' \<or> mode = ''direct''))
     (guarded (mode_write_guard locks)
       (then_act (open_lease C1_APP_MODE_PATH)
       (closing (then_act (ok (sys_truncate C1_APP_MODE_PATH)) (ok (sys_write C1_APP_MODE_PATH mode))))))"

definition c1_app_lease_clear_mode :: "flock \<Rightarrow> unit act" where
  "c1_app_lease_clear_mode locks =
     guarded (mode_write_guard locks) (ignore (sys_unlink C1_APP_MODE_PATH))"

text \<open>The permission is given when this succeeds. At most 16 bytes are read.\<close>

definition c1_app_lease_terminal_mode :: "flock \<Rightarrow> unit act" where
  "c1_app_lease_terminal_mode locks =
     guarded (c1_app_lease_guard_acquire_at locks C1_APP_MODE_GUARD_PATH)
       (bind_act (ok (sys_open_read C1_APP_MODE_PATH)) (\<lambda>information.
        bind_act (asks euid) (\<lambda>user.
          closing_quietly
            (then_act (ok sys_touch)
            (then_act (require (st_kind information = S_IFREG \<and> st_nlink information = 1 \<and>
                       st_uid information = user \<and> st_mode information AND 511 = 384))
            (then_act (ok sys_touch)
            (require (take 16 (st_data information) = ''terminal''))))))))"

section \<open>Histories of one application\<close>

datatype mode_call = Write_mode flock string | Clear_mode flock | Query_mode flock

fun mode_call_act :: "mode_call \<Rightarrow> unit act" where
  "mode_call_act (Write_mode locks mode) = c1_app_lease_write_mode locks mode"
| "mode_call_act (Clear_mode locks) = c1_app_lease_clear_mode locks"
| "mode_call_act (Query_mode locks) = c1_app_lease_terminal_mode locks"

text \<open>Each call meets its own faults.\<close>

fun mode_calls :: "(outcome list \<times> mode_call) list \<Rightarrow> world \<Rightarrow> world" where
  "mode_calls [] w = w"
| "mode_calls ((fs, c) # cs) w = mode_calls cs (snd (mode_call_act c (w\<lparr> faults := fs \<rparr>)))"

definition ungranted :: "world \<Rightarrow> bool" where
  "ungranted w \<longleftrightarrow> (\<forall>i. file_at w C1_APP_MODE_PATH = Some i \<longrightarrow> prefix (st_data i) ''direct'')"

section \<open>What the calls touch\<close>

lemma framed_open_lock [frames]: "S p \<Longrightarrow> framed S (sys_open_lock p)"
  unfolding sys_open_lock_def
  by (intro framed_faulty) (auto simp: Let_def intro: touches_put split: option.split)

lemma framed_flock [frames]: "framed S (sys_flock a)"
  unfolding sys_flock_def by (intro framed_faulty) auto

lemma framed_open_lease [frames]: "S p \<Longrightarrow> framed S (open_lease p)"
  unfolding open_lease_def by (intro frames)

lemma framed_acquire_at [frames]: "S p \<Longrightarrow> framed S (acquire_at b locks p)"
  unfolding acquire_at_def by (intro frames)

lemma framed_guard_attempts [frames]: "framed S (guard_attempts answers i n)"
  by (induction n arbitrary: i) (auto intro!: frames split: flock_answer.split)

lemma framed_mode_guard [frames]: "S C1_APP_MODE_GUARD_PATH \<Longrightarrow> framed S (mode_write_guard locks)"
  unfolding mode_write_guard_def by (intro frames)

lemma keeps_closing_quietly:
  assumes "keeps P m" and quiet: "stable (\<lambda>q. False) P"
  shows "keeps P (closing_quietly m)"
  unfolding keeps_def hoare_def
proof (intro allI impI)
  fix w r w' assume w: "P w" and run: "closing_quietly m w = (r, w')"
  obtain v where m: "m w = (r, v)" and c: "sys_touch v = (fst (sys_touch v), w')"
    using run by (cases "m w") (auto simp: closing_quietly_def)
  from hoareD [OF assms(1) [unfolded keeps_def] w m] have "P v" by (cases r) auto
  then have "P w'" using stable_same_files [OF quiet sys_touch_success [OF c]] by blast
  then show "case r of None \<Rightarrow> P w' | Some x \<Rightarrow> P w'" by (cases r) auto
qed

lemma keeps_guarded:
  "keeps P g \<Longrightarrow> keeps P m \<Longrightarrow> stable (\<lambda>q. False) P \<Longrightarrow> keeps P (guarded g m)"
  unfolding guarded_def by (intro keeps_then keeps_closing_quietly)

section \<open>No permission without a grant\<close>

lemma stable_ungranted: "\<not> S C1_APP_MODE_PATH \<Longrightarrow> stable S ungranted"
  by (simp add: stable_def touches_def ungranted_def)

lemmas lease_paths = C1_APP_RUN_PATH_def C1_APP_MODE_GUARD_PATH_def C1_APP_MODE_PATH_def

lemma keeps_elsewhere: "framed (\<lambda>q. q \<noteq> C1_APP_MODE_PATH) m \<Longrightarrow> keeps ungranted m"
  by (rule keeps_framed [OF _ stable_ungranted], assumption) simp

lemma keeps_guard: "keeps ungranted (mode_write_guard locks)"
  by (rule keeps_elsewhere, rule framed_mode_guard) (simp add: lease_paths)

lemma keeps_open_mode: "keeps ungranted (ok (sys_open_lock C1_APP_MODE_PATH))"
  unfolding keeps_def hoare_def ok_def sys_open_lock_def faulty_def
  by (auto simp: ungranted_def Let_def split: list.splits outcome.splits option.splits if_splits)

lemma keeps_unlink_mode: "keeps ungranted (ignore (sys_unlink C1_APP_MODE_PATH))"
  unfolding keeps_def hoare_def
proof (intro allI impI)
  fix w r w' assume w: "ungranted w" and "ignore (sys_unlink C1_APP_MODE_PATH) w = (r, w')"
  then obtain s where "r = Some ()" "sys_unlink C1_APP_MODE_PATH w = (s, w')"
    by (cases "sys_unlink C1_APP_MODE_PATH w") (auto simp: ignore_def)
  with w sys_unlink_result [OF this(2)] show "case r of None \<Rightarrow> ungranted w' | Some x \<Rightarrow> ungranted w'"
    by (auto simp: ungranted_def same_files_def)
qed

lemma prefix_take_direct: "prefix (take k ''direct'') ''direct''"
  by (rule take_is_prefix)

lemma keeps_write_direct:
  "keeps ungranted (then_act (ok (sys_truncate C1_APP_MODE_PATH)) (ok (sys_write C1_APP_MODE_PATH ''direct'')))"
proof -
  let ?p = "C1_APP_MODE_PATH"
  have "hoare ungranted (ok (sys_truncate ?p)) (\<lambda>_ w. \<forall>i. file_at w ?p = Some i \<longrightarrow> st_data i = []) ungranted"
    unfolding hoare_def ok_def sys_truncate_def faulty_def
    by (auto simp: ungranted_def split: list.splits outcome.splits option.splits)
  moreover have "hoare (\<lambda>w. \<forall>i. file_at w ?p = Some i \<longrightarrow> st_data i = []) (ok (sys_write ?p ''direct'')) (\<lambda>_. ungranted) ungranted"
    unfolding hoare_def ok_def sys_write_def faulty_def
    by (auto simp: ungranted_def append_data_def prefix_take_direct split: list.splits outcome.splits option.splits)
  ultimately show ?thesis unfolding keeps_def by (rule hoare_then)
qed

lemma keeps_open_lease: "keeps ungranted (open_lease C1_APP_MODE_PATH)"
proof -
  have tail: "framed (\<lambda>q. False) (bind_act (asks euid) (\<lambda>user. on_failure (then_act (ok sys_touch) (require (c user))) (ignore sys_touch)))" for c
    by (intro frames)
  show ?thesis
    unfolding open_lease_def
    by (intro keeps_then keeps_simple keeps_bind keeps_open_mode keeps_framed [OF tail stable_ungranted]) simp
qed

lemma keeps_closing:
  assumes "keeps P m" and quiet: "stable (\<lambda>q. False) P"
  shows "keeps P (closing m)"
  unfolding keeps_def hoare_def
proof (intro allI impI)
  fix w r w' assume w: "P w" and run: "closing m w = (r, w')"
  obtain u v t where m: "m w = (u, v)" and c: "sys_touch v = (t, w')"
    using run by (cases "m w"; cases "sys_touch (snd (m w))") (auto simp: closing_def split: sum.splits)
  from hoareD [OF assms(1) [unfolded keeps_def] w m] have "P v" by (cases u) auto
  then have "P w'" using stable_same_files [OF quiet sys_touch_success [OF c]] by blast
  then show "case r of None \<Rightarrow> P w' | Some x \<Rightarrow> P w'" by (cases r) auto
qed

lemma keeps_write_mode:
  assumes "mode \<noteq> ''terminal''"
  shows "keeps ungranted (c1_app_lease_write_mode locks mode)"
proof (cases "mode = ''direct''")
  case True
  show ?thesis
    unfolding c1_app_lease_write_mode_def True
    by (rule keeps_then [OF keeps_simple(3) keeps_guarded [OF keeps_guard keeps_then [OF keeps_open_lease
          keeps_closing [OF keeps_write_direct]]]]) (simp_all add: stable_ungranted)
next
  case False
  with assms show ?thesis
    by (simp add: c1_app_lease_write_mode_def keeps_def hoare_def then_act_def bind_act_def require_def)
qed

lemma keeps_query: "keeps ungranted (c1_app_lease_terminal_mode locks)"
proof (rule keeps_elsewhere)
  show "framed (\<lambda>q. q \<noteq> C1_APP_MODE_PATH) (c1_app_lease_terminal_mode locks)"
    unfolding c1_app_lease_terminal_mode_def guarded_def
      c1_app_lease_guard_acquire_at_def
    by (intro frames) (simp add: lease_paths)
qed

lemma keeps_clear: "keeps ungranted (c1_app_lease_clear_mode locks)"
  unfolding c1_app_lease_clear_mode_def
  by (intro keeps_guarded keeps_guard keeps_unlink_mode stable_ungranted) simp

lemma keeps_call: "(\<And>locks. c \<noteq> Write_mode locks ''terminal'') \<Longrightarrow> keeps ungranted (mode_call_act c)"
  by (cases c) (auto intro: keeps_write_mode keeps_query keeps_clear)

lemma ungranted_faults [simp]: "ungranted (w\<lparr> faults := fs \<rparr>) = ungranted w"
  by (simp add: ungranted_def)

lemma ungranted_calls:
  "ungranted w \<Longrightarrow> (\<And>fs locks. (fs, Write_mode locks ''terminal'') \<notin> set cs) \<Longrightarrow> ungranted (mode_calls cs w)"
proof (induction cs arbitrary: w)
  case (Cons fc cs)
  obtain fs c where fc: "fc = (fs, c)" by (cases fc)
  have "keeps ungranted (mode_call_act c)" by (rule keeps_call) (use Cons.prems(2) fc in auto)
  then have "ungranted (snd (mode_call_act c (w\<lparr> faults := fs \<rparr>)))"
    using hoareD [of ungranted "mode_call_act c" _ _ "w\<lparr> faults := fs \<rparr>"] Cons.prems(1)
    by (cases "mode_call_act c (w\<lparr> faults := fs \<rparr>)") (fastforce simp: keeps_def split: option.splits)
  with Cons fc show ?case by simp
qed simp

lemma query_refused: "ungranted w \<Longrightarrow> c1_app_lease_terminal_mode locks w \<noteq> (Some (), w')"
proof
  assume u: "ungranted w" and run: "c1_app_lease_terminal_mode locks w = (Some (), w')"
  have "framed (\<lambda>q. q \<noteq> C1_APP_MODE_PATH) (c1_app_lease_guard_acquire_at locks C1_APP_MODE_GUARD_PATH)"
    unfolding c1_app_lease_guard_acquire_at_def by (intro frames) (simp add: lease_paths)
  from run obtain v i v' where g: "c1_app_lease_guard_acquire_at locks C1_APP_MODE_GUARD_PATH w = (Some (), v)"
    and o: "sys_open_read C1_APP_MODE_PATH v = (Inr i, v')" and t: "take 16 (st_data i) = ''terminal''"
    unfolding c1_app_lease_terminal_mode_def guarded_def
    by (fastforce simp: act_Some dest!: closing_quietly_Some)
  from framedD [OF \<open>framed _ _\<close> g] u have "ungranted v" by (simp add: ungranted_def touches_def)
  with sys_open_read_success [OF o] have "prefix (st_data i) ''direct''" by (simp add: ungranted_def)
  then have "length (st_data i) \<le> 6" "prefix (st_data i) ''direct''" using prefix_length_le by fastforce+
  with t show False by simp
qed

lemma closing_quietly_iff:
  "closing_quietly m w = (Some x, w') \<longleftrightarrow> (\<exists>v. m w = (Some x, v) \<and> w' = snd (sys_touch v))"
  by (cases "m w") (auto simp: closing_quietly_def)

lemma errno_of_Some: "errno_of m w = (Some r, w') \<longleftrightarrow> m w = (r, w')"
  by (cases "m w") (auto simp: errno_of_def)

lemma run_acquired:
  assumes "c1_app_run_acquire locks w = (Some (), w')"
  shows "file_at w' C1_APP_MODE_PATH = None"
proof -
  from assms obtain v r v1 where u: "sys_unlink C1_APP_MODE_PATH v = (r, v1)" "r = Inr () \<or> r = Inl ENOENT"
    and q: "w' = snd (sys_touch v1)"
    unfolding c1_app_run_acquire_def guarded_def by (auto simp: act_Some closing_quietly_iff errno_of_Some)
  from sys_unlink_result [OF u(1)] u(2) have "file_at v1 C1_APP_MODE_PATH = None" by (auto simp: same_files_def)
  moreover have "same_files v1 w'" unfolding q by (rule sys_touch_success [OF surjective_pairing])
  ultimately show ?thesis by (simp add: same_files_at)
qed

text \<open>A device on which an application has left its permission behind.\<close>

definition example_leases :: world where
  "example_leases = \<lparr> files = [(''/dev/shm'', \<lparr> st_kind = S_IFDIR, st_mode = 511, st_uid = 0, st_nlink = 1, st_data = [], st_ino = 2 \<rparr>),
     (C1_APP_MODE_PATH, \<lparr> st_kind = S_IFREG, st_mode = 384, st_uid = 0, st_nlink = 1, st_data = ''terminal'', st_ino = 0 \<rparr>)],
     euid = 0, pid = 7, suffix = [], faults = [] \<rparr>"

abbreviation all_free :: flock where "all_free \<equiv> (\<lambda>path exclusive turn. Locked)"

lemma example_acquired: "fst (c1_app_run_acquire all_free example_leases) = Some ()"
  by code_simp

lemma example_granted:
  "fst (c1_app_lease_terminal_mode all_free (snd (c1_app_lease_write_mode all_free ''terminal''
     (snd (c1_app_run_acquire all_free example_leases))))) = Some ()"
  by code_simp

text \<open>C39. No application inherits the permission of the one before. After the run lock is acquired the mode file is
  gone, and through any calls of it, whatever faults they meet and whatever locks others hold, the terminal mode
  is refused as long as no call has granted it: interrupted or failed writes never grant it.\<close>

theorem terminal_needs_grant:
  assumes "c1_app_run_acquire locks w = (Some (), w1)"
    and "\<And>fs locks. (fs, Write_mode locks ''terminal'') \<notin> set cs"
  shows "fst (c1_app_lease_terminal_mode locks' (mode_calls cs w1)) = None"
proof -
  have "ungranted w1" using run_acquired [OF assms(1)] by (simp add: ungranted_def)
  from query_refused [OF ungranted_calls [OF this assms(2)]]
  show ?thesis by (metis option.exhaust old.unit.exhaust surjective_pairing)
qed

theorem terminal_needs_grant_witness:
  "fst (c1_app_lease_terminal_mode all_free (mode_calls [([], Write_mode all_free ''direct''), ([Done, Cut 3], Clear_mode all_free)]
     (snd (c1_app_run_acquire all_free example_leases)))) = None \<and>
   fst (c1_app_lease_terminal_mode all_free (snd (c1_app_lease_write_mode all_free ''terminal''
     (snd (c1_app_run_acquire all_free example_leases))))) = Some ()"
proof -
  have "c1_app_run_acquire all_free example_leases = (Some (), snd (c1_app_run_acquire all_free example_leases))"
    by (rule prod_eqI) (simp_all add: example_acquired)
  from terminal_needs_grant [OF this, of "[([], Write_mode all_free ''direct''), ([Done, Cut 3], Clear_mode all_free)]" all_free]
    example_granted show ?thesis by simp
qed

end
