(* ===== verification/PkgKeep.thy ===== *)
theory PkgKeep
  imports PkgStorage AppLease UpdateIo
begin

text \<open>
  The operations of the package store around a change (\<open>src/C1ancher/src/pkg/store.c\<close>, with \<open>c1pkg_remove_tree\<close> of
  \<open>util.c\<close>): the store lock, the removal of package trees, the collection of abandoned work and old versions, the list
  of installed applications, removal and rollback as they are called. A directory is read as one snapshot of its entries.
\<close>

section \<open>The store lock\<close>

definition STORE_LOCK :: string where "STORE_LOCK = C1PKG_STATE_ROOT @ ''/lock''"

text \<open>An error of the first \<open>lstat\<close> is passed over. The lock is taken with \<open>fcntl\<close>; whether it is granted is an
  argument, as it is for \<open>flock\<close>.\<close>

definition acquire_lock :: "flock \<Rightarrow> unit act" where
  "acquire_lock locks =
     bind_act (asks euid) (\<lambda>user.
     bind_act (errno_of (sys_lstat C1PKG_STATE_ROOT)) (\<lambda>r.
     then_act (require (case r of Inl e \<Rightarrow> True
       | Inr state_info \<Rightarrow> st_kind state_info = S_IFDIR \<and> st_uid state_info = user \<and> st_mode state_info AND 63 = 0))
     (then_act c1pkg_storage_state_init
     (bind_act (lift (c1pkg_join C1PKG_STATE_ROOT ''lock'')) (\<lambda>lock_path.
      bind_act (ok (sys_open_lock lock_path)) (\<lambda>lock_info.
      on_failure
        (then_act (ok sys_touch)
        (then_act (require (st_kind lock_info = S_IFREG \<and> st_nlink lock_info = 1 \<and> st_uid lock_info = user \<and>
                            st_mode lock_info AND 511 = 384))
        (then_act (ok (sys_flock (locks lock_path True 0)))
        recover_transaction)))
        (ignore sys_touch)))))))"

definition release_lock :: "unit act" where
  "release_lock = ignore sys_touch"

text \<open>Work under the lock, which is released however the work ends.\<close>

definition with_store_lock :: "flock \<Rightarrow> 'a act \<Rightarrow> 'a act" where
  "with_store_lock locks m = then_act (acquire_lock locks) (closing_quietly m)"

section \<open>Removing trees\<close>

definition sys_read_directory :: "string \<Rightarrow> string list sys" where
  "sys_read_directory p = faulty (\<lambda>k w. w)
     (\<lambda>w. (case file_at w p of
             None \<Rightarrow> Inl ENOENT
           | Some i \<Rightarrow> if st_kind i = S_IFDIR then Inr (child_names w p) else Inl EOTHER, w))"

text \<open>The recursion carries fuel: every level lengthens the path, which is bounded (\<open>package_tree_fuel\<close>).\<close>

primrec pkg_remove_tree :: "nat \<Rightarrow> string \<Rightarrow> unit act" where
  "pkg_remove_tree 0 path = stop"
| "pkg_remove_tree (Suc n) path =
     bind_act (probe path) (\<lambda>found.
     case found of
       None \<Rightarrow> ret ()
     | Some information \<Rightarrow>
         if st_kind information \<noteq> S_IFDIR then ok (sys_unlink path)
         else
           bind_act (ok (sys_read_directory path)) (\<lambda>names.
           then_act
             (on_failure
                (for_each (\<lambda>name.
                   if name = ''.'' \<or> name = ''..'' then ret ()
                   else bind_act (lift (c1pkg_join path name)) (\<lambda>child. pkg_remove_tree n child)) names)
                (ignore sys_touch))
           (then_act (ok sys_touch) (ok (sys_rmdir path)))))"

definition c1pkg_remove_tree :: "string \<Rightarrow> unit act" where
  "c1pkg_remove_tree path = pkg_remove_tree (Suc C1PKG_PATH_MAX) path"

text \<open>Installed directories are sealed: each is made writable before it is emptied.\<close>

primrec package_tree :: "nat \<Rightarrow> string \<Rightarrow> unit act" where
  "package_tree 0 root = stop"
| "package_tree (Suc n) root =
     bind_act (probe root) (\<lambda>found.
     case found of
       None \<Rightarrow> ret ()
     | Some info \<Rightarrow>
         if st_kind info \<noteq> S_IFDIR then c1pkg_remove_tree root
         else
           bind_act (asks euid) (\<lambda>user.
           then_act (require (st_uid info = user))
           (then_act (ok (sys_chmod root 448))
           (bind_act (ok (sys_read_directory root)) (\<lambda>names.
            then_act
              (on_failure
                 (for_each (\<lambda>name.
                    if name = ''.'' \<or> name = ''..'' then ret ()
                    else bind_act (lift (c1pkg_join root name)) (\<lambda>child. package_tree n child)) names)
                 (ignore sys_touch))
            (then_act (ignore sys_touch) (ok (sys_rmdir root))))))))"

definition remove_package_tree :: "string \<Rightarrow> unit act" where
  "remove_package_tree root = package_tree (Suc C1PKG_PATH_MAX) root"

section \<open>Collecting abandoned work\<close>

definition cleanup_work_directory :: "string \<Rightarrow> unit act" where
  "cleanup_work_directory root =
     ignore (bind_act (ok (sys_read_directory root)) (\<lambda>names.
       then_act
         (for_each (\<lambda>name.
            if name = ''.'' \<or> name = ''..'' \<or> \<not> c1pkg_safe_relpath name then ret ()
            else ignore (bind_act (lift (c1pkg_join root name)) remove_package_tree)) names)
       (ignore sys_touch)))"

text \<open>The versions of one application that neither pointer designates; \<open>stale\<close> gives the error number that earlier
  calls have left when a pointer of an application is read (see \<open>read_link_value\<close>).\<close>

type_synonym stale_errno = "string \<Rightarrow> string \<Rightarrow> errno"

definition cleanup_versions :: "(string \<Rightarrow> errno) \<Rightarrow> string \<Rightarrow> unit act" where
  "cleanup_versions stale name =
     then_act (require (c1pkg_safe_id name))
     (bind_act (lift (c1pkg_join C1PKG_APPS_ROOT name)) (\<lambda>app.
      then_act (trusted_directory app)
      (bind_act (pointer_version (stale ''current'') app ''current'') (\<lambda>current.
       then_act (require (current \<noteq> []))
       (bind_act (pointer_version (stale ''previous'') app ''previous'') (\<lambda>previous.
        bind_act (lift (c1pkg_join app ''versions'')) (\<lambda>versions.
        then_act (trusted_directory versions)
        (bind_act (ok (sys_read_directory versions)) (\<lambda>names.
         then_act
           (for_each (\<lambda>version.
              if \<not> c1pkg_safe_version version \<or> version = current \<or> version = previous then ret ()
              else ignore (bind_act (lift (c1pkg_join versions version)) remove_package_tree)) names)
         (then_act (ignore sys_touch) (ignore (c1pkg_sync_directory versions))))))))))))"

definition cleanup_abandoned_work :: "flock \<Rightarrow> stale_errno \<Rightarrow> unit act" where
  "cleanup_abandoned_work locks stale =
     ignore (then_act (c1_app_run_acquire locks)
      (then_act (cleanup_work_directory C1PKG_STAGING_ROOT)
      (then_act (cleanup_work_directory C1PKG_TRASH_ROOT)
      (then_act
        (ignore (bind_act (ok (sys_read_directory C1PKG_APPS_ROOT)) (\<lambda>names.
           then_act (for_each (\<lambda>name. ignore (cleanup_versions (stale name) name)) names) (ignore sys_touch))))
      c1_app_lease_release))))"

section \<open>The operations\<close>

definition c1pkg_store_init :: "device \<Rightarrow> space \<Rightarrow> flock \<Rightarrow> stale_errno \<Rightarrow> unit act" where
  "c1pkg_store_init dev query locks stale =
     then_act (c1pkg_storage_prepare dev query C1PKG_STORAGE_MAINTENANCE 0)
     (with_store_lock locks (cleanup_abandoned_work locks stale))"

definition current_version :: "string \<Rightarrow> string act" where
  "current_version ident =
     then_act (require (c1pkg_safe_id ident))
     (bind_act (lift (c1pkg_join C1PKG_APPS_ROOT ident)) (\<lambda>app.
      bind_act (lift (c1pkg_join app ''current'')) (\<lambda>current.
      bind_act (ok (read_link_value EOTHER current)) (\<lambda>target.
      bind_act (lift (version_target target)) (\<lambda>version.
      then_act (require (length version < C1PKG_VERSION_MAX + 1)) (ret version))))))"

fun list_installed :: "c1pkg_installed list \<Rightarrow> string list \<Rightarrow> c1pkg_installed list act" where
  "list_installed items [] = ret items"
| "list_installed items (name # names) =
     (if \<not> c1pkg_safe_id name then list_installed items names
      else if length items \<ge> C1PKG_MAX_PACKAGES then stop
      else bind_act (attempt (current_version name)) (\<lambda>r.
        case r of
          None \<Rightarrow> list_installed items names
        | Some version \<Rightarrow> list_installed (items @ [\<lparr> inst_id = name, inst_version = version \<rparr>]) names))"

definition c1pkg_store_list :: "device \<Rightarrow> space \<Rightarrow> flock \<Rightarrow> c1pkg_installed list act" where
  "c1pkg_store_list dev query locks =
     then_act (c1pkg_storage_prepare dev query C1PKG_STORAGE_READ 0)
     (with_store_lock locks
       (bind_act (errno_of (sys_read_directory C1PKG_APPS_ROOT)) (\<lambda>r.
          case r of
            Inl e \<Rightarrow> if e = ENOENT then ret [] else stop
          | Inr names \<Rightarrow>
              bind_act (closing_quietly (list_installed [] names)) (\<lambda>items. ret (sort_key inst_id items)))))"

definition c1pkg_store_is_installed :: "c1pkg_installed list \<Rightarrow> string \<Rightarrow> string option" where
  "c1pkg_store_is_installed items ident = map_option inst_version (find (\<lambda>i. inst_id i = ident) items)"

definition trash_name :: "string \<Rightarrow> nat \<Rightarrow> nat \<Rightarrow> string" where
  "trash_name ident now process = C1PKG_TRASH_ROOT @ ''/'' @ ident @ ''.'' @ dec now @ ''.'' @ dec process"

text \<open>The caller may own the run lock already; its descriptor is then duplicated. \<open>now\<close> is the wall clock, not
  before 1970.\<close>

definition c1pkg_store_remove_with_run_lock ::
  "device \<Rightarrow> space \<Rightarrow> flock \<Rightarrow> stale_errno \<Rightarrow> nat \<Rightarrow> string \<Rightarrow> bool \<Rightarrow> unit act" where
  "c1pkg_store_remove_with_run_lock dev query locks stale now ident owned_run_lock =
     then_act (require (c1pkg_safe_id ident))
     (then_act (c1pkg_storage_prepare dev query C1PKG_STORAGE_MAINTENANCE 0)
     (with_store_lock locks
       (then_act (cleanup_abandoned_work locks stale)
       (then_act (if owned_run_lock then ok sys_touch else c1_app_run_acquire locks)
       (closing_quietly
         (bind_act (lift (c1pkg_join C1PKG_APPS_ROOT ident)) (\<lambda>app.
          bind_act (asks pid) (\<lambda>process.
          let trash = take (C1PKG_PATH_MAX - 1) (trash_name ident now process) in
          then_act (ok (sys_rename app trash))
          (then_act (c1pkg_sync_directory C1PKG_APPS_ROOT)
          (then_act (c1pkg_sync_directory C1PKG_TRASH_ROOT)
          (ignore (remove_package_tree trash))))))))))))"

definition c1pkg_store_remove :: "device \<Rightarrow> space \<Rightarrow> flock \<Rightarrow> stale_errno \<Rightarrow> nat \<Rightarrow> string \<Rightarrow> unit act" where
  "c1pkg_store_remove dev query locks stale now ident =
     c1pkg_store_remove_with_run_lock dev query locks stale now ident False"

definition c1pkg_store_rollback :: "device \<Rightarrow> space \<Rightarrow> flock \<Rightarrow> stale_errno \<Rightarrow> string \<Rightarrow> unit act" where
  "c1pkg_store_rollback dev query locks stale ident =
     then_act (require (c1pkg_safe_id ident))
     (then_act (c1pkg_storage_prepare dev query C1PKG_STORAGE_MAINTENANCE 0)
     (with_store_lock locks
       (then_act (cleanup_abandoned_work locks stale) (rollback_version ident))))"

section \<open>Removal ends\<close>

lemma read_directory_cong:
  assumes "\<And>names. [] \<notin> set names \<Longrightarrow> f names = g names"
  shows "bind_act (ok (sys_read_directory p)) f = bind_act (ok (sys_read_directory p)) g"
proof
  fix w
  have "[] \<notin> set names" if "sys_read_directory p w = (Inr names, v)" for names v
    using that unfolding sys_read_directory_def
    by (auto dest!: faulty_Inr simp: child_names_def split: option.splits if_splits)
  with assms show "bind_act (ok (sys_read_directory p)) f w = bind_act (ok (sys_read_directory p)) g w"
    by (cases "sys_read_directory p w") (auto simp: bind_act_def ok_def split: sum.split)
qed

lemma children_cong:
  assumes "\<And>c. length p < length c \<Longrightarrow> length c < C1PKG_PATH_MAX \<Longrightarrow> f c = g c" and "[] \<notin> set names"
  shows "for_each (\<lambda>name. if name = ''.'' \<or> name = ''..'' then ret () else bind_act (lift (c1pkg_join p name)) f) names =
    for_each (\<lambda>name. if name = ''.'' \<or> name = ''..'' then ret () else bind_act (lift (c1pkg_join p name)) g) names"
proof (rule for_each_cong)
  fix name assume "name \<in> set names"
  with assms(2) have "0 < length name" by auto
  then have "bind_act (lift (c1pkg_join p name)) f = bind_act (lift (c1pkg_join p name)) g"
    by (intro bind_lift_cong assms(1)) (auto simp: c1pkg_join_def Let_def split: if_splits)
  then show "(if name = ''.'' \<or> name = ''..'' then ret () else bind_act (lift (c1pkg_join p name)) f) =
    (if name = ''.'' \<or> name = ''..'' then ret () else bind_act (lift (c1pkg_join p name)) g)" by simp
qed

text \<open>Every level lengthens the path, so more fuel than the longest path changes nothing.\<close>

lemma package_tree_fuel:
  assumes "C1PKG_PATH_MAX < n + length p" "C1PKG_PATH_MAX < m + length p" "0 < n" "0 < m"
  shows "pkg_remove_tree n p = pkg_remove_tree m p \<and> package_tree n p = package_tree m p"
  using assms
proof (induction n arbitrary: m p)
  case (Suc n)
  then obtain k where m: "m = Suc k" by (cases m) auto
  have "pkg_remove_tree n c = pkg_remove_tree k c \<and> package_tree n c = package_tree k c"
    if "length p < length c" "length c < C1PKG_PATH_MAX" for c
    using that Suc.prems m by (intro Suc.IH) auto
  then have children: "for_each (\<lambda>name. if name = ''.'' \<or> name = ''..'' then ret ()
        else bind_act (lift (c1pkg_join p name)) (pkg_remove_tree n)) names =
      for_each (\<lambda>name. if name = ''.'' \<or> name = ''..'' then ret ()
        else bind_act (lift (c1pkg_join p name)) (pkg_remove_tree k)) names"
    "for_each (\<lambda>name. if name = ''.'' \<or> name = ''..'' then ret ()
        else bind_act (lift (c1pkg_join p name)) (package_tree n)) names =
      for_each (\<lambda>name. if name = ''.'' \<or> name = ''..'' then ret ()
        else bind_act (lift (c1pkg_join p name)) (package_tree k)) names"
    if "[] \<notin> set names" for names
    using that by (intro children_cong; blast)+
  have listing: "bind_act (ok (sys_read_directory p)) (\<lambda>names. then_act (on_failure (for_each f names) h) t) =
      bind_act (ok (sys_read_directory p)) (\<lambda>names. then_act (on_failure (for_each g names) h) t)"
    if "\<And>names. [] \<notin> set names \<Longrightarrow> for_each f names = for_each g names" for f g h t
    by (rule read_directory_cong) (simp add: that)
  show ?case
    unfolding m pkg_remove_tree.simps package_tree.simps
    by (simp add: listing [OF children(1)] listing [OF children(2)] cong: if_cong option.case_cong)
qed simp

section \<open>What they touch\<close>

definition within :: "string \<Rightarrow> string \<Rightarrow> bool" where
  "within p q \<longleftrightarrow> q = p \<or> prefix (slash p) q"

lemma pkg_join_Some: "c1pkg_join l r = Some c \<Longrightarrow> l \<noteq> [] \<Longrightarrow> c = slash l @ r \<and> length c < C1PKG_PATH_MAX"
  by (auto simp: c1pkg_join_def slash_def Let_def split: if_splits)

lemma within_child: "within (slash p @ n) q \<Longrightarrow> within p q"
proof -
  assume "within (slash p @ n) q"
  then have "prefix (slash p) q"
    unfolding within_def using prefix_slash [of "slash p" "slash p @ n" "[]"] prefix_order.order_trans by auto
  then show ?thesis by (simp add: within_def)
qed

lemma framed_read_directory [frames]: "framed S (sys_read_directory p)"
  unfolding sys_read_directory_def by (intro framed_faulty) auto

lemma framed_lift_bind_child:
  assumes "p \<noteq> []" and "framed S (k (slash p @ n))"
  shows "framed S (bind_act (lift (c1pkg_join p n)) k)"
  using pkg_join_Some [OF _ assms(1)] assms(2) framed_stop
  by (cases "c1pkg_join p n") (auto simp: bind_act_def lift_def framed_def)

lemma slash_not_empty: "p \<noteq> [] \<Longrightarrow> slash p @ n \<noteq> []"
  by (simp add: slash_def)

lemma framed_pkg_tree: "p \<noteq> [] \<Longrightarrow> (\<And>q. within p q \<Longrightarrow> S q) \<Longrightarrow> framed S (pkg_remove_tree n p)"
proof (induction n arbitrary: p)
  case 0
  then show ?case by (simp add: framed_stop)
next
  case (Suc n)
  have here: "S p" using Suc.prems(2) by (simp add: within_def)
  have child: "framed S (bind_act (lift (c1pkg_join p name)) (pkg_remove_tree n))" for name
    by (intro framed_lift_bind_child Suc.IH slash_not_empty Suc.prems(1)) (blast intro: Suc.prems(2) within_child)
  show ?case
    unfolding pkg_remove_tree.simps by (intro frames child here)
qed

lemma framed_package_tree: "p \<noteq> [] \<Longrightarrow> (\<And>q. within p q \<Longrightarrow> S q) \<Longrightarrow> framed S (package_tree n p)"
proof (induction n arbitrary: p)
  case 0
  then show ?case by (simp add: framed_stop)
next
  case (Suc n)
  have here: "S p" using Suc.prems(2) by (simp add: within_def)
  have child: "framed S (bind_act (lift (c1pkg_join p name)) (package_tree n))" for name
    by (intro framed_lift_bind_child Suc.IH slash_not_empty Suc.prems(1)) (blast intro: Suc.prems(2) within_child)
  have plain: "framed S (c1pkg_remove_tree p)"
    unfolding c1pkg_remove_tree_def by (rule framed_pkg_tree [OF Suc.prems])
  show ?case
    unfolding package_tree.simps by (intro frames child here plain)
qed

lemma framed_remove_package [frames]: "p \<noteq> [] \<Longrightarrow> (\<And>q. within p q \<Longrightarrow> S q) \<Longrightarrow> framed S (remove_package_tree p)"
  unfolding remove_package_tree_def by (rule framed_package_tree)

lemma framed_cleanup_work [frames]:
  assumes "root \<noteq> []" and "\<And>q. within root q \<Longrightarrow> S q"
  shows "framed S (cleanup_work_directory root)"
proof -
  have child: "framed S (bind_act (lift (c1pkg_join root name)) remove_package_tree)" for name
    by (intro framed_lift_bind_child framed_remove_package slash_not_empty assms(1)) (blast intro: assms(2) within_child)
  show ?thesis unfolding cleanup_work_directory_def by (intro frames child)
qed

lemma framed_guarded [frames]: "framed S g \<Longrightarrow> framed S m \<Longrightarrow> framed S (guarded g m)"
  unfolding guarded_def by (intro frames)

definition lease_file :: "string \<Rightarrow> bool" where
  "lease_file q \<longleftrightarrow> q = C1_APP_RUN_PATH \<or> q = C1_APP_MODE_GUARD_PATH \<or> q = C1_APP_MODE_PATH"

lemma framed_run_acquire [frames]: "(\<And>q. lease_file q \<Longrightarrow> S q) \<Longrightarrow> framed S (c1_app_run_acquire locks)"
  unfolding c1_app_run_acquire_def c1_app_run_acquire_at_def c1_app_lease_acquire_at_def
  by (intro frames) (simp_all add: lease_file_def)

section \<open>Only abandoned versions are removed\<close>

text \<open>A version of an application that is neither the current one nor the previous one, the current one being known.\<close>

definition abandoned :: "world \<Rightarrow> string \<Rightarrow> string \<Rightarrow> bool" where
  "abandoned w ident v \<longleftrightarrow> c1pkg_safe_id ident \<and> c1pkg_safe_version v \<and>
     (\<exists>c. c1pkg_safe_version c \<and> points w (pkg_link ident ''current'') c \<and> v \<noteq> c) \<and>
     \<not> points w (pkg_link ident ''previous'') v"

definition collectable :: "world \<Rightarrow> string \<Rightarrow> bool" where
  "collectable w q \<longleftrightarrow> lease_file q \<or> within C1PKG_STAGING_ROOT q \<or> within C1PKG_TRASH_ROOT q \<or>
     (\<exists>ident v. abandoned w ident v \<and> within (pkg_place ident v) q)"

lemma slash_free_head: "CHR ''/'' \<notin> set a \<Longrightarrow> CHR ''/'' \<notin> set b \<Longrightarrow> a @ CHR ''/'' # x = b @ CHR ''/'' # y \<Longrightarrow> a = b \<and> x = y"
  by (induction a arbitrary: b) (case_tac b; auto)+

lemma link_outside_place:
  assumes "CHR ''/'' \<notin> set ident" "CHR ''/'' \<notin> set ident'" "v \<noteq> []" "pointer_name name"
  shows "\<not> within (pkg_place ident' v) (pkg_link ident name)"
proof
  assume "within (pkg_place ident' v) (pkg_link ident name)"
  then obtain z where "pkg_link ident name = pkg_place ident' v @ z"
    by (auto simp: within_def slash_def prefix_def)
  then have "ident @ CHR ''/'' # name = ident' @ CHR ''/'' # ''versions/'' @ v @ z"
    by (simp add: pkg_link_def pkg_place_def pkg_app_def)
  from slash_free_head [OF assms(1,2) this] assms(4) show False by (auto simp: pointer_name_def)
qed

lemma link_not_collectable:
  assumes "c1pkg_safe_id ident" and "pointer_name name"
  shows "\<not> collectable w (pkg_link ident name)"
proof -
  have "CHR ''/'' \<notin> set ident" using safe_id_facts [OF assms(1)] by blast
  then have "\<not> within (pkg_place ident' v) (pkg_link ident name)" if "abandoned w ident' v" for ident' v
    using that safe_id_facts [of ident'] safe_version_facts [of v] assms(2) by (intro link_outside_place) (auto simp: abandoned_def)
  moreover have "\<not> lease_file (pkg_link ident name)" by (simp add: lease_file_def lease_paths pkg_paths)
  moreover have "\<not> within C1PKG_STAGING_ROOT (pkg_link ident name)" "\<not> within C1PKG_TRASH_ROOT (pkg_link ident name)"
    by (simp_all add: within_def slash_def C1PKG_STAGING_ROOT_def C1PKG_TRASH_ROOT_def pkg_paths prefix_def)
  ultimately show ?thesis by (auto simp: collectable_def)
qed

lemma pointer_version_reads:
  assumes run: "pointer_version e (pkg_app ident) name w = (Some y, w')"
    and names: "c1pkg_safe_id ident" "pointer_name name"
  shows "y \<noteq> [] \<Longrightarrow> c1pkg_safe_version y \<and> points w (pkg_link ident name) y"
    and "c1pkg_safe_version x \<Longrightarrow> points w (pkg_link ident name) x \<Longrightarrow> y = x"
proof -
  have joined: "c1pkg_join (pkg_app ident) name = Some (pkg_link ident name)"
    using names(2) joins(2) [OF names(1)] by (auto simp: pointer_name_def)
  show "c1pkg_safe_version y \<and> points w (pkg_link ident name) y" if y: "y \<noteq> []"
  proof -
    obtain t v where t: "read_link_value e (pkg_link ident name) w = (Inr t, v)" "version_target t = Some y"
      using run joined y
      by (auto simp: pointer_version_def bind_act_def errno_of_def ret_def stop_def lift_def
          split: prod.splits sum.splits option.splits if_splits)
    from t(1) have "sys_readlink (pkg_link ident name) w = (Inr t, v)"
      by (auto simp: read_link_value_def split: prod.splits sum.splits if_splits)
    note link = sys_readlink_success [OF this]
    have "take 9 t = ''versions/''" "y = drop 9 t" "c1pkg_safe_version y"
      using t(2) by (auto simp: version_target_def split: if_splits)
    with link y show ?thesis using append_take_drop_id [of 9 t] by (auto simp: points_def)
  qed
  show "y = x" if "c1pkg_safe_version x" "points w (pkg_link ident name) x"
  proof -
    have "stable (\<lambda>q. False) (\<lambda>w. points w (pkg_link ident name) x)" by (rule stable_parts(4)) simp
    from hoareD [OF hoare_reads_pointer [OF this names disjI2 [OF that(1)]] that(2) run] show ?thesis by simp
  qed
qed

text \<open>Collecting from any state reached from \<open>w\<close> keeps to what was collectable in \<open>w\<close>.\<close>

lemma collected_stable: "stable (collectable w) (touches (collectable w) w)"
  by (auto simp: stable_def intro: touches_trans)

abbreviation collects :: "world \<Rightarrow> 'a act \<Rightarrow> bool" where
  "collects w m \<equiv> keeps (touches (collectable w) w) m"

lemma collects_framed: "framed (collectable w) m \<Longrightarrow> collects w m"
  by (rule keeps_framed [OF _ collected_stable])

lemma keeps_ignored: "keeps P m \<Longrightarrow> keeps P (ignore m)"
  unfolding keeps_def hoare_def
proof (intro allI impI)
  fix w r w' assume m: "\<forall>w r w'. P w \<longrightarrow> m w = (r, w') \<longrightarrow> (case r of None \<Rightarrow> P w' | Some _ \<Rightarrow> P w')"
    and w: "P w" and run: "ignore m w = (r, w')"
  obtain s where s: "m w = (s, w')" "r = Some ()" using run by (cases "m w") (auto simp: ignore_def)
  with m w have "case s of None \<Rightarrow> P w' | Some _ \<Rightarrow> P w'" by blast
  with s show "case r of None \<Rightarrow> P w' | Some _ \<Rightarrow> P w'" by (cases s) auto
qed

lemma keeps_for_each: "(\<And>x. keeps P (f x)) \<Longrightarrow> keeps P (for_each f xs)"
  by (induction xs) (auto intro: keeps_simple keeps_then)

lemma versions_collected:
  assumes "c1pkg_safe_id ident" and "c1pkg_safe_version current" "points w (pkg_link ident ''current'') current"
    and "\<And>v. c1pkg_safe_version v \<Longrightarrow> v \<noteq> previous \<Longrightarrow> \<not> points w (pkg_link ident ''previous'') v"
  shows "framed (collectable w) (for_each (\<lambda>version.
      if \<not> c1pkg_safe_version version \<or> version = current \<or> version = previous then ret ()
      else ignore (bind_act (lift (c1pkg_join (pkg_versions ident) version)) remove_package_tree)) names)"
proof (intro framed_for_each)
  fix v
  have "framed (collectable w) (bind_act (lift (c1pkg_join (pkg_versions ident) v)) remove_package_tree)"
    if "c1pkg_safe_version v" "v \<noteq> current" "v \<noteq> previous"
  proof -
    have "abandoned w ident v" using that assms by (auto simp: abandoned_def)
    moreover have "c1pkg_join (pkg_versions ident) v = Some (pkg_place ident v)" by (rule joins(3) [OF assms(1) that(1)])
    moreover have "pkg_place ident v \<noteq> []" by (simp add: pkg_paths)
    ultimately show ?thesis by (auto intro!: framed_remove_package simp: collectable_def)
  qed
  then show "framed (collectable w) (if \<not> c1pkg_safe_version v \<or> v = current \<or> v = previous then ret ()
      else ignore (bind_act (lift (c1pkg_join (pkg_versions ident) v)) remove_package_tree))"
    by (auto intro: framed_ret framed_ignore)
qed

lemma touches_points:
  assumes "touches (collectable w) w v" and "c1pkg_safe_id ident" "pointer_name name"
  shows "points v (pkg_link ident name) x = points w (pkg_link ident name) x"
  using assms link_not_collectable [OF assms(2,3)] by (simp add: points_def touches_def)

lemma cleanup_versions_collects: "collects w (cleanup_versions stale name)"
proof (cases "c1pkg_safe_id name")
  case False
  then show ?thesis by (simp add: cleanup_versions_def keeps_def hoare_def then_act_def bind_act_def require_def)
next
  case safe: True
  let ?T = "touches (collectable w) w"
  have joined: "c1pkg_join C1PKG_APPS_ROOT name = Some (pkg_app name)"
    "c1pkg_join (pkg_app name) ''versions'' = Some (pkg_versions name)"
    by (rule joins [OF safe], simp?)+
  have names: "pointer_name ''current''" "pointer_name ''previous''" by (simp_all add: pointer_name_def)
  have quiet: "hoare ?T m (\<lambda>_. ?T) ?T" if "framed (\<lambda>q. False) m" for m :: "'a act"
    by (rule hoare_keep [OF framed_mono [OF that] collected_stable]) simp
  have reads: "hoare ?T (pointer_version e (pkg_app name) p)
      (\<lambda>y v. ?T v \<and> (y \<noteq> [] \<longrightarrow> c1pkg_safe_version y \<and> points w (pkg_link name p) y) \<and>
        (\<forall>x. c1pkg_safe_version x \<longrightarrow> points w (pkg_link name p) x \<longrightarrow> y = x)) ?T" if p: "pointer_name p" for e p
  proof (rule hoare_stable [OF framed_mono [OF framed_pointer_version [of "\<lambda>q. False"]] collected_stable])
    show "(y \<noteq> [] \<longrightarrow> c1pkg_safe_version y \<and> points w (pkg_link name p) y) \<and>
        (\<forall>x. c1pkg_safe_version x \<longrightarrow> points w (pkg_link name p) x \<longrightarrow> y = x)"
      if "?T v" "pointer_version e (pkg_app name) p v = (Some y, v')" for v y v'
      using pointer_version_reads [OF that(2) safe p] touches_points [OF that(1) safe p] by blast
  qed simp
  have sweep: "hoare ?T (then_act (trusted_directory (pkg_versions name))
      (bind_act (ok (sys_read_directory (pkg_versions name))) (\<lambda>names.
       then_act (for_each (\<lambda>version.
            if \<not> c1pkg_safe_version version \<or> version = c \<or> version = p then ret ()
            else ignore (bind_act (lift (c1pkg_join (pkg_versions name) version)) remove_package_tree)) names)
       (then_act (ignore sys_touch) (ignore (c1pkg_sync_directory (pkg_versions name))))))) (\<lambda>_. ?T) ?T"
    if "c1pkg_safe_version c" "points w (pkg_link name ''current'') c"
      "\<forall>x. c1pkg_safe_version x \<longrightarrow> points w (pkg_link name ''previous'') x \<longrightarrow> p = x" for c p
  proof (rule hoare_keep [OF _ collected_stable], intro framed_then framed_bind)
    show "framed (collectable w) (for_each (\<lambda>version.
            if \<not> c1pkg_safe_version version \<or> version = c \<or> version = p then ret ()
            else ignore (bind_act (lift (c1pkg_join (pkg_versions name) version)) remove_package_tree)) names)" for names
      by (rule versions_collected [OF safe that(1,2)]) (use that(3) in blast)
  qed (intro frames framed_trusted_directory framed_pkg_sync)+
  show ?thesis
    unfolding keeps_def cleanup_versions_def joined bind_lift
  proof (rule hoare_then [OF quiet [OF framed_require]], rule hoare_then [OF quiet [OF framed_trusted_directory]],
      rule hoare_bind [OF reads [OF names(1)]], rule hoare_pure)
    fix c assume c: "(c \<noteq> [] \<longrightarrow> c1pkg_safe_version c \<and> points w (pkg_link name ''current'') c) \<and>
        (\<forall>x. c1pkg_safe_version x \<longrightarrow> points w (pkg_link name ''current'') x \<longrightarrow> c = x)"
    show "hoare ?T (then_act (require (c \<noteq> [])) (bind_act (pointer_version (stale ''previous'') (pkg_app name) ''previous'') (\<lambda>p.
       then_act (trusted_directory (pkg_versions name))
      (bind_act (ok (sys_read_directory (pkg_versions name))) (\<lambda>names.
       then_act (for_each (\<lambda>version.
            if \<not> c1pkg_safe_version version \<or> version = c \<or> version = p then ret ()
            else ignore (bind_act (lift (c1pkg_join (pkg_versions name) version)) remove_package_tree)) names)
       (then_act (ignore sys_touch) (ignore (c1pkg_sync_directory (pkg_versions name))))))))) (\<lambda>_. ?T) ?T"
    proof (cases "c = []")
      case True
      then show ?thesis by (simp add: hoare_def then_act_def bind_act_def require_def)
    next
      case False
      with c have c: "c1pkg_safe_version c" "points w (pkg_link name ''current'') c" by simp_all
      show ?thesis
        by (rule hoare_then [OF quiet [OF framed_require]], rule hoare_bind [OF reads [OF names(2)]], rule hoare_pure,
            rule sweep [OF c]) blast
    qed
  qed
qed

lemma cleanup_collects: "collects w (cleanup_abandoned_work locks stale)"
proof -
  have roots: "C1PKG_STAGING_ROOT \<noteq> []" "C1PKG_TRASH_ROOT \<noteq> []"
    by (simp_all add: C1PKG_STAGING_ROOT_def C1PKG_TRASH_ROOT_def)
  have run: "collects w (c1_app_run_acquire locks)"
    by (intro collects_framed framed_run_acquire) (simp add: collectable_def)
  have work: "collects w (cleanup_work_directory C1PKG_STAGING_ROOT)"
    "collects w (cleanup_work_directory C1PKG_TRASH_ROOT)"
    by (intro collects_framed framed_cleanup_work roots; simp add: collectable_def)+
  have apps: "collects w (ignore (bind_act (ok (sys_read_directory C1PKG_APPS_ROOT)) (\<lambda>names.
      then_act (for_each (\<lambda>name. ignore (cleanup_versions (stale name) name)) names) (ignore sys_touch))))"
    by (rule keeps_ignored [OF keeps_bind [OF collects_framed keeps_then [OF keeps_for_each [OF keeps_ignored [OF
        cleanup_versions_collects]] collects_framed]]]) (intro frames)+
  show ?thesis
    unfolding cleanup_abandoned_work_def c1_app_lease_release_def
    by (intro keeps_ignored keeps_then run work apps collects_framed framed_ignore framed_reads)
qed

text \<open>C7. Collecting abandoned work never touches what an application runs on. For every application, whatever calls fail or
  wherever power is lost, only the lease files, the staging and trash directories and those versions change that neither pointer
  designates, and these only where the current version is known. Both pointers of every application stay as they are.\<close>

theorem cleanup_keeps_live:
  "let w' = snd (cleanup_abandoned_work locks stale w) in
   {q. file_at w' q \<noteq> file_at w q} \<subseteq> {q. collectable w q} \<and>
   (\<forall>ident name. if c1pkg_safe_id ident \<and> pointer_name name
     then file_at w' (pkg_link ident name) = file_at w (pkg_link ident name) else True)"
proof -
  obtain r w' where run: "cleanup_abandoned_work locks stale w = (r, w')" by fastforce
  from hoareD [OF cleanup_collects [unfolded keeps_def] touches_refl run]
  have "touches (collectable w) w w'" by (cases r) auto
  then show ?thesis using link_not_collectable by (auto simp: run touches_def)
qed

end
