(* ===== verification/PkgOperations.thy ===== *)
theory PkgOperations
  imports PkgKeep
begin

text \<open>
  The operations of the package store as they are called (\<open>src/C1ancher/src/pkg/store.c\<close>, modelled in \<open>PkgKeep\<close>):
  calls that meet no fault on their own, and the list of installed applications, which is exact.
\<close>

section \<open>Calls that meet no fault\<close>

text \<open>Without faults to come there are none afterwards.\<close>

definition undisturbed :: "(world \<Rightarrow> 'x \<times> world) \<Rightarrow> bool" where
  "undisturbed m \<longleftrightarrow> (\<forall>w. faults w = [] \<longrightarrow> faults (snd (m w)) = [])"

named_theorems undisturbing \<open>actions that meet no fault on their own\<close>

lemma undisturbed_faulty: "(\<And>w. faults (snd (call w)) = faults w) \<Longrightarrow> undisturbed (faulty part call)"
  by (simp add: undisturbed_def faulty_def)

lemma undisturbed_calls [undisturbing]:
  "undisturbed (sys_lstat p)" "undisturbed (sys_readlink p)" "undisturbed (sys_open_read p)" "undisturbed sys_touch"
  "undisturbed (sys_mkdir p m)" "undisturbed (sys_chmod p m)" "undisturbed (sys_unlink p)" "undisturbed (sys_symlink t p)"
  "undisturbed (sys_rename p q)" "undisturbed (sys_flock a)" "undisturbed (sys_open_lock p)" "undisturbed (sys_read_directory p)"
  unfolding sys_lstat_def sys_readlink_def sys_open_read_def sys_touch_def sys_mkdir_def sys_chmod_def sys_unlink_def
    sys_symlink_def sys_rename_def sys_flock_def sys_open_lock_def sys_read_directory_def
  by (intro undisturbed_faulty; auto simp: Let_def move_file_def put_file_def del_file_def split: option.split)+

lemma undisturbed_bind [undisturbing]:
  "undisturbed m \<Longrightarrow> (\<And>x. undisturbed (k x)) \<Longrightarrow> undisturbed (bind_act m k)"
  unfolding undisturbed_def bind_act_def by (auto split: prod.split option.split)

lemma undisturbed_then [undisturbing]: "undisturbed m \<Longrightarrow> undisturbed k \<Longrightarrow> undisturbed (then_act m k)"
  unfolding then_act_def by (rule undisturbed_bind)

lemma undisturbed_wrapped [undisturbing]:
  "undisturbed m \<Longrightarrow> undisturbed (ok m)" "undisturbed m \<Longrightarrow> undisturbed (errno_of m)"
  unfolding undisturbed_def ok_def errno_of_def by (auto split: prod.split sum.split)

lemma undisturbed_ignore [undisturbing]: "undisturbed m \<Longrightarrow> undisturbed (ignore m)"
  by (simp add: undisturbed_def ignore_def)

lemma undisturbed_on_failure [undisturbing]: "undisturbed m \<Longrightarrow> undisturbed c \<Longrightarrow> undisturbed (on_failure m c)"
  unfolding undisturbed_def on_failure_def by (auto split: prod.split option.split)

lemma undisturbed_closing [undisturbing]: "undisturbed m \<Longrightarrow> undisturbed (closing m)"
  using undisturbed_calls(4) unfolding undisturbed_def closing_def
  by (auto split: prod.split sum.split)

lemma undisturbed_closing_quietly [undisturbing]: "undisturbed m \<Longrightarrow> undisturbed (closing_quietly m)"
  using undisturbed_calls(4) unfolding undisturbed_def closing_quietly_def
  by (auto split: prod.split)

lemma undisturbed_simple [undisturbing]:
  "undisturbed (ret x)" "undisturbed stop" "undisturbed (require b)" "undisturbed (lift r)" "undisturbed (asks f)"
  by (simp_all add: undisturbed_def ret_def stop_def require_def lift_def asks_def)

lemma undisturbed_if [undisturbing]: "undisturbed m \<Longrightarrow> undisturbed k \<Longrightarrow> undisturbed (if b then m else k)"
  by simp

lemma undisturbed_sum [undisturbing]:
  "(\<And>e. undisturbed (j e)) \<Longrightarrow> (\<And>x. undisturbed (k x)) \<Longrightarrow> undisturbed (case r of Inl e \<Rightarrow> j e | Inr x \<Rightarrow> k x)"
  by (cases r) auto

lemma undisturbed_readlink [undisturbing]: "undisturbed (read_link_value e p)"
  using undisturbed_calls(2) [of p] unfolding undisturbed_def read_link_value_def
  by (auto split: prod.split sum.split)

lemma undisturbed_directories [undisturbing]:
  "undisturbed (make_or_keep p m)" "undisturbed (make_all ps m)" "undisturbed (c1pkg_mkdir_p p m)"
  "undisturbed (existing_directory p)" "undisturbed (check_devices dev e b ds)"
proof -
  show one: "undisturbed (make_or_keep p m)" for p m unfolding make_or_keep_def by (intro undisturbing)
  show all: "undisturbed (make_all ps m)" for ps m by (induction ps) (auto intro!: undisturbing one)
  show "undisturbed (c1pkg_mkdir_p p m)" unfolding c1pkg_mkdir_p_def by (intro undisturbing one all)
  show ex: "undisturbed (existing_directory p)" for p unfolding existing_directory_def by (intro undisturbing)
  show "undisturbed (check_devices dev e b ds)" by (induction ds) (auto intro!: undisturbing ex)
qed

lemma undisturbed_recovery [undisturbing]: "undisturbed recover_transaction"
proof -
  have sync: "undisturbed (c1pkg_sync_directory p)" for p unfolding c1pkg_sync_directory_def by (intro undisturbing)
  have trusted: "undisturbed (trusted_directory p)" for p unfolding trusted_directory_def by (intro undisturbing)
  have pointer: "undisturbed (pointer_version e a n)" for e a n unfolding pointer_version_def by (intro undisturbing)
  have remove: "undisturbed (remove_if_present p)" for p unfolding remove_if_present_def by (intro undisturbing)
  have switch: "undisturbed (write_pointer a n v)" for a n v unfolding write_pointer_def by (intro undisturbing remove sync)
  have finish: "undisturbed finish_transaction" unfolding finish_transaction_def by (intro undisturbing remove sync)
  have drop: "undisturbed (drop_transaction tx a)" for tx a unfolding drop_transaction_def by (intro undisturbing pointer finish)
  have redo: "undisturbed (redo_transaction tx a vs t i)" for tx a vs t i
    unfolding redo_transaction_def by (intro undisturbing sync switch finish)
  have resume: "undisturbed (resume_transaction tx)" for tx
    unfolding resume_transaction_def by (intro undisturbing trusted drop redo)
  show ?thesis
    unfolding recover_transaction_def read_transaction_def by (intro undisturbing resume)
qed

lemma undisturbed_lock [undisturbing]: "undisturbed (acquire_lock locks)"
  unfolding acquire_lock_def c1pkg_storage_state_init_def c1pkg_storage_state_init_at_def by (intro undisturbing)

lemma undisturbed_prepare_read: "undisturbed (c1pkg_storage_prepare dev query C1PKG_STORAGE_READ n)"
  unfolding c1pkg_storage_prepare_def c1pkg_storage_prepare_at_def validate_mount_def validate_storage_devices_def
  by (simp only: c1pkg_storage_access.distinct simp_thms if_False) (intro undisturbing)

section \<open>The list of installed applications\<close>

lemma current_version_success:
  assumes "current_version ident w = (Some v, w')"
  shows "c1pkg_safe_id ident \<and> c1pkg_safe_version v \<and> points w (pkg_link ident ''current'') v \<and> same_files w w'"
proof -
  have ident: "c1pkg_safe_id ident" using assms by (auto simp: current_version_def act_Some)
  have joined: "c1pkg_join (pkg_app ident) ''current'' = Some (pkg_link ident ''current'')"
    by (rule joins(2) [OF ident]) simp
  obtain t where t: "read_link_value EOTHER (pkg_link ident ''current'') w = (Inr t, w')" "version_target t = Some v"
    using assms unfolding current_version_def joins(1) [OF ident] bind_lift joined
    by (auto simp: act_Some lift_def split: option.splits)
  from t(1) have "sys_readlink (pkg_link ident ''current'') w = (Inr t, w')"
    by (auto simp: read_link_value_def split: prod.splits sum.splits if_splits)
  note link = sys_readlink_success [OF this]
  have "take 9 t = ''versions/''" "v = drop 9 t" "c1pkg_safe_version v"
    using t(2) by (auto simp: version_target_def split: if_splits)
  with link ident safe_version_facts [of v] show ?thesis
    using append_take_drop_id [of 9 t] by (auto simp: points_def)
qed

lemma current_version_calm:
  assumes "faults w = []" and "c1pkg_safe_id ident" "c1pkg_safe_version v" "points w (pkg_link ident ''current'') v"
  shows "current_version ident w = (Some v, w)"
proof -
  have joined: "c1pkg_join (pkg_app ident) ''current'' = Some (pkg_link ident ''current'')"
    by (rule joins(2) [OF assms(2)]) simp
  have "read_link_value EOTHER (pkg_link ident ''current'') w = (Inr (''versions/'' @ v), w)"
    using points_read [OF assms(1,4) disjI2 [OF assms(3)]] safe_version_facts [OF assms(3)] by simp
  moreover have "version_target (''versions/'' @ v) = Some v" using assms(3) by (simp add: version_target_def)
  moreover have "length v < C1PKG_VERSION_MAX + 1" using safe_version_facts [OF assms(3)] by (simp add: C1PKG_VERSION_MAX_def)
  ultimately show ?thesis
    unfolding current_version_def joins(1) [OF assms(2)] bind_lift joined
    by (simp add: act_defs lift_def assms(2))
qed

lemma framed_current_version: "framed (\<lambda>q. False) (current_version ident)"
  unfolding current_version_def by (intro frames framed_lift)

lemma undisturbed_current_version [undisturbing]: "undisturbed (current_version ident)"
  unfolding current_version_def by (intro undisturbing)

lemma attempt_Some: "attempt m w = (Some r, w') \<longleftrightarrow> m w = (r, w')"
  by (cases "m w") (auto simp: attempt_def)

text \<open>What may be listed, and what must be.\<close>

definition sound_list :: "world \<Rightarrow> string list \<Rightarrow> c1pkg_installed list \<Rightarrow> bool" where
  "sound_list w names l \<longleftrightarrow> set (map inst_id l) \<subseteq> set names \<and> (distinct names \<longrightarrow> distinct (map inst_id l)) \<and>
     (\<forall>i \<in> set l. c1pkg_safe_id (inst_id i) \<and> c1pkg_safe_version (inst_version i) \<and>
       points w (pkg_link (inst_id i) ''current'') (inst_version i))"

definition complete_list :: "world \<Rightarrow> string list \<Rightarrow> c1pkg_installed list \<Rightarrow> bool" where
  "complete_list w names l \<longleftrightarrow> (\<forall>n v. n \<in> set names \<longrightarrow> c1pkg_safe_id n \<longrightarrow> c1pkg_safe_version v \<longrightarrow>
     points w (pkg_link n ''current'') v \<longrightarrow> \<lparr> inst_id = n, inst_version = v \<rparr> \<in> set l)"

lemma lists_same:
  assumes "same_files w u"
  shows "sound_list u names l = sound_list w names l" "complete_list u names l = complete_list w names l"
  by (simp_all add: sound_list_def complete_list_def points_def same_files_at [OF assms])

lemma sound_list_skip: "sound_list w names l \<Longrightarrow> sound_list w (n # names) l"
  by (auto simp: sound_list_def)

lemma sound_list_add:
  "sound_list w names l \<Longrightarrow> c1pkg_safe_id n \<Longrightarrow> c1pkg_safe_version v \<Longrightarrow> points w (pkg_link n ''current'') v \<Longrightarrow>
   sound_list w (n # names) (\<lparr> inst_id = n, inst_version = v \<rparr> # l)"
  by (auto simp: sound_list_def)

lemma points_unique:
  "points w p x \<Longrightarrow> points w p y \<Longrightarrow> c1pkg_safe_version x \<Longrightarrow> c1pkg_safe_version y \<Longrightarrow> x = y"
  using safe_version_facts [of x] safe_version_facts [of y] by (simp add: points_def) auto

lemma complete_list_skip:
  "complete_list w names l \<Longrightarrow> (\<And>v. c1pkg_safe_id n \<Longrightarrow> c1pkg_safe_version v \<Longrightarrow> \<not> points w (pkg_link n ''current'') v) \<Longrightarrow>
   complete_list w (n # names) l"
  unfolding complete_list_def by (metis set_ConsD)

lemma complete_list_add:
  "complete_list w names l \<Longrightarrow> c1pkg_safe_version v \<Longrightarrow> points w (pkg_link n ''current'') v \<Longrightarrow>
   complete_list w (n # names) (\<lparr> inst_id = n, inst_version = v \<rparr> # l)"
  unfolding complete_list_def using points_unique by (metis list.set_intros set_ConsD)

lemma list_installed_success:
  assumes "list_installed items names w = (Some l, w')"
  shows "same_files w w' \<and> (\<exists>new. l = items @ new \<and> sound_list w names new \<and> (faults w = [] \<longrightarrow> complete_list w names new)) \<and>
    (length items \<le> C1PKG_MAX_PACKAGES \<longrightarrow> length l \<le> C1PKG_MAX_PACKAGES)"
  using assms
proof (induction names arbitrary: items w)
  case Nil
  then show ?case by (auto simp: ret_def sound_list_def complete_list_def)
next
  case (Cons n names)
  show ?case
  proof (cases "c1pkg_safe_id n")
    case False
    with Cons.prems have "list_installed items names w = (Some l, w')" by simp
    from Cons.IH [OF this] False show ?thesis by (metis complete_list_skip sound_list_skip)
  next
    case safe: True
    have room: "length items < C1PKG_MAX_PACKAGES" using Cons.prems safe by (auto simp: stop_Some split: if_splits)
    with Cons.prems safe obtain r u where cv: "current_version n w = (r, u)"
      and rest: "(case r of None \<Rightarrow> list_installed items names
        | Some version \<Rightarrow> list_installed (items @ [\<lparr> inst_id = n, inst_version = version \<rparr>]) names) u = (Some l, w')"
      by (simp add: bind_act_Some attempt_Some) blast
    have same: "same_files w u" using framedD [OF framed_current_version cv] by (simp add: touches_none)
    have calm: "faults w = [] \<Longrightarrow> faults u = []"
      using undisturbed_current_version [of n] cv unfolding undisturbed_def by (metis snd_conv)
    show ?thesis
    proof (cases r)
      case None
      with rest have "list_installed items names u = (Some l, w')" by simp
      note IH = Cons.IH [OF this, unfolded lists_same [OF same]]
      have skip: "\<not> points w (pkg_link n ''current'') v" if "faults w = []" "c1pkg_safe_version v" for v
        using current_version_calm [OF that(1) safe that(2)] cv None by auto
      from IH obtain new where new: "l = items @ new" "sound_list w names new" "faults u = [] \<longrightarrow> complete_list w names new"
        by blast
      have "faults w = [] \<longrightarrow> complete_list w (n # names) new"
        using new(3) calm complete_list_skip skip by metis
      with new sound_list_skip same_files_trans [OF same] IH show ?thesis by metis
    next
      case (Some v)
      with rest have "list_installed (items @ [\<lparr> inst_id = n, inst_version = v \<rparr>]) names u = (Some l, w')" by simp
      note IH = Cons.IH [OF this, unfolded lists_same [OF same]]
      from current_version_success [OF cv [unfolded Some]]
      have v: "c1pkg_safe_version v" "points w (pkg_link n ''current'') v" by auto
      from IH obtain new where new: "l = items @ \<lparr> inst_id = n, inst_version = v \<rparr> # new" "sound_list w names new"
        "faults u = [] \<longrightarrow> complete_list w names new" by auto
      have "faults w = [] \<longrightarrow> complete_list w (n # names) (\<lparr> inst_id = n, inst_version = v \<rparr> # new)"
        using new(3) calm complete_list_add [OF _ v] by blast
      moreover have "length l \<le> C1PKG_MAX_PACKAGES" using IH room by simp
      ultimately show ?thesis
        using new(1) sound_list_add [OF new(2) safe v] same_files_trans [OF same] IH by blast
    qed
  qed
qed

lemma read_directory_result:
  assumes "sys_read_directory p w = (r, w')"
  shows "same_files w w' \<and> (case r of
      Inl e \<Rightarrow> e = ENOENT \<longrightarrow> file_at w p = None
    | Inr names \<Rightarrow> names = child_names w p \<and> is_dir w p) \<and>
    (faults w = [] \<longrightarrow> is_dir w p \<longrightarrow> r = Inr (child_names w p))"
proof -
  have names: "child_names (w\<lparr> faults := fs \<rparr>) p = child_names w p" for fs by (simp add: child_names_def)
  show ?thesis
    using assms unfolding sys_read_directory_def faulty_def
    by (auto simp: same_files_def same_process_def is_dir_def names split: list.splits outcome.splits option.splits if_splits)
qed

lemma child_names_distinct: "distinct (child_names w d)"
  by (simp add: child_names_def)

lemma child_names_member:
  assumes "file_at w (slash d @ n) \<noteq> None" and "n \<noteq> []" "CHR ''/'' \<notin> set n"
  shows "n \<in> set (child_names w d)"
proof -
  have "slash d @ n \<in> fst ` set (files w)"
    using assms(1) by (metis file_at_def map_of_eq_None_iff)
  then have "slash d @ n \<in> set (filter (prefix (slash d)) (map fst (files w)))" by auto
  then have "drop (length (slash d)) (slash d @ n) \<in> set (map (drop (length (slash d))) (filter (prefix (slash d)) (map fst (files w))))"
    unfolding set_map by (rule imageI)
  with assms(2,3) show ?thesis by (simp add: child_names_def)
qed

lemma sound_sorted:
  assumes "sound_list w names l" and "distinct names"
  shows "sorted_wrt (<) (map inst_id (sort_key inst_id l))"
proof -
  have "distinct (map inst_id l)" using assms by (simp add: sound_list_def)
  then have "distinct (map inst_id (sort_key inst_id l))"
    by (metis distinct_map distinct_sort set_sort)
  then show ?thesis by (simp add: strict_sorted_iff)
qed

lemma list_step:
  assumes "(bind_act (errno_of (sys_read_directory C1PKG_APPS_ROOT)) (\<lambda>r.
      case r of
        Inl e \<Rightarrow> if e = ENOENT then ret [] else stop
      | Inr names \<Rightarrow> bind_act (closing_quietly (list_installed [] names)) (\<lambda>items. ret (sort_key inst_id items)))) w = (Some l, w')"
  shows "same_files w w' \<and> sorted_wrt (<) (map inst_id l) \<and> length l \<le> C1PKG_MAX_PACKAGES \<and>
    sound_list w (map inst_id l) l \<and>
    (faults w = [] \<longrightarrow> is_dir w C1PKG_APPS_ROOT \<longrightarrow> complete_list w (child_names w C1PKG_APPS_ROOT) l)"
proof -
  obtain r u where r: "sys_read_directory C1PKG_APPS_ROOT w = (r, u)"
    and rest: "(case r of Inl e \<Rightarrow> if e = ENOENT then ret [] else stop
      | Inr names \<Rightarrow> bind_act (closing_quietly (list_installed [] names)) (\<lambda>items. ret (sort_key inst_id items))) u = (Some l, w')"
    using assms by (auto simp: bind_act_Some errno_of_Some)
  note dir = read_directory_result [OF r]
  show ?thesis
  proof (cases r)
    case (Inl e)
    with rest have "l = []" "w' = u" by (auto simp: ret_def stop_def split: if_splits)
    with dir Inl show ?thesis by (auto simp: sound_list_def)
  next
    case (Inr names)
    with rest obtain items v where items: "list_installed [] names u = (Some items, v)" and l: "l = sort_key inst_id items"
      and v: "w' = snd (sys_touch v)" by (auto simp: act_Some closing_quietly_iff)
    have same: "same_files w u" and names: "names = child_names w C1PKG_APPS_ROOT" using dir Inr by auto
    note facts = list_installed_success [OF items, unfolded lists_same [OF same]]
    then have found: "sound_list w names items" "faults u = [] \<longrightarrow> complete_list w names items" "length items \<le> C1PKG_MAX_PACKAGES"
      by auto
    have "same_files v w'" unfolding v by (rule sys_touch_success [OF surjective_pairing])
    from same_files_trans [OF same_files_trans [OF same conjunct1 [OF facts]] this] have "same_files w w'" .
    moreover have "sorted_wrt (<) (map inst_id l)"
      unfolding l by (rule sound_sorted [OF found(1)]) (simp add: names child_names_distinct)
    moreover have "sound_list w (map inst_id l) l"
      using found(1) \<open>sorted_wrt (<) (map inst_id l)\<close> by (simp add: sound_list_def l)
    moreover have "faults w = [] \<Longrightarrow> faults u = []"
      using undisturbed_calls(12) [of C1PKG_APPS_ROOT] r unfolding undisturbed_def by (metis snd_conv)
    ultimately show ?thesis using found(2,3) by (simp add: complete_list_def names l)
  qed
qed

section \<open>A store in use\<close>

text \<open>The directories of a mounted card and of the state.\<close>

definition standing_paths :: "string list" where
  "standing_paths = [''/'', ''/storage'', ''/storage/c1'', ''/storage/c1/apps'', ''/storage/c1/pkg'', ''/storage/c1/pkg/staging'',
     ''/storage/c1/pkg/trash'', ''/usr'', ''/usr/data'', ''/usr/data/c1'', ''/usr/data/c1/pkg'', ''/usr/data/c1/pkg/cache'']"

text \<open>The store of \<open>example_store\<close> on a mounted card: version 2.0 of the clock is current, version 1.0 the one before.\<close>

definition example_shop :: world where
  "example_shop = example_store\<lparr> files := (C1PKG_STATE_ROOT, (example_dir 2)\<lparr> st_mode := 448 \<rparr>) #
     map (\<lambda>p. (p, example_dir 20)) standing_paths @ files example_store \<rparr>"

lemma example_shop_files:
  "list_all (is_dir example_shop) standing_paths"
  "file_at example_shop C1PKG_STATE_ROOT = Some ((example_dir 2)\<lparr> st_mode := 448 \<rparr>)"
  "file_at example_shop STORE_LOCK = None" "file_at example_shop TRANSACTION_PATH = None"
  "file_at example_shop TRANSACTION_TEMP = None" "file_at example_shop (pkg_app ''clock'') = Some (example_dir 6)"
  "file_at example_shop (pkg_versions ''clock'') = Some (example_dir 7)"
  "file_at example_shop (pkg_place ''clock'' ''1.0'') = Some (example_dir 5)"
  "file_at example_shop (pkg_link ''clock'' ''current'') = Some (example_link ''versions/2.0'' 9)"
  "file_at example_shop (pkg_link ''clock'' ''previous'') = Some (example_link ''versions/1.0'' 10)"
  "file_at example_shop (pointer_temp ''clock'') = None" "faults example_shop = []" "euid example_shop = 0"
  "C1PKG_STATE_ROOT \<in> set standing_paths" "C1PKG_APPS_ROOT \<in> set standing_paths"
  by code_simp+

lemma example_listed:
  "fst (c1pkg_store_list example_device example_space all_free example_shop) = Some [\<lparr> inst_id = ''clock'', inst_version = ''2.0'' \<rparr>]"
  by code_simp

section \<open>Properties\<close>

text \<open>C37. The list of installed applications is exact. What it returns is strictly sorted by identifier and within its
  capacity, and every entry is an application whose current pointer designates that version; without faults every application
  directory whose current pointer designates a version is listed. So the list is what merging with the index expects.\<close>

theorem store_list_exact:
  assumes run: "c1pkg_store_list dev query locks w = (Some l, w')"
  shows "sorted_wrt (<) (map inst_id l) \<and> length l \<le> C1PKG_MAX_PACKAGES \<and>
    (\<forall>i \<in> set l. c1pkg_safe_id (inst_id i) \<and> c1pkg_safe_version (inst_version i) \<and>
       points w' (pkg_link (inst_id i) ''current'') (inst_version i)) \<and>
    (faults w = [] \<and> is_dir w' C1PKG_APPS_ROOT \<longrightarrow>
      (\<forall>ident v. c1pkg_safe_id ident \<and> file_at w' (pkg_app ident) \<noteq> None \<and>
         c1pkg_safe_version v \<and> points w' (pkg_link ident ''current'') v \<longrightarrow> c1pkg_store_is_installed l ident = Some v))"
proof -
  obtain v0 v1 v2 where v: "c1pkg_storage_prepare dev query C1PKG_STORAGE_READ 0 w = (Some (), v0)"
    "acquire_lock locks v0 = (Some (), v1)"
    and body: "(bind_act (errno_of (sys_read_directory C1PKG_APPS_ROOT)) (\<lambda>r.
      case r of
        Inl e \<Rightarrow> if e = ENOENT then ret [] else stop
      | Inr names \<Rightarrow> bind_act (closing_quietly (list_installed [] names)) (\<lambda>items. ret (sort_key inst_id items)))) v1 = (Some l, v2)"
    and w': "w' = snd (sys_touch v2)"
    using run unfolding c1pkg_store_list_def with_store_lock_def by (auto simp: then_act_Some closing_quietly_iff)
  note facts = list_step [OF body]
  have "same_files v2 w'" unfolding w' by (rule sys_touch_success [OF surjective_pairing])
  with same_files_trans [OF conjunct1 [OF facts]] have same: "same_files v1 w'" .
  have at: "file_at w' q = file_at v1 q" for q by (rule same_files_at [OF same])
  have pts: "points w' p x = points v1 p x" for p x unfolding points_def at ..
  have calm: "faults w = [] \<Longrightarrow> faults v1 = []"
    using undisturbed_prepare_read [of dev query 0] undisturbed_lock [of locks] v unfolding undisturbed_def by (metis snd_conv)
  have "c1pkg_store_is_installed l ident = Some x"
    if "faults w = []" "is_dir w' C1PKG_APPS_ROOT" "c1pkg_safe_id ident" "file_at w' (pkg_app ident) \<noteq> None"
      "c1pkg_safe_version x" "points w' (pkg_link ident ''current'') x" for ident x
  proof -
    have "pkg_app ident = slash C1PKG_APPS_ROOT @ ident" by (simp add: pkg_app_def slash_def C1PKG_APPS_ROOT_def)
    with that(4) have "ident \<in> set (child_names v1 C1PKG_APPS_ROOT)"
      using safe_id_facts [OF that(3)] by (intro child_names_member) (simp_all add: at)
    moreover have "is_dir v1 C1PKG_APPS_ROOT" using that(2) by (simp add: is_dir_def at)
    ultimately have i: "\<lparr> inst_id = ident, inst_version = x \<rparr> \<in> set l"
      using facts calm [OF that(1)] that(3,5,6) by (simp add: complete_list_def pts)
    have "distinct (map inst_id l)" using facts by (simp add: strict_sorted_iff)
    with i have "find (\<lambda>i. inst_id i = ident) l = Some \<lparr> inst_id = ident, inst_version = x \<rparr>"
    proof (induction l)
      case (Cons a l)
      show ?case
      proof (cases "inst_id a = ident")
        case True
        have "a = \<lparr> inst_id = ident, inst_version = x \<rparr>"
        proof (rule ccontr)
          assume "a \<noteq> \<lparr> inst_id = ident, inst_version = x \<rparr>"
          with Cons.prems(1) have "\<lparr> inst_id = ident, inst_version = x \<rparr> \<in> set l" by simp
          from imageI [OF this, of inst_id] Cons.prems(2) True show False by simp
        qed
        then show ?thesis by simp
      qed (use Cons in auto)
    qed simp
    then show ?thesis by (simp add: c1pkg_store_is_installed_def)
  qed
  with facts show ?thesis by (simp add: sound_list_def pts)
qed

theorem store_list_exact_witness:
  "let l = [\<lparr> inst_id = ''clock'', inst_version = ''2.0'' \<rparr>]
   in c1pkg_store_list example_device example_space all_free example_shop =
        (Some l, snd (c1pkg_store_list example_device example_space all_free example_shop)) \<and>
      points (snd (c1pkg_store_list example_device example_space all_free example_shop)) (pkg_link ''clock'' ''current'') ''2.0''"
proof -
  let ?run = "c1pkg_store_list example_device example_space all_free example_shop"
  have run: "?run = (Some [\<lparr> inst_id = ''clock'', inst_version = ''2.0'' \<rparr>], snd ?run)"
    by (rule prod_eqI) (simp_all add: example_listed)
  from store_list_exact [OF run] run show ?thesis by (simp add: Let_def)
qed

end
