(* ===== verification/PkgRollback.thy ===== *)
theory PkgRollback
  imports PkgOperations
begin

text \<open>
  A rollback as it is called (\<open>c1pkg_store_rollback\<close> of \<open>src/C1ancher/src/pkg/store.c\<close>, modelled in \<open>PkgKeep\<close>): preparing the
  storage, taking the lock, recovering and collecting keep what a rollback needs, so the whole operation ends in the old
  or the new state; on a ready store and without faults it succeeds.
\<close>

section \<open>A whole rollback\<close>

text \<open>Where the state of a change lies.\<close>

definition vital :: "change \<Rightarrow> string \<Rightarrow> bool" where
  "vital ch q \<longleftrightarrow> q \<in> {pkg_app (ch_id ch), pkg_versions (ch_id ch), link_of ch ''current'', link_of ch ''previous'',
     pointer_temp (ch_id ch), ch_place ch, TRANSACTION_PATH, TRANSACTION_TEMP}"

abbreviation installed_change :: "change \<Rightarrow> world \<Rightarrow> bool" where
  "installed_change ch \<equiv> prepared_change ch (ch_place ch)"

lemma installed_near:
  assumes w: "installed_change ch w" and near: "same_process w w'" "\<And>q. vital ch q \<Longrightarrow> file_at w' q = file_at w q"
    and dirs: "is_dir w' C1PKG_STATE_ROOT" "is_dir w' C1PKG_APPS_ROOT"
  shows "installed_change ch w'"
proof -
  have user: "euid w' = euid w" using near(1) by (simp add: same_process_def)
  have same: "file_at w' q = file_at w q"
    if "q \<in> {pkg_app (ch_id ch), pkg_versions (ch_id ch), link_of ch ''current'', link_of ch ''previous'',
     pointer_temp (ch_id ch), ch_place ch, TRANSACTION_PATH, TRANSACTION_TEMP}" for q
    using near(2) [of q] that unfolding vital_def by blast
  have "no_journal w' = no_journal w" "temp_ok w' = temp_ok w" "payload_at ch (ch_place ch) w' = payload_at ch (ch_place ch) w"
    "points w' (link_of ch ''current'') (ch_current ch) = points w (link_of ch ''current'') (ch_current ch)"
    "points w' (link_of ch ''previous'') (ch_previous ch) = points w (link_of ch ''previous'') (ch_previous ch)"
    "no_dir w' (pointer_temp (ch_id ch)) = no_dir w (pointer_temp (ch_id ch))"
    "trusted_at w' (pkg_app (ch_id ch)) = trusted_at w (pkg_app (ch_id ch))"
    "trusted_at w' (pkg_versions (ch_id ch)) = trusted_at w (pkg_versions (ch_id ch))"
    "file_at w' (ch_place ch) = file_at w (ch_place ch)"
    by (simp_all add: no_journal_def temp_ok_def payload_at_def points_def no_dir_def trusted_at_def same user)
  with w dirs show ?thesis by (simp add: prepared_change_def still_def standing_def)
qed

lemma keeps_make_or_keep: "\<not> vital ch p \<Longrightarrow> keeps (installed_change ch) (make_or_keep p m)"
  unfolding keeps_def hoare_def
proof (intro allI impI)
  fix w r w' assume p: "\<not> vital ch p" and w: "installed_change ch w" and run: "make_or_keep p m w = (r, w')"
  note result = make_or_keep_result [OF run]
  have dirs: "is_dir w q \<Longrightarrow> is_dir w' q" for q
    using result by (cases "q = p") (auto simp: is_dir_iff)
  have same: "file_at w' q = file_at w q" if "vital ch q" for q using result p that by (cases "q = p") auto
  have "is_dir w C1PKG_STATE_ROOT" "is_dir w C1PKG_APPS_ROOT" using w by (simp_all add: prepared_change_def still_def standing_def)
  with dirs result have "installed_change ch w'" by (intro installed_near [OF w _ same]) auto
  then show "case r of None \<Rightarrow> installed_change ch w' | Some x \<Rightarrow> installed_change ch w'" by (cases r) auto
qed

lemma keeps_chmod: "\<not> vital ch p \<Longrightarrow> keeps (installed_change ch) (ok (sys_chmod p m))"
  unfolding keeps_def hoare_def
proof (intro allI impI)
  fix w r w' assume p: "\<not> vital ch p" and w: "installed_change ch w" and run: "ok (sys_chmod p m) w = (r, w')"
  have "framed (\<lambda>q. q = p) (ok (sys_chmod p m))" by (intro frames) simp
  note frame = framedD [OF this run]
  have dirs: "is_dir w' q" if d: "is_dir w q" for q
  proof (cases "q = p")
    case True
    then obtain i where i: "file_at w p = Some i" "st_kind i = S_IFDIR" using d True by (auto simp: is_dir_iff)
    from chmod_result [OF run i(1)] i True show ?thesis by (auto simp: is_dir_iff)
  next
    case False
    with frame that show ?thesis by (simp add: touches_def is_dir_def)
  qed
  have same: "file_at w' q = file_at w q" if "vital ch q" for q using frame p that by (auto simp: touches_def)
  have "is_dir w C1PKG_STATE_ROOT" "is_dir w C1PKG_APPS_ROOT" using w by (simp_all add: prepared_change_def still_def standing_def)
  with dirs frame have "installed_change ch w'" by (intro installed_near [OF w _ same]) (auto simp: touches_def)
  then show "case r of None \<Rightarrow> installed_change ch w' | Some x \<Rightarrow> installed_change ch w'" by (cases r) auto
qed

lemma keeps_make_all: "list_all (\<lambda>p. \<not> vital ch p) ps \<Longrightarrow> keeps (installed_change ch) (make_all ps m)"
  by (induction ps) (auto intro: keeps_simple keeps_then keeps_make_or_keep)

lemma keeps_mkdir_p: "(\<And>q. on_path p q \<Longrightarrow> \<not> vital ch q) \<Longrightarrow> keeps (installed_change ch) (c1pkg_mkdir_p p m)"
  unfolding c1pkg_mkdir_p_def on_path_def
  by (intro keeps_then keeps_simple keeps_make_all keeps_make_or_keep keeps_chmod) (auto simp: list_all_iff)

lemma quiet_keeps: "framed (\<lambda>q. False) m \<Longrightarrow> keeps (installed_change ch) m"
  by (rule keeps_framed [OF _ stable_prepared [OF clear_place]])

definition store_roots :: "string list" where
  "store_roots = [C1PKG_STORAGE_ROOT, C1PKG_APPS_ROOT, C1PKG_WORK_ROOT, C1PKG_STAGING_ROOT, C1PKG_TRASH_ROOT, C1PKG_STATE_ROOT,
     C1PKG_STATE_ROOT @ ''/cache'']"

definition shared_paths :: "string list" where
  "shared_paths = [''/storage'', ''/storage/c1'', ''/storage/c1/apps'', ''/storage/c1/pkg'', ''/storage/c1/pkg/staging'',
     ''/storage/c1/pkg/trash'', ''/usr'', ''/usr/data'', ''/usr/data/c1'', ''/usr/data/c1/pkg'', ''/usr/data/c1/pkg/cache'',
     ''/usr/data/c1/pkg/lock'']"

lemma store_paths_shared: "list_all (\<lambda>d. list_all (\<lambda>q. q \<in> set shared_paths) (d # mkdir_prefixes d)) store_roots"
  by code_simp

lemma shared_not_vital: "q \<in> set shared_paths \<Longrightarrow> \<not> vital ch q"
  by (auto simp: shared_paths_def vital_def ch_place_def pkg_paths)

lemma keeps_root:
  assumes "d \<in> set store_roots"
  shows "keeps (installed_change ch) (c1pkg_mkdir_p d m)"
proof (rule keeps_mkdir_p, rule shared_not_vital)
  show "q \<in> set shared_paths" if "on_path d q" for q
    using that assms store_paths_shared by (auto simp: on_path_def list_all_iff)
qed

lemma keeps_prepare: "keeps (installed_change ch) (c1pkg_storage_prepare dev query C1PKG_STORAGE_MAINTENANCE n)"
proof -
  have "keeps (installed_change ch) (make_directories [(C1PKG_STORAGE_ROOT, 493), (C1PKG_APPS_ROOT, 493), (C1PKG_WORK_ROOT, 448),
      (C1PKG_STAGING_ROOT, 448), (C1PKG_TRASH_ROOT, 448)])"
    unfolding make_directories.simps by (intro keeps_then keeps_root keeps_simple) (simp_all add: store_roots_def)
  then have made: "keeps (installed_change ch) (ensure_storage_directories default_layout)"
    by (simp add: ensure_storage_directories_def storage_directories_def default_layout_def)
  show ?thesis
    unfolding c1pkg_storage_prepare_def c1pkg_storage_prepare_at_def
    by (simp only: c1pkg_storage_access.distinct simp_thms if_True if_False)
      (intro keeps_then keeps_simple made quiet_keeps framed_validate_mount framed_validate_devices)
qed

lemma stable_store_lock: "stable (\<lambda>q. q = STORE_LOCK) (installed_change ch)"
  unfolding stable_def
proof (intro allI impI)
  fix w w' assume t: "touches (\<lambda>q. q = STORE_LOCK) w w'" and w: "installed_change ch w"
  have same: "file_at w' q = file_at w q" if "vital ch q" for q
  proof -
    have "\<not> vital ch STORE_LOCK" by (rule shared_not_vital) (simp add: shared_paths_def STORE_LOCK_def C1PKG_STATE_ROOT_def)
    with that have "q \<noteq> STORE_LOCK" by metis
    with t show ?thesis by (simp add: touches_def)
  qed
  have dir: "is_dir w' C1PKG_STATE_ROOT = is_dir w C1PKG_STATE_ROOT" "is_dir w' C1PKG_APPS_ROOT = is_dir w C1PKG_APPS_ROOT"
    using t by (simp_all add: touches_def is_dir_def pkg_paths STORE_LOCK_def)
  show "installed_change ch w'"
    by (rule installed_near [OF w _ same]) (use t w dir in \<open>simp_all add: touches_def prepared_change_def still_def standing_def\<close>)
qed

lemma keeps_open_store_lock: "keeps (installed_change ch) (ok (sys_open_lock STORE_LOCK))"
  by (rule keeps_framed [OF _ stable_store_lock]) (intro frames refl)

lemma keeps_acquire_lock: "keeps (installed_change ch) (acquire_lock locks)"
proof -
  let ?I = "installed_change ch"
  have joined: "c1pkg_join C1PKG_STATE_ROOT ''lock'' = Some STORE_LOCK"
    "c1pkg_join C1PKG_STATE_ROOT ''cache'' = Some (C1PKG_STATE_ROOT @ ''/cache'')"
    by (simp_all add: c1pkg_join_def C1PKG_STATE_ROOT_def C1PKG_PATH_MAX_def STORE_LOCK_def)
  have state: "keeps ?I c1pkg_storage_state_init"
    unfolding c1pkg_storage_state_init_def c1pkg_storage_state_init_at_def
    by (simp only: default_layout_def c1pkg_storage_layout.select_convs joined bind_lift) (intro keeps_then keeps_simple keeps_root; simp add: store_roots_def)
  note lock = keeps_open_store_lock
  have recover: "keeps ?I recover_transaction"
    unfolding keeps_def hoare_def
  proof (intro allI impI)
    fix w r w' assume w: "?I w" and run: "recover_transaction w = (r, w')"
    then have "no_journal w" by (simp add: prepared_change_def)
    from stable_same_files [OF stable_prepared [OF clear_place] recover_idle [OF this run] w]
    show "case r of None \<Rightarrow> ?I w' | Some x \<Rightarrow> ?I w'" by (cases r) auto
  qed
  have quiet: "keeps ?I (asks f)" "keeps ?I (errno_of (sys_lstat p))" "keeps ?I (ok sys_touch)" "keeps ?I (ok (sys_flock a))"
    for f :: "world \<Rightarrow> nat" and p a
    by (rule quiet_keeps, intro frames)+
  have on_failure: "keeps ?I (on_failure m (ignore sys_touch))" if "keeps ?I m" for m :: "unit act"
    unfolding keeps_def
    by (rule hoare_on_failure [OF that [unfolded keeps_def] framed_ignore [OF framed_reads(4)] stable_prepared [OF clear_place]])
  show ?thesis
    unfolding acquire_lock_def joined bind_lift
    by (intro keeps_bind keeps_then keeps_simple on_failure state lock recover quiet)
qed

lemma live_not_collectable:
  assumes w: "installed_change ch w" and ok: "change_ok ch" and older: "ch_version ch = ch_previous ch" and q: "vital ch q"
  shows "\<not> collectable w q"
proof -
  have slashfree: "CHR ''/'' \<notin> set (ch_id ch)" "CHR ''/'' \<notin> set (ch_version ch)"
    using ok safe_id_facts safe_version_facts by (auto simp: change_ok_def)
  have "\<not> lease_file q" "\<not> within C1PKG_STAGING_ROOT q" "\<not> within C1PKG_TRASH_ROOT q"
    using q by (auto simp: vital_def lease_file_def lease_paths ch_place_def pkg_paths within_def slash_def prefix_def
      C1PKG_STAGING_ROOT_def C1PKG_TRASH_ROOT_def)
  moreover have "\<not> within (pkg_place ident v) q" if a: "abandoned w ident v" for ident v
  proof
    assume "within (pkg_place ident v) q"
    moreover have v: "v \<noteq> []" "CHR ''/'' \<notin> set v" "CHR ''/'' \<notin> set ident"
      using a safe_id_facts [of ident] safe_version_facts [of v] by (auto simp: abandoned_def)
    then have "last v \<noteq> CHR ''/''" using last_in_set [of v] by (intro notI) simp
    then have "last (pkg_place ident v) \<noteq> CHR ''/''" using v(1) by (simp add: pkg_place_def)
    ultimately obtain z where z: "q = C1PKG_APPS_ROOT @ ''/'' @ ident @ CHR ''/'' # ''versions/'' @ v @ z" "z = [] \<or> hd z = CHR ''/''"
      by (auto simp: within_def slash_def prefix_def pkg_place_def pkg_link_def pkg_app_def)
    note split = slash_free_head [OF slashfree(1) v(3)]
    consider "q = pkg_app (ch_id ch)" | name where "q = pkg_link (ch_id ch) name" "name \<in> {''versions'', ''current'', ''previous'', ''.pointer.tmp''}"
      | "q = ch_place ch" | "q = TRANSACTION_PATH \<or> q = TRANSACTION_TEMP"
      using q by (auto simp: vital_def)
    then show False
    proof cases
      case 1
      with z slashfree show False by (auto simp: pkg_app_def)
    next
      case 2
      then have "ch_id ch @ CHR ''/'' # name = ident @ CHR ''/'' # ''versions/'' @ v @ z"
        using z(1) by (simp add: pkg_link_def pkg_app_def)
      from split [OF this] 2(2) show False by auto
    next
      case 3
      then have "ch_id ch @ CHR ''/'' # ''versions/'' @ ch_version ch = ident @ CHR ''/'' # ''versions/'' @ v @ z"
        using z(1) by (simp add: ch_place_def pkg_place_def pkg_link_def pkg_app_def)
      from split [OF this] have same: "ident = ch_id ch" "ch_version ch = v @ z" by simp_all
      with z(2) slashfree(2) have "z = []" by (cases z) auto
      with same a w older show False by (auto simp: abandoned_def prepared_change_def still_def)
    next
      case 4
      with z(1) show False by (auto simp: pkg_paths)
    qed
  qed
  ultimately show ?thesis by (auto simp: collectable_def)
qed

lemma keeps_cleanup:
  assumes ok: "change_ok ch" and older: "ch_version ch = ch_previous ch"
  shows "keeps (installed_change ch) (cleanup_abandoned_work locks stale)"
  unfolding keeps_def hoare_def
proof (intro allI impI)
  fix w r w' assume w: "installed_change ch w" and run: "cleanup_abandoned_work locks stale w = (r, w')"
  from hoareD [OF cleanup_collects [unfolded keeps_def] touches_refl run]
  have t: "touches (collectable w) w w'" by (cases r) auto
  have "\<not> collectable w C1PKG_STATE_ROOT" "\<not> collectable w C1PKG_APPS_ROOT"
    by (auto simp: collectable_def within_def lease_file_def lease_paths pkg_paths C1PKG_STAGING_ROOT_def C1PKG_TRASH_ROOT_def
      slash_def prefix_def)
  with t have dirs: "is_dir w' C1PKG_STATE_ROOT = is_dir w C1PKG_STATE_ROOT" "is_dir w' C1PKG_APPS_ROOT = is_dir w C1PKG_APPS_ROOT"
    by (simp_all add: touches_def is_dir_def)
  have same: "file_at w' q = file_at w q" if "vital ch q" for q
    using t live_not_collectable [OF w ok older that] by (simp add: touches_def)
  have "installed_change ch w'"
    by (rule installed_near [OF w _ same]) (use t w dirs in \<open>simp_all add: touches_def prepared_change_def still_def standing_def\<close>)
  then show "case r of None \<Rightarrow> installed_change ch w' | Some x \<Rightarrow> installed_change ch w'" by (cases r) auto
qed

lemma store_rollback_hoare:
  assumes ok: "change_ok ch" and kept: "\<not> ch_install ch" and older: "ch_version ch = ch_previous ch"
  shows "hoare (installed_change ch) (c1pkg_store_rollback dev query locks stale (ch_id ch)) (\<lambda>_. completed ch) (found ch)"
proof -
  let ?I = "installed_change ch"
  have step: "hoare ?I m (\<lambda>_. ?I) (found ch)" if "keeps ?I m" for m :: "'a act"
    by (rule hoare_weaken [OF that [unfolded keeps_def]]) (auto intro: prepared_found)
  have "hoare ?I (then_act (cleanup_abandoned_work locks stale) (rollback_version (ch_id ch))) (\<lambda>_. completed ch) (found ch)"
    by (rule hoare_then [OF step [OF keeps_cleanup [OF ok older]] rollback_hoare [OF ok kept older]])
  then have body: "hoare ?I (closing_quietly (then_act (cleanup_abandoned_work locks stale) (rollback_version (ch_id ch))))
      (\<lambda>_. completed ch) (found ch)"
    unfolding hoare_def
  proof (intro allI impI)
    let ?m = "then_act (cleanup_abandoned_work locks stale) (rollback_version (ch_id ch))"
    fix w r w' assume m: "\<forall>w r w'. ?I w \<longrightarrow> ?m w = (r, w') \<longrightarrow> (case r of None \<Rightarrow> found ch w' | Some x \<Rightarrow> completed ch w')"
      and w: "?I w" and run: "closing_quietly ?m w = (r, w')"
    obtain v where v: "?m w = (r, v)" "w' = snd (sys_touch v)" using run by (cases "?m w") (auto simp: closing_quietly_def)
    have same: "same_files v w'" unfolding v(2) by (rule sys_touch_success [OF surjective_pairing])
    from m w v(1) have "case r of None \<Rightarrow> found ch v | Some x \<Rightarrow> completed ch v" by blast
    then show "case r of None \<Rightarrow> found ch w' | Some x \<Rightarrow> completed ch w'"
      using stable_same_files [OF stable_found same] stable_same_files [OF stable_states(5) same] by (cases r) auto
  qed
  show ?thesis
    unfolding c1pkg_store_rollback_def with_store_lock_def
    by (rule hoare_then [OF step [OF keeps_simple(3)] hoare_then [OF step [OF keeps_prepare]
        hoare_then [OF step [OF keeps_acquire_lock] body]]])
qed

section \<open>A ready store\<close>

text \<open>All directories are there, the storage is mounted apart, the state directory and the lock file are private,
  and nobody else holds the lock.\<close>

definition private_dir :: "nat \<Rightarrow> inode \<Rightarrow> bool" where
  "private_dir user i \<longleftrightarrow> st_kind i = S_IFDIR \<and> st_uid i = user \<and> st_mode i AND 63 = 0"

definition private_file :: "nat \<Rightarrow> inode \<Rightarrow> bool" where
  "private_file user i \<longleftrightarrow> st_kind i = S_IFREG \<and> st_nlink i = 1 \<and> st_uid i = user \<and> st_mode i AND 511 = 384"

definition store_ready :: "world \<Rightarrow> bool" where
  "store_ready w \<longleftrightarrow> list_all (is_dir w) standing_paths \<and> (\<exists>i. file_at w C1PKG_STATE_ROOT = Some i \<and> private_dir (euid w) i) \<and>
     (\<forall>i. file_at w STORE_LOCK = Some i \<longrightarrow> private_file (euid w) i)"

definition mounted :: "device \<Rightarrow> bool" where
  "mounted dev \<longleftrightarrow> dev C1PKG_STORAGE_MOUNT \<noteq> dev ''/'' \<and>
     list_all (\<lambda>d. dev d = dev C1PKG_STORAGE_MOUNT) [C1PKG_STORAGE_ROOT, C1PKG_APPS_ROOT, C1PKG_WORK_ROOT,
       C1PKG_STAGING_ROOT, C1PKG_TRASH_ROOT]"

lemma standing_roots:
  "list_all (\<lambda>d. list_all (\<lambda>q. q \<in> set standing_paths \<and> q \<noteq> STORE_LOCK) (d # mkdir_prefixes d) \<and> length d < C1PKG_PATH_MAX)
     store_roots"
  by code_simp

lemma ready_dirs: "store_ready w \<Longrightarrow> d \<in> set standing_paths \<Longrightarrow> is_dir w d"
  by (simp add: store_ready_def list_all_iff)

lemma runs_standing_dir: "d \<in> set standing_paths \<Longrightarrow> runs store_ready (make_or_keep d m) (\<lambda>_. store_ready)"
  unfolding make_or_keep_def sys_mkdir_def
proof (rule runs_bind [OF runs_errno_of])
  fix w assume "store_ready w" "d \<in> set standing_paths"
  then have "file_at w d \<noteq> None" using ready_dirs is_dir_file_at by blast
  with \<open>store_ready w\<close> show "\<exists>r w'. (if file_at w d \<noteq> None then (Inl EEXIST, w)
      else if \<not> is_dir w (parent_directory d) then (Inl ENOENT, w)
      else (Inr (), put_file d \<lparr> st_kind = S_IFDIR, st_mode = m, st_uid = euid w, st_nlink = 2, st_data = [],
        st_ino = fresh_ino w \<rparr> w)) = (r, w') \<and> faults w' = faults w \<and> (r = Inr () \<or> r = Inl EEXIST) \<and> store_ready w'"
    by auto
qed (rule runs_require)

lemma runs_standing_all: "list_all (\<lambda>q. q \<in> set standing_paths) ps \<Longrightarrow> runs store_ready (make_all ps m) (\<lambda>_. store_ready)"
proof (induction ps)
  case Nil
  show ?case unfolding make_all.simps by (rule runs_ret)
next
  case (Cons p ps)
  then have "runs store_ready (make_or_keep p m) (\<lambda>_. store_ready)" "runs store_ready (make_all ps m) (\<lambda>_. store_ready)"
    by (simp_all add: runs_standing_dir)
  then show ?case unfolding make_all.simps by (rule runs_then)
qed

lemma runs_chmod_standing:
  assumes d: "d \<in> set standing_paths" "d \<noteq> STORE_LOCK" and m: "d = C1PKG_STATE_ROOT \<Longrightarrow> m AND 63 = 0"
  shows "runs store_ready (ok (sys_chmod d m)) (\<lambda>_. store_ready)"
  unfolding sys_chmod_def
proof (rule runs_ok)
  fix w assume w: "store_ready w"
  then obtain i where i: "file_at w d = Some i" "st_kind i = S_IFDIR" using ready_dirs [OF w d(1)] by (auto simp: is_dir_iff)
  let ?v = "put_file d (i\<lparr> st_mode := m \<rparr>) w"
  have dirs: "is_dir ?v q = is_dir w q" for q using i by (simp add: is_dir_def)
  have all: "list_all (is_dir ?v) standing_paths" using w by (simp add: store_ready_def dirs list_all_iff)
  have "store_ready ?v"
    using w i d(2) m unfolding store_ready_def by (auto simp: all private_dir_def)
  with i show "\<exists>x w'. (case file_at w d of None \<Rightarrow> (Inl ENOENT, w)
      | Some i \<Rightarrow> (Inr (), put_file d (i\<lparr> st_mode := m \<rparr>) w)) = (Inr x, w') \<and> faults w' = faults w \<and> store_ready w'"
    by simp
qed

lemma runs_standing_root:
  assumes "d \<in> set store_roots" and "d = C1PKG_STATE_ROOT \<Longrightarrow> m AND 63 = 0"
  shows "runs store_ready (c1pkg_mkdir_p d m) (\<lambda>_. store_ready)"
proof -
  have facts: "d \<in> set standing_paths" "d \<noteq> STORE_LOCK" "list_all (\<lambda>q. q \<in> set standing_paths) (mkdir_prefixes d)"
    "length d < C1PKG_PATH_MAX"
    using standing_roots assms(1) by (auto simp: list_all_iff)
  show ?thesis
    unfolding c1pkg_mkdir_p_def
    by (rule runs_then [OF runs_require_pre [OF facts(4)] runs_then [OF runs_standing_all [OF facts(3)]
        runs_then [OF runs_standing_dir [OF facts(1)] runs_chmod_standing [OF facts(1,2) assms(2)]]]])
qed

lemma runs_existing: "d \<in> set standing_paths \<Longrightarrow> runs store_ready (existing_directory d) (\<lambda>_. store_ready)"
  unfolding existing_directory_def
  by (rule runs_bind [OF runs_lstat], use ready_dirs is_dir_file_at in blast)
    (use ready_dirs in \<open>force simp: runs_def require_def is_dir_iff\<close>)

lemma runs_check_devices:
  "list_all (\<lambda>d. d \<in> set standing_paths \<and> dev d = e) ds \<Longrightarrow> runs store_ready (check_devices dev e False ds) (\<lambda>_. store_ready)"
proof (induction ds)
  case Nil
  show ?case unfolding check_devices.simps by (rule runs_ret)
next
  case (Cons d ds)
  then have d: "d \<in> set standing_paths" "dev d = e" and rest: "runs store_ready (check_devices dev e False ds) (\<lambda>_. store_ready)" by simp_all
  have "runs store_ready (then_act (existing_directory d) (then_act (require (dev d = e)) (check_devices dev e False ds))) (\<lambda>_. store_ready)"
    by (rule runs_then [OF runs_existing [OF d(1)] runs_then [OF runs_require_pre [OF d(2)] rest]])
  then show ?case by (simp add: bind_act_def ret_def)
qed

lemma runs_prepare:
  assumes "mounted dev"
  shows "runs store_ready (c1pkg_storage_prepare dev query C1PKG_STORAGE_MAINTENANCE n) (\<lambda>_. store_ready)"
proof -
  have valid: "valid_layout default_layout" by code_simp
  have mount: "runs store_ready (validate_mount dev default_layout) (\<lambda>_. store_ready)"
  proof -
    have "C1PKG_STORAGE_MOUNT \<in> set standing_paths" "''/'' \<in> set standing_paths"
      by (simp_all add: standing_paths_def C1PKG_STORAGE_MOUNT_def)
    moreover have "\<not> (require_distinct_mount default_layout \<and> dev (mount_root default_layout) = dev (system_root default_layout))"
      using assms by (simp add: mounted_def default_layout_def)
    ultimately show ?thesis
      unfolding validate_mount_def
      by (intro runs_then [OF runs_existing runs_then [OF runs_existing runs_require_pre]]) (simp_all add: default_layout_def)
  qed
  have made: "runs store_ready (ensure_storage_directories default_layout) (\<lambda>_. store_ready)"
  proof -
    have roots: "{C1PKG_STORAGE_ROOT, C1PKG_APPS_ROOT, C1PKG_WORK_ROOT, C1PKG_STAGING_ROOT, C1PKG_TRASH_ROOT} \<subseteq> set store_roots"
      "C1PKG_STATE_ROOT \<notin> {C1PKG_STORAGE_ROOT, C1PKG_APPS_ROOT, C1PKG_WORK_ROOT, C1PKG_STAGING_ROOT, C1PKG_TRASH_ROOT}"
      by (simp add: store_roots_def) code_simp
    have one: "runs store_ready (c1pkg_mkdir_p d m) (\<lambda>_. store_ready)"
      if "d \<in> {C1PKG_STORAGE_ROOT, C1PKG_APPS_ROOT, C1PKG_WORK_ROOT, C1PKG_STAGING_ROOT, C1PKG_TRASH_ROOT}" for d m
      by (rule runs_standing_root) (use that roots in auto)
    have "runs store_ready (make_directories [(C1PKG_STORAGE_ROOT, 493), (C1PKG_APPS_ROOT, 493), (C1PKG_WORK_ROOT, 448),
        (C1PKG_STAGING_ROOT, 448), (C1PKG_TRASH_ROOT, 448)]) (\<lambda>_. store_ready)"
      unfolding make_directories.simps by (intro runs_then [OF one] runs_ret; simp)
    then show ?thesis by (simp add: ensure_storage_directories_def storage_directories_def default_layout_def)
  qed
  have devices: "runs store_ready (validate_storage_devices dev default_layout C1PKG_STORAGE_MAINTENANCE) (\<lambda>_. store_ready)"
  proof -
    have "list_all (\<lambda>d. d \<in> set standing_paths) (map fst (storage_directories default_layout))" by code_simp
    with assms have "runs store_ready (check_devices dev (dev (mount_root default_layout)) False (map fst (storage_directories default_layout))) (\<lambda>_. store_ready)"
      by (intro runs_check_devices) (simp add: mounted_def storage_directories_def default_layout_def)
    then show ?thesis by (simp add: validate_storage_devices_def storage_directories_def)
  qed
  show ?thesis
    unfolding c1pkg_storage_prepare_def c1pkg_storage_prepare_at_def
    by (simp only: c1pkg_storage_access.distinct simp_thms if_True if_False)
      (rule runs_then [OF runs_require_pre [OF valid] runs_then [OF mount runs_then [OF made runs_then [OF devices runs_ret]]]])
qed

lemma runs_acquire_lock:
  assumes ok: "change_ok ch" and free: "locks STORE_LOCK True 0 = Locked"
  shows "runs (\<lambda>w. installed_change ch w \<and> store_ready w) (acquire_lock locks) (\<lambda>_. installed_change ch)"
proof (rule runs_hoare [where E = "installed_change ch"])
  show "hoare (\<lambda>w. installed_change ch w \<and> store_ready w) (acquire_lock locks) (\<lambda>_. installed_change ch) (installed_change ch)"
    by (rule hoare_weaken [OF keeps_acquire_lock [unfolded keeps_def]]) auto
  have joined: "c1pkg_join C1PKG_STATE_ROOT ''lock'' = Some STORE_LOCK"
    "c1pkg_join C1PKG_STATE_ROOT ''cache'' = Some (C1PKG_STATE_ROOT @ ''/cache'')"
    by (simp_all add: c1pkg_join_def C1PKG_STATE_ROOT_def C1PKG_PATH_MAX_def STORE_LOCK_def)
  have both: "runs (\<lambda>w. installed_change ch w \<and> store_ready w) m (\<lambda>_ w. installed_change ch w \<and> store_ready w)"
    if "keeps (installed_change ch) m" "runs store_ready m (\<lambda>_. store_ready)" for m :: "'a act"
    using that unfolding runs_def keeps_def hoare_def by (metis option.simps(5))
  have state_keeps: "keeps (installed_change ch) c1pkg_storage_state_init"
    unfolding c1pkg_storage_state_init_def c1pkg_storage_state_init_at_def
    by (simp only: default_layout_def c1pkg_storage_layout.select_convs joined bind_lift)
      (intro keeps_then keeps_simple keeps_root; simp add: store_roots_def)
  have valid: "valid_layout default_layout" by code_simp
  have roots: "C1PKG_STATE_ROOT \<in> set store_roots" "C1PKG_STATE_ROOT @ ''/cache'' \<in> set store_roots"
    by (simp_all add: store_roots_def)
  have "runs store_ready c1pkg_storage_state_init (\<lambda>_. store_ready)"
  proof -
    have "layout_state_root default_layout = C1PKG_STATE_ROOT" by (simp add: default_layout_def)
    then show ?thesis
      unfolding c1pkg_storage_state_init_def c1pkg_storage_state_init_at_def
      by (simp only: joined bind_lift)
        (rule runs_then [OF runs_require_pre [OF valid] runs_then [OF runs_standing_root [OF roots(1)] runs_standing_root [OF roots(2)]]]; simp)
  qed
  note state = both [OF state_keeps this]
  let ?K = "\<lambda>w. installed_change ch w \<and> store_ready w"
  have look: "runs ?K (errno_of (sys_lstat C1PKG_STATE_ROOT)) (\<lambda>r w. ?K w \<and> (\<exists>i. r = Inr i \<and> private_dir (euid w) i))"
    by (rule runs_post [OF runs_probe_call]) (auto simp: store_ready_def)
  have user: "runs (\<lambda>w. P w \<and> euid w = u) m (\<lambda>x w. Q x w \<and> euid w = u)"
    if "runs P m Q" "framed (\<lambda>q. True) m" for P m and Q :: "'a \<Rightarrow> world \<Rightarrow> bool" and u
    using that unfolding runs_def framed_def touches_def same_process_def by (metis snd_conv)
  have opened: "runs ?K (ok (sys_open_lock STORE_LOCK)) (\<lambda>i w. installed_change ch w \<and> private_file (euid w) i)"
  proof (rule runs_hoare)
    show "hoare ?K (ok (sys_open_lock STORE_LOCK)) (\<lambda>i w. installed_change ch w \<and> private_file (euid w) i) (\<lambda>_. True)"
      unfolding hoare_def
    proof (intro allI impI)
      fix w r w' assume w: "?K w" and run: "ok (sys_open_lock STORE_LOCK) w = (r, w')"
      have "installed_change ch w'" if "r = Some i" for i
        using hoareD [OF keeps_open_store_lock [unfolded keeps_def] _ run] w that by simp
      moreover have "private_file (euid w') i" if "r = Some i" for i
      proof -
        from run that have "sys_open_lock STORE_LOCK w = (Inr i, w')" by (auto simp: ok_def split: prod.splits sum.splits)
        then have "private_file (euid w) i" "euid w' = euid w"
          using w unfolding sys_open_lock_def
          by (auto dest!: faulty_Inr simp: Let_def store_ready_def private_file_def split: option.splits if_splits)
        then show ?thesis by simp
      qed
      ultimately show "case r of None \<Rightarrow> True | Some i \<Rightarrow> installed_change ch w' \<and> private_file (euid w') i"
        by (cases r) auto
    qed
    have "parent_directory STORE_LOCK = C1PKG_STATE_ROOT" by code_simp
    moreover have "C1PKG_STATE_ROOT \<in> set standing_paths" by code_simp
    ultimately show "runs ?K (ok (sys_open_lock STORE_LOCK)) (\<lambda>_ _. True)"
      unfolding sys_open_lock_def
      by (intro runs_ok) (auto simp: Let_def store_ready_def list_all_iff private_file_def split: option.split)
  qed
  have recover: "runs (installed_change ch) recover_transaction (\<lambda>_ _. True)"
    by (rule runs_weak [OF runs_pre [OF runs_recover [OF ok]]]) (auto intro: prepared_found)
  have checked: "runs (\<lambda>w. (installed_change ch w \<and> private_file (euid w) i) \<and> euid w = u)
      (on_failure (then_act (ok sys_touch) (then_act (require (st_kind i = S_IFREG \<and> st_nlink i = 1 \<and> st_uid i = u \<and>
                  st_mode i AND 511 = 384)) (then_act (ok (sys_flock (locks STORE_LOCK True 0))) recover_transaction)))
        (ignore sys_touch)) (\<lambda>_ _. True)" for i u
  proof (rule runs_on_failure, rule runs_then [OF runs_touch], rule runs_then [OF runs_require_pre])
    have "runs P (ok (sys_flock (locks STORE_LOCK True 0))) (\<lambda>_. P)" for P
      unfolding sys_flock_def by (rule runs_ok) (simp add: free)
    from runs_then [OF this recover]
    show "runs (\<lambda>w. (installed_change ch w \<and> private_file (euid w) i) \<and> euid w = u)
      (then_act (ok (sys_flock (locks STORE_LOCK True 0))) recover_transaction) (\<lambda>_ _. True)"
      by (rule runs_pre) blast
  qed (auto simp: private_file_def)
  have framed_state: "framed (\<lambda>q. True) c1pkg_storage_state_init"
    unfolding c1pkg_storage_state_init_def c1pkg_storage_state_init_at_def
    by (simp only: default_layout_def c1pkg_storage_layout.select_convs joined bind_lift) (intro frames; simp)
  have framed_open: "framed (\<lambda>q. True) (ok (sys_open_lock STORE_LOCK))" by (intro frames) simp
  have rest: "runs (\<lambda>w. ?K w \<and> euid w = u) (then_act c1pkg_storage_state_init (bind_act (ok (sys_open_lock STORE_LOCK)) (\<lambda>i.
      on_failure (then_act (ok sys_touch) (then_act (require (st_kind i = S_IFREG \<and> st_nlink i = 1 \<and> st_uid i = u \<and>
                  st_mode i AND 511 = 384)) (then_act (ok (sys_flock (locks STORE_LOCK True 0))) recover_transaction)))
        (ignore sys_touch)))) (\<lambda>_ _. True)" for u
    by (rule runs_then [OF user [OF state framed_state] runs_bind [OF user [OF opened framed_open] checked]])
  have asked: "runs ?K (asks euid) (\<lambda>u w. ?K w \<and> euid w = u)"
    by (rule runs_post [OF runs_asks]) auto
  note looked = user [OF look framed_errno_of [OF framed_reads(1)]]
  have decided: "runs (\<lambda>w. (?K w \<and> (\<exists>i. r = Inr i \<and> private_dir (euid w) i)) \<and> euid w = u)
      (require (case r of Inl e \<Rightarrow> True
       | Inr state_info \<Rightarrow> st_kind state_info = S_IFDIR \<and> st_uid state_info = u \<and> st_mode state_info AND 63 = 0))
      (\<lambda>_ w. ?K w \<and> euid w = u)" for r :: "errno + inode" and u
    unfolding runs_def require_def by (auto simp: private_dir_def)
  show "runs ?K (acquire_lock locks) (\<lambda>_ _. True)"
    unfolding acquire_lock_def joined bind_lift
    by (rule runs_bind [OF asked runs_bind [OF looked runs_then [OF decided rest]]])
qed

lemma undisturbed_for_each [undisturbing]: "(\<And>x. undisturbed (f x)) \<Longrightarrow> undisturbed (for_each f xs)"
  by (induction xs) (auto intro: undisturbing)

lemma undisturbed_option [undisturbing]:
  "undisturbed m \<Longrightarrow> (\<And>x. undisturbed (k x)) \<Longrightarrow> undisturbed (case r of None \<Rightarrow> m | Some x \<Rightarrow> k x)"
  by (cases r) auto

lemma undisturbed_rmdir [undisturbing]: "undisturbed (sys_rmdir p)"
  unfolding sys_rmdir_def by (intro undisturbed_faulty) (auto simp: del_file_def split: option.split)

lemma undisturbed_trees [undisturbing]: "undisturbed (pkg_remove_tree n p)" "undisturbed (package_tree n p)"
proof -
  have probe: "undisturbed (probe p)" for p unfolding probe_def by (intro undisturbing)
  show plain: "undisturbed (pkg_remove_tree n p)" for n p
    by (induction n arbitrary: p) (auto simp only: pkg_remove_tree.simps intro!: undisturbing probe)
  show "undisturbed (package_tree n p)"
    by (induction n arbitrary: p)
      (auto simp only: package_tree.simps c1pkg_remove_tree_def intro!: undisturbing probe plain)
qed

lemma undisturbed_cleanup: "undisturbed (cleanup_abandoned_work locks stale)"
proof -
  have attempts: "undisturbed (guard_attempts answers i n)" for answers i n
    by (induction n arbitrary: i) (auto intro!: undisturbing split: flock_answer.split)
  have lease: "undisturbed (open_lease p)" for p unfolding open_lease_def by (intro undisturbing)
  have acquire: "undisturbed (c1_app_run_acquire locks)"
    unfolding c1_app_run_acquire_def guarded_def mode_write_guard_def c1_app_run_acquire_at_def c1_app_lease_acquire_at_def
      acquire_at_def
    by (intro undisturbing lease attempts)
  have sync: "undisturbed (c1pkg_sync_directory p)" for p unfolding c1pkg_sync_directory_def by (intro undisturbing)
  have trusted: "undisturbed (trusted_directory p)" for p unfolding trusted_directory_def by (intro undisturbing)
  have pointer: "undisturbed (pointer_version e a n)" for e a n unfolding pointer_version_def by (intro undisturbing)
  have versions: "undisturbed (cleanup_versions e n)" for e n
    unfolding cleanup_versions_def remove_package_tree_def by (intro undisturbing sync trusted pointer)
  have work: "undisturbed (cleanup_work_directory d)" for d
    unfolding cleanup_work_directory_def remove_package_tree_def by (intro undisturbing)
  show ?thesis
    unfolding cleanup_abandoned_work_def c1_app_lease_release_def by (intro undisturbing acquire versions work)
qed

lemma runs_store_rollback:
  assumes ok: "change_ok ch" and kept: "\<not> ch_install ch" and older: "ch_version ch = ch_previous ch"
    and free: "locks STORE_LOCK True 0 = Locked" and mount: "mounted dev"
  shows "runs (\<lambda>w. installed_change ch w \<and> store_ready w) (c1pkg_store_rollback dev query locks stale (ch_id ch)) (\<lambda>_ _. True)"
proof -
  let ?I = "installed_change ch"
  have ident: "c1pkg_safe_id (ch_id ch)" using ok by (simp add: change_ok_def)
  have prepared: "runs (\<lambda>w. ?I w \<and> store_ready w) (c1pkg_storage_prepare dev query C1PKG_STORAGE_MAINTENANCE 0)
      (\<lambda>_ w. ?I w \<and> store_ready w)"
    using keeps_prepare [of ch dev query 0] runs_prepare [OF mount, of query 0]
    unfolding runs_def keeps_def hoare_def by (metis option.simps(5))
  have collected: "runs ?I (cleanup_abandoned_work locks stale) (\<lambda>_. ?I)"
  proof (rule runs_hoare [OF keeps_cleanup [OF ok older, unfolded keeps_def]])
    show "runs ?I (cleanup_abandoned_work locks stale) (\<lambda>_ _. True)"
      using undisturbed_cleanup [of locks stale]
      unfolding runs_def undisturbed_def cleanup_abandoned_work_def ignore_def by fastforce
  qed
  show ?thesis
    unfolding c1pkg_store_rollback_def with_store_lock_def
    by (rule runs_then [OF runs_require_pre [OF ident] runs_then [OF prepared runs_then [OF runs_acquire_lock [of ch locks, OF ok free]
        runs_closing_quietly [OF runs_then [OF collected runs_weak [OF runs_rollback [OF ok kept older]]]]]]])
qed

lemma example_shop_ready: "store_ready example_shop" "mounted example_device"
proof -
  show "store_ready example_shop"
    unfolding store_ready_def example_shop_files by (simp add: private_dir_def example_dir_def example_shop_files(1))
  show "mounted example_device" by code_simp
qed

lemma example_shop_prepared: "prepared_change example_rollback (ch_place example_rollback) example_shop"
proof -
  have "is_dir example_shop C1PKG_STATE_ROOT" "is_dir example_shop C1PKG_APPS_ROOT"
    using example_shop_files(1,14,15) by (simp_all add: list_all_iff)
  then show ?thesis
    unfolding prepared_change_def still_def standing_def points_def no_dir_def payload_at_def payload_inode_def no_journal_def
      temp_ok_def trusted_at_def ch_place_def example_fields example_shop_files
    by (simp add: example_dir_def example_link_def example_rollback_def)
qed

section \<open>Properties\<close>

text \<open>C6. A whole rollback always comes to rest. The operation prepares the storage, takes the lock, recovers, collects
  abandoned work and switches; whatever it meets on the way, and however many recoveries after it are interrupted, one undisturbed
  recovery succeeds and either nothing is switched, the rollback not having reported success, or the two pointers have changed
  places and the version rolled back to lies there unchanged, never collected. On a mounted, ready store
  with a free lock an undisturbed rollback reports success.\<close>

theorem store_rollback_settles:
  assumes ok: "change_ok ch" and kept: "\<not> ch_install ch" and older: "ch_version ch = ch_previous ch"
    and w: "prepared_change ch (ch_place ch) w" and run: "c1pkg_store_rollback dev query locks stale (ch_id ch) w = (r, w1)"
  shows "(faults w = [] \<and> store_ready w \<and> mounted dev \<and> locks STORE_LOCK True 0 = Locked \<longrightarrow> r \<noteq> None) \<and>
    (\<exists>w2. recover_transaction (calm (recoveries fs w1)) = (Some (), w2) \<and> no_journal w2 \<and>
    (r = None \<and> points w2 (link_of ch ''current'') (ch_current ch) \<and>
       points w2 (link_of ch ''previous'') (ch_previous ch) \<or>
     points w2 (link_of ch ''current'') (ch_previous ch) \<and>
       points w2 (link_of ch ''previous'') (ch_current ch) \<and> in_place ch w2))"
proof -
  have success: "r \<noteq> None" if "faults w = []" "store_ready w" "mounted dev" "locks STORE_LOCK True 0 = Locked"
    using runs_succeeds [OF runs_store_rollback [of ch locks dev query stale, OF ok kept older that(4,3)] _ run that(1)] w that(2)
    by blast
  have "found ch w1" "r = None \<or> completed ch w1"
    using hoareD [OF store_rollback_hoare [OF ok kept older] w run]
    by (auto simp: found_def settled_def split: option.splits)
  from recovery_settles [OF ok this(1), of fs] this(2) success show ?thesis
    using older by (auto simp: completed_def at_rest_def dest!: settled_pointers)
qed

theorem store_rollback_settles_witness:
  "\<exists>w. recover_transaction (calm (recoveries [[Done, Cut 0], [Fail 0]]
      (snd (c1pkg_store_rollback example_device example_space all_free (\<lambda>_ _. EOTHER) ''clock'' example_shop)))) = (Some (), w) \<and>
    no_journal w \<and> points w (pkg_link ''clock'' ''current'') ''1.0'' \<and> points w (pkg_link ''clock'' ''previous'') ''2.0''"
proof -
  note settles = store_rollback_settles [OF example_rollback_ok _ example_shop_prepared surjective_pairing,
    where dev = example_device and query = example_space and locks = all_free and stale = "\<lambda>_ _. EOTHER"
      and fs = "[[Done, Cut 0], [Fail 0]]", unfolded example_fields, OF refl]
  from conjunct2 [OF settles] mp [OF conjunct1 [OF settles]] example_shop_ready example_shop_files(12) show ?thesis by blast
qed

end
