(* ===== verification/Preferences.thy ===== *)
theory Preferences
  imports Utf8Text SecureFile
begin

text \<open>
  The preferences of the desktop (\<open>src/C1ancher/src/ui/preferences.c\<close>): defaults, power modes, the
  lenient reader and the writer of \<open>desktop.conf\<close> and the cycling of settings. The file system calls
  are those of the faulty file system; the buffered stream is read and written as a whole.
\<close>

section \<open>The record\<close>

datatype c1_language = C1_LANGUAGE_ZH | C1_LANGUAGE_EN

datatype c1_lock_style = C1_LOCK_WALLPAPER | C1_LOCK_FREEZE | C1_LOCK_TEXT | C1_LOCK_CALENDAR

datatype c1_power_mode = C1_POWER_MODE_SAVING | C1_POWER_MODE_STANDARD | C1_POWER_MODE_PERFORMANCE

record c1_power_settings =
  lock_minutes :: nat
  shutdown_minutes :: nat
  suspend_on_lock_setting :: bool

record c1_preferences =
  language :: c1_language
  lock_style :: c1_lock_style
  power_mode :: c1_power_mode
  utc_offset_minutes :: int
  network_time :: bool
  lock_text :: string
  terminal_enabled :: bool
  background_checks :: bool

definition C1_SETTING_LANGUAGE :: nat where "C1_SETTING_LANGUAGE = 0"
definition C1_SETTING_POWER_MODE :: nat where "C1_SETTING_POWER_MODE = 1"
definition C1_SETTING_LOCK_STYLE :: nat where "C1_SETTING_LOCK_STYLE = 2"
definition C1_SETTING_TIME_ZONE :: nat where "C1_SETTING_TIME_ZONE = 3"
definition C1_SETTING_NETWORK_TIME :: nat where "C1_SETTING_NETWORK_TIME = 4"
definition C1_SETTING_LOCK_TEXT :: nat where "C1_SETTING_LOCK_TEXT = 5"
definition C1_SETTING_UPDATE :: nat where "C1_SETTING_UPDATE = 6"
definition C1_SETTING_ABOUT :: nat where "C1_SETTING_ABOUT = 7"
definition C1_SETTING_COUNT :: nat where "C1_SETTING_COUNT = 8"

lemmas setting_defs = C1_SETTING_LANGUAGE_def C1_SETTING_POWER_MODE_def C1_SETTING_LOCK_STYLE_def
  C1_SETTING_TIME_ZONE_def C1_SETTING_NETWORK_TIME_def C1_SETTING_LOCK_TEXT_def C1_SETTING_UPDATE_def
  C1_SETTING_ABOUT_def C1_SETTING_COUNT_def

definition c1_ui_tr :: "c1_language \<Rightarrow> string \<Rightarrow> string \<Rightarrow> string" where
  "c1_ui_tr lang zh en = (if lang = C1_LANGUAGE_EN then en else zh)"

text \<open>The default lock text, five Chinese characters with their comma.\<close>

definition default_lock_text :: string where
  "default_lock_text = map char_of
     [0xe4, 0xbd, 0xa0, 0xe5, 0xa5, 0xbd, 0xef, 0xbc, 0x8c, 0xe4, 0xb8, 0x96, 0xe7, 0x95, 0x8c :: nat]"

definition c1_preferences_default :: c1_preferences where
  "c1_preferences_default = \<lparr> language = C1_LANGUAGE_ZH, lock_style = C1_LOCK_WALLPAPER,
     power_mode = C1_POWER_MODE_STANDARD, utc_offset_minutes = 480, network_time = True,
     lock_text = default_lock_text, terminal_enabled = True, background_checks = True \<rparr>"

definition c1_preferences_power_settings :: "c1_power_mode \<Rightarrow> c1_power_settings" where
  "c1_preferences_power_settings mode =
     (if mode = C1_POWER_MODE_SAVING
      then \<lparr> lock_minutes = 1, shutdown_minutes = 2, suspend_on_lock_setting = False \<rparr>
      else if mode = C1_POWER_MODE_PERFORMANCE
      then \<lparr> lock_minutes = 5, shutdown_minutes = 0, suspend_on_lock_setting = True \<rparr>
      else \<lparr> lock_minutes = 3, shutdown_minutes = 5, suspend_on_lock_setting = False \<rparr>)"

section \<open>Reading\<close>

text \<open>\<open>strtol\<close> in base ten of the whole text: white space, a sign, digits. A value outside \<open>long\<close> is
  outside every range that is asked for.\<close>

definition number :: "string \<Rightarrow> int \<Rightarrow> int \<Rightarrow> int option" where
  "number text lo hi =
     (let t = dropWhile is_space text;
          negative = (t \<noteq> [] \<and> hd t = CHR ''-'');
          digits = (if t \<noteq> [] \<and> (hd t = CHR ''-'' \<or> hd t = CHR ''+'') then tl t else t);
          v = (if negative then - int (num_value digits) else int (num_value digits)) in
      if digits = [] \<or> \<not> list_all is_digit digits \<or> v < lo \<or> v > hi then None else Some v)"

definition flag_of :: "string \<Rightarrow> bool option" where
  "flag_of v = map_option (\<lambda>n. n \<noteq> 0) (number v 0 1)"

definition style_of :: "int \<Rightarrow> c1_lock_style" where
  "style_of n = (if n = 0 then C1_LOCK_WALLPAPER else if n = 1 then C1_LOCK_FREEZE
                 else if n = 2 then C1_LOCK_TEXT else C1_LOCK_CALENDAR)"

text \<open>One assignment; a key that is not known changes nothing.\<close>

definition set_preference :: "string \<Rightarrow> string \<Rightarrow> c1_preferences \<Rightarrow> c1_preferences option" where
  "set_preference key v p =
     (if key = ''language'' then
        (if v = ''zh'' then Some (p\<lparr> language := C1_LANGUAGE_ZH \<rparr>)
         else if v = ''en'' then Some (p\<lparr> language := C1_LANGUAGE_EN \<rparr>) else None)
      else if key = ''lock_text'' then
        (if \<not> c1_preferences_valid_text v then None else Some (p\<lparr> lock_text := v \<rparr>))
      else if key = ''power_mode'' then
        (if v = ''saving'' then Some (p\<lparr> power_mode := C1_POWER_MODE_SAVING \<rparr>)
         else if v = ''standard'' then Some (p\<lparr> power_mode := C1_POWER_MODE_STANDARD \<rparr>)
         else if v = ''performance'' then Some (p\<lparr> power_mode := C1_POWER_MODE_PERFORMANCE \<rparr>) else None)
      else if key = ''idle_minutes'' then map_option (\<lambda>_. p) (number v 0 1440)
      else if key = ''suspend_seconds'' then map_option (\<lambda>_. p) (number v 0 86400)
      else if key = ''shutdown_minutes'' then map_option (\<lambda>_. p) (number v 0 10080)
      else if key = ''lock_style'' then
        map_option (\<lambda>n. p\<lparr> lock_style := style_of n \<rparr>) (number v 0 3)
      else if key = ''utc_offset_minutes'' then
        (case number v (-720) 840 of
           None \<Rightarrow> None
         | Some n \<Rightarrow> if n mod 15 \<noteq> 0 then None else Some (p\<lparr> utc_offset_minutes := n \<rparr>))
      else if key = ''terminal_enabled'' then map_option (\<lambda>b. p\<lparr> terminal_enabled := b \<rparr>) (flag_of v)
      else if key = ''background_checks'' then map_option (\<lambda>b. p\<lparr> background_checks := b \<rparr>) (flag_of v)
      else if key = ''network_time'' then map_option (\<lambda>b. p\<lparr> network_time := b \<rparr>) (flag_of v)
      else Some p)"

definition preference_line :: "string \<Rightarrow> c1_preferences \<Rightarrow> c1_preferences option" where
  "preference_line line p =
     (if line = [] \<or> hd line = CHR ''#'' then Some p
      else if CHR ''='' \<notin> set line then None
      else set_preference (takeWhile (\<lambda>c. c \<noteq> CHR ''='') line)
             (tl (dropWhile (\<lambda>c. c \<noteq> CHR ''='') line)) p)"

text \<open>What one \<open>fgets\<close> with a buffer of 256 bytes takes: up to 255 bytes, through a newline.\<close>

definition fgets_piece :: "string \<Rightarrow> string" where
  "fgets_piece data =
     take 255 (takeWhile (\<lambda>c. c \<noteq> nl) data @ (if nl \<in> set data then [nl] else []))"

lemma fgets_piece_ne: "data \<noteq> [] \<Longrightarrow> fgets_piece data \<noteq> []"
  by (cases data) (auto simp: fgets_piece_def)

text \<open>The loop over lines. The piece counts up to its first NUL byte; it must end with a newline unless
  the end of the file was met, which a full buffer has not done. A carriage return before the newline
  is dropped.\<close>

function load_lines :: "string \<Rightarrow> c1_preferences \<Rightarrow> c1_preferences option" where
  "load_lines data p =
     (if data = [] then Some p
      else
        let piece = fgets_piece data;
            rest = drop (length piece) data;
            text = takeWhile (\<lambda>c. c \<noteq> CHR 0x00) piece;
            terminated = (text \<noteq> [] \<and> last text = nl);
            at_end = (last piece \<noteq> nl \<and> length piece < 255);
            line = (if terminated then butlast text else text);
            line = (if line \<noteq> [] \<and> last line = CHR 0x0D then butlast line else line) in
        if \<not> terminated \<and> \<not> at_end then None
        else case preference_line line p of None \<Rightarrow> None | Some q \<Rightarrow> load_lines rest q)"
  by pat_completeness auto
termination
  by (relation "measure (\<lambda>(data, p). length data)") (auto simp: fgets_piece_ne)

declare load_lines.simps [simp del]

definition c1_preferences_load :: "string \<Rightarrow> c1_preferences act" where
  "c1_preferences_load path =
     bind_act (ok (sys_open_read path)) (\<lambda>st.
     closing
       (then_act (require (st_kind st = S_IFREG \<and> length (st_data st) \<le> 4096))
        (then_act (ok sys_touch)
         (case load_lines (st_data st) c1_preferences_default of None \<Rightarrow> stop | Some p \<Rightarrow> ret p))))"

section \<open>Writing\<close>

definition flag_text :: "bool \<Rightarrow> string" where
  "flag_text b = (if b then ''1'' else ''0'')"

definition mode_text :: "c1_power_mode \<Rightarrow> string" where
  "mode_text mode = (case mode of C1_POWER_MODE_SAVING \<Rightarrow> ''saving''
     | C1_POWER_MODE_STANDARD \<Rightarrow> ''standard'' | C1_POWER_MODE_PERFORMANCE \<Rightarrow> ''performance'')"

definition style_number :: "c1_lock_style \<Rightarrow> nat" where
  "style_number s = (case s of C1_LOCK_WALLPAPER \<Rightarrow> 0 | C1_LOCK_FREEZE \<Rightarrow> 1 | C1_LOCK_TEXT \<Rightarrow> 2
     | C1_LOCK_CALENDAR \<Rightarrow> 3)"

definition preferences_lines :: "c1_preferences \<Rightarrow> string list" where
  "preferences_lines p =
     (let power = c1_preferences_power_settings (power_mode p) in
      [''language='' @ (if language p = C1_LANGUAGE_EN then ''en'' else ''zh''),
       ''power_mode='' @ mode_text (power_mode p),
       ''idle_minutes='' @ dec (lock_minutes power),
       ''suspend_seconds='' @ flag_text (suspend_on_lock_setting power),
       ''shutdown_minutes='' @ dec (shutdown_minutes power),
       ''lock_style='' @ dec (style_number (lock_style p)),
       ''utc_offset_minutes='' @ sdec (utc_offset_minutes p),
       ''network_time='' @ flag_text (network_time p),
       ''lock_text='' @ lock_text p,
       ''terminal_enabled='' @ flag_text (terminal_enabled p),
       ''background_checks='' @ flag_text (background_checks p)])"

definition preferences_valid :: "c1_preferences \<Rightarrow> bool" where
  "preferences_valid p \<longleftrightarrow> c1_preferences_valid_text (lock_text p) \<and>
     -720 \<le> utc_offset_minutes p \<and> utc_offset_minutes p \<le> 840 \<and> utc_offset_minutes p mod 15 = 0"

text \<open>The unique name that \<open>mkstemp\<close> puts in place of the six letters of its template.\<close>

definition temporary_name :: "string \<Rightarrow> string \<Rightarrow> string" where
  "temporary_name path letters = path @ ''.'' @ letters"

definition finally_close :: "'a act \<Rightarrow> 'a act" where
  "finally_close m w = (case m w of (r, w') \<Rightarrow> (r, snd (sys_touch w')))"

definition c1_preferences_save :: "c1_preferences \<Rightarrow> string \<Rightarrow> unit act" where
  "c1_preferences_save p path =
     then_act (require (preferences_valid p))
     (then_act (require (path \<noteq> [] \<and> length path + 7 < 1024))
     (bind_act (ok (sys_open_read (parent_directory path))) (\<lambda>parent.
      then_act (require (st_kind parent = S_IFDIR))
      (bind_act (asks suffix) (\<lambda>letters.
       let temporary = temporary_name path letters in
       finally_close
         (then_act (ok (sys_create temporary 384))
          (on_failure
            (then_act (on_failure (ok sys_touch) (ignore sys_touch))
             (then_act (closing (then_act (ok (sys_write temporary (unlines (preferences_lines p)))) (ok sys_touch)))
              (then_act (ok (sys_rename temporary path)) (ok sys_touch))))
            (ignore (sys_unlink temporary)))))))))"

section \<open>Cycling\<close>

definition next_mode :: "c1_power_mode \<Rightarrow> bool \<Rightarrow> c1_power_mode" where
  "next_mode m back =
     (case m of C1_POWER_MODE_SAVING \<Rightarrow> if back then C1_POWER_MODE_PERFORMANCE else C1_POWER_MODE_STANDARD
      | C1_POWER_MODE_STANDARD \<Rightarrow> if back then C1_POWER_MODE_SAVING else C1_POWER_MODE_PERFORMANCE
      | C1_POWER_MODE_PERFORMANCE \<Rightarrow> if back then C1_POWER_MODE_STANDARD else C1_POWER_MODE_SAVING)"

definition next_style :: "c1_lock_style \<Rightarrow> bool \<Rightarrow> c1_lock_style" where
  "next_style s back = style_of ((int (style_number s) + (if back then 3 else 1)) mod 4)"

definition c1_preferences_cycle :: "c1_preferences \<Rightarrow> nat \<Rightarrow> int \<Rightarrow> c1_preferences" where
  "c1_preferences_cycle p index direction =
     (if index = C1_SETTING_LANGUAGE then
        p\<lparr> language := (if language p = C1_LANGUAGE_ZH then C1_LANGUAGE_EN else C1_LANGUAGE_ZH) \<rparr>
      else if index = C1_SETTING_POWER_MODE then p\<lparr> power_mode := next_mode (power_mode p) (direction < 0) \<rparr>
      else if index = C1_SETTING_LOCK_STYLE then p\<lparr> lock_style := next_style (lock_style p) (direction < 0) \<rparr>
      else if index = C1_SETTING_TIME_ZONE then
        let v = utc_offset_minutes p + (if direction < 0 then -15 else 15);
            v = (if v > 840 then -720 else v);
            v = (if v < -720 then 840 else v)
        in p\<lparr> utc_offset_minutes := v \<rparr>
      else if index = C1_SETTING_NETWORK_TIME then p\<lparr> network_time := \<not> network_time p \<rparr>
      else p)"

section \<open>What is written is read back\<close>

lemma utf8_text_bytes: "utf8_text s \<Longrightarrow> c \<in> set s \<Longrightarrow> 32 \<le> byte c"
proof -
  have encode: "32 \<le> byte c" if "printable cp" "c \<in> set (utf8_encode cp)" for cp c
    using that by (auto simp: utf8_encode_def printable_def forbidden_def split: if_splits)
  assume "utf8_text s" and "c \<in> set s"
  then obtain cps cp where "list_all printable cps" "cp \<in> set cps" "c \<in> set (utf8_encode cp)"
    by (auto simp: utf8_text_def)
  then show ?thesis using encode by (auto simp: list_all_iff)
qed

lemma number_dec: "lo \<le> int n \<Longrightarrow> int n \<le> hi \<Longrightarrow> number (dec n) lo hi = Some (int n)"
proof -
  assume range: "lo \<le> int n" "int n \<le> hi"
  obtain c s where d: "dec n = c # s" by (cases "dec n") auto
  have c: "is_digit c" "list_all is_digit (c # s)" using dec_digits [of n] d by simp_all
  then have "\<not> is_space c" "c \<noteq> CHR ''-''" "c \<noteq> CHR ''+''" by (auto simp: is_space_def is_digit_byte)
  with range c show ?thesis using num_value_dec [of n] d by (simp add: number_def)
qed

lemma number_sdec: "lo \<le> n \<Longrightarrow> n \<le> hi \<Longrightarrow> number (sdec n) lo hi = Some n"
proof (cases "n < 0")
  case True
  assume "lo \<le> n" "n \<le> hi"
  with True show ?thesis
    using dec_digits [of "nat (- n)"] by (simp add: number_def sdec_def is_space_def)
next
  case False
  assume "lo \<le> n" "n \<le> hi"
  with False show ?thesis using number_dec [of lo "nat n" hi] by (simp add: sdec_def)
qed

lemma flag_round: "flag_of (flag_text b) = Some b"
  using number_dec [of 0 0 1] number_dec [of 0 1 1]
  by (cases b) (simp_all add: flag_of_def flag_text_def number_def is_space_def is_digit_def)

lemma flag_seconds: "number (flag_text b) 0 86400 = Some (if b then 1 else 0)"
  by (simp add: flag_text_def number_def is_space_def is_digit_def)

lemma style_round: "style_of (int (style_number s)) = s"
  by (cases s) (simp_all add: style_of_def style_number_def)

definition plain_line :: "string \<Rightarrow> bool" where
  "plain_line l \<longleftrightarrow> l \<noteq> [] \<and> length l < 255 \<and> (\<forall>c \<in> set l. 32 \<le> byte c)"

lemma load_plain_line:
  assumes "plain_line l"
  shows "load_lines (l @ nl # rest) p =
    (case preference_line l p of None \<Rightarrow> None | Some q \<Rightarrow> load_lines rest q)"
proof -
  have clean: "nl \<notin> set l" "CHR 0x00 \<notin> set l" "CHR 0x0D \<notin> set l" "l \<noteq> []"
    using assms by (auto simp: plain_line_def)
  have "takeWhile (\<lambda>c. c \<noteq> nl) (l @ nl # rest) = l"
    using clean(1) by (rule split_at)
  then have piece: "fgets_piece (l @ nl # rest) = l @ [nl]"
    using assms by (simp add: fgets_piece_def plain_line_def Suc_le_eq)
  have "takeWhile (\<lambda>c. c \<noteq> CHR 0x00) (l @ [nl]) = l @ [nl]"
    using clean(2) by (auto simp: takeWhile_eq_all_conv)
  moreover have "last l \<noteq> CHR 0x0D" using clean(3,4) last_in_set by metis
  ultimately show ?thesis
    using clean by (subst load_lines.simps) (simp add: piece Let_def split: option.split)
qed

lemma preference_assign:
  assumes "CHR ''='' \<notin> set key" and "key \<noteq> []" and "hd key \<noteq> CHR ''#''"
  shows "preference_line (key @ CHR ''='' # v) p = set_preference key v p"
  using assms by (simp add: preference_line_def split_at)

lemmas assigns =
  preference_assign [of "''language''", simplified] preference_assign [of "''power_mode''", simplified]
  preference_assign [of "''idle_minutes''", simplified] preference_assign [of "''suspend_seconds''", simplified]
  preference_assign [of "''shutdown_minutes''", simplified] preference_assign [of "''lock_style''", simplified]
  preference_assign [of "''utc_offset_minutes''", simplified] preference_assign [of "''network_time''", simplified]
  preference_assign [of "''lock_text''", simplified] preference_assign [of "''terminal_enabled''", simplified]
  preference_assign [of "''background_checks''", simplified]

lemma dec_line_bytes: "c \<in> set (dec n) \<Longrightarrow> 32 \<le> byte c"
  using dec_digits [of n] by (auto simp: list_all_iff is_digit_byte)

lemma lines_plain:
  assumes "preferences_valid p"
  shows "\<forall>l \<in> set (preferences_lines p). plain_line l"
proof -
  have t: "length (lock_text p) < 193" "\<forall>c \<in> set (lock_text p). 32 \<le> byte c"
    using assms utf8_text_bytes by (auto simp: preferences_valid_def valid_text_iff C1_LOCK_TEXT_BYTES_def)
  have n: "length (dec n) \<le> 4" if "n \<le> 840" for n using that length_dec [of n 4] by simp
  have s: "length (sdec (utc_offset_minutes p)) \<le> 5" "\<forall>c \<in> set (sdec (utc_offset_minutes p)). 32 \<le> byte c"
  proof -
    have "nat (utc_offset_minutes p) \<le> 840" "nat (- utc_offset_minutes p) \<le> 840"
      using assms by (auto simp: preferences_valid_def)
    then have "length (dec (nat (utc_offset_minutes p))) \<le> 4" "length (dec (nat (- utc_offset_minutes p))) \<le> 4"
      using n by blast+
    then show "length (sdec (utc_offset_minutes p)) \<le> 5" by (simp add: sdec_def)
  qed (auto simp: sdec_def dec_line_bytes)
  have small: "lock_minutes (c1_preferences_power_settings m) \<le> 5"
    "shutdown_minutes (c1_preferences_power_settings m) \<le> 5" for m
    by (simp_all add: c1_preferences_power_settings_def)
  have sn: "style_number x \<le> 3" for x by (cases x) (simp_all add: style_number_def)
  have flag: "length (flag_text b) = 1" "\<forall>c \<in> set (flag_text b). 32 \<le> byte c" for b
    by (simp_all add: flag_text_def)
  have mode: "length (mode_text m) \<le> 11" "\<forall>c \<in> set (mode_text m). 32 \<le> byte c" for m
    by (cases m; simp add: mode_text_def)+
  note four = n [of "lock_minutes (c1_preferences_power_settings (power_mode p))"]
    n [of "shutdown_minutes (c1_preferences_power_settings (power_mode p))"]
    n [of "style_number (lock_style p)"]
  have four': "length (dec (lock_minutes (c1_preferences_power_settings (power_mode p)))) \<le> 4"
    "length (dec (shutdown_minutes (c1_preferences_power_settings (power_mode p)))) \<le> 4"
    "length (dec (style_number (lock_style p))) \<le> 4"
    using four small [of "power_mode p"] sn [of "lock_style p"] by simp_all
  show ?thesis
    using t s flag mode [of "power_mode p"] four' dec_line_bytes
    by (auto simp: preferences_lines_def Let_def plain_line_def)
qed

lemma load_unlines:
  "\<forall>l \<in> set ls. plain_line l \<Longrightarrow>
   load_lines (unlines ls) p = foldl (\<lambda>r l. Option.bind r (preference_line l)) (Some p) ls"
proof -
  have stuck: "foldl (\<lambda>r l. Option.bind r (preference_line l)) None ls = None" for ls by (induction ls) auto
  show "\<forall>l \<in> set ls. plain_line l \<Longrightarrow>
      load_lines (unlines ls) p = foldl (\<lambda>r l. Option.bind r (preference_line l)) (Some p) ls"
    by (induction ls arbitrary: p)
       (auto simp: load_lines.simps [of "[]"] load_plain_line stuck split: option.split)
qed

lemma preferences_round_trip:
  assumes "preferences_valid p"
  shows "load_lines (unlines (preferences_lines p)) q = Some p"
proof -
  have valid: "c1_preferences_valid_text (lock_text p)" using assms by (simp add: preferences_valid_def)
  have offset: "number (sdec (utc_offset_minutes p)) (-720) 840 = Some (utc_offset_minutes p)"
    "utc_offset_minutes p mod 15 = 0"
    using assms by (auto simp: preferences_valid_def number_sdec)
  have power: "number (dec (lock_minutes (c1_preferences_power_settings m))) 0 1440 =
      Some (int (lock_minutes (c1_preferences_power_settings m)))"
    "number (dec (shutdown_minutes (c1_preferences_power_settings m))) 0 10080 =
      Some (int (shutdown_minutes (c1_preferences_power_settings m)))" for m
    by (rule number_dec; simp add: c1_preferences_power_settings_def)+
  have style: "number (dec (style_number x)) 0 3 = Some (int (style_number x))" for x
    by (rule number_dec) (cases x; simp add: style_number_def)+
  have lang: "set_preference ''language'' (if l = C1_LANGUAGE_EN then ''en'' else ''zh'') r =
      Some (r\<lparr> language := l \<rparr>)" for l r
    by (cases l) (simp_all add: set_preference_def)
  have modes: "set_preference ''power_mode'' (mode_text m) r = Some (r\<lparr> power_mode := m \<rparr>)" for m r
    by (cases m) (simp_all add: set_preference_def mode_text_def)
  show ?thesis
    unfolding load_unlines [OF lines_plain [OF assms]]
    by (simp add: preferences_lines_def Let_def assigns lang modes)
       (simp add: assigns set_preference_def flag_round flag_seconds power style style_round valid offset)
qed

interpretation preferences_file: round_trip
  "\<lambda>data. load_lines data c1_preferences_default" "\<lambda>p. unlines (preferences_lines p)" preferences_valid
  by unfold_locales (rule preferences_round_trip)


section \<open>The file\<close>

lemma text_size:
  assumes "preferences_valid p"
  shows "length (unlines (preferences_lines p)) \<le> 4096"
proof -
  have "length (unlines ls) \<le> 256 * length ls" if "\<forall>l \<in> set ls. plain_line l" for ls
    using that by (induction ls) (auto simp: plain_line_def)
  then have "length (unlines (preferences_lines p)) \<le> 256 * length (preferences_lines p)"
    using lines_plain [OF assms] by blast
  also have "\<dots> \<le> 4096" by (simp add: preferences_lines_def Let_def)
  finally show ?thesis .
qed

lemma hoare_seq_then:
  assumes "hoare P m (\<lambda>_. R) E'" and "hoare R k Q E" and "\<And>w. E' w \<Longrightarrow> E w"
  shows "hoare P (then_act m k) Q E"
  unfolding then_act_def using assms by (rule hoare_seq)

lemma hoare_closing:
  assumes "hoare P m Q E" and "\<And>x. stable (\<lambda>_. False) (Q x)" and "stable (\<lambda>_. False) E"
    and "\<And>x w. Q x w \<Longrightarrow> E w"
  shows "hoare P (closing m) Q E" and "hoare P (finally_close m) Q E"
proof -
  have run: "case r of None \<Rightarrow> E w' | Some x \<Rightarrow> Q x w'"
    if "P w" and m: "m w = (x, v)" and t: "sys_touch v = (e, w')" and "r = x \<or> r = None" for w x v e w' r
  proof -
    have "touches (\<lambda>_. False) v w'" using sys_touch_success [OF t] by (simp add: touches_none)
    with hoareD [OF assms(1) \<open>P w\<close> m] assms(2-4) \<open>r = x \<or> r = None\<close> show ?thesis
      by (cases x) (auto simp: stable_def split: option.split)
  qed
  show "hoare P (closing m) Q E"
    unfolding hoare_def
  proof (intro allI impI)
    fix w r w' assume "P w" and c: "closing m w = (r, w')"
    obtain x v where m: "m w = (x, v)" by (cases "m w")
    obtain e u where t: "sys_touch v = (e, u)" by (cases "sys_touch v")
    from c m t have "u = w'" "r = x \<or> r = None" by (auto simp: closing_def split: sum.splits)
    with run [OF \<open>P w\<close> m] t show "case r of None \<Rightarrow> E w' | Some x \<Rightarrow> Q x w'" by blast
  qed
  show "hoare P (finally_close m) Q E"
    unfolding hoare_def
  proof (intro allI impI)
    fix w r w' assume "P w" and c: "finally_close m w = (r, w')"
    obtain x v where m: "m w = (x, v)" by (cases "m w")
    obtain e u where t: "sys_touch v = (e, u)" by (cases "sys_touch v")
    from c m t have "u = w'" "r = x" by (auto simp: finally_close_def)
    with run [OF \<open>P w\<close> m] t show "case r of None \<Rightarrow> E w' | Some x \<Rightarrow> Q x w'" by blast
  qed
qed

lemma temporary_apart:
  "\<not> under (temporary_name path l) path" "\<not> under path (temporary_name path l)" "temporary_name path l \<noteq> path"
  by (auto simp: temporary_name_def under_iff)

lemma save_hoare:
  "hoare (\<lambda>w. file_at w path = old \<and> euid w = owner) (c1_preferences_save p path)
     (\<lambda>_ w. file_at w path = Some (written owner 384 (unlines (preferences_lines p))) \<and> preferences_valid p)
     (\<lambda>w. file_at w path = old \<or> file_at w path = Some (written owner 384 (unlines (preferences_lines p))))"
proof -
  let ?new = "Some (written owner 384 (unlines (preferences_lines p)))"
  let ?P = "\<lambda>w. (file_at w path = old \<and> euid w = owner) \<and> preferences_valid p"
  let ?N = "\<lambda>w. file_at w path = ?new \<and> preferences_valid p"
  let ?E = "\<lambda>w. file_at w path = old \<or> file_at w path = ?new"
  have none: "stable (\<lambda>_. False) ?E" "stable (\<lambda>_. False) ?P" "stable (\<lambda>_. False) ?N"
    by (auto simp: stable_def touches_def same_process_def)
  have body: "hoare ?P
      (then_act (ok (sys_create t 384))
        (on_failure
          (then_act (on_failure (ok sys_touch) (ignore sys_touch))
           (then_act (closing (then_act (ok (sys_write t (unlines (preferences_lines p)))) (ok sys_touch)))
            (then_act (ok (sys_rename t path)) (ok sys_touch))))
          (ignore (sys_unlink t)))) (\<lambda>_. ?N) ?E"
    if t: "t = temporary_name path letters" for t letters
  proof -
    let ?S = "under t" and ?At = "\<lambda>d w. ?P w \<and> file_at w t = Some (written owner 384 d)"
    note apart = temporary_apart [of path letters, folded t]
    have P: "stable ?S ?P" and E: "stable ?S ?E" and N: "stable ?S ?N"
      using apart by (auto simp: stable_def touches_def same_process_def)
    have A: "stable (\<lambda>_. False) (?At d)" for d by (auto simp: stable_def touches_def same_process_def)
    have create: "hoare ?P (ok (sys_create t 384)) (\<lambda>_. ?At []) ?P"
      by (rule hoare_stable [where S = ?S]) (intro frames, simp, rule P,
          auto simp: act_Some written_def same_process_def dest!: sys_create_success)
    have touch: "hoare (?At d) (ok sys_touch) (\<lambda>_. ?At d) (?At d)" for d
      by (rule hoare_keep [where S = "\<lambda>_. False"]) (intro frames, rule A)
    have fdopen: "hoare (?At []) (on_failure (ok sys_touch) (ignore sys_touch)) (\<lambda>_. ?At []) (?At [])"
      by (rule hoare_on_failure [where S = "\<lambda>_. False"]) (rule touch, intro frames, rule A)
    have fill: "hoare (?At []) (ok (sys_write t d)) (\<lambda>_. ?At d) ?P" for d
      by (rule hoare_step [where S = ?S]) (intro frames, simp, rule P,
          auto simp: act_Some written_def dest!: sys_write_success)
    have flush: "hoare (?At []) (closing (then_act (ok (sys_write t d)) (ok sys_touch))) (\<lambda>_. ?At d) ?P" for d
      by (rule hoare_closing(1), rule hoare_seq_then [OF fill hoare_weaken [OF touch [of d]]])
        (use A none in auto)
    have switch: "hoare (?At (unlines (preferences_lines p))) (ok (sys_rename t path)) (\<lambda>_. ?N) ?P"
      unfolding hoare_def
    proof (intro allI impI)
      fix w r w' assume pre: "?At (unlines (preferences_lines p)) w" and run: "ok (sys_rename t path) w = (r, w')"
      obtain x v where x: "sys_rename t path w = (x, v)" by (cases "sys_rename t path w")
      show "case r of None \<Rightarrow> ?P w' | Some x \<Rightarrow> ?N w'"
      proof (cases x)
        case (Inl e)
        with run x have "r = None" "v = w'" by (auto simp: ok_def)
        with sys_rename_failure [of t path w e v] x Inl pre show ?thesis
          by (simp add: same_files_def same_process_def)
      next
        case (Inr u)
        with run x have "r = Some u" "v = w'" by (auto simp: ok_def)
        with sys_rename_success [of t path w v] x Inr pre apart show ?thesis by simp
      qed
    qed
    have sync: "hoare ?N (ok sys_touch) (\<lambda>_. ?N) ?N"
      by (rule hoare_keep [where S = "\<lambda>_. False"]) (intro frames, rule none)
    have inner: "hoare (?At [])
          (then_act (on_failure (ok sys_touch) (ignore sys_touch))
           (then_act (closing (then_act (ok (sys_write t (unlines (preferences_lines p)))) (ok sys_touch)))
            (then_act (ok (sys_rename t path)) (ok sys_touch)))) (\<lambda>_. ?N) ?E"
      by (rule hoare_seq_then [OF fdopen],
          rule hoare_seq_then [OF flush],
          rule hoare_seq_then [OF switch hoare_weaken [OF sync]]) auto
    show ?thesis
      by (rule hoare_seq_then [OF create], rule hoare_on_failure [where S = ?S, OF inner])
        (intro frames, simp, rule E, auto)
  qed
  let ?start = "\<lambda>w. file_at w path = old \<and> euid w = owner"
  have start: "stable (\<lambda>_. False) ?start" by (auto simp: stable_def touches_def same_process_def)
  have requires: "hoare ?start (require (preferences_valid p)) (\<lambda>_. ?P) ?start"
    "hoare ?P (require b) (\<lambda>_. ?P) ?P" for b
    by (auto simp: hoare_def require_def)
  have asks: "hoare ?P (asks f) (\<lambda>_. ?P) ?P" for f :: "world \<Rightarrow> 'a"
    by (auto simp: hoare_def asks_def)
  have opened: "hoare ?P (ok (sys_open_read q)) (\<lambda>_. ?P) ?P" for q
    by (rule hoare_keep [where S = "\<lambda>_. False"]) (intro frames, rule none)
  show ?thesis
    unfolding c1_preferences_save_def then_act_def [of "require _"] Let_def
    by (rule hoare_seq [OF requires(1)], rule hoare_seq [OF requires(2)], rule hoare_seq [OF opened],
        rule hoare_seq [OF requires(2)], rule hoare_seq [OF asks],
        rule hoare_closing(2), rule body [OF refl]) (use none in auto)
qed

text \<open>C24. Saving preferences is all or nothing, and a saved file is read back. Whatever system call fails
  or wherever power is lost, \<open>desktop.conf\<close> is what it was or the complete new file; a save that reports
  success leaves a file from which an undisturbed load returns exactly the saved preferences.\<close>

theorem preferences_save_atomic:
  "case c1_preferences_save p path w of (r, w') \<Rightarrow>
     (if r = None
      then file_at w' path \<in> {file_at w path, Some (written (euid w) 384 (unlines (preferences_lines p)))}
      else fst (c1_preferences_load path (w'\<lparr> faults := [] \<rparr>)) = Some p)"
proof -
  obtain r w' where run: "c1_preferences_save p path w = (r, w')" by (cases "c1_preferences_save p path w")
  note result = hoareD [OF save_hoare _ run, of "file_at w path" "euid w"]
  show ?thesis
  proof (cases r)
    case None
    with result run show ?thesis by auto
  next
    case (Some u)
    with result have new: "file_at w' path = Some (written (euid w) 384 (unlines (preferences_lines p)))"
      and ok: "preferences_valid p" by auto
    have "fst (c1_preferences_load path (w'\<lparr> faults := [] \<rparr>)) = Some p"
      using new text_size [OF ok] preferences_file.parse_print [OF ok]
      by (simp add: c1_preferences_load_def act_defs sys_open_read_def sys_touch_def faulty_def written_def)
    with run Some show ?thesis by simp
  qed
qed

section \<open>Cycling\<close>

lemma cycle_valid: "preferences_valid p \<Longrightarrow> preferences_valid (c1_preferences_cycle p i d)"
  by (auto simp: preferences_valid_def c1_preferences_cycle_def Let_def)

text \<open>Cycling a setting keeps the preferences valid, and a step back undoes a step forward, for every
  setting and over both ends of every range.\<close>

lemma preferences_cycle_inverse:
  assumes "preferences_valid p"
  shows "preferences_valid (c1_preferences_cycle p i d) \<and>
    c1_preferences_cycle (c1_preferences_cycle p i 1) i (-1) = p \<and>
    c1_preferences_cycle (c1_preferences_cycle p i (-1)) i 1 = p"
proof -
  have style: "next_style (next_style s b) (\<not> b) = s" for s b
    by (cases s; cases b) (simp_all add: next_style_def style_number_def style_of_def)
  have mode: "next_mode (next_mode m b) (\<not> b) = m" for m b
    by (cases m; cases b) (simp_all add: next_mode_def)
  have zone: "840 < v + 15 \<Longrightarrow> v \<le> 840 \<Longrightarrow> v mod 15 = 0 \<Longrightarrow> v = 840"
    "v - 15 < -720 \<Longrightarrow> -720 \<le> v \<Longrightarrow> v mod 15 = 0 \<Longrightarrow> v = -720" for v :: int
    by presburger+
  have valid: "preferences_valid (c1_preferences_cycle p i d)" using assms by (rule cycle_valid)
  have lang: "(if (if l = C1_LANGUAGE_ZH then C1_LANGUAGE_EN else C1_LANGUAGE_ZH) = C1_LANGUAGE_ZH
      then C1_LANGUAGE_EN else C1_LANGUAGE_ZH) = l" for l by (cases l) simp_all
  have "c1_preferences_cycle (c1_preferences_cycle p i 1) i (-1) = p"
    "c1_preferences_cycle (c1_preferences_cycle p i (-1)) i 1 = p"
    using assms style [of "lock_style p" False] style [of "lock_style p" True]
      mode [of "power_mode p" False] mode [of "power_mode p" True] zone [of "utc_offset_minutes p"]
    by (auto simp: preferences_valid_def c1_preferences_cycle_def Let_def setting_defs lang)
  with valid show ?thesis by blast
qed

lemma default_preferences_valid: "preferences_valid c1_preferences_default"
  by (simp add: preferences_valid_def c1_preferences_default_def c1_preferences_valid_text_def
      default_lock_text_def C1_LOCK_TEXT_BYTES_def text_loop.simps sequence_head_def
      is_continuation_def forbidden_def Let_def)

lemma preferences_cycle_inverse_witness:
  "preferences_valid (c1_preferences_cycle c1_preferences_default C1_SETTING_TIME_ZONE (-1)) \<and>
   c1_preferences_cycle (c1_preferences_cycle c1_preferences_default C1_SETTING_TIME_ZONE 1) C1_SETTING_TIME_ZONE (-1) =
     c1_preferences_default \<and>
   c1_preferences_cycle (c1_preferences_cycle c1_preferences_default C1_SETTING_TIME_ZONE (-1)) C1_SETTING_TIME_ZONE 1 =
     c1_preferences_default"
  by (rule preferences_cycle_inverse [OF default_preferences_valid])

end
