(* ===== verification/Battery.thy ===== *)
theory Battery
  imports Preferences
begin

text \<open>
  The battery history (\<open>src/C1ancher/src/services/battery.c\<close>): at most one real observation per
  minute of the last day, the file it is kept in and the update on every observation. The array with
  its counter is a list; clock values are integers.
\<close>

definition C1_BATTERY_HISTORY_POINTS :: nat where "C1_BATTERY_HISTORY_POINTS = 1440"
definition C1_BATTERY_MIN_TIME :: int where "C1_BATTERY_MIN_TIME = 1704067200"
definition C1_BATTERY_MAX_TIME :: int where "C1_BATTERY_MAX_TIME = 4102444800"
definition CACHE_BYTES :: nat where "CACHE_BYTES = 64 + C1_BATTERY_HISTORY_POINTS * 24"
definition C1_BATTERY_PLUGGED :: nat where "C1_BATTERY_PLUGGED = 2"

lemmas battery_constants = C1_BATTERY_HISTORY_POINTS_def C1_BATTERY_MIN_TIME_def
  C1_BATTERY_MAX_TIME_def CACHE_BYTES_def C1_BATTERY_PLUGGED_def

definition magic :: string where "magic = ''C1BATTERY 2'' @ [nl]"
definition legacy_magic :: string where "legacy_magic = ''C1BATTERY 1'' @ [nl]"

record c1_battery_sample =
  timestamp :: int
  percent :: nat
  bat_power :: nat
  connected :: bool

record c1_battery_history =
  samples :: "c1_battery_sample list"
  last_wall :: int
  last_monotonic :: int
  continuous :: bool

definition c1_battery_history_init :: c1_battery_history where
  "c1_battery_history_init =
     \<lparr> samples = [], last_wall = 0, last_monotonic = 0, continuous = False \<rparr>"

section \<open>Validity\<close>

definition sample_valid :: "c1_battery_sample \<Rightarrow> bool" where
  "sample_valid p \<longleftrightarrow> C1_BATTERY_MIN_TIME \<le> timestamp p \<and> timestamp p < C1_BATTERY_MAX_TIME \<and>
     percent p \<le> 100 \<and> bat_power p \<le> C1_BATTERY_PLUGGED"

text \<open>What a sample after \<open>q\<close> satisfies: a later minute, the very next one when they are connected.\<close>

definition follows :: "c1_battery_sample \<Rightarrow> c1_battery_sample \<Rightarrow> bool" where
  "follows q p \<longleftrightarrow> timestamp p div 60 > timestamp q div 60 \<and>
     (connected p \<longrightarrow> timestamp p div 60 = timestamp q div 60 + 1)"

definition valid_history :: "c1_battery_history \<Rightarrow> bool" where
  "valid_history h \<longleftrightarrow>
     (let ps = samples h in
      length ps \<le> C1_BATTERY_HISTORY_POINTS \<and>
      list_all sample_valid ps \<and>
      (ps \<noteq> [] \<longrightarrow> \<not> connected (hd ps)) \<and>
      successively follows ps \<and>
      (ps = [] \<or> timestamp (last ps) div 60 - timestamp (hd ps) div 60 < int C1_BATTERY_HISTORY_POINTS))"

section \<open>The file\<close>

definition read_field :: "char \<Rightarrow> string \<Rightarrow> (nat \<times> string) option" where
  "read_field terminator s =
     (let digits = takeWhile is_digit s; rest = dropWhile is_digit s in
      if digits = [] \<or> length digits > 10 \<or> rest = [] \<or> hd rest \<noteq> terminator then None
      else Some (num_value digits, tl rest))"

definition read_line :: "string \<Rightarrow> ((nat \<times> nat \<times> nat \<times> nat) \<times> string) option" where
  "read_line s =
     Option.bind (read_field (CHR '' '') s) (\<lambda>(a, s1).
     Option.bind (read_field (CHR '' '') s1) (\<lambda>(b, s2).
     Option.bind (read_field (CHR '' '') s2) (\<lambda>(c, s3).
     Option.bind (read_field nl s3) (\<lambda>(d, s4). Some ((a, b, c, d), s4)))))"

definition legacy_rejected :: "c1_battery_sample list \<Rightarrow> nat \<Rightarrow> nat \<Rightarrow> bool" where
  "legacy_rejected ps time flag \<longleftrightarrow>
     length ps \<ge> 24 \<or> ps = [] \<and> flag \<noteq> 0 \<or>
     ps \<noteq> [] \<and> int time div 3600 \<le> timestamp (last ps) div 3600 \<or>
     flag \<noteq> 0 \<and> int time div 3600 \<noteq> timestamp (last ps) div 3600 + 1"

text \<open>Reading on from the samples parsed so far; the fuel is the text that is left.\<close>

fun read_samples :: "nat \<Rightarrow> bool \<Rightarrow> c1_battery_sample list \<Rightarrow> string \<Rightarrow> c1_battery_sample list option" where
  "read_samples 0 legacy ps s = (if s = [] then Some ps else None)"
| "read_samples (Suc fuel) legacy ps s =
     (if s = [] then Some ps
      else case read_line s of
             None \<Rightarrow> None
           | Some ((time, pc, pw, flag), rest) \<Rightarrow>
               if length ps = C1_BATTERY_HISTORY_POINTS \<or> int time \<ge> C1_BATTERY_MAX_TIME \<or>
                  pc > 100 \<or> pw > C1_BATTERY_PLUGGED \<or> flag > 1
               then None
               else if legacy \<and> legacy_rejected ps time flag then None
               else read_samples fuel legacy
                      (ps @ [\<lparr> timestamp = int time, percent = pc, bat_power = pw,
                               connected = (\<not> legacy \<and> flag \<noteq> 0) \<rparr>]) rest)"

definition parse_history :: "string \<Rightarrow> c1_battery_history option" where
  "parse_history bytes =
     (if length bytes < length magic \<or> CHR 0x00 \<in> set bytes \<or> last bytes \<noteq> nl then None
      else
        let legacy = (take (length legacy_magic) bytes = legacy_magic) in
        if \<not> legacy \<and> take (length magic) bytes \<noteq> magic then None
        else
          let body = drop (length magic) bytes in
          case read_samples (length body) legacy [] body of
            None \<Rightarrow> None
          | Some ps \<Rightarrow>
              let parsed = c1_battery_history_init\<lparr> samples := ps \<rparr> in
              if valid_history parsed then Some parsed else None)"

definition c1_battery_history_load :: "string \<Rightarrow> c1_battery_history act" where
  "c1_battery_history_load path =
     bind_act (ok (sys_open_read path)) (\<lambda>st.
     bind_act (asks euid) (\<lambda>user.
     finally_close
       (then_act (require (st_kind st = S_IFREG \<and> st_uid st = user \<and> st_mode st AND 63 = 0 \<and>
                           0 < length (st_data st) \<and> length (st_data st) < CACHE_BYTES))
        (then_act (ok sys_touch)
         (case parse_history (st_data st) of None \<Rightarrow> stop | Some h \<Rightarrow> ret h)))))"

definition sample_text :: "c1_battery_sample \<Rightarrow> string" where
  "sample_text p = dec (nat (timestamp p)) @ '' '' @ dec (percent p) @ '' '' @ dec (bat_power p) @ '' '' @
     flag_text (connected p) @ [nl]"

definition history_text :: "c1_battery_history \<Rightarrow> string" where
  "history_text h = magic @ concat (map sample_text (samples h))"

definition c1_battery_history_save :: "string \<Rightarrow> c1_battery_history \<Rightarrow> unit act" where
  "c1_battery_history_save path h =
     then_act (require (path \<noteq> [] \<and> valid_history h \<and> length path + 7 < 1024))
     (bind_act (probe path) (\<lambda>found.
      bind_act (asks euid) (\<lambda>user.
      then_act (require (case found of None \<Rightarrow> True
          | Some st \<Rightarrow> st_kind st = S_IFREG \<and> st_uid st = user \<and> st_mode st AND 63 = 0))
      (then_act (require (length (history_text h) < CACHE_BYTES))
       (bind_act (asks suffix) (\<lambda>letters.
        let temporary = temporary_name path letters in
        then_act (ok (sys_create temporary 384))
        (on_failure
          (then_act (closing (then_act (ok (sys_write temporary (history_text h))) (ok sys_touch)))
           (ok (sys_rename temporary path)))
          (ignore (sys_unlink temporary)))))))))"

section \<open>Observing\<close>

text \<open>The steps of \<open>c1_battery_history_observe\<close>: a rollback of the clock clears the history, a gap between
  observations ends continuity, points older than a day are dropped.\<close>

definition after_rollback :: "c1_battery_history \<Rightarrow> int \<Rightarrow> c1_battery_history \<times> bool" where
  "after_rollback h wall =
     (if last_wall h \<noteq> 0 \<and> wall < last_wall h \<or> samples h \<noteq> [] \<and> wall < timestamp (last (samples h))
      then (c1_battery_history_init, samples h \<noteq> []) else (h, False))"

definition after_gap :: "c1_battery_history \<Rightarrow> int \<Rightarrow> int \<Rightarrow> c1_battery_history" where
  "after_gap h wall monotonic =
     (let dt = wall - last_wall h; dm = monotonic - last_monotonic h in
      h\<lparr> continuous := (continuous h \<and>
           \<not> (last_wall h = 0 \<or> dt > 30 \<or> dm < 0 \<or> dm > 30000 \<or> \<bar>dt * 1000 - dm\<bar> > 5000)),
         last_wall := wall, last_monotonic := monotonic \<rparr>)"

definition disconnect_first :: "c1_battery_sample list \<Rightarrow> c1_battery_sample list" where
  "disconnect_first ps = (case ps of [] \<Rightarrow> [] | p # qs \<Rightarrow> p\<lparr> connected := False \<rparr> # qs)"

definition after_expiry :: "c1_battery_history \<Rightarrow> int \<Rightarrow> c1_battery_history \<times> bool" where
  "after_expiry h wall =
     (let oldest = (wall div 60 - (int C1_BATTERY_HISTORY_POINTS - 1)) * 60;
          kept = dropWhile (\<lambda>p. timestamp p < oldest) (samples h) in
      if kept \<noteq> samples h then (h\<lparr> samples := disconnect_first kept \<rparr>, True) else (h, False))"

definition c1_battery_history_observe ::
  "c1_battery_history \<Rightarrow> int \<Rightarrow> int \<Rightarrow> bool \<Rightarrow> nat \<Rightarrow> nat \<Rightarrow> c1_battery_history \<times> bool" where
  "c1_battery_history_observe h wall monotonic available pc pw =
     (if \<not> valid_history h then (h, False)
      else if wall < C1_BATTERY_MIN_TIME \<or> wall \<ge> C1_BATTERY_MAX_TIME \<or> monotonic < 0
      then (h\<lparr> continuous := False, last_wall := 0 \<rparr>, False)
      else
        let (h1, changed1) = after_rollback h wall;
            h2 = after_gap h1 wall monotonic;
            (h3, changed2) = after_expiry h2 wall;
            changed = (changed1 \<or> changed2);
            ps = samples h3 in
        if \<not> available \<or> pc > 100 \<or> pw > C1_BATTERY_PLUGGED
        then (h3\<lparr> continuous := False \<rparr>, changed)
        else if ps \<noteq> [] \<and> timestamp (last ps) div 60 = wall div 60 then (h3, changed)
        else
          let p = \<lparr> timestamp = wall, percent = pc, bat_power = pw,
                    connected = (ps \<noteq> [] \<and> continuous h3 \<and>
                                 timestamp (last ps) div 60 + 1 = wall div 60) \<rparr> in
          (h3\<lparr> samples := ps @ [p], continuous := True \<rparr>, True))"

section \<open>Observations keep the history valid\<close>

lemma follows_span:
  "successively follows ps \<Longrightarrow> ps \<noteq> [] \<Longrightarrow>
   timestamp (hd ps) div 60 + int (length ps) \<le> timestamp (last ps) div 60 + 1"
proof (induction ps)
  case (Cons p ps)
  then show ?case by (cases ps) (auto simp: follows_def)
qed simp


lemma disconnect_first_Nil [simp]: "disconnect_first [] = []"
  and disconnect_first_Cons [simp]: "disconnect_first (p # qs) = p\<lparr> connected := False \<rparr> # qs"
  by (simp_all add: disconnect_first_def)

lemma valid_suffix:
  assumes v: "valid_history h" and s: "samples h = xs @ ps"
  shows "valid_history (h\<lparr> samples := disconnect_first ps \<rparr>)"
proof (cases ps)
  case Nil
  then show ?thesis by (simp add: valid_history_def)
next
  case (Cons p qs)
  have "successively follows (p # qs)" using v s Cons by (auto simp: valid_history_def Let_def successively_append_iff)
  then have chain: "successively follows (p\<lparr> connected := False \<rparr> # qs)"
    by (cases qs) (auto simp: follows_def)
  have "timestamp (hd (samples h)) div 60 \<le> timestamp p div 60"
  proof (cases xs)
    case (Cons x ys)
    have "successively follows (xs @ [p])" using v s \<open>ps = p # qs\<close>
      by (auto simp: valid_history_def Let_def successively_append_iff)
    then show ?thesis using follows_span [of "xs @ [p]"] Cons s by simp
  qed (simp add: s Cons)
  with v s chain Cons show ?thesis
    by (auto simp: valid_history_def sample_valid_def Let_def split: if_splits)
qed

lemma kept_recent:
  assumes "dropWhile (\<lambda>p. timestamp p < (m - 1439) * 60) ps = p # qs"
  shows "m - timestamp p div 60 < 1440"
proof -
  have "\<not> timestamp p < (m - 1439) * 60"
    using hd_dropWhile [of "\<lambda>p. timestamp p < (m - 1439) * 60" ps] unfolding assms by simp
  then have "(m - 1439) * 60 div 60 \<le> timestamp p div 60" by (intro zdiv_mono1) auto
  then show ?thesis by simp
qed

definition fresh :: "c1_battery_history \<Rightarrow> int \<Rightarrow> bool" where
  "fresh h wall \<longleftrightarrow> valid_history h \<and>
     (samples h \<noteq> [] \<longrightarrow> timestamp (last (samples h)) \<le> wall \<and>
        wall div 60 - timestamp (hd (samples h)) div 60 < 1440)"

lemma history_fields [simp]:
  "valid_history (h\<lparr> continuous := c \<rparr>) = valid_history h"
  "valid_history (h\<lparr> last_wall := x \<rparr>) = valid_history h"
  "valid_history (h\<lparr> last_monotonic := x \<rparr>) = valid_history h"
  by (simp_all add: valid_history_def)

lemma init_valid [simp]: "valid_history c1_battery_history_init"
  by (simp add: valid_history_def c1_battery_history_init_def)

lemma rollback_valid: "valid_history h \<Longrightarrow> valid_history (fst (after_rollback h wall))"
  by (simp add: after_rollback_def)

lemma rollback_order:
  "samples (fst (after_rollback h wall)) \<noteq> [] \<Longrightarrow> timestamp (last (samples (fst (after_rollback h wall)))) \<le> wall"
  by (auto simp: after_rollback_def c1_battery_history_init_def split: if_splits)

lemma gap_samples [simp]: "samples (after_gap h wall m) = samples h" "valid_history (after_gap h wall m) = valid_history h"
  by (simp_all add: after_gap_def valid_history_def Let_def)

lemma expiry_fresh:
  assumes v: "valid_history h" and o: "samples h \<noteq> [] \<longrightarrow> timestamp (last (samples h)) \<le> wall"
  shows "fresh (fst (after_expiry h wall)) wall"
proof -
  define kept where "kept = dropWhile (\<lambda>p. timestamp p < (wall div 60 - 1439) * 60) (samples h)"
  obtain xs where s: "samples h = xs @ kept"
    using takeWhile_dropWhile_id [of "\<lambda>p. timestamp p < (wall div 60 - 1439) * 60" "samples h"]
    unfolding kept_def by metis
  have w: "valid_history (h\<lparr> samples := disconnect_first kept \<rparr>)" by (rule valid_suffix [OF v s])
  have same: "disconnect_first (samples h) = samples h"
    using v by (cases "samples h") (auto simp: valid_history_def Let_def)
  have minutes: "int C1_BATTERY_HISTORY_POINTS - 1 = 1439" by (simp add: C1_BATTERY_HISTORY_POINTS_def)
  have e: "fst (after_expiry h wall) = h\<lparr> samples := disconnect_first kept \<rparr>"
    using same unfolding after_expiry_def Let_def minutes kept_def [symmetric]
    by (cases "kept = samples h") simp_all
  show ?thesis
  proof (cases kept)
    case Nil
    with w show ?thesis by (simp add: fresh_def e)
  next
    case (Cons p qs)
    then have "timestamp (last (disconnect_first kept)) \<le> wall" using o s by (auto split: if_splits)
    with w kept_recent [OF kept_def [symmetric, unfolded Cons]] Cons show ?thesis
      by (simp add: fresh_def e)
  qed
qed

lemma observe_valid: "valid_history h \<Longrightarrow> valid_history (fst (c1_battery_history_observe h wall monotonic a pc pw))"
proof -
  assume h: "valid_history h"
  define h3 where "h3 = fst (after_expiry (after_gap (fst (after_rollback h wall)) wall monotonic) wall)"
  have f: "fresh h3 wall"
    unfolding h3_def using h by (intro expiry_fresh) (auto simp: rollback_valid rollback_order)
  let ?ps = "samples h3"
  define p where "p = \<lparr> timestamp = wall, percent = pc, bat_power = pw,
      connected = (?ps \<noteq> [] \<and> continuous h3 \<and> timestamp (last ?ps) div 60 + 1 = wall div 60) \<rparr>"
  have new: "valid_history (h3\<lparr> samples := ?ps @ [p], continuous := True \<rparr>)"
    if "sample_valid p" "?ps = [] \<or> timestamp (last ?ps) div 60 \<noteq> wall div 60"
  proof (cases "?ps = []")
    case True
    with that show ?thesis by (simp add: valid_history_def p_def C1_BATTERY_HISTORY_POINTS_def)
  next
    case False
    have "timestamp (last ?ps) div 60 < wall div 60"
      using f False that by (auto simp: fresh_def intro: order.not_eq_order_implies_strict zdiv_mono1)
    then have chain: "successively follows (?ps @ [p])"
      using f False by (auto simp: fresh_def valid_history_def successively_append_iff follows_def p_def Let_def)
    have span: "wall div 60 - timestamp (hd ?ps) div 60 < 1440" using f False by (simp add: fresh_def)
    with follows_span [OF chain] False have "length (?ps @ [p]) \<le> 1440" by (simp add: p_def)
    with f False chain that span show ?thesis
      by (simp add: fresh_def valid_history_def C1_BATTERY_HISTORY_POINTS_def p_def Let_def)
  qed
  have h3v: "valid_history h3" using f by (simp add: fresh_def)
  have step: "fst (c1_battery_history_observe h wall monotonic a pc pw) =
     (if wall < C1_BATTERY_MIN_TIME \<or> wall \<ge> C1_BATTERY_MAX_TIME \<or> monotonic < 0
      then h\<lparr> continuous := False, last_wall := 0 \<rparr>
      else if \<not> a \<or> pc > 100 \<or> pw > C1_BATTERY_PLUGGED then h3\<lparr> continuous := False \<rparr>
      else if ?ps \<noteq> [] \<and> timestamp (last ?ps) div 60 = wall div 60 then h3
      else h3\<lparr> samples := ?ps @ [p], continuous := True \<rparr>)"
    using h by (simp add: c1_battery_history_observe_def case_prod_beta Let_def h3_def [symmetric] p_def)
  have ok: "sample_valid p" if "\<not> (wall < C1_BATTERY_MIN_TIME \<or> wall \<ge> C1_BATTERY_MAX_TIME \<or> monotonic < 0)"
    "\<not> (\<not> a \<or> pc > 100 \<or> pw > C1_BATTERY_PLUGGED)"
    using that by (simp add: sample_valid_def p_def)
  show ?thesis unfolding step using h h3v new ok by (simp split: if_split)
qed

section \<open>The file format\<close>

lemma read_field_dec:
  "n < 10 ^ 10 \<Longrightarrow> \<not> is_digit c \<Longrightarrow> read_field c (dec n @ c # r) = Some (n, r)"
  using length_dec [of n 10] by (simp add: read_field_def take_digits Let_def)

lemma flag_text_dec: "flag_text b = dec (if b then 1 else 0)"
proof -
  have "char_of (48 + 1 :: nat) = CHR ''1''" "char_of (48 :: nat) = CHR ''0''" by code_simp+
  then show ?thesis by (simp add: flag_text_def dec.simps)
qed

lemma flag_text_size [simp]: "length (flag_text b) = 1"
  by (simp add: flag_text_def)

lemma read_line_sample:
  assumes "sample_valid p"
  shows "read_line (sample_text p @ r) =
    Some ((nat (timestamp p), percent p, bat_power p, if connected p then 1 else 0), r)"
proof -
  have "nat (timestamp p) < 10 ^ 10" "percent p < 10 ^ 10" "bat_power p < 10 ^ 10"
    using assms by (auto simp: sample_valid_def battery_constants)
  then show ?thesis
    by (simp add: read_line_def sample_text_def flag_text_dec read_field_dec del: dec.simps)
qed

lemma sample_text_ne [simp]: "sample_text p \<noteq> []"
  by (simp add: sample_text_def)

lemma sample_text_long: "1 \<le> length (sample_text p)"
  by (simp add: sample_text_def)

lemma read_samples_text:
  assumes "list_all sample_valid ps" and "length acc + length ps \<le> C1_BATTERY_HISTORY_POINTS"
    and "length (concat (map sample_text ps)) \<le> fuel"
  shows "read_samples fuel False acc (concat (map sample_text ps)) = Some (acc @ ps)"
  using assms
proof (induction ps arbitrary: acc fuel)
  case Nil
  then show ?case by (cases fuel) simp_all
next
  case (Cons p ps)
  have "0 < length (sample_text p)" by simp
  with Cons.prems obtain f where f: "fuel = Suc f" by (cases fuel) auto
  have s: "sample_valid p" using Cons.prems by simp
  have room: "length acc \<noteq> C1_BATTERY_HISTORY_POINTS" using Cons.prems by simp
  have early: "int (nat (timestamp p)) = timestamp p" using s
    by (simp add: sample_valid_def battery_constants)
  have same: "\<lparr> timestamp = int (nat (timestamp p)), percent = percent p, bat_power = bat_power p,
      connected = b \<rparr> = p" if "b = connected p" for b
    unfolding early that by (cases p) simp
  have "read_samples fuel False acc (concat (map sample_text (p # ps))) =
      read_samples f False (acc @ [p]) (concat (map sample_text ps))"
    using s room by (auto simp: f read_line_sample sample_valid_def early [unfolded int_nat_eq] same [unfolded early])
  also have "\<dots> = Some ((acc @ [p]) @ ps)"
    using Cons.prems f sample_text_long [of p] by (intro Cons.IH) auto
  finally show ?case by simp
qed

lemma dec_byte: "c \<in> set (dec n) \<Longrightarrow> c \<noteq> CHR 0x00"
  using dec_digits [of n] by (auto simp: list_all_iff is_digit_byte)

lemma sample_text_bytes: "CHR 0x00 \<notin> set (sample_text p)"
  using dec_byte by (auto simp: sample_text_def flag_text_dec)

lemma sample_text_last: "last (sample_text p) = nl"
  by (simp add: sample_text_def)

lemma history_text_end: "last (history_text h) = nl"
proof (cases "samples h" rule: rev_cases)
  case (snoc ps p)
  then show ?thesis by (simp add: history_text_def sample_text_last)
qed (simp add: history_text_def magic_def)

lemma sample_text_size:
  assumes "sample_valid p"
  shows "length (sample_text p) \<le> 19"
proof -
  have "nat (timestamp p) < 10 ^ 10" "percent p < 10 ^ 3" "bat_power p < 10 ^ 1"
    using assms by (auto simp: sample_valid_def battery_constants)
  then have "length (dec (nat (timestamp p))) \<le> 10" "length (dec (percent p)) \<le> 3" "length (dec (bat_power p)) \<le> 1"
    by (simp_all only: length_dec zero_less_numeral zero_less_one)
  then show ?thesis by (simp add: sample_text_def)
qed

lemma samples_text_size: "list_all sample_valid ps \<Longrightarrow> length (concat (map sample_text ps)) \<le> 19 * length ps"
  by (induction ps) (auto dest: sample_text_size)

lemma history_size: "valid_history h \<Longrightarrow> length (history_text h) < CACHE_BYTES"
  using samples_text_size [of "samples h"]
  by (auto simp: history_text_def valid_history_def Let_def magic_def battery_constants)

lemma parse_history_text:
  assumes v: "valid_history h"
  shows "parse_history (history_text h) = Some (c1_battery_history_init\<lparr> samples := samples h \<rparr>)"
proof -
  let ?body = "concat (map sample_text (samples h))"
  have "read_samples (length ?body) False [] ?body = Some (samples h)"
    using v by (subst read_samples_text) (auto simp: valid_history_def Let_def)
  moreover have "CHR 0x00 \<notin> set (history_text h)"
    using sample_text_bytes by (auto simp: history_text_def magic_def)
  moreover have "valid_history (c1_battery_history_init\<lparr> samples := samples h \<rparr>)"
    using v by (simp add: valid_history_def)
  moreover have "take (length legacy_magic) (history_text h) \<noteq> legacy_magic"
    by (simp add: history_text_def magic_def legacy_magic_def)
  ultimately show ?thesis
    using history_text_end [of h] by (simp add: parse_history_def Let_def history_text_def)
qed

interpretation history_file: round_trip parse_history history_text
    "\<lambda>h. valid_history h \<and> h = c1_battery_history_init\<lparr> samples := samples h \<rparr>"
  by unfold_locales (metis parse_history_text)

section \<open>Properties\<close>

text \<open>C25. Whatever sequence of observations the program makes of the battery - clocks that jump back or
  forward, unavailable readings and readings out of range included - the history it keeps from the empty one
  stays valid: at most one point per minute and 1440 in all, minutes strictly increasing and within one
  day, a point connected to its predecessor only when it is of the next minute. So the file written for
  it fits the cache limit and is read back to the same points.\<close>

theorem battery_history_valid:
  "let h = fold (\<lambda>(wall, monotonic, available, pc, pw) h.
      fst (c1_battery_history_observe h wall monotonic available pc pw)) observations c1_battery_history_init
   in valid_history h \<and> length (samples h) \<le> 1440 \<and> length (history_text h) < CACHE_BYTES \<and>
      parse_history (history_text h) = Some (c1_battery_history_init\<lparr> samples := samples h \<rparr>)"
proof -
  define h where "h = fold (\<lambda>(wall, monotonic, available, pc, pw) h.
      fst (c1_battery_history_observe h wall monotonic available pc pw)) observations c1_battery_history_init"
  have "valid_history (fold (\<lambda>(wall, monotonic, available, pc, pw) h.
      fst (c1_battery_history_observe h wall monotonic available pc pw)) obs g)" if "valid_history g" for obs g
    using that by (induction obs arbitrary: g) (auto simp: observe_valid)
  then have v: "valid_history h" by (simp add: h_def)
  moreover from v have "length (samples h) \<le> 1440" by (auto simp: valid_history_def Let_def C1_BATTERY_HISTORY_POINTS_def)
  ultimately show ?thesis unfolding h_def [symmetric] Let_def using history_size parse_history_text by blast
qed

text \<open>C26. One accepted observation, exactly: when the history is valid, the clock is in range and has not gone
  back, the reading is usable and of a new minute, the points younger than a day are kept in order (the first of
  them disconnected from what expired) and the new point is appended, connected exactly when continuity
  held and the last point is of the minute before.\<close>

theorem battery_observation_appended:
  assumes "valid_history h" and "C1_BATTERY_MIN_TIME \<le> wall" and "wall < C1_BATTERY_MAX_TIME"
    and "0 \<le> monotonic" and "last_wall h \<le> wall"
    and "samples h \<noteq> [] \<Longrightarrow> timestamp (last (samples h)) div 60 < wall div 60"
    and "pc \<le> 100" and "pw \<le> C1_BATTERY_PLUGGED"
  shows "\<exists>c. c1_battery_history_observe h wall monotonic True pc pw =
     (h\<lparr> samples := disconnect_first (dropWhile (\<lambda>p. timestamp p < (wall div 60 - 1439) * 60) (samples h)) @
            [\<lparr> timestamp = wall, percent = pc, bat_power = pw, connected = c \<rparr>],
         last_wall := wall, last_monotonic := monotonic, continuous := True \<rparr>, True) \<and>
     (c \<longleftrightarrow> samples h \<noteq> [] \<and> continuous h \<and> last_wall h \<noteq> 0 \<and> wall - last_wall h \<le> 30 \<and>
        last_monotonic h \<le> monotonic \<and> monotonic - last_monotonic h \<le> 30000 \<and>
        \<bar>(wall - last_wall h) * 1000 - (monotonic - last_monotonic h)\<bar> \<le> 5000 \<and>
        timestamp (last (samples h)) div 60 + 1 = wall div 60)"
proof -
  let ?ps = "samples h"
  define kept where "kept = dropWhile (\<lambda>p. timestamp p < (wall div 60 - 1439) * 60) ?ps"
  define h2 where "h2 = after_gap h wall monotonic"
  have "timestamp (last ?ps) \<le> wall" if "?ps \<noteq> []"
    using assms(6) [OF that] by (meson less_le_not_le linorder_le_cases zdiv_mono1 zero_less_numeral)
  then have rollback: "after_rollback h wall = (h, False)"
    using assms(5) by (auto simp: after_rollback_def)
  have minutes: "int C1_BATTERY_HISTORY_POINTS - 1 = 1439" by (simp add: C1_BATTERY_HISTORY_POINTS_def)
  have same: "disconnect_first ?ps = ?ps"
    using assms(1) by (cases ?ps) (auto simp: valid_history_def Let_def)
  have expiry: "fst (after_expiry h2 wall) = h2\<lparr> samples := disconnect_first kept \<rparr>"
    using same unfolding after_expiry_def Let_def minutes h2_def gap_samples kept_def [symmetric]
    by (cases "kept = ?ps") (simp_all add: after_gap_def Let_def)
  obtain xs where s: "?ps = xs @ kept"
    using takeWhile_dropWhile_id [of "\<lambda>p. timestamp p < (wall div 60 - 1439) * 60" ?ps]
    unfolding kept_def by metis
  have last_kept: "timestamp (last (disconnect_first kept)) = timestamp (last ?ps)" if "kept \<noteq> []"
    using that s by (cases kept) auto
  have fresh_minute: "(disconnect_first kept \<noteq> [] \<and>
      timestamp (last (disconnect_first kept)) div 60 = wall div 60) = False"
  proof (cases kept)
    case (Cons p qs)
    then show ?thesis using last_kept assms(6) s by force
  qed simp
  have still: "kept \<noteq> []" if "?ps \<noteq> []" "timestamp (last ?ps) div 60 + 1 = wall div 60"
  proof
    assume "kept = []"
    then have "timestamp (last ?ps) < (wall div 60 - 1439) * 60"
      using that(1) unfolding kept_def dropWhile_eq_Nil_conv by simp
    with that(2) show False by presburger
  qed
  define c where "c \<longleftrightarrow> disconnect_first kept \<noteq> [] \<and> continuous h2 \<and>
    timestamp (last (disconnect_first kept)) div 60 + 1 = wall div 60"
  have c: "c \<longleftrightarrow> ?ps \<noteq> [] \<and> continuous h2 \<and> timestamp (last ?ps) div 60 + 1 = wall div 60"
    unfolding c_def using last_kept still s by (cases kept) auto
  have observed: "c1_battery_history_observe h wall monotonic True pc pw =
      (h2\<lparr> samples := disconnect_first kept @
         [\<lparr> timestamp = wall, percent = pc, bat_power = pw, connected = c \<rparr>], continuous := True \<rparr>, True)"
    using assms unfolding c1_battery_history_observe_def rollback case_prod_beta Let_def fst_conv
      h2_def [symmetric] expiry by (simp add: fresh_minute c_def not_less [symmetric])
  have gap: "continuous h2 \<longleftrightarrow> continuous h \<and> last_wall h \<noteq> 0 \<and> wall - last_wall h \<le> 30 \<and>
        last_monotonic h \<le> monotonic \<and> monotonic - last_monotonic h \<le> 30000 \<and>
        \<bar>(wall - last_wall h) * 1000 - (monotonic - last_monotonic h)\<bar> \<le> 5000"
    by (auto simp: h2_def after_gap_def Let_def)
  have fields: "h2\<lparr> samples := S, continuous := True \<rparr> = h\<lparr> samples := S, last_wall := wall,
      last_monotonic := monotonic, continuous := True \<rparr>" for S
    by (simp add: h2_def after_gap_def Let_def)
  show ?thesis
    unfolding kept_def [symmetric] observed fields
    by (intro exI [of _ c] conjI refl) (simp only: c gap conj_assoc)
qed

theorem battery_observation_appended_witness:
  "\<exists>h. snd (c1_battery_history_observe h 1704067260 60000 True 80 1) \<and> length (samples h) = 1 \<and>
     length (samples (fst (c1_battery_history_observe h 1704067260 60000 True 80 1))) = 2"
proof -
  let ?p = "\<lparr> timestamp = 1704067200, percent = 81, bat_power = 1, connected = False \<rparr>"
  let ?h = "\<lparr> samples = [?p], last_wall = 1704067250, last_monotonic = 50000, continuous = True \<rparr>"
  have "valid_history ?h" by (simp add: valid_history_def sample_valid_def battery_constants)
  from battery_observation_appended [OF this, of 1704067260 60000 80 1]
  show ?thesis by (intro exI [of _ ?h]) (auto simp: battery_constants)
qed

end
