(* ===== verification/UiModel.thy ===== *)
theory UiModel
  imports Battery
begin

text \<open>
  The state machine of the desktop (\<open>src/C1ancher/src/ui/model.c\<close>): pages, selections, the Wi-Fi
  password buffer, the lock text editor and the lock page. The password buffer is its 64 bytes;
  the other character arrays hold C strings and are the text before the terminator. 32-bit selections
  are naturals with the wrap-around of additions written out; a missing status is \<open>None\<close>.
\<close>

definition C1_UI_MAX_NETWORKS :: nat where "C1_UI_MAX_NETWORKS = 8"
definition C1_UI_SSID_CAPACITY :: nat where "C1_UI_SSID_CAPACITY = 33"
definition C1_UI_SECRET_CAPACITY :: nat where "C1_UI_SECRET_CAPACITY = 64"
definition C1_UI_MESSAGE_CAPACITY :: nat where "C1_UI_MESSAGE_CAPACITY = 64"
definition C1_UI_EXTENDED_SYMBOL_COUNT :: nat where "C1_UI_EXTENDED_SYMBOL_COUNT = 12"
definition C1_UI_EXTENDED_SYMBOL_COLUMNS :: nat where "C1_UI_EXTENDED_SYMBOL_COLUMNS = 6"

lemmas ui_constants = C1_UI_MAX_NETWORKS_def C1_UI_SSID_CAPACITY_def C1_UI_SECRET_CAPACITY_def
  C1_UI_MESSAGE_CAPACITY_def C1_UI_EXTENDED_SYMBOL_COUNT_def C1_UI_EXTENDED_SYMBOL_COLUMNS_def

datatype c1_ui_page =
    C1_UI_PAGE_DESKTOP | C1_UI_PAGE_WIFI | C1_UI_PAGE_TERMINAL | C1_UI_PAGE_WIFI_PASSWORD
  | C1_UI_PAGE_LOCK | C1_UI_PAGE_BATTERY | C1_UI_PAGE_SETTINGS | C1_UI_PAGE_LOCK_TEXT | C1_UI_PAGE_ABOUT

datatype c1_ui_event =
    C1_UI_EVENT_NONE | C1_UI_EVENT_UP | C1_UI_EVENT_DOWN | C1_UI_EVENT_LEFT | C1_UI_EVENT_RIGHT
  | C1_UI_EVENT_ENTER | C1_UI_EVENT_SUBMIT | C1_UI_EVENT_BACK | C1_UI_EVENT_HOME
  | C1_UI_EVENT_TOGGLE_SECRET | C1_UI_EVENT_BATTERY | C1_UI_EVENT_SETTINGS | C1_UI_EVENT_SELECT_NEXT
  | C1_UI_EVENT_VIEW_PREVIOUS | C1_UI_EVENT_VIEW_NEXT

datatype c1_ui_action =
    C1_UI_ACTION_NONE | C1_UI_ACTION_WIFI_SCAN | C1_UI_ACTION_WIFI_CONNECT | C1_UI_ACTION_WIFI_DISABLE
  | C1_UI_ACTION_TERMINAL_APP | C1_UI_ACTION_TERMINAL_UPDATE | C1_UI_ACTION_UPDATE_REFRESH

datatype c1_ui_keyboard_layer = C1_UI_KEYBOARD_LOWER | C1_UI_KEYBOARD_UPPER | C1_UI_KEYBOARD_SYMBOLS

datatype c1_wifi_security =
    C1_WIFI_SECURITY_OPEN | C1_WIFI_SECURITY_WPA_PSK | C1_WIFI_SECURITY_WEP | C1_WIFI_SECURITY_ENTERPRISE
  | C1_WIFI_SECURITY_SAE | C1_WIFI_SECURITY_OWE | C1_WIFI_SECURITY_UNKNOWN

datatype c1_battery_view = C1_BATTERY_VIEW_DAY | C1_BATTERY_VIEW_HOUR | C1_BATTERY_VIEW_MINUTE

record c1_ui_network =
  ssid :: string
  secured :: bool
  security :: c1_wifi_security
  saved :: bool

record c1_ui_state =
  page :: c1_ui_page
  selection :: nat
  battery_view :: c1_battery_view
  battery_selected_at :: int
  symbol_selection :: nat
  keyboard_layer :: c1_ui_keyboard_layer
  terminal_symbol_picker :: bool
  secret_visible :: bool
  desktop_selection :: nat
  terminal_action :: c1_ui_action
  return_page :: c1_ui_page
  return_selection :: nat
  frozen_lock :: bool
  preferences :: c1_preferences
  lock_text_draft :: string
  lock_text_cursor :: nat
  wifi_notice :: string
  selected_ssid :: string
  selected_security :: c1_wifi_security
  selected_saved :: bool
  secret :: string
  secret_length :: nat

text \<open>The fields of the status that the transitions read.\<close>

record c1_ui_status =
  battery_history :: c1_battery_history
  wifi_connected :: bool
  wifi_busy :: bool
  service_busy :: bool
  wifi_stop_pending :: bool
  networks :: "c1_ui_network list"
  network_count :: nat
  wifi_connected_ssid :: string
  wifi_ipv4 :: string
  update_prepared :: bool

type_synonym c1_ui_transition = "c1_ui_state \<times> c1_ui_action"

section \<open>The state and its secret\<close>

definition cleared :: string where
  "cleared = replicate C1_UI_SECRET_CAPACITY (CHR 0x00)"

definition c1_ui_initial_state :: c1_ui_state where
  "c1_ui_initial_state =
     \<lparr> page = C1_UI_PAGE_DESKTOP, selection = 0, battery_view = C1_BATTERY_VIEW_DAY,
       battery_selected_at = 0, symbol_selection = 0, keyboard_layer = C1_UI_KEYBOARD_LOWER,
       terminal_symbol_picker = False, secret_visible = False, desktop_selection = 0,
       terminal_action = C1_UI_ACTION_NONE, return_page = C1_UI_PAGE_DESKTOP, return_selection = 0,
       frozen_lock = False, preferences = c1_preferences_default, lock_text_draft = [],
       lock_text_cursor = 0, wifi_notice = [], selected_ssid = [],
       selected_security = C1_WIFI_SECURITY_OPEN, selected_saved = False, secret = cleared,
       secret_length = 0 \<rparr>"

definition c1_ui_clear_secret :: "c1_ui_state \<Rightarrow> c1_ui_state" where
  "c1_ui_clear_secret s = s\<lparr> secret := cleared, secret_length := 0, secret_visible := False \<rparr>"

definition c1_ui_is_password_page :: "c1_ui_page \<Rightarrow> bool" where
  "c1_ui_is_password_page p \<longleftrightarrow> p = C1_UI_PAGE_WIFI_PASSWORD"

definition c1_ui_enter_lock :: "c1_ui_state \<Rightarrow> c1_ui_state \<times> bool" where
  "c1_ui_enter_lock s =
     (if page s = C1_UI_PAGE_LOCK then (s, False)
      else
        let sensitive = (c1_ui_is_password_page (page s) \<or> secret_length s \<noteq> 0 \<or> secret_visible s \<or>
              list_ex (\<lambda>c. c \<noteq> CHR 0x00) (secret s));
            s1 = s\<lparr> return_page := (if page s = C1_UI_PAGE_WIFI_PASSWORD then C1_UI_PAGE_WIFI else page s),
                    return_selection := (if page s = C1_UI_PAGE_WIFI_PASSWORD then 0 else selection s),
                    frozen_lock := (lock_style (preferences s) = C1_LOCK_FREEZE \<and> \<not> sensitive) \<rparr>
        in ((c1_ui_clear_secret s1)\<lparr> page := C1_UI_PAGE_LOCK, selection := 4, symbol_selection := 0,
              keyboard_layer := C1_UI_KEYBOARD_LOWER, terminal_symbol_picker := False,
              selected_ssid := [] \<rparr>, True))"

definition c1_ui_unlock :: "c1_ui_state \<Rightarrow> c1_ui_state \<times> bool" where
  "c1_ui_unlock s =
     (if page s \<noteq> C1_UI_PAGE_LOCK then (s, False)
      else (s\<lparr> page := return_page s, selection := return_selection s, frozen_lock := False \<rparr>, True))"

definition c1_ui_secret_append :: "c1_ui_state \<Rightarrow> char \<Rightarrow> c1_ui_state \<times> bool" where
  "c1_ui_secret_append s character =
     (if \<not> c1_ui_is_password_page (page s) \<or> byte character < 32 \<or> byte character > 126 \<or>
         secret_length s + 1 \<ge> C1_UI_SECRET_CAPACITY
      then (s, False)
      else (s\<lparr> secret := (secret s)[secret_length s := character, secret_length s + 1 := CHR 0x00],
               secret_length := secret_length s + 1, wifi_notice := [] \<rparr>, True))"

definition c1_ui_secret_delete :: "c1_ui_state \<Rightarrow> c1_ui_state \<times> bool" where
  "c1_ui_secret_delete s =
     (if \<not> c1_ui_is_password_page (page s) \<or> secret_length s = 0 then (s, False)
      else (s\<lparr> secret := (secret s)[secret_length s - 1 := CHR 0x00],
               secret_length := secret_length s - 1, wifi_notice := [] \<rparr>, True))"

section \<open>The lock text editor\<close>

text \<open>Stepping a byte offset back to, or on to, the next byte that does not continue a sequence.\<close>

fun back_to_head :: "string \<Rightarrow> nat \<Rightarrow> nat" where
  "back_to_head s 0 = 0"
| "back_to_head s (Suc k) =
     (if Suc k < length s \<and> is_continuation (s ! Suc k) then back_to_head s k else Suc k)"

definition on_to_head :: "string \<Rightarrow> nat \<Rightarrow> nat" where
  "on_to_head s k = k + length (takeWhile is_continuation (drop k s))"

definition c1_ui_lock_text_cursor_offset :: "c1_ui_state \<Rightarrow> nat" where
  "c1_ui_lock_text_cursor_offset s =
     (let text = lock_text_draft s;
          cursor = (if lock_text_cursor s < length text then lock_text_cursor s else length text)
      in back_to_head text cursor)"

definition c1_ui_lock_text_move :: "c1_ui_state \<Rightarrow> int \<Rightarrow> c1_ui_state \<times> bool" where
  "c1_ui_lock_text_move s direction =
     (let text = lock_text_draft s; cursor = c1_ui_lock_text_cursor_offset s in
      if page s \<noteq> C1_UI_PAGE_LOCK_TEXT \<or> direction = 0 \<or> \<not> c1_preferences_valid_text text
      then (s, False)
      else if direction < 0 then
        (if cursor = 0 then (s, False)
         else (s\<lparr> lock_text_cursor := back_to_head text (cursor - 1) \<rparr>, True))
      else
        (if cursor = length text then (s, False)
         else (s\<lparr> lock_text_cursor := on_to_head text (cursor + 1) \<rparr>, True)))"

definition c1_ui_lock_text_append_utf8 :: "c1_ui_state \<Rightarrow> string \<Rightarrow> c1_ui_state \<times> bool" where
  "c1_ui_lock_text_append_utf8 s text =
     (if page s \<noteq> C1_UI_PAGE_LOCK_TEXT \<or> \<not> c1_preferences_valid_text text then (s, False)
      else
        let draft = lock_text_draft s in
        if length draft \<ge> C1_LOCK_TEXT_BYTES \<or> length draft \<noteq> 0 \<and> \<not> c1_preferences_valid_text draft
        then (s, False)
        else if length text \<ge> C1_LOCK_TEXT_BYTES - length draft then (s, False)
        else
          let cursor = c1_ui_lock_text_cursor_offset s in
          (s\<lparr> lock_text_draft := take cursor draft @ text @ drop cursor draft,
              lock_text_cursor := cursor + length text, wifi_notice := [] \<rparr>, True))"

definition c1_ui_lock_text_append_ascii :: "c1_ui_state \<Rightarrow> char \<Rightarrow> c1_ui_state \<times> bool" where
  "c1_ui_lock_text_append_ascii s character =
     (if byte character < 32 \<or> byte character > 126 then (s, False)
      else c1_ui_lock_text_append_utf8 s [character])"

definition c1_ui_lock_text_delete :: "c1_ui_state \<Rightarrow> c1_ui_state \<times> bool" where
  "c1_ui_lock_text_delete s =
     (if page s \<noteq> C1_UI_PAGE_LOCK_TEXT \<or> \<not> c1_preferences_valid_text (lock_text_draft s) then (s, False)
      else
        let draft = lock_text_draft s; cursor = c1_ui_lock_text_cursor_offset s in
        if cursor = 0 then (s, False)
        else
          let start = back_to_head draft (cursor - 1) in
          (s\<lparr> lock_text_draft := take start draft @ drop cursor draft, lock_text_cursor := start,
              wifi_notice := [] \<rparr>, True))"

section \<open>The on-screen keyboard\<close>

definition symbols :: string where "symbols = ''!+=[]{}<>'' @ [CHR 0x5C] @ ''|_''"

definition c1_ui_extended_symbol :: "nat \<Rightarrow> char" where
  "c1_ui_extended_symbol sel =
     (if sel \<ge> C1_UI_EXTENDED_SYMBOL_COUNT then CHR 0x00 else symbols ! sel)"

definition c1_ui_keyboard_next_layer :: "c1_ui_keyboard_layer \<Rightarrow> c1_ui_keyboard_layer" where
  "c1_ui_keyboard_next_layer layer =
     (case layer of C1_UI_KEYBOARD_LOWER \<Rightarrow> C1_UI_KEYBOARD_UPPER
      | C1_UI_KEYBOARD_UPPER \<Rightarrow> C1_UI_KEYBOARD_SYMBOLS
      | C1_UI_KEYBOARD_SYMBOLS \<Rightarrow> C1_UI_KEYBOARD_LOWER)"

definition letters :: string where "letters = ''qwertyuiopasdfghjklzxcvbnm''"

definition keycap_symbols :: string where
  "keycap_symbols = ''1234567890'' @ [CHR 0x27] @ ''@#$%&*().-/?:;,''"

text \<open>\<open>strchr\<close> also finds the terminator; the tables are read with theirs.\<close>

definition c1_ui_physical_character :: "c1_ui_keyboard_layer \<Rightarrow> char \<Rightarrow> bool \<Rightarrow> char" where
  "c1_ui_physical_character layer letter shift_chord =
     (let table = letters @ [CHR 0x00]; position = length (takeWhile (\<lambda>c. c \<noteq> letter) table) in
      if position = length table then CHR 0x00
      else if shift_chord \<or> layer = C1_UI_KEYBOARD_SYMBOLS then (keycap_symbols @ [CHR 0x00]) ! position
      else if layer = C1_UI_KEYBOARD_UPPER then char_of ((byte letter + 256 - 97 + 65) mod 256)
      else letter)"

definition move_extended_symbol :: "c1_ui_state \<Rightarrow> c1_ui_event \<Rightarrow> c1_ui_state" where
  "move_extended_symbol s event =
     (let sel = symbol_selection s;
          next = (case event of
            C1_UI_EVENT_LEFT \<Rightarrow> if sel mod C1_UI_EXTENDED_SYMBOL_COLUMNS \<noteq> 0 then sel - 1 else sel
          | C1_UI_EVENT_RIGHT \<Rightarrow>
              if sel mod C1_UI_EXTENDED_SYMBOL_COLUMNS \<noteq> C1_UI_EXTENDED_SYMBOL_COLUMNS - 1 \<and>
                 u32 (sel + 1) < C1_UI_EXTENDED_SYMBOL_COUNT then u32 (sel + 1) else sel
          | C1_UI_EVENT_UP \<Rightarrow>
              if sel \<ge> C1_UI_EXTENDED_SYMBOL_COLUMNS then sel - C1_UI_EXTENDED_SYMBOL_COLUMNS else sel
          | C1_UI_EVENT_DOWN \<Rightarrow>
              if u32 (sel + C1_UI_EXTENDED_SYMBOL_COLUMNS) < C1_UI_EXTENDED_SYMBOL_COUNT
              then u32 (sel + C1_UI_EXTENDED_SYMBOL_COLUMNS) else sel
          | _ \<Rightarrow> sel)
      in s\<lparr> symbol_selection := next \<rparr>)"

definition activate_extended_symbol :: "c1_ui_state \<Rightarrow> c1_ui_state" where
  "activate_extended_symbol s =
     (let character = c1_ui_extended_symbol (symbol_selection s) in
      if character \<noteq> CHR 0x00 then fst (c1_ui_secret_append s character) else s)"

section \<open>Pages\<close>

text \<open>\<open>snprintf\<close> into an array of the given size.\<close>

definition bounded :: "nat \<Rightarrow> string \<Rightarrow> string" where
  "bounded capacity text = take (capacity - 1) text"

definition notice :: "c1_ui_state \<Rightarrow> string \<Rightarrow> c1_ui_state" where
  "notice s text = s\<lparr> wifi_notice := bounded C1_UI_MESSAGE_CAPACITY text \<rparr>"

definition clear_draft :: "c1_ui_state \<Rightarrow> c1_ui_state" where
  "clear_draft s = s\<lparr> lock_text_draft := [], lock_text_cursor := 0 \<rparr>"

definition busy :: "c1_ui_status option \<Rightarrow> bool" where
  "busy status \<longleftrightarrow> (case status of None \<Rightarrow> False | Some st \<Rightarrow> service_busy st)"

definition activate_desktop :: "c1_ui_state \<Rightarrow> c1_ui_status option \<Rightarrow> c1_ui_transition" where
  "activate_desktop s status =
     (let row = (if selection s < 5 then selection s else 0);
          n = s\<lparr> desktop_selection := row, selection := 0, wifi_notice := [] \<rparr> in
      if row = 0 then
        (n\<lparr> page := C1_UI_PAGE_TERMINAL, terminal_action := C1_UI_ACTION_TERMINAL_APP \<rparr>, C1_UI_ACTION_TERMINAL_APP)
      else if row = 1 then
        (n\<lparr> page := C1_UI_PAGE_TERMINAL, terminal_action := C1_UI_ACTION_NONE \<rparr>, C1_UI_ACTION_NONE)
      else if row = 2 then
        (if \<not> busy status then (n\<lparr> page := C1_UI_PAGE_WIFI \<rparr>, C1_UI_ACTION_WIFI_SCAN)
         else (notice (n\<lparr> page := C1_UI_PAGE_WIFI \<rparr>)
                (if wifi_busy (the status) then ''WI-FI TASK ALREADY RUNNING''
                 else ''UPDATE CHECK RUNNING; TRY SCAN LATER''), C1_UI_ACTION_NONE))
      else if row = 3 then (n\<lparr> page := C1_UI_PAGE_BATTERY, battery_selected_at := 0 \<rparr>, C1_UI_ACTION_NONE)
      else (n\<lparr> page := C1_UI_PAGE_SETTINGS \<rparr>, C1_UI_ACTION_NONE))"

definition visible_networks :: "c1_ui_status \<Rightarrow> c1_ui_network list" where
  "visible_networks st = take (min (network_count st) C1_UI_MAX_NETWORKS) (networks st)"

definition c1_ui_network_is_current :: "c1_ui_status option \<Rightarrow> nat \<Rightarrow> bool" where
  "c1_ui_network_is_current status i =
     (case status of None \<Rightarrow> False
      | Some st \<Rightarrow>
          wifi_connected st \<and> i < network_count st \<and> i < C1_UI_MAX_NETWORKS \<and>
          wifi_connected_ssid st = ssid (networks st ! i) \<and>
          list_all (\<lambda>n. \<not> (ssid n = ssid (networks st ! i) \<and> security n \<noteq> security (networks st ! i)))
            (visible_networks st))"

definition connectable :: "c1_wifi_security \<Rightarrow> bool" where
  "connectable sec \<longleftrightarrow> sec = C1_WIFI_SECURITY_OPEN \<or> sec = C1_WIFI_SECURITY_WPA_PSK"

definition c1_ui_autoconnect :: "c1_ui_state \<Rightarrow> c1_ui_status option \<Rightarrow> c1_ui_transition" where
  "c1_ui_autoconnect s status =
     (case status of None \<Rightarrow> (s, C1_UI_ACTION_NONE)
      | Some st \<Rightarrow>
          if page s \<noteq> C1_UI_PAGE_WIFI \<or> wifi_connected st \<or> service_busy st \<or> wifi_stop_pending st
          then (s, C1_UI_ACTION_NONE)
          else case find (\<lambda>n. saved n \<and> connectable (security n)) (visible_networks st) of
                 None \<Rightarrow> (s, C1_UI_ACTION_NONE)
               | Some n \<Rightarrow>
                   ((c1_ui_clear_secret s)\<lparr> selected_saved := True, selected_security := security n,
                      selected_ssid := bounded C1_UI_SSID_CAPACITY (ssid n), selection := 0,
                      wifi_notice := [] \<rparr>, C1_UI_ACTION_WIFI_CONNECT))"

definition history_samples :: "c1_ui_status option \<Rightarrow> c1_battery_sample list" where
  "history_samples status =
     (case status of None \<Rightarrow> [] | Some st \<Rightarrow> take C1_BATTERY_HISTORY_POINTS (samples (battery_history st)))"

definition c1_ui_battery_selected :: "c1_ui_state \<Rightarrow> c1_ui_status option \<Rightarrow> nat" where
  "c1_ui_battery_selected s status =
     (let ps = history_samples status; count = length ps in
      if count = 0 then 0
      else if battery_selected_at s = 0 then count - 1
      else
        let i = length (takeWhile (\<lambda>p. timestamp p < battery_selected_at s) ps) in
        if i < count then i else count - 1)"

definition desktop_row :: "c1_ui_state \<Rightarrow> nat" where
  "desktop_row s = (if desktop_selection s < 5 then desktop_selection s else 0)"

definition chinese :: "nat list \<Rightarrow> string" where
  "chinese bytes = map char_of bytes"

definition step_lock_text :: "c1_ui_state \<Rightarrow> c1_ui_event \<Rightarrow> c1_ui_transition" where
  "step_lock_text s event =
     (if event = C1_UI_EVENT_ENTER then
        (if \<not> c1_preferences_valid_text (lock_text_draft s)
         then (notice s (c1_ui_tr (language (preferences s))
                 (chinese [0xe8, 0xaf, 0xb7, 0xe8, 0xbe, 0x93, 0xe5, 0x85, 0xa5, 0xe6, 0x9c, 0x89, 0xe6, 0x95, 0x88,
                           0xe7, 0x9a, 0x84, 0xe9, 0x9d, 0x9e, 0xe7, 0xa9, 0xba, 0xe6, 0x96, 0x87, 0xe5, 0xad, 0x97])
                 ''ENTER VALID NONEMPTY TEXT''), C1_UI_ACTION_NONE)
         else ((clear_draft s)\<lparr> preferences := (preferences s)\<lparr> lock_text := lock_text_draft s \<rparr>,
                 wifi_notice := [], page := C1_UI_PAGE_SETTINGS, selection := C1_SETTING_LOCK_TEXT \<rparr>,
               C1_UI_ACTION_NONE))
      else if event = C1_UI_EVENT_LEFT then (fst (c1_ui_lock_text_move s (-1)), C1_UI_ACTION_NONE)
      else if event = C1_UI_EVENT_RIGHT then (fst (c1_ui_lock_text_move s 1), C1_UI_ACTION_NONE)
      else (s, C1_UI_ACTION_NONE))"

definition previous_view :: "c1_battery_view \<Rightarrow> c1_battery_view" where
  "previous_view v = (case v of C1_BATTERY_VIEW_MINUTE \<Rightarrow> C1_BATTERY_VIEW_HOUR | _ \<Rightarrow> C1_BATTERY_VIEW_DAY)"

definition next_view :: "c1_battery_view \<Rightarrow> c1_battery_view" where
  "next_view v = (case v of C1_BATTERY_VIEW_DAY \<Rightarrow> C1_BATTERY_VIEW_HOUR | _ \<Rightarrow> C1_BATTERY_VIEW_MINUTE)"

definition step_battery :: "c1_ui_state \<Rightarrow> c1_ui_event \<Rightarrow> c1_ui_status option \<Rightarrow> c1_ui_transition" where
  "step_battery s event status =
     (let ps = history_samples status; count = length ps;
          v = (if event = C1_UI_EVENT_VIEW_PREVIOUS then s\<lparr> battery_view := previous_view (battery_view s) \<rparr>
               else if event = C1_UI_EVENT_VIEW_NEXT then s\<lparr> battery_view := next_view (battery_view s) \<rparr> else s)
      in if count = 0 then (v\<lparr> selection := 0, battery_selected_at := 0 \<rparr>, C1_UI_ACTION_NONE)
         else
           let selected = c1_ui_battery_selected s status;
               back = ((event = C1_UI_EVENT_LEFT \<or> event = C1_UI_EVENT_UP) \<and> selected \<noteq> 0);
               ahead = (event = C1_UI_EVENT_RIGHT \<or> event = C1_UI_EVENT_DOWN);
               next = (if back then selected - 1
                       else if ahead \<and> selected + 1 < count then selected + 1 else selected);
               at = (if back then timestamp (ps ! next)
                     else if ahead then (if next + 1 = count then 0 else timestamp (ps ! next))
                     else battery_selected_at s)
           in (v\<lparr> battery_selected_at := at, selection := count - 1 - next \<rparr>, C1_UI_ACTION_NONE))"

definition step_update :: "c1_ui_state \<Rightarrow> c1_ui_event \<Rightarrow> c1_ui_status option \<Rightarrow> c1_ui_transition" where
  "step_update s event status =
     (if event \<noteq> C1_UI_EVENT_ENTER then (s, C1_UI_ACTION_NONE)
      else if busy status
      then (notice s (c1_ui_tr (language (preferences s))
              (chinese [0xe4, 0xbb, 0xbb, 0xe5, 0x8a, 0xa1, 0xe8, 0xbf, 0x9b, 0xe8, 0xa1, 0x8c, 0xe4, 0xb8, 0xad,
                        0xef, 0xbc, 0x8c, 0xe8, 0xaf, 0xb7, 0xe7, 0xa8, 0x8d, 0xe5, 0x80, 0x99])
              ''Task in progress''), C1_UI_ACTION_NONE)
      else if (case status of None \<Rightarrow> False | Some st \<Rightarrow> update_prepared st)
      then (s\<lparr> page := C1_UI_PAGE_TERMINAL, selection := 0, terminal_action := C1_UI_ACTION_TERMINAL_UPDATE \<rparr>,
            C1_UI_ACTION_TERMINAL_UPDATE)
      else if (case status of None \<Rightarrow> True | Some st \<Rightarrow> \<not> wifi_connected st \<or> wifi_ipv4 st = [])
      then (notice s (c1_ui_tr (language (preferences s))
              (chinese [0xe6, 0x97, 0xa0, 0xe7, 0xbd, 0x91, 0xe7, 0xbb, 0x9c, 0xef, 0xbc, 0x8c, 0xe8, 0xaf, 0xb7,
                        0xe5, 0x85, 0x88, 0xe8, 0xbf, 0x9e, 0xe6, 0x8e, 0xa5] @ '' Wi-Fi'')
              ''No network. Connect Wi-Fi first.''), C1_UI_ACTION_NONE)
      else (s\<lparr> wifi_notice := [] \<rparr>, C1_UI_ACTION_UPDATE_REFRESH))"

definition step_settings :: "c1_ui_state \<Rightarrow> c1_ui_event \<Rightarrow> c1_ui_status option \<Rightarrow> c1_ui_transition" where
  "step_settings s event status =
     (let sel = selection s;
          n = s\<lparr> selection :=
                (if event = C1_UI_EVENT_UP \<and> sel \<noteq> 0 then sel - 1
                 else if event = C1_UI_EVENT_DOWN \<and> u32 (sel + 1) < C1_SETTING_COUNT then u32 (sel + 1)
                 else if event = C1_UI_EVENT_SELECT_NEXT then u32 (sel + 1) mod C1_SETTING_COUNT
                 else sel) \<rparr> in
      if sel = C1_SETTING_ABOUT
      then ((if event = C1_UI_EVENT_ENTER then n\<lparr> page := C1_UI_PAGE_ABOUT, selection := 0 \<rparr> else n),
            C1_UI_ACTION_NONE)
      else if sel = C1_SETTING_UPDATE then step_update n event status
      else if event = C1_UI_EVENT_LEFT \<or> event = C1_UI_EVENT_RIGHT \<or> event = C1_UI_EVENT_ENTER then
        (if sel = C1_SETTING_LOCK_TEXT then
           let draft = (if c1_preferences_valid_text (lock_text (preferences s))
                        then lock_text (preferences s) else []) in
           (n\<lparr> lock_text_draft := draft, lock_text_cursor := length draft, wifi_notice := [],
               page := C1_UI_PAGE_LOCK_TEXT \<rparr>, C1_UI_ACTION_NONE)
         else (n\<lparr> preferences := c1_preferences_cycle (preferences s) sel
                    (if event = C1_UI_EVENT_LEFT then -1 else 1) \<rparr>, C1_UI_ACTION_NONE))
      else (n, C1_UI_ACTION_NONE))"

definition step_desktop :: "c1_ui_state \<Rightarrow> c1_ui_event \<Rightarrow> c1_ui_status option \<Rightarrow> c1_ui_transition" where
  "step_desktop s event status =
     (if event = C1_UI_EVENT_ENTER then activate_desktop s status
      else
        let sel = (if event = C1_UI_EVENT_DOWN \<or> event = C1_UI_EVENT_RIGHT then u32 (selection s + 1) mod 5
                   else if event = C1_UI_EVENT_UP \<or> event = C1_UI_EVENT_LEFT then u32 (selection s + 4) mod 5
                   else selection s);
            text = (if event = C1_UI_EVENT_UP \<or> event = C1_UI_EVENT_DOWN \<or> event = C1_UI_EVENT_LEFT \<or>
                       event = C1_UI_EVENT_RIGHT then [] else wifi_notice s)
        in (s\<lparr> selection := sel, wifi_notice := text, desktop_selection := sel \<rparr>, C1_UI_ACTION_NONE))"

text \<open>Confirming row \<open>i\<close> of the scanned networks.\<close>

definition choose_network :: "c1_ui_state \<Rightarrow> c1_ui_status \<Rightarrow> nat \<Rightarrow> c1_ui_transition" where
  "choose_network s st i =
     (let n = networks st ! i;
          s1 = s\<lparr> selected_security := security n, selected_saved := saved n \<rparr> in
      if \<not> connectable (security n) then (notice s1 ''THIS SECURITY TYPE IS NOT SUPPORTED'', C1_UI_ACTION_NONE)
      else if c1_ui_network_is_current (Some st) i
      then (notice s1 ''ALREADY CONNECTED TO THIS NETWORK'', C1_UI_ACTION_NONE)
      else
        let s2 = (c1_ui_clear_secret (s1\<lparr> selected_ssid := bounded C1_UI_SSID_CAPACITY (ssid n) \<rparr>))
                   \<lparr> symbol_selection := 0, keyboard_layer := C1_UI_KEYBOARD_LOWER \<rparr> in
        if secured n \<and> \<not> saved n
        then (s2\<lparr> page := C1_UI_PAGE_WIFI_PASSWORD, secret_visible := True \<rparr>, C1_UI_ACTION_NONE)
        else (s2, C1_UI_ACTION_WIFI_CONNECT))"

definition shown_count :: "c1_ui_status option \<Rightarrow> nat" where
  "shown_count status =
     (case status of None \<Rightarrow> 0
      | Some st \<Rightarrow> if network_count st < C1_UI_MAX_NETWORKS then network_count st else C1_UI_MAX_NETWORKS)"

definition step_wifi :: "c1_ui_state \<Rightarrow> c1_ui_event \<Rightarrow> c1_ui_status option \<Rightarrow> c1_ui_transition" where
  "step_wifi s event status =
     (let count = shown_count status; item_count = count + 2;
          sel = (if selection s \<ge> item_count then (if count > 0 then item_count - 1 else 0) else selection s);
          t = s\<lparr> selection := sel \<rparr> in
      if event = C1_UI_EVENT_SELECT_NEXT then (t\<lparr> selection := (sel + 1) mod item_count \<rparr>, C1_UI_ACTION_NONE)
      else if event = C1_UI_EVENT_LEFT \<and> sel = 1 then (t\<lparr> selection := 0 \<rparr>, C1_UI_ACTION_NONE)
      else if event = C1_UI_EVENT_RIGHT \<and> sel = 0 then (t\<lparr> selection := 1 \<rparr>, C1_UI_ACTION_NONE)
      else if event = C1_UI_EVENT_UP \<and> sel \<ge> 2
      then (t\<lparr> selection := (if sel = 2 then 0 else sel - 1) \<rparr>, C1_UI_ACTION_NONE)
      else if event = C1_UI_EVENT_DOWN then
        (t\<lparr> selection := (if sel < 2 \<and> count > 0 then 2
                          else if sel \<ge> 2 \<and> sel + 1 < item_count then sel + 1 else sel) \<rparr>, C1_UI_ACTION_NONE)
      else if event = C1_UI_EVENT_ENTER then
        let u = t\<lparr> wifi_notice := [] \<rparr> in
        if busy status \<and> sel \<noteq> 1 then (notice u ''BUSY - WAIT OR SELECT TURN OFF'', C1_UI_ACTION_NONE)
        else if sel = 0 then (u, C1_UI_ACTION_WIFI_SCAN)
        else if sel = 1 then (u, C1_UI_ACTION_WIFI_DISABLE)
        else (case status of
                Some st \<Rightarrow> if sel < item_count then choose_network u st (sel - 2) else (u, C1_UI_ACTION_NONE)
              | None \<Rightarrow> (u, C1_UI_ACTION_NONE))
      else (t, C1_UI_ACTION_NONE))"

definition step_password :: "c1_ui_state \<Rightarrow> c1_ui_event \<Rightarrow> c1_ui_status option \<Rightarrow> c1_ui_transition" where
  "step_password s event status =
     (if event = C1_UI_EVENT_TOGGLE_SECRET
      then (s\<lparr> secret_visible := \<not> secret_visible s \<rparr>, C1_UI_ACTION_NONE)
      else if event = C1_UI_EVENT_SUBMIT \<or>
              event = C1_UI_EVENT_ENTER \<and> keyboard_layer s \<noteq> C1_UI_KEYBOARD_SYMBOLS then
        (if busy status then (notice s ''BUSY - YOUR PASSWORD IS KEPT'', C1_UI_ACTION_NONE)
         else if secret_length s < 8 \<or> secret_length s > 63
         then (notice s ''USE 8-63 CHARACTERS'', C1_UI_ACTION_NONE)
         else (s\<lparr> wifi_notice := [] \<rparr>, C1_UI_ACTION_WIFI_CONNECT))
      else if keyboard_layer s = C1_UI_KEYBOARD_SYMBOLS then
        ((if event = C1_UI_EVENT_ENTER then activate_extended_symbol s else move_extended_symbol s event),
         C1_UI_ACTION_NONE)
      else (s, C1_UI_ACTION_NONE))"

definition step_home :: "c1_ui_state \<Rightarrow> c1_ui_state" where
  "step_home s =
     (let t = c1_ui_clear_secret s;
          u = (if page s = C1_UI_PAGE_LOCK_TEXT then (clear_draft t)\<lparr> wifi_notice := [] \<rparr> else t)
      in u\<lparr> page := C1_UI_PAGE_DESKTOP, selection := desktop_row s \<rparr>)"

definition step_back :: "c1_ui_state \<Rightarrow> c1_ui_state" where
  "step_back s =
     (let t = c1_ui_clear_secret s in
      if page s = C1_UI_PAGE_WIFI_PASSWORD then t\<lparr> page := C1_UI_PAGE_WIFI, selection := 0 \<rparr>
      else if page s = C1_UI_PAGE_ABOUT then t\<lparr> page := C1_UI_PAGE_SETTINGS, selection := C1_SETTING_ABOUT \<rparr>
      else if page s = C1_UI_PAGE_LOCK_TEXT
      then (clear_draft t)\<lparr> wifi_notice := [], page := C1_UI_PAGE_SETTINGS, selection := C1_SETTING_LOCK_TEXT \<rparr>
      else t\<lparr> page := C1_UI_PAGE_DESKTOP, selection := desktop_row s \<rparr>)"

definition c1_ui_step :: "c1_ui_state \<Rightarrow> c1_ui_event \<Rightarrow> c1_ui_status option \<Rightarrow> c1_ui_transition" where
  "c1_ui_step s event status =
     (if page s = C1_UI_PAGE_LOCK then (s, C1_UI_ACTION_NONE)
      else if event = C1_UI_EVENT_BATTERY \<or> event = C1_UI_EVENT_SETTINGS then
        let t = c1_ui_clear_secret s;
            u = (if page s = C1_UI_PAGE_LOCK_TEXT then clear_draft t else t);
            v = (if event = C1_UI_EVENT_BATTERY
                 then u\<lparr> page := C1_UI_PAGE_BATTERY, battery_selected_at := 0 \<rparr>
                 else u\<lparr> page := C1_UI_PAGE_SETTINGS \<rparr>)
        in (v\<lparr> selection := 0, wifi_notice := [] \<rparr>, C1_UI_ACTION_NONE)
      else
        let t = (if page s = C1_UI_PAGE_BATTERY then s\<lparr> wifi_notice := [] \<rparr> else s) in
        if event = C1_UI_EVENT_HOME then (step_home t, C1_UI_ACTION_NONE)
        else if event = C1_UI_EVENT_BACK then (step_back t, C1_UI_ACTION_NONE)
        else case page s of
               C1_UI_PAGE_LOCK_TEXT \<Rightarrow> step_lock_text t event
             | C1_UI_PAGE_BATTERY \<Rightarrow> step_battery t event status
             | C1_UI_PAGE_SETTINGS \<Rightarrow> step_settings t event status
             | C1_UI_PAGE_DESKTOP \<Rightarrow> step_desktop t event status
             | C1_UI_PAGE_WIFI \<Rightarrow> step_wifi t event status
             | C1_UI_PAGE_WIFI_PASSWORD \<Rightarrow> step_password t event status
             | _ \<Rightarrow> (t, C1_UI_ACTION_NONE))"

definition c1_ui_reduce :: "c1_ui_state \<Rightarrow> c1_ui_event \<Rightarrow> c1_ui_state" where
  "c1_ui_reduce s event = fst (c1_ui_step s event None)"

section \<open>The editor on code points\<close>

definition encoded :: "nat list \<Rightarrow> string" where
  "encoded cps = concat (map utf8_encode cps)"

lemma encoded_simps [simp]:
  "encoded [] = []" "encoded (c # cs) = utf8_encode c @ encoded cs" "encoded (xs @ ys) = encoded xs @ encoded ys"
  by (simp_all add: encoded_def)

lemma encoded_utf8: "utf8_text s \<longleftrightarrow> (\<exists>cps. list_all printable cps \<and> s = encoded cps)"
  by (simp add: utf8_text_def encoded_def)

text \<open>The code points before and after the cursor.\<close>

definition editing :: "c1_ui_state \<Rightarrow> nat list \<times> nat list \<Rightarrow> bool" where
  "editing s a \<longleftrightarrow> page s = C1_UI_PAGE_LOCK_TEXT \<and> list_all printable (fst a @ snd a) \<and>
     lock_text_draft s = encoded (fst a @ snd a) \<and> lock_text_cursor s = length (encoded (fst a)) \<and>
     length (encoded (fst a @ snd a)) < C1_LOCK_TEXT_BYTES"

fun editor_left :: "nat list \<times> nat list \<Rightarrow> (nat list \<times> nat list) option" where
  "editor_left (l, r) = (if l = [] then None else Some (butlast l, last l # r))"

fun editor_right :: "nat list \<times> nat list \<Rightarrow> (nat list \<times> nat list) option" where
  "editor_right (l, []) = None"
| "editor_right (l, c # r) = Some (l @ [c], r)"

fun editor_delete :: "nat list \<times> nat list \<Rightarrow> (nat list \<times> nat list) option" where
  "editor_delete (l, r) = (if l = [] then None else Some (butlast l, r))"

fun editor_insert :: "nat list \<Rightarrow> nat list \<times> nat list \<Rightarrow> (nat list \<times> nat list) option" where
  "editor_insert t (l, r) =
     (if t \<noteq> [] \<and> length (encoded (l @ t @ r)) < C1_LOCK_TEXT_BYTES then Some (l @ t, r) else None)"

definition refines :: "c1_ui_state \<Rightarrow> c1_ui_state \<times> bool \<Rightarrow> (nat list \<times> nat list) option \<Rightarrow> bool" where
  "refines s result next \<longleftrightarrow>
     (case next of None \<Rightarrow> result = (s, False) | Some b \<Rightarrow> snd result \<and> editing (fst result) b)"

lemma encode_split:
  assumes "printable c"
  obtains h ks where "utf8_encode c = h # ks" and "\<not> is_continuation h" and "list_all is_continuation ks"
  using encode_shape [OF assms] encode_not_Nil [of c] by (cases "utf8_encode c") auto

lemma boundary_encoded:
  assumes "list_all printable r"
  shows "boundary (p @ encoded r) (length p)"
proof (cases r)
  case (Cons c cs)
  with assms have "printable c" by simp
  then obtain h ks where "utf8_encode c = h # ks" "\<not> is_continuation h" by (rule encode_split)
  with Cons show ?thesis by (simp add: boundary_def)
qed (simp add: boundary_def)

lemma back_boundary: "boundary s k \<Longrightarrow> back_to_head s k = k"
  by (cases k) (auto simp: boundary_def)

lemma back_step:
  "\<not> is_continuation h \<Longrightarrow> list_all is_continuation ks \<Longrightarrow> k \<le> length ks \<Longrightarrow>
   back_to_head (p @ h # ks @ q) (length p + k) = length p"
proof (induction k)
  case 0
  then show ?case by (cases "length p") (simp_all add: nth_append)
next
  case (Suc k)
  have "(p @ h # ks @ q) ! Suc (length p + k) = ks ! k" using Suc.prems by (simp add: nth_append)
  with Suc show ?case by (simp add: list_all_length)
qed

lemma back_code_point:
  assumes "printable c"
  shows "back_to_head (p @ utf8_encode c @ q) (length p + length (utf8_encode c) - 1) = length p"
proof -
  from assms obtain h ks where "utf8_encode c = h # ks" "\<not> is_continuation h" "list_all is_continuation ks"
    by (rule encode_split)
  then show ?thesis using back_step [of h ks "length ks" p q] by simp
qed

lemma on_code_point:
  assumes "printable c" and "list_all printable r"
  shows "on_to_head (p @ utf8_encode c @ encoded r) (length p + 1) = length p + length (utf8_encode c)"
proof -
  from assms(1) obtain h ks where e: "utf8_encode c = h # ks" "\<not> is_continuation h" "list_all is_continuation ks"
    by (rule encode_split)
  have "takeWhile is_continuation (encoded r) = []"
  proof (cases r)
    case (Cons d ds)
    with assms(2) have "printable d" by simp
    then obtain g js where "utf8_encode d = g # js" "\<not> is_continuation g" by (rule encode_split)
    with Cons show ?thesis by simp
  qed simp
  with e have "takeWhile is_continuation (ks @ encoded r) = ks"
    by (simp add: takeWhile_append2 list_all_iff)
  with e show ?thesis by (simp add: on_to_head_def)
qed

lemma valid_encoded:
  "list_all printable t \<Longrightarrow>
   c1_preferences_valid_text (encoded t) \<longleftrightarrow> t \<noteq> [] \<and> length (encoded t) < C1_LOCK_TEXT_BYTES"
  by (cases t) (auto simp: valid_text_iff encoded_utf8 intro: exI [of _ t])

lemma editing_offset: "editing s a \<Longrightarrow> c1_ui_lock_text_cursor_offset s = lock_text_cursor s"
  using boundary_encoded [of "snd a" "encoded (fst a)"]
  by (cases a) (auto simp: editing_def c1_ui_lock_text_cursor_offset_def Let_def intro: back_boundary)

lemma editing_valid:
  assumes "editing s a" and "fst a @ snd a \<noteq> []"
  shows "c1_preferences_valid_text (lock_text_draft s)"
proof -
  have p: "list_all printable (fst a @ snd a)" and d: "lock_text_draft s = encoded (fst a @ snd a)"
    and "length (encoded (fst a @ snd a)) < C1_LOCK_TEXT_BYTES" using assms(1) unfolding editing_def by blast+
  then show ?thesis unfolding d valid_encoded [OF p] using assms(2) by blast
qed

lemma move_left_refines: "editing s a \<Longrightarrow> d < 0 \<Longrightarrow> refines s (c1_ui_lock_text_move s d) (editor_left a)"
proof -
  assume e: "editing s a" and d: "d < 0"
  obtain l r where a: "a = (l, r)" by (cases a) auto
  note off = editing_offset [OF e]
  show ?thesis
  proof (cases l rule: rev_cases)
    case Nil
    with e a off d show ?thesis by (simp add: refines_def editing_def c1_ui_lock_text_move_def Let_def)
  next
    case (snoc k c)
    have c: "printable c" using e a snoc by (simp add: editing_def)
    have v: "c1_preferences_valid_text (lock_text_draft s)"
      using editing_valid [OF e] a snoc by simp
    have "back_to_head (lock_text_draft s) (lock_text_cursor s - 1) = length (encoded k)"
      using back_code_point [OF c, of "encoded k" "encoded r"] e a snoc by (simp add: editing_def)
    moreover have "lock_text_cursor s \<noteq> 0" using e a snoc by (simp add: editing_def)
    ultimately show ?thesis
      using e a snoc v d off by (simp add: refines_def editing_def c1_ui_lock_text_move_def Let_def)
  qed
qed

lemma move_right_refines: "editing s a \<Longrightarrow> d > 0 \<Longrightarrow> refines s (c1_ui_lock_text_move s d) (editor_right a)"
proof -
  assume e: "editing s a" and d: "d > 0"
  obtain l r where a: "a = (l, r)" by (cases a) auto
  note off = editing_offset [OF e]
  show ?thesis
  proof (cases r)
    case Nil
    with e a off d show ?thesis by (auto simp: refines_def editing_def c1_ui_lock_text_move_def Let_def)
  next
    case (Cons c q)
    have v: "c1_preferences_valid_text (lock_text_draft s)"
      using editing_valid [OF e] a Cons by simp
    have "on_to_head (lock_text_draft s) (lock_text_cursor s + 1) = length (encoded (l @ [c]))"
      using on_code_point [of c q "encoded l"] e a Cons by (simp add: editing_def)
    moreover have "lock_text_cursor s \<noteq> length (lock_text_draft s)" using e a Cons by (simp add: editing_def)
    ultimately show ?thesis
      using e a Cons v d off by (simp add: refines_def editing_def c1_ui_lock_text_move_def Let_def)
  qed
qed

lemma delete_refines: "editing s a \<Longrightarrow> refines s (c1_ui_lock_text_delete s) (editor_delete a)"
proof -
  assume e: "editing s a"
  obtain l r where a: "a = (l, r)" by (cases a) auto
  note off = editing_offset [OF e]
  show ?thesis
  proof (cases l rule: rev_cases)
    case Nil
    with e a off show ?thesis by (simp add: refines_def editing_def c1_ui_lock_text_delete_def Let_def)
  next
    case (snoc k c)
    have c: "printable c" using e a snoc by (simp add: editing_def)
    have v: "c1_preferences_valid_text (lock_text_draft s)"
      using editing_valid [OF e] a snoc by simp
    have b: "back_to_head (lock_text_draft s) (lock_text_cursor s - 1) = length (encoded k)"
      using back_code_point [OF c, of "encoded k" "encoded r"] e a snoc by (simp add: editing_def)
    have "lock_text_cursor s \<noteq> 0" using e a snoc by (simp add: editing_def)
    with b show ?thesis
      using e a snoc v off by (simp add: refines_def editing_def c1_ui_lock_text_delete_def Let_def)
  qed
qed

lemma insert_refines:
  assumes e: "editing s a" and t: "list_all printable t"
  shows "refines s (c1_ui_lock_text_append_utf8 s (encoded t)) (editor_insert t a)"
proof -
  obtain l r where a: "a = (l, r)" by (cases a) auto
  note off = editing_offset [OF e]
  have draft: "length (lock_text_draft s) \<noteq> 0 \<longrightarrow> c1_preferences_valid_text (lock_text_draft s)"
    using editing_valid [OF e] e a by (cases l; cases r) (auto simp: editing_def)
  show ?thesis
    using e a off draft t
    by (auto simp: refines_def editing_def c1_ui_lock_text_append_utf8_def Let_def valid_encoded)
qed


section \<open>The invariant\<close>

definition typable :: "char \<Rightarrow> bool" where
  "typable c \<longleftrightarrow> 32 \<le> byte c \<and> byte c \<le> 126"

text \<open>What the password buffer holds: the typed characters and zeros, and nothing off the password page.\<close>

definition secret_ok :: "c1_ui_page \<Rightarrow> string \<Rightarrow> nat \<Rightarrow> bool \<Rightarrow> bool" where
  "secret_ok p buffer n visible \<longleftrightarrow>
     (\<exists>typed. length typed < C1_UI_SECRET_CAPACITY \<and> list_all typable typed \<and> n = length typed \<and>
        buffer = typed @ replicate (C1_UI_SECRET_CAPACITY - length typed) (CHR 0x00) \<and>
        (p \<noteq> C1_UI_PAGE_WIFI_PASSWORD \<longrightarrow> typed = [] \<and> \<not> visible))"

definition draft_ok :: "c1_ui_page \<Rightarrow> c1_ui_page \<Rightarrow> string \<Rightarrow> nat \<Rightarrow> bool" where
  "draft_ok p back draft cursor \<longleftrightarrow>
     (if p = C1_UI_PAGE_LOCK_TEXT \<or> p = C1_UI_PAGE_LOCK \<and> back = C1_UI_PAGE_LOCK_TEXT
      then utf8_text draft \<and> length draft < C1_LOCK_TEXT_BYTES \<and> boundary draft cursor
      else draft = [] \<and> cursor = 0)"

definition selection_ok :: "c1_ui_page \<Rightarrow> nat \<Rightarrow> bool" where
  "selection_ok p sel \<longleftrightarrow>
     (case p of C1_UI_PAGE_DESKTOP \<Rightarrow> sel < 5 | C1_UI_PAGE_SETTINGS \<Rightarrow> sel < C1_SETTING_COUNT
      | C1_UI_PAGE_BATTERY \<Rightarrow> sel < C1_BATTERY_HISTORY_POINTS | C1_UI_PAGE_WIFI \<Rightarrow> sel < C1_UI_MAX_NETWORKS + 2
      | C1_UI_PAGE_LOCK_TEXT \<Rightarrow> sel = C1_SETTING_LOCK_TEXT | C1_UI_PAGE_LOCK \<Rightarrow> sel = 4
      | C1_UI_PAGE_WIFI_PASSWORD \<Rightarrow> sel < C1_UI_MAX_NETWORKS + 2 | _ \<Rightarrow> sel = 0)"

definition ui_ok :: "c1_ui_state \<Rightarrow> bool" where
  "ui_ok s \<longleftrightarrow>
     secret_ok (page s) (secret s) (secret_length s) (secret_visible s) \<and>
     draft_ok (page s) (return_page s) (lock_text_draft s) (lock_text_cursor s) \<and>
     selection_ok (page s) (selection s) \<and> desktop_selection s < 5 \<and>
     symbol_selection s < C1_UI_EXTENDED_SYMBOL_COUNT \<and> preferences_valid (preferences s) \<and>
     (page s = C1_UI_PAGE_LOCK \<longrightarrow> return_page s \<notin> {C1_UI_PAGE_LOCK, C1_UI_PAGE_WIFI_PASSWORD} \<and>
        selection_ok (return_page s) (return_selection s)) \<and>
     (frozen_lock s \<longrightarrow> page s = C1_UI_PAGE_LOCK)"

lemma secret_ok_cleared [simp]: "secret_ok p cleared 0 v \<longleftrightarrow> (p = C1_UI_PAGE_WIFI_PASSWORD \<or> \<not> v)"
  by (auto simp: secret_ok_def cleared_def C1_UI_SECRET_CAPACITY_def intro!: exI [of _ "[]"])

lemma secret_ok_elsewhere:
  "secret_ok p b n v \<Longrightarrow> p \<noteq> C1_UI_PAGE_WIFI_PASSWORD \<Longrightarrow> b = cleared \<and> n = 0 \<and> \<not> v"
  by (auto simp: secret_ok_def cleared_def)

lemma draft_ok_empty [simp]: "draft_ok p q [] 0"
  by (simp add: draft_ok_def boundary_def C1_LOCK_TEXT_BYTES_def)

lemma clear_secret_fields [simp]:
  "page (c1_ui_clear_secret s) = page s" "secret (c1_ui_clear_secret s) = cleared"
  "secret_length (c1_ui_clear_secret s) = 0" "secret_visible (c1_ui_clear_secret s) = False"
  "lock_text_draft (c1_ui_clear_secret s) = lock_text_draft s"
  "lock_text_cursor (c1_ui_clear_secret s) = lock_text_cursor s"
  "return_page (c1_ui_clear_secret s) = return_page s" "return_selection (c1_ui_clear_secret s) = return_selection s"
  "selection (c1_ui_clear_secret s) = selection s" "desktop_selection (c1_ui_clear_secret s) = desktop_selection s"
  "symbol_selection (c1_ui_clear_secret s) = symbol_selection s"
  "preferences (c1_ui_clear_secret s) = preferences s" "frozen_lock (c1_ui_clear_secret s) = frozen_lock s"
  by (simp_all add: c1_ui_clear_secret_def)

lemma initial_ok: "ui_ok c1_ui_initial_state"
  using default_preferences_valid
  by (simp add: ui_ok_def c1_ui_initial_state_def selection_ok_def C1_UI_EXTENDED_SYMBOL_COUNT_def)

lemma enter_lock_ok: "ui_ok s \<Longrightarrow> ui_ok (fst (c1_ui_enter_lock s))"
  by (cases "page s")
    (simp_all add: ui_ok_def c1_ui_enter_lock_def Let_def selection_ok_def draft_ok_def
      C1_UI_EXTENDED_SYMBOL_COUNT_def C1_UI_MAX_NETWORKS_def split: if_splits)

lemma unlock_ok: "ui_ok s \<Longrightarrow> ui_ok (fst (c1_ui_unlock s))"
  using secret_ok_elsewhere [of "page s" "secret s" "secret_length s" "secret_visible s"]
  by (auto simp: ui_ok_def c1_ui_unlock_def draft_ok_def)

lemma secret_append_ok: "ui_ok s \<Longrightarrow> ui_ok (fst (c1_ui_secret_append s c))"
proof (cases "c1_ui_is_password_page (page s) \<and> \<not> byte c < 32 \<and> \<not> byte c > 126 \<and> secret_length s + 1 < C1_UI_SECRET_CAPACITY")
  case True
  assume ok: "ui_ok s"
  then obtain typed where t: "length typed < C1_UI_SECRET_CAPACITY" "list_all typable typed"
    "secret_length s = length typed"
    "secret s = typed @ replicate (C1_UI_SECRET_CAPACITY - length typed) (CHR 0x00)"
    by (auto simp: ui_ok_def secret_ok_def)
  have "C1_UI_SECRET_CAPACITY - length typed = Suc (Suc (C1_UI_SECRET_CAPACITY - length typed - 2))"
    using True t(3) by arith
  then obtain k where k: "C1_UI_SECRET_CAPACITY - length typed = Suc (Suc k)" by blast
  then have "C1_UI_SECRET_CAPACITY - Suc (length typed) = Suc k" by arith
  with k have "(secret s)[length typed := c, length typed + 1 := CHR 0x00] =
      (typed @ [c]) @ replicate (C1_UI_SECRET_CAPACITY - length (typed @ [c])) (CHR 0x00)"
    unfolding t(4) by (simp add: list_update_append)
  then have "secret_ok (page s) ((secret s)[secret_length s := c, secret_length s + 1 := CHR 0x00])
      (secret_length s + 1) (secret_visible s)"
    unfolding secret_ok_def using True t
    by (intro exI [of _ "typed @ [c]"]) (simp add: typable_def c1_ui_is_password_page_def)
  with ok True show ?thesis by (simp add: c1_ui_secret_append_def ui_ok_def)
qed (auto simp: c1_ui_secret_append_def)

lemma secret_delete_ok: "ui_ok s \<Longrightarrow> ui_ok (fst (c1_ui_secret_delete s))"
proof (cases "c1_ui_is_password_page (page s) \<and> secret_length s \<noteq> 0")
  case True
  assume ok: "ui_ok s"
  then obtain typed where t: "length typed < C1_UI_SECRET_CAPACITY" "list_all typable typed"
    "secret_length s = length typed"
    "secret s = typed @ replicate (C1_UI_SECRET_CAPACITY - length typed) (CHR 0x00)"
    by (auto simp: ui_ok_def secret_ok_def)
  with True obtain u c where u: "typed = u @ [c]" by (metis length_0_conv rev_exhaust)
  have "C1_UI_SECRET_CAPACITY - length u = Suc (C1_UI_SECRET_CAPACITY - length typed)"
    using t(1) u by simp
  then have "(secret s)[length u := CHR 0x00] = u @ replicate (C1_UI_SECRET_CAPACITY - length u) (CHR 0x00)"
    unfolding t(4) u by (simp add: list_update_append)
  then have "secret_ok (page s) ((secret s)[secret_length s - 1 := CHR 0x00]) (secret_length s - 1) (secret_visible s)"
    unfolding secret_ok_def using True t u
    by (intro exI [of _ u]) (simp add: c1_ui_is_password_page_def)
  with ok True show ?thesis by (simp add: c1_ui_secret_delete_def ui_ok_def)
qed (auto simp: c1_ui_secret_delete_def)

text \<open>The editor keeps the invariant because it refines the editor on code points.\<close>

lemma editing_exists:
  assumes "ui_ok s" and "page s = C1_UI_PAGE_LOCK_TEXT"
  obtains a where "editing s a"
proof -
  from assms have u: "utf8_text (lock_text_draft s)" and b: "boundary (lock_text_draft s) (lock_text_cursor s)"
    and n: "length (lock_text_draft s) < C1_LOCK_TEXT_BYTES" by (simp_all add: ui_ok_def draft_ok_def)
  from utf8_cut [OF u b] obtain l r where "list_all printable l" "take (lock_text_cursor s) (lock_text_draft s) = encoded l"
    "list_all printable r" "drop (lock_text_cursor s) (lock_text_draft s) = encoded r"
    by (auto simp: encoded_utf8)
  moreover have "lock_text_cursor s \<le> length (lock_text_draft s)" using b by (simp add: boundary_def)
  ultimately have "editing s (l, r)"
    using assms(2) n append_take_drop_id [of "lock_text_cursor s" "lock_text_draft s"]
    by (auto simp: editing_def) (metis length_append length_take min.absorb2)+
  then show thesis by (rule that)
qed

lemma editing_draft_ok:
  assumes "editing s a"
  shows "draft_ok (page s) q (lock_text_draft s) (lock_text_cursor s)"
  using assms boundary_encoded [of "snd a" "encoded (fst a)"]
  by (auto simp: editing_def draft_ok_def encoded_utf8 intro: exI [of _ "fst a @ snd a"])

lemma editor_ok:
  assumes "ui_ok s" and "refines s (t, r) next" and "page s = C1_UI_PAGE_LOCK_TEXT"
    and "t = s\<lparr> lock_text_draft := d, lock_text_cursor := k, wifi_notice := w \<rparr>"
  shows "ui_ok t"
  using assms editing_draft_ok [of t]
  by (cases "next") (auto simp: refines_def ui_ok_def)


lemma move_shape:
  "\<exists>d k w. fst (c1_ui_lock_text_move s x) = s\<lparr> lock_text_draft := d, lock_text_cursor := k, wifi_notice := w \<rparr>"
  "\<exists>d k w. fst (c1_ui_lock_text_delete s) = s\<lparr> lock_text_draft := d, lock_text_cursor := k, wifi_notice := w \<rparr>"
  "\<exists>d k w. fst (c1_ui_lock_text_append_utf8 s t) = s\<lparr> lock_text_draft := d, lock_text_cursor := k, wifi_notice := w \<rparr>"
  by (rule exI [of _ "lock_text_draft (fst (c1_ui_lock_text_move s x))"],
      rule exI [of _ "lock_text_cursor (fst (c1_ui_lock_text_move s x))"], rule exI [of _ "wifi_notice s"],
      simp add: c1_ui_lock_text_move_def Let_def)
    (rule exI [of _ "lock_text_draft (fst (c1_ui_lock_text_delete s))"],
      rule exI [of _ "lock_text_cursor (fst (c1_ui_lock_text_delete s))"],
      rule exI [of _ "wifi_notice (fst (c1_ui_lock_text_delete s))"], simp add: c1_ui_lock_text_delete_def Let_def,
     rule exI [of _ "lock_text_draft (fst (c1_ui_lock_text_append_utf8 s t))"],
      rule exI [of _ "lock_text_cursor (fst (c1_ui_lock_text_append_utf8 s t))"],
      rule exI [of _ "wifi_notice (fst (c1_ui_lock_text_append_utf8 s t))"],
      simp add: c1_ui_lock_text_append_utf8_def Let_def)

lemma editor_page:
  "page s \<noteq> C1_UI_PAGE_LOCK_TEXT \<Longrightarrow> fst (c1_ui_lock_text_move s x) = s"
  "page s \<noteq> C1_UI_PAGE_LOCK_TEXT \<Longrightarrow> fst (c1_ui_lock_text_delete s) = s"
  "page s \<noteq> C1_UI_PAGE_LOCK_TEXT \<Longrightarrow> fst (c1_ui_lock_text_append_utf8 s t) = s"
  by (simp_all add: c1_ui_lock_text_move_def c1_ui_lock_text_delete_def c1_ui_lock_text_append_utf8_def)

lemma move_ok: "ui_ok s \<Longrightarrow> ui_ok (fst (c1_ui_lock_text_move s x))"
proof (cases "page s = C1_UI_PAGE_LOCK_TEXT \<and> x \<noteq> 0")
  case True
  assume ok: "ui_ok s"
  then obtain a where e: "editing s a" using True by (auto elim: editing_exists)
  obtain t r where m: "c1_ui_lock_text_move s x = (t, r)" by fastforce
  have "\<exists>n. refines s (t, r) n"
    using move_left_refines [OF e, of x] move_right_refines [OF e, of x] True m by (cases "x < 0") auto
  with ok True m move_shape(1) [of s x] show ?thesis by (auto intro: editor_ok)
qed (auto simp: c1_ui_lock_text_move_def)

lemma delete_ok: "ui_ok s \<Longrightarrow> ui_ok (fst (c1_ui_lock_text_delete s))"
proof (cases "page s = C1_UI_PAGE_LOCK_TEXT")
  case True
  assume ok: "ui_ok s"
  then obtain a where e: "editing s a" using True by (auto elim: editing_exists)
  obtain t r where m: "c1_ui_lock_text_delete s = (t, r)" by fastforce
  with ok True move_shape(2) [of s] delete_refines [OF e] show ?thesis by (auto intro: editor_ok)
qed (simp add: editor_page)

lemma append_ok: "ui_ok s \<Longrightarrow> ui_ok (fst (c1_ui_lock_text_append_utf8 s new))"
proof (cases "page s = C1_UI_PAGE_LOCK_TEXT \<and> c1_preferences_valid_text new")
  case True
  assume ok: "ui_ok s"
  then obtain a where e: "editing s a" using True by (auto elim: editing_exists)
  obtain cps where t: "list_all printable cps" "new = encoded cps"
    using True by (auto simp: valid_text_iff encoded_utf8)
  obtain t r where m: "c1_ui_lock_text_append_utf8 s new = (t, r)" by fastforce
  with ok True move_shape(3) [of s new] insert_refines [OF e t(1)] t(2) show ?thesis by (auto intro: editor_ok)
qed (auto simp: c1_ui_lock_text_append_utf8_def)


lemmas page_ok_defs = ui_ok_def selection_ok_def C1_UI_EXTENDED_SYMBOL_COUNT_def C1_UI_MAX_NETWORKS_def
  C1_BATTERY_HISTORY_POINTS_def

lemma notice_fields [simp]: "ui_ok (notice s m) = ui_ok s"
  by (simp add: notice_def ui_ok_def)

lemma wifi_notice_ok [simp]: "ui_ok (s\<lparr> wifi_notice := m \<rparr>) = ui_ok s"
  by (simp add: ui_ok_def)

lemma selection_ok_simps [simp]:
  "selection_ok C1_UI_PAGE_DESKTOP n \<longleftrightarrow> n < 5" "selection_ok C1_UI_PAGE_SETTINGS n \<longleftrightarrow> n < 8"
  "selection_ok C1_UI_PAGE_BATTERY n \<longleftrightarrow> n < 1440" "selection_ok C1_UI_PAGE_WIFI n \<longleftrightarrow> n < 10"
  "selection_ok C1_UI_PAGE_LOCK_TEXT n \<longleftrightarrow> n = 5" "selection_ok C1_UI_PAGE_LOCK n \<longleftrightarrow> n = 4"
  "selection_ok C1_UI_PAGE_WIFI_PASSWORD n \<longleftrightarrow> n < 10" "selection_ok C1_UI_PAGE_ABOUT n \<longleftrightarrow> n = 0"
  "selection_ok C1_UI_PAGE_TERMINAL n \<longleftrightarrow> n = 0"
  by (simp_all add: selection_ok_def setting_defs C1_BATTERY_HISTORY_POINTS_def C1_UI_MAX_NETWORKS_def)

text \<open>The pages without a secret, a draft or a page to return to.\<close>

definition plain :: "c1_ui_page \<Rightarrow> bool" where
  "plain p \<longleftrightarrow> p \<noteq> C1_UI_PAGE_LOCK \<and> p \<noteq> C1_UI_PAGE_LOCK_TEXT \<and> p \<noteq> C1_UI_PAGE_WIFI_PASSWORD"

lemma ui_ok_plain:
  assumes "plain (page s)"
  shows "ui_ok s \<longleftrightarrow> secret s = cleared \<and> secret_length s = 0 \<and> \<not> secret_visible s \<and>
    lock_text_draft s = [] \<and> lock_text_cursor s = 0 \<and> selection_ok (page s) (selection s) \<and>
    desktop_selection s < 5 \<and> symbol_selection s < 12 \<and> preferences_valid (preferences s) \<and> \<not> frozen_lock s"
  using assms secret_ok_elsewhere [of "page s" "secret s" "secret_length s" "secret_visible s"]
  by (auto simp: ui_ok_def plain_def draft_ok_def C1_UI_EXTENDED_SYMBOL_COUNT_def)

lemma plain_simps [simp]:
  "plain C1_UI_PAGE_DESKTOP" "plain C1_UI_PAGE_SETTINGS" "plain C1_UI_PAGE_BATTERY" "plain C1_UI_PAGE_WIFI"
  "plain C1_UI_PAGE_ABOUT" "plain C1_UI_PAGE_TERMINAL"
  by (simp_all add: plain_def)

lemma ui_ok_common:
  "ui_ok s \<Longrightarrow> desktop_selection s < 5 \<and> symbol_selection s < 12 \<and> preferences_valid (preferences s) \<and>
     (page s \<noteq> C1_UI_PAGE_LOCK \<longrightarrow> \<not> frozen_lock s) \<and>
     (page s \<noteq> C1_UI_PAGE_LOCK \<and> page s \<noteq> C1_UI_PAGE_LOCK_TEXT \<longrightarrow> lock_text_draft s = [] \<and> lock_text_cursor s = 0) \<and>
     (page s \<noteq> C1_UI_PAGE_WIFI_PASSWORD \<longrightarrow> secret s = cleared \<and> secret_length s = 0 \<and> \<not> secret_visible s)"
  using secret_ok_elsewhere [of "page s" "secret s" "secret_length s" "secret_visible s"]
  by (auto simp: ui_ok_def draft_ok_def C1_UI_EXTENDED_SYMBOL_COUNT_def)

lemma desktop_row_less [simp]: "desktop_row s < 5"
  by (simp add: desktop_row_def)

lemma home_ok: "ui_ok s \<Longrightarrow> page s \<noteq> C1_UI_PAGE_LOCK \<Longrightarrow> ui_ok (step_home s)"
  using ui_ok_common [of s] by (simp add: ui_ok_plain step_home_def Let_def clear_draft_def)

lemma back_ok: "ui_ok s \<Longrightarrow> page s \<noteq> C1_UI_PAGE_LOCK \<Longrightarrow> ui_ok (step_back s)"
  using ui_ok_common [of s] by (simp add: ui_ok_plain step_back_def Let_def clear_draft_def setting_defs)

lemma step_lock_text_ok:
  assumes "ui_ok s" and "page s = C1_UI_PAGE_LOCK_TEXT"
  shows "ui_ok (fst (step_lock_text s event))"
proof (cases "event = C1_UI_EVENT_ENTER \<and> c1_preferences_valid_text (lock_text_draft s)")
  case True
  with assms ui_ok_common [OF assms(1)] show ?thesis
    by (simp add: ui_ok_plain step_lock_text_def clear_draft_def preferences_valid_def setting_defs)
next
  case False
  with assms(1) show ?thesis by (auto simp: step_lock_text_def move_ok)
qed

lemma history_bound: "length (history_samples status) \<le> 1440"
  by (simp add: history_samples_def C1_BATTERY_HISTORY_POINTS_def split: option.split)

lemma step_battery_ok:
  assumes "ui_ok s" and "page s = C1_UI_PAGE_BATTERY"
  shows "ui_ok (fst (step_battery s event status))"
proof -
  have "length (history_samples status) - 1 - n < 1440" for n using history_bound [of status] by arith
  with assms show ?thesis by (simp add: ui_ok_plain step_battery_def Let_def)
qed

lemma step_update_ok:
  assumes "ui_ok s" and "page s = C1_UI_PAGE_SETTINGS"
  shows "ui_ok (fst (step_update s event status))"
  using assms by (simp add: step_update_def) (simp add: ui_ok_plain)

lemma step_settings_ok:
  assumes "ui_ok s" and "page s = C1_UI_PAGE_SETTINGS"
  shows "ui_ok (fst (step_settings s event status))"
proof -
  define sel where "sel = (if event = C1_UI_EVENT_UP \<and> selection s \<noteq> 0 then selection s - 1
                 else if event = C1_UI_EVENT_DOWN \<and> u32 (selection s + 1) < C1_SETTING_COUNT then u32 (selection s + 1)
                 else if event = C1_UI_EVENT_SELECT_NEXT then u32 (selection s + 1) mod C1_SETTING_COUNT
                 else selection s)"
  have "sel < 8" using assms by (auto simp: sel_def ui_ok_plain setting_defs)
  define n where "n = s\<lparr> selection := sel \<rparr>"
  have n: "ui_ok n" "page n = C1_UI_PAGE_SETTINGS" using assms \<open>sel < 8\<close> by (simp_all add: n_def ui_ok_plain)
  have old: "preferences n = preferences s" "selection s = C1_SETTING_LOCK_TEXT \<Longrightarrow>
      event \<in> {C1_UI_EVENT_LEFT, C1_UI_EVENT_RIGHT, C1_UI_EVENT_ENTER} \<Longrightarrow> selection n = C1_SETTING_LOCK_TEXT"
    by (auto simp: n_def sel_def)
  define draft where "draft = (if c1_preferences_valid_text (lock_text (preferences s)) then lock_text (preferences s) else [])"
  have draft: "utf8_text draft" "length draft < C1_LOCK_TEXT_BYTES"
    by (simp_all add: draft_def valid_text_iff C1_LOCK_TEXT_BYTES_def)
  have edit: "ui_ok (n\<lparr> lock_text_draft := draft, lock_text_cursor := length draft, wifi_notice := [],
      page := C1_UI_PAGE_LOCK_TEXT \<rparr>)" if "selection n = C1_SETTING_LOCK_TEXT"
    using ui_ok_common [OF n(1)] n(2) draft that
    by (simp add: ui_ok_def draft_ok_def setting_defs C1_UI_EXTENDED_SYMBOL_COUNT_def)
  have about: "ui_ok (n\<lparr> page := C1_UI_PAGE_ABOUT, selection := 0 \<rparr>)" using n by (simp add: ui_ok_plain)
  have cycle: "ui_ok (n\<lparr> preferences := c1_preferences_cycle (preferences s) i d \<rparr>)" for i d
    using n old(1) cycle_valid by (simp add: ui_ok_plain)
  show ?thesis
    unfolding step_settings_def Let_def sel_def [symmetric] n_def [symmetric] draft_def [symmetric]
    using n about cycle edit [OF old(2)] step_update_ok [OF n] by (simp split: if_split)
qed

lemma step_desktop_ok:
  assumes "ui_ok s" and "page s = C1_UI_PAGE_DESKTOP"
  shows "ui_ok (fst (step_desktop s event status))"
  using assms by (simp add: step_desktop_def activate_desktop_def Let_def) (simp add: ui_ok_plain)

lemma choose_network_ok:
  assumes "ui_ok s" and "page s = C1_UI_PAGE_WIFI"
  shows "ui_ok (fst (choose_network s st i))"
proof -
  have "ui_ok (s\<lparr> selected_security := a, selected_saved := b \<rparr>)" for a b using assms by (simp add: ui_ok_plain)
  moreover have "ui_ok ((c1_ui_clear_secret (s\<lparr> selected_security := a, selected_saved := b, selected_ssid := c \<rparr>))
      \<lparr> symbol_selection := 0, keyboard_layer := k \<rparr>)" for a b c k using assms by (simp add: ui_ok_plain)
  moreover have "ui_ok ((c1_ui_clear_secret (s\<lparr> selected_security := a, selected_saved := b, selected_ssid := c \<rparr>))
      \<lparr> symbol_selection := 0, keyboard_layer := k, page := C1_UI_PAGE_WIFI_PASSWORD, secret_visible := True \<rparr>)" for a b c k
    using ui_ok_common [OF assms(1)] assms by (simp add: ui_ok_plain) (simp add: ui_ok_def C1_UI_EXTENDED_SYMBOL_COUNT_def)
  ultimately show ?thesis by (simp add: choose_network_def Let_def)
qed

lemma shown_bound: "shown_count status \<le> 8"
  by (simp add: shown_count_def C1_UI_MAX_NETWORKS_def split: option.split)

lemma step_wifi_ok:
  assumes "ui_ok s" and "page s = C1_UI_PAGE_WIFI"
  shows "ui_ok (fst (step_wifi s event status))"
proof -
  define m where "m = shown_count status"
  define sel where "sel = (if selection s \<ge> m + 2 then (if m > 0 then m + 2 - 1 else 0) else selection s)"
  have m: "m \<le> 8" unfolding m_def by (rule shown_bound)
  then have "sel < m + 2" by (auto simp: sel_def)
  with m have to: "ui_ok (s\<lparr> selection := k \<rparr>)" if "k < m + 2" for k using assms that by (simp add: ui_ok_plain)
  have wrap: "(sel + 1) mod (m + 2) < m + 2" by simp
  have chosen: "ui_ok (fst (choose_network (s\<lparr> selection := sel, wifi_notice := [] \<rparr>) st i))" for st i
    using to \<open>sel < m + 2\<close> assms by (intro choose_network_ok) simp_all
  show ?thesis
    unfolding step_wifi_def Let_def m_def [symmetric] sel_def [symmetric]
    using to \<open>sel < m + 2\<close> wrap chosen by (auto split: option.split)
qed

lemma symbol_ok:
  assumes "ui_ok s" and "page s = C1_UI_PAGE_WIFI_PASSWORD"
  shows "ui_ok (move_extended_symbol s event)"
proof -
  have "ui_ok (s\<lparr> symbol_selection := k \<rparr>)" if "k < 12" for k
    using assms that by (simp add: ui_ok_def C1_UI_EXTENDED_SYMBOL_COUNT_def)
  moreover have "symbol_selection s < 12" using ui_ok_common [OF assms(1)] by simp
  ultimately show ?thesis
    using assms(1) by (cases event) (simp_all add: move_extended_symbol_def Let_def C1_UI_EXTENDED_SYMBOL_COUNT_def
        C1_UI_EXTENDED_SYMBOL_COLUMNS_def)
qed

lemma step_password_ok:
  assumes "ui_ok s" and "page s = C1_UI_PAGE_WIFI_PASSWORD"
  shows "ui_ok (fst (step_password s event status))"
proof -
  have "ui_ok (s\<lparr> secret_visible := v \<rparr>)" for v using assms by (auto simp: ui_ok_def secret_ok_def)
  then show ?thesis
    using assms symbol_ok secret_append_ok by (simp add: step_password_def activate_extended_symbol_def Let_def)
qed

lemma step_ok: "ui_ok s \<Longrightarrow> ui_ok (fst (c1_ui_step s event status))"
proof (cases "page s = C1_UI_PAGE_LOCK")
  case False
  assume ok: "ui_ok s"
  note common = ui_ok_common [OF ok]
  define t where "t = (if page s = C1_UI_PAGE_BATTERY then s\<lparr> wifi_notice := [] \<rparr> else s)"
  have t: "ui_ok t" "page t = page s" using ok by (simp_all add: t_def)
  have jump: "ui_ok (fst (c1_ui_step s event status))" if "event = C1_UI_EVENT_BATTERY \<or> event = C1_UI_EVENT_SETTINGS"
    using that False common by (auto simp: c1_ui_step_def Let_def ui_ok_plain clear_draft_def)
  show ?thesis
  proof (cases "event = C1_UI_EVENT_BATTERY \<or> event = C1_UI_EVENT_SETTINGS")
    case stay: False
    show ?thesis
      unfolding c1_ui_step_def Let_def t_def [symmetric]
      using False stay t home_ok [OF t(1)] back_ok [OF t(1)] step_lock_text_ok [OF t(1)]
        step_battery_ok [OF t(1)] step_settings_ok [OF t(1)] step_desktop_ok [OF t(1)]
        step_wifi_ok [OF t(1)] step_password_ok [OF t(1)]
      by (cases "page s") simp_all
  qed (rule jump)
qed (simp add: c1_ui_step_def)

lemma autoconnect_ok: "ui_ok s \<Longrightarrow> ui_ok (fst (c1_ui_autoconnect s status))"
  by (auto simp: c1_ui_autoconnect_def ui_ok_plain split: option.split)

section \<open>Properties\<close>

text \<open>The calls the desktop makes on its state.\<close>

datatype ui_call =
    Step c1_ui_event "c1_ui_status option"
  | Autoconnect "c1_ui_status option"
  | Enter_Lock
  | Unlock
  | Secret_Append char
  | Secret_Delete
  | Text_Append string
  | Text_Append_Ascii char
  | Text_Delete
  | Text_Move int

fun ui_apply :: "ui_call \<Rightarrow> c1_ui_state \<Rightarrow> c1_ui_state" where
  "ui_apply (Step e st) s = fst (c1_ui_step s e st)"
| "ui_apply (Autoconnect st) s = fst (c1_ui_autoconnect s st)"
| "ui_apply Enter_Lock s = fst (c1_ui_enter_lock s)"
| "ui_apply Unlock s = fst (c1_ui_unlock s)"
| "ui_apply (Secret_Append c) s = fst (c1_ui_secret_append s c)"
| "ui_apply Secret_Delete s = fst (c1_ui_secret_delete s)"
| "ui_apply (Text_Append t) s = fst (c1_ui_lock_text_append_utf8 s t)"
| "ui_apply (Text_Append_Ascii c) s = fst (c1_ui_lock_text_append_ascii s c)"
| "ui_apply Text_Delete s = fst (c1_ui_lock_text_delete s)"
| "ui_apply (Text_Move d) s = fst (c1_ui_lock_text_move s d)"

lemmas call_ok = step_ok autoconnect_ok enter_lock_ok unlock_ok secret_append_ok secret_delete_ok append_ok
  delete_ok move_ok

lemma apply_ok: "ui_ok s \<Longrightarrow> ui_ok (ui_apply call s)"
  by (cases call) (simp_all add: call_ok c1_ui_lock_text_append_ascii_def)

lemma run_ok: "ui_ok s \<Longrightarrow> ui_ok (fold ui_apply calls s)"
  by (induction calls arbitrary: s) (simp_all add: apply_ok)

text \<open>C27. Whatever calls are made on the desktop's state, in any order and with any status, it stays well
  formed: off the password page the whole 64-byte password buffer is zero, its length is zero and
  it is not shown; on it the buffer holds fewer than 64 typed printable characters followed by zeros. The draft
  of the lock text exists only in the editor (or behind the lock), is valid UTF-8 that fits its array, with the
  cursor on a code point boundary. Every selection is within its page, the preferences are valid, the lock
  remembers a page other than itself and the password page, and only the lock page is frozen.\<close>

theorem ui_state_always_ok:
  "ui_ok (fold ui_apply calls c1_ui_initial_state)"
  by (rule run_ok [OF initial_ok])

text \<open>C28. The byte-level lock text editor refines an editor on the code points before and after the cursor:
  moving left or right passes exactly one code point, deleting removes the one before the cursor and inserting
  a text adds its code points there when the result fits the array. A call the abstract editor does not allow
  returns false and changes nothing.\<close>

theorem lock_text_editor_refines:
  assumes "editing s a" and "list_all printable t"
  shows "refines s (c1_ui_lock_text_move s (-1)) (editor_left a) \<and>
    refines s (c1_ui_lock_text_move s 1) (editor_right a) \<and>
    refines s (c1_ui_lock_text_delete s) (editor_delete a) \<and>
    refines s (c1_ui_lock_text_append_utf8 s (encoded t)) (editor_insert t a)"
  using assms by (intro conjI move_left_refines move_right_refines delete_refines insert_refines) simp_all

text \<open>The editor on a text of a three-byte and a one-byte code point, the cursor between them.\<close>

definition demo_editor :: c1_ui_state where
  "demo_editor = c1_ui_initial_state\<lparr> page := C1_UI_PAGE_LOCK_TEXT, selection := 5,
     lock_text_draft := encoded [0x4f60, 0x41], lock_text_cursor := 3 \<rparr>"

lemma demo_editing: "editing demo_editor ([0x4f60], [0x41])"
  by (simp add: editing_def demo_editor_def printable_def C1_LOCK_TEXT_BYTES_def utf8_encode_def)

theorem lock_text_editor_refines_witness:
  "editing (fst (c1_ui_lock_text_move demo_editor (-1))) ([], [0x4f60, 0x41]) \<and>
   editing (fst (c1_ui_lock_text_delete demo_editor)) ([], [0x41])"
  using lock_text_editor_refines [OF demo_editing, of "[]"] by (simp add: refines_def)

lemma choose_network_connects:
  assumes "snd (choose_network s st i) = C1_UI_ACTION_WIFI_CONNECT"
  shows "connectable (security (networks st ! i)) \<and>
    (\<not> secured (networks st ! i) \<or> saved (networks st ! i)) \<and> \<not> c1_ui_network_is_current (Some st) i \<and>
    selected_ssid (fst (choose_network s st i)) = take 32 (ssid (networks st ! i)) \<and>
    secret (fst (choose_network s st i)) = cleared \<and> page (fst (choose_network s st i)) = page s"
  using assms by (auto simp: choose_network_def Let_def c1_ui_clear_secret_def bounded_def C1_UI_SSID_CAPACITY_def
      split: if_splits)

text \<open>C29. A step asks for a Wi-Fi connection only when no service task is running, and then either on the
  password page with 8 to 63 typed characters, which are still in the buffer, or on the Wi-Fi page for a listed
  network of a supported kind that is open or saved and is not the current one; its name has been
  selected and no secret is left in the buffer.\<close>

theorem connect_only_with_credentials:
  assumes "ui_ok s" and "c1_ui_step s event status = (t, C1_UI_ACTION_WIFI_CONNECT)"
  shows "\<not> busy status \<and>
    (page s = C1_UI_PAGE_WIFI_PASSWORD \<and> page t = C1_UI_PAGE_WIFI_PASSWORD \<and>
       8 \<le> secret_length s \<and> secret_length s \<le> 63 \<and>
       secret t = secret s \<and> secret_length t = secret_length s \<and>
       list_all typable (take (secret_length s) (secret s)) \<or>
     page s = C1_UI_PAGE_WIFI \<and> page t = C1_UI_PAGE_WIFI \<and> secret t = cleared \<and>
       (\<exists>st i. status = Some st \<and> i < network_count st \<and> i < 8 \<and> connectable (security (networks st ! i)) \<and>
          (\<not> secured (networks st ! i) \<or> saved (networks st ! i)) \<and> \<not> c1_ui_network_is_current status i \<and>
          selected_ssid t = take 32 (ssid (networks st ! i))))"
proof -
  have action: "snd (c1_ui_step s event status) = C1_UI_ACTION_WIFI_CONNECT" and t: "t = fst (c1_ui_step s event status)"
    using assms(2) by simp_all
  have stay: "page s \<noteq> C1_UI_PAGE_LOCK" "event \<noteq> C1_UI_EVENT_BATTERY" "event \<noteq> C1_UI_EVENT_SETTINGS"
    "event \<noteq> C1_UI_EVENT_HOME" "event \<noteq> C1_UI_EVENT_BACK"
    using action by (auto simp: c1_ui_step_def Let_def split: if_splits)
  show ?thesis
  proof (cases "page s")
    case C1_UI_PAGE_WIFI_PASSWORD
    then have step: "c1_ui_step s event status = step_password s event status"
      using stay by (simp add: c1_ui_step_def Let_def)
    have typed: "list_all typable (take (secret_length s) (secret s))"
      using assms(1) by (auto simp: ui_ok_def secret_ok_def)
    show ?thesis
      using action C1_UI_PAGE_WIFI_PASSWORD typed unfolding t step
      by (auto simp: step_password_def split: if_splits)
  next
    case C1_UI_PAGE_WIFI
    then have step: "c1_ui_step s event status = step_wifi s event status"
      using stay by (simp add: c1_ui_step_def Let_def)
    define m where "m = shown_count status"
    define sel where "sel = (if selection s \<ge> m + 2 then (if m > 0 then m + 2 - 1 else 0) else selection s)"
    define u where "u = s\<lparr> selection := sel, wifi_notice := [] \<rparr>"
    obtain st where st: "status = Some st" "\<not> busy status" "2 \<le> sel" "sel < m + 2"
      "step_wifi s event status = choose_network u st (sel - 2)"
      using action unfolding step step_wifi_def Let_def m_def [symmetric] sel_def [symmetric]
      by (auto simp: u_def split: if_splits option.splits)
    have i: "sel - 2 < network_count st" "sel - 2 < 8"
      using st(3,4) by (auto simp: m_def st(1) shown_count_def C1_UI_MAX_NETWORKS_def split: if_splits)
    have "\<not> busy status \<and> page (fst (choose_network u st (sel - 2))) = page s"
      using choose_network_connects [OF action [unfolded step st(5)]] st(2) by (simp add: u_def)
    with choose_network_connects [OF action [unfolded step st(5)]] C1_UI_PAGE_WIFI i
    show ?thesis unfolding t step st(5) unfolding st(1) by (auto intro!: exI [of _ "sel - 2"])
  qed (use action stay in \<open>auto simp: c1_ui_step_def Let_def step_lock_text_def step_battery_def step_settings_def
      step_update_def step_desktop_def activate_desktop_def split: if_splits\<close>)
qed

definition demo_status :: c1_ui_status where
  "demo_status = \<lparr> battery_history = c1_battery_history_init, wifi_connected = False, wifi_busy = False,
     service_busy = False, wifi_stop_pending = False,
     networks = \<lparr> ssid = ''home'', secured = True, security = C1_WIFI_SECURITY_WPA_PSK, saved = True \<rparr> #
       replicate 7 \<lparr> ssid = [], secured = False, security = C1_WIFI_SECURITY_OPEN, saved = False \<rparr>,
     network_count = 1, wifi_connected_ssid = [], wifi_ipv4 = [], update_prepared = False \<rparr>"

definition demo_wifi :: c1_ui_state where
  "demo_wifi = c1_ui_initial_state\<lparr> page := C1_UI_PAGE_WIFI, selection := 2 \<rparr>"

lemma demo_wifi_ok: "ui_ok demo_wifi"
  using default_preferences_valid by (simp add: ui_ok_plain demo_wifi_def c1_ui_initial_state_def)

theorem connect_only_with_credentials_witness:
  "selected_ssid (fst (c1_ui_step demo_wifi C1_UI_EVENT_ENTER (Some demo_status))) = ''home''"
proof -
  have "snd (c1_ui_step demo_wifi C1_UI_EVENT_ENTER (Some demo_status)) = C1_UI_ACTION_WIFI_CONNECT"
    by (simp add: c1_ui_step_def demo_wifi_def demo_status_def c1_ui_initial_state_def step_wifi_def Let_def
        shown_count_def C1_UI_MAX_NETWORKS_def busy_def choose_network_def connectable_def
        c1_ui_network_is_current_def)
  then have "c1_ui_step demo_wifi C1_UI_EVENT_ENTER (Some demo_status) =
      (fst (c1_ui_step demo_wifi C1_UI_EVENT_ENTER (Some demo_status)), C1_UI_ACTION_WIFI_CONNECT)"
    by (metis prod.collapse)
  from connect_only_with_credentials [OF demo_wifi_ok this] show ?thesis
    by (auto simp: demo_wifi_def c1_ui_initial_state_def demo_status_def less_Suc_eq)
qed

text \<open>C30. Locking clears the password and reveals nothing: the display may be frozen only when that style is set
  and the page was not the password page. While locked no event changes anything, and unlocking
  returns to the page, selection and draft that were left, except that the password page is left for the Wi-Fi page.\<close>

theorem lock_then_unlock:
  assumes "ui_ok s" and "page s \<noteq> C1_UI_PAGE_LOCK"
  shows "let l = fst (c1_ui_enter_lock s); u = fst (c1_ui_unlock l) in
    page l = C1_UI_PAGE_LOCK \<and> secret l = cleared \<and> secret_length l = 0 \<and> \<not> secret_visible l \<and>
    (frozen_lock l \<longleftrightarrow> lock_style (preferences s) = C1_LOCK_FREEZE \<and> page s \<noteq> C1_UI_PAGE_WIFI_PASSWORD) \<and>
    (\<forall>event status. c1_ui_step l event status = (l, C1_UI_ACTION_NONE)) \<and>
    (page u, selection u) = (if page s = C1_UI_PAGE_WIFI_PASSWORD then (C1_UI_PAGE_WIFI, 0) else (page s, selection s)) \<and>
    lock_text_draft u = lock_text_draft s \<and> lock_text_cursor u = lock_text_cursor s \<and>
    preferences u = preferences s \<and> ui_ok u"
proof -
  have zero: "\<not> list_ex (\<lambda>c. c \<noteq> CHR 0x00) cleared" by (simp add: cleared_def list_ex_iff)
  have "ui_ok (fst (c1_ui_unlock (fst (c1_ui_enter_lock s))))"
    using assms(1) by (intro unlock_ok enter_lock_ok)
  with ui_ok_common [OF assms(1)] assms(2) zero show ?thesis
    by (auto simp: c1_ui_enter_lock_def c1_ui_unlock_def c1_ui_step_def c1_ui_is_password_page_def Let_def)
qed

theorem lock_then_unlock_witness:
  "page (fst (c1_ui_unlock (fst (c1_ui_enter_lock demo_wifi)))) = C1_UI_PAGE_WIFI"
  using lock_then_unlock [OF demo_wifi_ok] by (simp add: Let_def demo_wifi_def)

end
