(* ===== verification/EventRecord.thy ===== *)
theory EventRecord
  imports Codec
begin

text \<open>
  Event records and their output as one JSON object per line (\<open>src/C1ancher/src/core/record.c\<close>), and the
  status codes (\<open>core/status.c\<close>). The stream accepts a number of further bytes before a write
  fails, as a full device does, and its flush may fail; pointers that may be null are options.
\<close>

section \<open>Status\<close>

datatype c1_status =
    C1_STATUS_OK | C1_STATUS_INVALID_ARGUMENT | C1_STATUS_UNAVAILABLE | C1_STATUS_IO_ERROR
  | C1_STATUS_INTERRUPTED | C1_STATUS_UNSUPPORTED | C1_STATUS_UPDATE_REQUESTED | C1_STATUS_SHUTDOWN_REQUESTED

fun c1_status_name :: "c1_status \<Rightarrow> string" where
  "c1_status_name C1_STATUS_OK = ''ok''"
| "c1_status_name C1_STATUS_INVALID_ARGUMENT = ''invalid_argument''"
| "c1_status_name C1_STATUS_UNAVAILABLE = ''unavailable''"
| "c1_status_name C1_STATUS_IO_ERROR = ''io_error''"
| "c1_status_name C1_STATUS_INTERRUPTED = ''interrupted''"
| "c1_status_name C1_STATUS_UNSUPPORTED = ''unsupported''"
| "c1_status_name C1_STATUS_UPDATE_REQUESTED = ''update_requested''"
| "c1_status_name C1_STATUS_SHUTDOWN_REQUESTED = ''shutdown_requested''"

fun c1_status_exit_code :: "c1_status \<Rightarrow> nat" where
  "c1_status_exit_code C1_STATUS_OK = 0"
| "c1_status_exit_code C1_STATUS_INVALID_ARGUMENT = 64"
| "c1_status_exit_code C1_STATUS_UNAVAILABLE = 69"
| "c1_status_exit_code C1_STATUS_IO_ERROR = 74"
| "c1_status_exit_code C1_STATUS_INTERRUPTED = 130"
| "c1_status_exit_code C1_STATUS_UNSUPPORTED = 78"
| "c1_status_exit_code C1_STATUS_UPDATE_REQUESTED = 75"
| "c1_status_exit_code C1_STATUS_SHUTDOWN_REQUESTED = 76"

section \<open>Records\<close>

definition C1_RECORD_FIELD_CAPACITY :: nat where "C1_RECORD_FIELD_CAPACITY = 12"

datatype c1_field_value = C1_FIELD_TEXT string | C1_FIELD_INTEGER int | C1_FIELD_BOOLEAN bool

type_synonym c1_field = "string \<times> c1_field_value"

record c1_record =
  category :: "string option"
  event :: "string option"
  rec_fields :: "c1_field list"

definition c1_record_init :: "string option \<Rightarrow> string option \<Rightarrow> c1_record" where
  "c1_record_init cat ev = \<lparr> category = cat, event = ev, rec_fields = [] \<rparr>"

definition add_field :: "c1_record \<Rightarrow> string option \<Rightarrow> c1_field_value \<Rightarrow> c1_record \<times> c1_status" where
  "add_field r field_name v =
     (case field_name of
        None \<Rightarrow> (r, C1_STATUS_INVALID_ARGUMENT)
      | Some n \<Rightarrow>
          if length (rec_fields r) \<ge> C1_RECORD_FIELD_CAPACITY then (r, C1_STATUS_INVALID_ARGUMENT)
          else (r\<lparr> rec_fields := rec_fields r @ [(n, v)] \<rparr>, C1_STATUS_OK))"

definition c1_record_add_text :: "c1_record \<Rightarrow> string option \<Rightarrow> string option \<Rightarrow> c1_record \<times> c1_status" where
  "c1_record_add_text r field_name v =
     (case v of None \<Rightarrow> (r, C1_STATUS_INVALID_ARGUMENT) | Some t \<Rightarrow> add_field r field_name (C1_FIELD_TEXT t))"

definition c1_record_add_integer :: "c1_record \<Rightarrow> string option \<Rightarrow> int \<Rightarrow> c1_record \<times> c1_status" where
  "c1_record_add_integer r field_name n = add_field r field_name (C1_FIELD_INTEGER n)"

definition c1_record_add_boolean :: "c1_record \<Rightarrow> string option \<Rightarrow> bool \<Rightarrow> c1_record \<times> c1_status" where
  "c1_record_add_boolean r field_name b = add_field r field_name (C1_FIELD_BOOLEAN b)"

section \<open>The stream\<close>

record stream =
  out :: string
  room :: nat
  flushes :: bool

type_synonym writer = "stream \<Rightarrow> stream \<times> bool"

definition put :: "string \<Rightarrow> writer" where
  "put t s = (s\<lparr> out := out s @ take (room s) t, room := room s - length t \<rparr>, length t \<le> room s)"

definition seq :: "writer \<Rightarrow> writer \<Rightarrow> writer" where
  "seq f g s = (case f s of (t, True) \<Rightarrow> g t | (t, False) \<Rightarrow> (t, False))"

definition hex_nibble :: "nat \<Rightarrow> char" where
  "hex_nibble n = (if n < 10 then char_of (48 + n) else char_of (87 + n))"

text \<open>The text a byte is written as.\<close>

definition json_char :: "char \<Rightarrow> string" where
  "json_char c =
     (if c = CHR 0x22 then [CHR 0x5C, CHR 0x22]
      else if c = CHR 0x5C then [CHR 0x5C, CHR 0x5C]
      else if c = CHR 0x08 then [CHR 0x5C, CHR ''b'']
      else if c = CHR 0x0C then [CHR 0x5C, CHR ''f'']
      else if c = CHR 0x0A then [CHR 0x5C, CHR ''n'']
      else if c = CHR 0x0D then [CHR 0x5C, CHR ''r'']
      else if c = CHR 0x09 then [CHR 0x5C, CHR ''t'']
      else if byte c < 32 then CHR 0x5C # ''u00'' @ [hex_nibble (byte c div 16), hex_nibble (byte c mod 16)]
      else [c])"

fun write_json_chars :: "string \<Rightarrow> writer" where
  "write_json_chars [] = put [CHR 0x22]"
| "write_json_chars (c # cs) = seq (put (json_char c)) (write_json_chars cs)"

definition write_json_text :: "string \<Rightarrow> writer" where
  "write_json_text v = seq (put [CHR 0x22]) (write_json_chars v)"

definition write_value :: "c1_field_value \<Rightarrow> writer" where
  "write_value v =
     (case v of
        C1_FIELD_TEXT t \<Rightarrow> write_json_text t
      | C1_FIELD_INTEGER n \<Rightarrow> put (sdec n)
      | C1_FIELD_BOOLEAN b \<Rightarrow> put (if b then ''true'' else ''false''))"

fun write_fields :: "c1_field list \<Rightarrow> writer" where
  "write_fields [] = put [CHR 0x7D, nl]"
| "write_fields ((n, v) # fs) =
     seq (put '','') (seq (write_json_text n) (seq (put '':'') (seq (write_value v) (write_fields fs))))"

definition ndjson_emit :: "stream option \<Rightarrow> c1_record \<Rightarrow> stream option \<times> c1_status" where
  "ndjson_emit target r =
     (case (target, category r, event r) of
        (Some s, Some cat, Some ev) \<Rightarrow>
          (case seq (put [CHR 0x7B]) (seq (write_json_text ''category'') (seq (put '':'')
                 (seq (write_json_text cat) (seq (put '','') (seq (write_json_text ''event'')
                 (seq (put '':'') (seq (write_json_text ev) (write_fields (rec_fields r))))))))) s of
             (t, True) \<Rightarrow> (Some t, if flushes t then C1_STATUS_OK else C1_STATUS_IO_ERROR)
           | (t, False) \<Rightarrow> (Some t, C1_STATUS_IO_ERROR))
      | _ \<Rightarrow> (target, C1_STATUS_INVALID_ARGUMENT))"

text \<open>A sink is a function that may be missing.\<close>

type_synonym c1_record_sink = "(stream option \<Rightarrow> c1_record \<Rightarrow> stream option \<times> c1_status) option"

definition c1_record_emit :: "c1_record_sink \<Rightarrow> stream option \<Rightarrow> c1_record \<Rightarrow> stream option \<times> c1_status" where
  "c1_record_emit sink target r =
     (case sink of None \<Rightarrow> (target, C1_STATUS_INVALID_ARGUMENT) | Some emit \<Rightarrow> emit target r)"

definition c1_ndjson_sink :: c1_record_sink where "c1_ndjson_sink = Some ndjson_emit"

section \<open>What is written\<close>

definition json_text :: "string \<Rightarrow> string" where
  "json_text v = CHR 0x22 # concat (map json_char v) @ [CHR 0x22]"

definition value_text :: "c1_field_value \<Rightarrow> string" where
  "value_text v = (case v of C1_FIELD_TEXT t \<Rightarrow> json_text t | C1_FIELD_INTEGER n \<Rightarrow> sdec n
     | C1_FIELD_BOOLEAN b \<Rightarrow> if b then ''true'' else ''false'')"

definition fields_text :: "c1_field list \<Rightarrow> string" where
  "fields_text fs = concat (map (\<lambda>(n, v). '','' @ json_text n @ '':'' @ value_text v) fs) @ [CHR 0x7D, nl]"

definition record_line :: "string \<Rightarrow> string \<Rightarrow> c1_field list \<Rightarrow> string" where
  "record_line cat ev fs = CHR 0x7B # json_text ''category'' @ '':'' @ json_text cat @ '','' @
     json_text ''event'' @ '':'' @ json_text ev @ fields_text fs"

text \<open>A writer of a fixed text: a sequence of puts is one put of the concatenation.\<close>

lemma put_seq [simp]: "seq (put a) (put b) = put (a @ b)"
  by (rule ext) (auto simp: seq_def put_def split: prod.split bool.split)

lemma put_seq3 [simp]: "seq (put a) (seq (put b) f) = seq (put (a @ b)) f"
  by (rule ext) (auto simp: seq_def put_def split: prod.split bool.split)

lemma write_json_chars_put: "write_json_chars v = put (concat (map json_char v) @ [CHR 0x22])"
  by (induction v) simp_all

lemma write_json_text_put [simp]: "write_json_text v = put (json_text v)"
  by (simp add: write_json_text_def write_json_chars_put json_text_def)

lemma write_value_put [simp]: "write_value v = put (value_text v)"
  by (simp add: write_value_def value_text_def split: c1_field_value.split)

lemma write_fields_put [simp]: "write_fields fs = put (fields_text fs)"
  by (induction fs rule: write_fields.induct) (simp_all add: fields_text_def)

lemma emit_line:
  "ndjson_emit (Some s) \<lparr> category = Some cat, event = Some ev, rec_fields = fs \<rparr> =
     (let line = record_line cat ev fs in
      (Some (s\<lparr> out := out s @ take (room s) line, room := room s - length line \<rparr>),
       if length line \<le> room s \<and> flushes s then C1_STATUS_OK else C1_STATUS_IO_ERROR))"
  by (simp add: ndjson_emit_def record_line_def put_def Let_def split: bool.split)

section \<open>A reader of the lines\<close>

definition nibble_value :: "char \<Rightarrow> nat" where
  "nibble_value c = (if is_digit c then byte c - 48 else byte c - 87)"

text \<open>What follows a backslash.\<close>

definition unescape :: "string \<Rightarrow> (char \<times> string) option" where
  "unescape s =
     (case s of
        [] \<Rightarrow> None
      | c # r \<Rightarrow>
          if c = CHR ''u'' then
            (if length r < 4 then None
             else Some (char_of (16 * nibble_value (r ! 2) + nibble_value (r ! 3)), drop 4 r))
          else if c = CHR ''b'' then Some (CHR 0x08, r)
          else if c = CHR ''f'' then Some (CHR 0x0C, r)
          else if c = CHR ''n'' then Some (CHR 0x0A, r)
          else if c = CHR ''r'' then Some (CHR 0x0D, r)
          else if c = CHR ''t'' then Some (CHR 0x09, r)
          else Some (c, r))"

fun read_json :: "nat \<Rightarrow> string \<Rightarrow> (string \<times> string) option" where
  "read_json 0 s = None"
| "read_json (Suc fuel) s =
     (case s of
        [] \<Rightarrow> None
      | c # r \<Rightarrow>
          if c = CHR 0x22 then Some ([], r)
          else case (if c = CHR 0x5C then unescape r else Some (c, r)) of
                 None \<Rightarrow> None
               | Some (d, q) \<Rightarrow> map_option (apfst (Cons d)) (read_json fuel q))"

definition read_quoted :: "string \<Rightarrow> (string \<times> string) option" where
  "read_quoted s = (if s \<noteq> [] \<and> hd s = CHR 0x22 then read_json (length s) (tl s) else None)"

definition expect :: "string \<Rightarrow> string \<Rightarrow> string option" where
  "expect t s = (if take (length t) s = t then Some (drop (length t) s) else None)"

definition read_number :: "string \<Rightarrow> (int \<times> string) option" where
  "read_number s =
     (if s \<noteq> [] \<and> hd s = CHR ''-''
      then Some (- int (num_value (takeWhile is_digit (tl s))), dropWhile is_digit (tl s))
      else Some (int (num_value (takeWhile is_digit s)), dropWhile is_digit s))"

definition read_value :: "string \<Rightarrow> (c1_field_value \<times> string) option" where
  "read_value s =
     (if s = [] then None
      else if hd s = CHR 0x22 then map_option (apfst C1_FIELD_TEXT) (read_quoted s)
      else if hd s = CHR ''t'' then map_option (\<lambda>r. (C1_FIELD_BOOLEAN True, r)) (expect ''true'' s)
      else if hd s = CHR ''f'' then map_option (\<lambda>r. (C1_FIELD_BOOLEAN False, r)) (expect ''false'' s)
      else map_option (apfst C1_FIELD_INTEGER) (read_number s))"

fun read_fields :: "nat \<Rightarrow> string \<Rightarrow> c1_field list option" where
  "read_fields 0 s = None"
| "read_fields (Suc fuel) s =
     (if s = [CHR 0x7D, nl] then Some []
      else
        Option.bind (expect '','' s) (\<lambda>s1.
        Option.bind (read_quoted s1) (\<lambda>(n, s2).
        Option.bind (expect '':'' s2) (\<lambda>s3.
        Option.bind (read_value s3) (\<lambda>(v, s4).
        map_option (Cons (n, v)) (read_fields fuel s4))))))"

definition read_record :: "string \<Rightarrow> (string \<times> string \<times> c1_field list) option" where
  "read_record s =
     Option.bind (expect (CHR 0x7B # json_text ''category'' @ '':'') s) (\<lambda>s1.
     Option.bind (read_quoted s1) (\<lambda>(cat, s2).
     Option.bind (expect ('','' @ json_text ''event'' @ '':'') s2) (\<lambda>s3.
     Option.bind (read_quoted s3) (\<lambda>(ev, s4).
     map_option (\<lambda>fs. (cat, ev, fs)) (read_fields (length s4) s4)))))"

lemma nibble_round: "n < 16 \<Longrightarrow> nibble_value (hex_nibble n) = n"
  by (auto simp: nibble_value_def hex_nibble_def is_digit_byte)

lemma json_char_read:
  "json_char c \<noteq> [] \<and> hd (json_char c) \<noteq> CHR 0x22 \<and>
   (if hd (json_char c) = CHR 0x5C then unescape (tl (json_char c) @ q) = Some (c, q) else json_char c = [c])"
proof (cases "byte c < 32")
  case True
  then have "byte c div 16 < 16" "byte c mod 16 < 16" "16 * (byte c div 16) + byte c mod 16 = byte c" by auto
  with True show ?thesis
    by (auto simp: json_char_def unescape_def nibble_round numeral_2_eq_2 numeral_3_eq_3)
qed (auto simp: json_char_def unescape_def)

lemma read_json_text:
  "length (concat (map json_char v)) < fuel \<Longrightarrow>
   read_json fuel (concat (map json_char v) @ CHR 0x22 # r) = Some (v, r)"
proof (induction v arbitrary: fuel)
  case Nil
  then show ?case by (cases fuel) simp_all
next
  case (Cons c v)
  then obtain f where f: "fuel = Suc f" by (cases fuel) auto
  obtain h t where e: "json_char c = h # t" using json_char_read [of c] by (cases "json_char c") auto
  have "read_json f (concat (map json_char v) @ CHR 0x22 # r) = Some (v, r)"
    using Cons e f by simp
  with e f json_char_read [of c "concat (map json_char v) @ CHR 0x22 # r"] show ?case
    by (auto split: if_splits)
qed

declare read_json.simps [simp del]

lemma read_quoted_text: "read_quoted (json_text v @ r) = Some (v, r)"
  by (simp add: read_quoted_def json_text_def read_json_text)

lemma expect_text [simp]: "expect t (t @ r) = Some r"
  by (simp add: expect_def)

lemma read_number_text:
  assumes "\<not> is_digit c"
  shows "read_number (sdec n @ c # r) = Some (n, c # r)"
proof -
  have "hd (dec k @ c # r) \<noteq> CHR ''-''" for k
    using dec_digits [of k] by (cases "dec k") (auto simp: is_digit_byte)
  with assms show ?thesis by (simp add: read_number_def sdec_def take_digits)
qed

lemma sdec_head: "hd (sdec n) \<noteq> CHR 0x22 \<and> hd (sdec n) \<noteq> CHR ''t'' \<and> hd (sdec n) \<noteq> CHR ''f'' \<and> sdec n \<noteq> []"
  using dec_digits [of "nat n"] by (cases "dec (nat n)") (auto simp: sdec_def is_digit_byte)

lemma read_value_text:
  assumes "\<not> is_digit c"
  shows "read_value (value_text v @ c # r) = Some (v, c # r)"
proof (cases v)
  case (C1_FIELD_TEXT t)
  have "hd (json_text t @ c # r) = CHR 0x22" "json_text t \<noteq> []" by (simp_all add: json_text_def)
  with C1_FIELD_TEXT show ?thesis by (simp add: read_value_def value_text_def read_quoted_text)
next
  case (C1_FIELD_INTEGER n)
  with assms sdec_head [of n] show ?thesis by (simp add: read_value_def value_text_def read_number_text)
next
  case (C1_FIELD_BOOLEAN b)
  then show ?thesis by (simp add: read_value_def value_text_def expect_def)
qed

lemma fields_text_head: "\<exists>c r. fields_text fs = c # r \<and> \<not> is_digit c"
  by (cases fs) (auto simp: fields_text_def is_digit_byte)

lemma read_fields_text: "length fs < fuel \<Longrightarrow> read_fields fuel (fields_text fs) = Some fs"
proof (induction fs arbitrary: fuel)
  case Nil
  then show ?case by (cases fuel) (simp_all add: fields_text_def)
next
  case (Cons f fs)
  obtain n v where f: "f = (n, v)" by (cases f) auto
  obtain k where k: "fuel = Suc k" using Cons.prems by (cases fuel) auto
  obtain c r where rest: "fields_text fs = c # r" "\<not> is_digit c" using fields_text_head by blast
  have line: "fields_text (f # fs) = '','' @ json_text n @ '':'' @ value_text v @ c # r"
    using rest by (simp add: fields_text_def f)
  have "read_fields k (c # r) = Some fs" using Cons k rest by simp
  then show ?case
    unfolding line k using rest(2)
    by (simp add: expect_def read_quoted_text read_value_text f)
qed

lemma fields_text_length: "length fs < length (fields_text fs)"
  by (induction fs) (auto simp: fields_text_def)

lemma read_record_line: "read_record (record_line cat ev fs) = Some (cat, ev, fs)"
proof -
  have "record_line cat ev fs = (CHR 0x7B # json_text ''category'' @ '':'') @ json_text cat @
      ('','' @ json_text ''event'' @ '':'') @ json_text ev @ fields_text fs"
    by (simp add: record_line_def)
  then show ?thesis
    using read_fields_text [OF fields_text_length [of fs]]
    by (simp only: read_record_def expect_text read_quoted_text Option.bind.simps prod.case option.map)
qed

interpretation record_lines: round_trip read_record "\<lambda>(cat, ev, fs). record_line cat ev fs" "\<lambda>_. True"
  by unfold_locales (auto simp: read_record_line)

lemma json_char_printing: "d \<in> set (json_char c) \<Longrightarrow> 32 \<le> byte d"
  by (auto simp: json_char_def hex_nibble_def split: if_splits)

lemma json_text_printing: "d \<in> set (json_text v) \<Longrightarrow> 32 \<le> byte d"
  by (auto simp: json_text_def dest: json_char_printing)

lemma sdec_printing: "d \<in> set (sdec n) \<Longrightarrow> 32 \<le> byte d"
  using dec_digits [of "nat n"] dec_digits [of "nat (- n)"]
  by (auto simp: sdec_def list_all_iff is_digit_byte split: if_splits)

lemma value_printing: "d \<in> set (value_text v) \<Longrightarrow> 32 \<le> byte d"
  by (auto simp: value_text_def dest: json_text_printing sdec_printing split: c1_field_value.splits if_splits)

lemma line_printing: "\<exists>body. record_line cat ev fs = body @ [nl] \<and> list_all (\<lambda>c. 32 \<le> byte c) body"
proof -
  have "\<exists>body. fields_text fs = body @ [nl] \<and> list_all (\<lambda>c. 32 \<le> byte c) body"
    by (rule exI [of _ "concat (map (\<lambda>(n, v). '','' @ json_text n @ '':'' @ value_text v) fs) @ [CHR 0x7D]"])
      (auto simp: fields_text_def list_all_iff dest: json_text_printing value_printing)
  then obtain body where "fields_text fs = body @ [nl]" "list_all (\<lambda>c. 32 \<le> byte c) body" by blast
  then show ?thesis
    by (intro exI [of _ "CHR 0x7B # json_text ''category'' @ '':'' @ json_text cat @ '','' @
        json_text ''event'' @ '':'' @ json_text ev @ body"])
      (auto simp: record_line_def list_all_iff dest: json_text_printing)
qed

section \<open>Properties\<close>

text \<open>C31. Emitting a record that names its category and event writes one line and reports success exactly
  when the stream takes the whole line and its flush succeeds; otherwise a prefix of the line is
  left and an input/output error reported. The line is a single one, all its other bytes printable whatever
  the texts hold, and the record can be read back from it: no two records share a line.\<close>

theorem emit_line_exact:
  "\<exists>line body.
     ndjson_emit (Some s) \<lparr> category = Some cat, event = Some ev, rec_fields = fs \<rparr> =
       (Some (s\<lparr> out := out s @ take (room s) line, room := room s - length line \<rparr>),
        if length line \<le> room s \<and> flushes s then C1_STATUS_OK else C1_STATUS_IO_ERROR) \<and>
     line = body @ [nl] \<and> list_all (\<lambda>c. 32 \<le> byte c) body \<and> read_record line = Some (cat, ev, fs)"
proof -
  obtain body where "record_line cat ev fs = body @ [nl]" "list_all (\<lambda>c. 32 \<le> byte c) body"
    using line_printing by blast
  then show ?thesis
    using emit_line [of s cat ev fs] read_record_line [of cat ev fs]
    by (intro exI [of _ "record_line cat ev fs"] exI [of _ body]) (simp add: Let_def)
qed

end
