(* ===== verification/Spec2Isabelle.thy ===== *)
theory Spec2Isabelle
  imports PowerPolicy PowerKey LauncherPolicy SupervisePolicy Prepared PkgRollback UiModel EventRecord
begin

text \<open>
  Verification development for the core programs of the C1-Slim e-paper device, the C sources under
  \<open>src/C1ancher/src\<close> (paths below are relative to it). The device runs a desktop program (C1ancher), a launcher
  that restarts it, a package tool (c1pkg) and an updater (c1updater) that replaces them all.

  \<^bold>\<open>How the parts interact.\<close> The updater loads its persistent state (\<open>update/state.c\<close>), fetches a signed
  manifest (\<open>update/repository.c\<close>, \<open>update/protocol.c\<close>), stages and verifies the components and renames a draft
  to an immutable release directory (\<open>update/transaction.c\<close>, \<open>update/io.c\<close>), each step committed as a new
  generation of the state. At boot \<open>update/boot.c\<close> validates the candidate, moves the \<open>current\<close> and \<open>previous\<close>
  pointers, counts the boots of a pending release and rolls back; the supervisor confirms or rolls back by the
  decision of \<open>update/supervise_policy.c\<close>. All of it rests on \<open>security/secure_file.c\<close> (atomic writes) and
  \<open>security/sha256.c\<close>. The launcher decides by \<open>launcher/policy.c\<close> whether to restart the desktop, whose
  pages, editor and lock are \<open>ui/model.c\<close>, whose settings and battery history are \<open>ui/preferences.c\<close> and
  \<open>services/battery.c\<close>, and whose timers are \<open>core/power_policy.c\<close> and \<open>core/power_key.h\<close>.

  \<^bold>\<open>The model of the machine.\<close> \<open>Posix\<close> holds a world: files by path, the process, and the list of outcomes
  the coming system calls meet. A call succeeds or fails by its own rules, fails with an I/O error, or meets the
  loss of power, after which nothing changes. A theorem about all outcome lists therefore speaks about a failure
  or a power cut before every single call. \<open>SecureFile\<close> gives functions that may fail (type \<open>'a act\<close>), the rules
  that bound what they change (\<open>framed\<close>, \<open>stable\<close>) and triples over all outcomes (\<open>hoare\<close>, \<open>keeps\<close>). C strings
  are \<open>string\<close>; 64-bit counters are naturals with the overflow guards of the code written out; SHA-256 and
  the bit tests use words; times are integers. Diagnostic texts are not modelled: a function that returns -1
  gives \<open>None\<close>, an error with a text that is inspected is a sum.

  \<^bold>\<open>Theories and sources.\<close>
  \<^item> \<open>Prelude\<close>: decimal numerals, lines and fields, C string comparison. \<open>Codec\<close>: the locale of a printer and
    its parser, interpreted for state files, manifests, battery files, preferences and records.
  \<^item> \<open>PowerPolicy\<close> (\<open>core/power_policy.c\<close>), \<open>PowerKey\<close> (\<open>core/power_key.h\<close>): timers and requests; the reported
    timeout is the first moment at which the tick acts, a shutdown needs the whole delay on battery.
  \<^item> \<open>LauncherPolicy\<close> (\<open>launcher/policy.c\<close>), \<open>SupervisePolicy\<close> (\<open>update/supervise_policy.c\<close>): decisions.
  \<^item> \<open>UpdateState\<close>, \<open>StateStore\<close> (\<open>update/state.c\<close>): phases and transitions, the state file, loading and
    committing generations; transitions never go back, a commit is atomic under every fault.
  \<^item> \<open>Manifest\<close> (\<open>update/protocol.c\<close>): versions and the strict manifest parser, which accepts exactly the
    canonical texts.
  \<^item> \<open>Posix\<close>, \<open>SecureFile\<close> (\<open>security/secure_file.c\<close>), \<open>Sha256\<close> (\<open>security/sha256.c\<close>): see above; atomic
    replacement is all or nothing, streaming equals the block specification.
  \<^item> \<open>Boot\<close> (\<open>update/boot.c\<close>, paths and lock of \<open>update/io.c\<close>): activation, recovery, confirmation, rollback;
    the locale \<open>release_check\<close> states what boot.c needs of the release check, \<open>Release\<close> (the check itself, with
    \<open>security/trusted_ed25519.c\<close> and the loading of \<open>update/repository.c\<close>) discharges it.
  \<^item> \<open>Repository\<close> (\<open>update/repository.c\<close>, \<open>platform/repository_endpoint.h\<close>): URLs, the retry loop, fallback.
  \<^item> \<open>UpdateIo\<close> (rest of \<open>update/io.c\<close>), \<open>Transaction\<close> (\<open>update/transaction.c\<close>): copies, removal of trees,
    preparing a release. \<open>Preparation\<close>: the locale \<open>preparation\<close> extends \<open>release_check\<close>; boot operations and
    preparations together keep the current release intact. \<open>Prepared\<close>: the locale \<open>layout\<close> of the four trees, and
    what a preparation that reports success has left on disk.
  \<^item> \<open>PkgVersion\<close>, \<open>PkgModel\<close> (\<open>pkg/tui_model.c\<close>): version order, keys, search prefix, install decision,
    download list. \<open>PkgText\<close> (\<open>pkg/text.c\<close>): labels and the pixels they are drawn with. \<open>PkgIndex\<close> (\<open>pkg/repo.c\<close>,
    \<open>pkg/util.c\<close>): names, paths and the strict index parser. \<open>PkgArchive\<close> (\<open>pkg/store.c\<close>): archive listings.
  \<^item> \<open>PkgStore\<close> (\<open>pkg/store.c\<close>, helpers of \<open>pkg/util.c\<close>): pointers and the redo journal of the package store,
    switching, commit and rollback; \<open>runs\<close> is the rule of calls that meet no fault. \<open>PkgRecovery\<close>: the states of
    a change (\<open>waiting\<close>, \<open>moved\<close>, \<open>dropped\<close>, \<open>completed\<close>); recovery moves along them or stays, and ends at rest.
    \<open>PkgCommit\<close>: the commit of an installation, cut anywhere and recovered any number of times, ends in the old or
    the new state. \<open>PkgStorage\<close> (\<open>pkg/storage_layout.c\<close>): where the store lives and what its preparation checks.
    \<open>PkgKeep\<close> (\<open>pkg/store.c\<close>, removal of trees in \<open>pkg/util.c\<close>): the store lock, collection of abandoned work, list,
    removal and rollback as they are called; a collection never reaches a live version. \<open>PkgOperations\<close>: the list is
    exact. \<open>PkgRollback\<close>: a whole rollback comes to rest, and succeeds when nothing disturbs it.
  \<^item> \<open>AppLease\<close> (\<open>platform/app_lease.c\<close>): the locks of external applications and the terminal permission, which a new
    owner of the run lock never inherits.
  \<^item> \<open>Utf8Text\<close>, \<open>Preferences\<close> (\<open>ui/preferences.c\<close>), \<open>Battery\<close> (\<open>services/battery.c\<close>), \<open>UiModel\<close>
    (\<open>ui/model.c\<close>), \<open>EventRecord\<close> (\<open>core/record.c\<close>, \<open>core/status.c\<close>): texts, settings, history, pages, records.

  \<^bold>\<open>Parameters.\<close> Code outside the sources is an argument: the Ed25519 verification, the transfers that curl makes
  and the clock readings around them, the free space, the device of a path, what \<open>flock\<close> answers to each attempt,
  the error number that earlier calls left, the release check inside \<open>Boot\<close>. The glyph table of
  \<open>pkg/font_generated.h\<close> is an argument of \<open>PkgText\<close>. Nothing is assumed of them, except in the locales, whose laws are proved of the model's own definitions.

  \<^bold>\<open>Bounds and fuel.\<close> The recursion of \<open>remove_tree\<close> carries fuel \<open>C1_UPDATE_PATH_MAX + 1\<close>: every level lengthens
  the path, which is bounded (\<open>remove_fuel\<close>); \<open>pkg_remove_tree\<close> and \<open>package_tree\<close> carry \<open>C1PKG_PATH_MAX + 1\<close> for the
  same reason (\<open>package_tree_fuel\<close>). Other loops are structural or have a measure. Temporary names are
  tried 128 times as in the code.

  \<^bold>\<open>Not modelled.\<close> Rendering, hardware access, process control and device services (ioctl, sysfs, fork and exec),
  the network side of the package tool and its front ends, the games, the Go and C++ programs and all vendored code;
  \<open>PROJECT.json\<close> lists them. Concurrent writers other than through the locks, the devices of the updater's
  directories, and symbolic links inside trusted roots are not modelled.
\<close>

end
